(* ===== verification/Prelude.thy ===== *)
theory Prelude
  imports Main "HOL-Library.Word" "HOL-Library.Char_ord"
begin

text \<open>
  Shared ground of the development: results, Rust's integer conventions, strings.

  Conventions used in every theory:
  \<^item> a Rust \<open>Result<A, E>\<close> is the sum \<open>'e + 'a\<close>, with \<open>Inl\<close> for \<open>Err\<close>; the \<open>?\<close>
    operator is \<open>rbind\<close>;
  \<^item> a Rust \<open>String\<close>/\<open>&str\<close> is its UTF-8 byte sequence, an Isabelle \<open>string\<close>
    (a list of \<open>char\<close>, each one byte); a Rust \<open>char\<close> is its code point, a \<open>nat\<close>;
    \<open>utf8\<close> turns a sequence of code points into bytes, as \<open>collect::<String>()\<close> does;
  \<^item> an \<open>i64\<close>/\<open>i128\<close>/\<open>u32\<close>/\<open>u64\<close> is an \<open>int\<close> or a \<open>nat\<close> with its range
    written out where the code checks it or can leave it; \<open>usize\<close> positions are \<open>nat\<close>;
  \<^item> an error message is a constructor of the component's error type that carries what
    the text interpolates; the wording itself is not modelled.
\<close>

section \<open>Collections of facts\<close>

named_theorems results "unfolding of the result monad"
named_theorems rust_int "Rust's integer conventions"

section \<open>Results\<close>

definition rbind :: "'e + 'a \<Rightarrow> ('a \<Rightarrow> 'e + 'b) \<Rightarrow> 'e + 'b" where
  "rbind m f = (case m of Inl e \<Rightarrow> Inl e | Inr x \<Rightarrow> f x)"

lemma rbind_simps [simp, results]:
  "rbind (Inl e) f = Inl e"
  "rbind (Inr x) f = f x"
  by (simp_all add: rbind_def)

lemma rbind_eq_Inr [results]: "rbind m f = Inr y \<longleftrightarrow> (\<exists>x. m = Inr x \<and> f x = Inr y)"
  by (cases m) simp_all

lemma rbind_eq_Inl [results]:
  "rbind m f = Inl e \<longleftrightarrow> m = Inl e \<or> (\<exists>x. m = Inr x \<and> f x = Inl e)"
  by (cases m) auto

lemma rbind_cong [fundef_cong]:
  "m = m' \<Longrightarrow> (\<And>x. m' = Inr x \<Longrightarrow> f x = f' x) \<Longrightarrow> rbind m f = rbind m' f'"
  by (cases m') auto

text \<open>\<open>Option::ok_or\<close>.\<close>

definition ok_or :: "'e \<Rightarrow> 'a option \<Rightarrow> 'e + 'a" where
  "ok_or e x = (case x of None \<Rightarrow> Inl e | Some v \<Rightarrow> Inr v)"

lemma ok_or_simps [simp, results]:
  "ok_or e None = Inl e"
  "ok_or e (Some v) = Inr v"
  by (simp_all add: ok_or_def)

lemma ok_or_eq_Inr [results]: "ok_or e x = Inr v \<longleftrightarrow> x = Some v"
  by (cases x) simp_all

text \<open>\<open>Iterator::find_map\<close>.\<close>

fun find_map :: "('a \<Rightarrow> 'b option) \<Rightarrow> 'a list \<Rightarrow> 'b option" where
  "find_map f [] = None"
| "find_map f (x # xs) = (case f x of None \<Rightarrow> find_map f xs | Some y \<Rightarrow> Some y)"

lemma find_map_None: "find_map f xs = None \<longleftrightarrow> list_all (\<lambda>x. f x = None) xs"
  by (induction xs) (auto split: option.split)

lemma find_map_SomeD: "find_map f xs = Some y \<Longrightarrow> \<exists>x \<in> set xs. f x = Some y"
  by (induction xs) (auto split: option.splits)

section \<open>Integers\<close>

text \<open>\<open>/\<close> and \<open>%\<close> on signed integers truncate towards zero.\<close>

definition tdiv :: "int \<Rightarrow> int \<Rightarrow> int" where
  "tdiv a b = sgn a * sgn b * (\<bar>a\<bar> div \<bar>b\<bar>)"

definition trem :: "int \<Rightarrow> int \<Rightarrow> int" where
  "trem a b = a - tdiv a b * b"

lemma tdiv_nonneg [rust_int]: "0 \<le> a \<Longrightarrow> 0 < b \<Longrightarrow> tdiv a b = a div b"
  by (cases "a = 0") (simp_all add: tdiv_def)

lemma trem_nonneg [rust_int]: "0 \<le> a \<Longrightarrow> 0 < b \<Longrightarrow> trem a b = a mod b"
  by (simp add: trem_def tdiv_nonneg minus_div_mult_eq_mod)

definition i64_min :: int where "i64_min = - (2 ^ 63)"
definition i64_max :: int where "i64_max = 2 ^ 63 - 1"

definition in_i64 :: "int \<Rightarrow> bool" where
  "in_i64 n \<longleftrightarrow> i64_min \<le> n \<and> n \<le> i64_max"

lemmas i64_defs [rust_int] = i64_min_def i64_max_def in_i64_def

text \<open>Two's complement wrap-around of an \<open>i64\<close> result.\<close>

definition wrap64 :: "int \<Rightarrow> int" where
  "wrap64 n = (n + 2 ^ 63) mod 2 ^ 64 - 2 ^ 63"

lemma wrap64_id: "in_i64 n \<Longrightarrow> wrap64 n = n"
  by (simp add: wrap64_def i64_defs)

lemma wrap64_range: "in_i64 (wrap64 n)"
proof -
  have "0 \<le> (n + 2 ^ 63) mod (2 ^ 64 :: int)" and "(n + 2 ^ 63) mod (2 ^ 64 :: int) < 2 ^ 64"
    by (rule pos_mod_sign, simp, rule pos_mod_bound, simp)
  then show ?thesis by (simp add: wrap64_def i64_defs)
qed

section \<open>Bytes, characters, strings\<close>

abbreviation code :: "char \<Rightarrow> nat" where
  "code c \<equiv> of_char c"

text \<open>The code points of an ASCII literal.\<close>

definition cps :: "string \<Rightarrow> nat list" where
  "cps s = map of_char s"

text \<open>The Unicode scalar values, the range of a Rust \<open>char\<close>.\<close>

definition is_scalar :: "nat \<Rightarrow> bool" where
  "is_scalar c \<longleftrightarrow> c < 0xD800 \<or> (0xE000 \<le> c \<and> c < 0x110000)"

definition utf8_char :: "nat \<Rightarrow> string" where
  "utf8_char c =
     (if c < 0x80 then [char_of c]
      else if c < 0x800 then [char_of (0xC0 + c div 64), char_of (0x80 + c mod 64)]
      else if c < 0x10000 then
        [char_of (0xE0 + c div 4096), char_of (0x80 + c div 64 mod 64), char_of (0x80 + c mod 64)]
      else
        [char_of (0xF0 + c div 262144), char_of (0x80 + c div 4096 mod 64),
         char_of (0x80 + c div 64 mod 64), char_of (0x80 + c mod 64)])"

definition utf8 :: "nat list \<Rightarrow> string" where
  "utf8 cs = concat (map utf8_char cs)"

lemma utf8_Nil [simp]: "utf8 [] = []"
  by (simp add: utf8_def)

lemma utf8_Cons [simp]: "utf8 (c # cs) = utf8_char c @ utf8 cs"
  by (simp add: utf8_def)

lemma utf8_append [simp]: "utf8 (cs @ ds) = utf8 cs @ utf8 ds"
  by (simp add: utf8_def)

lemma utf8_char_ascii: "c < 128 \<Longrightarrow> utf8_char c = [char_of c]"
  by (simp add: utf8_char_def)

lemma utf8_ascii: "\<forall>c \<in> set cs. c < 128 \<Longrightarrow> utf8 cs = map char_of cs"
  by (induction cs) (simp_all add: utf8_char_ascii)

lemma utf8_char_not_Nil [simp]: "utf8_char c \<noteq> []"
  by (simp add: utf8_char_def)

definition is_ascii_digit :: "nat \<Rightarrow> bool" where
  "is_ascii_digit c \<longleftrightarrow> 48 \<le> c \<and> c \<le> 57"

definition is_ascii_alphabetic :: "nat \<Rightarrow> bool" where
  "is_ascii_alphabetic c \<longleftrightarrow> 65 \<le> c \<and> c \<le> 90 \<or> 97 \<le> c \<and> c \<le> 122"

definition is_ascii_hexdigit :: "nat \<Rightarrow> bool" where
  "is_ascii_hexdigit c \<longleftrightarrow> is_ascii_digit c \<or> 65 \<le> c \<and> c \<le> 70 \<or> 97 \<le> c \<and> c \<le> 102"

definition is_ascii_alphanumeric :: "nat \<Rightarrow> bool" where
  "is_ascii_alphanumeric c \<longleftrightarrow> is_ascii_alphabetic c \<or> is_ascii_digit c"

text \<open>\<open>char::is_whitespace\<close>, the code points with the property White\_Space.\<close>

definition is_whitespace :: "nat \<Rightarrow> bool" where
  "is_whitespace c \<longleftrightarrow>
     9 \<le> c \<and> c \<le> 13 \<or> c = 32 \<or> c = 0x85 \<or> c = 0xA0 \<or> c = 0x1680 \<or>
     0x2000 \<le> c \<and> c \<le> 0x200A \<or> c = 0x2028 \<or> c = 0x2029 \<or> c = 0x202F \<or>
     c = 0x205F \<or> c = 0x3000"

section \<open>Cutting texts\<close>

text \<open>\<open>str::strip_prefix\<close>, \<open>strip_suffix\<close>, \<open>split\<close> and \<open>split_once\<close> at one character.\<close>

definition strip_prefix :: "'a list \<Rightarrow> 'a list \<Rightarrow> 'a list option" where
  "strip_prefix p s = (if take (length p) s = p then Some (drop (length p) s) else None)"

definition strip_suffix :: "'a list \<Rightarrow> 'a list \<Rightarrow> 'a list option" where
  "strip_suffix p s =
     (if length p \<le> length s \<and> drop (length s - length p) s = p
      then Some (take (length s - length p) s) else None)"

fun split_on :: "'a \<Rightarrow> 'a list \<Rightarrow> 'a list list" where
  "split_on d [] = [[]]"
| "split_on d (c # cs) =
     (if c = d then [] # split_on d cs
      else case split_on d cs of [] \<Rightarrow> [[c]] | p # ps \<Rightarrow> (c # p) # ps)"

definition split_once :: "'a \<Rightarrow> 'a list \<Rightarrow> ('a list \<times> 'a list) option" where
  "split_once d s =
     (if d \<in> set s then Some (takeWhile (\<lambda>c. c \<noteq> d) s, tl (dropWhile (\<lambda>c. c \<noteq> d) s)) else None)"

lemma split_once_at: "d \<notin> set a \<Longrightarrow> split_once d (a @ d # b) = Some (a, b)"
  by (induction a) (auto simp: split_once_def)

lemma split_once_SomeD: "split_once d s = Some (a, b) \<Longrightarrow> s = a @ d # b \<and> d \<notin> set a"
proof -
  assume s: "split_once d s = Some (a, b)"
  then have d: "d \<in> set s" and a: "a = takeWhile (\<lambda>c. c \<noteq> d) s"
    and b: "b = tl (dropWhile (\<lambda>c. c \<noteq> d) s)"
    by (auto simp: split_once_def split: if_splits)
  from d have n: "dropWhile (\<lambda>c. c \<noteq> d) s \<noteq> []" by (auto simp: dropWhile_eq_Nil_conv)
  then have "hd (dropWhile (\<lambda>c. c \<noteq> d) s) = d" using hd_dropWhile by blast
  with n b have "dropWhile (\<lambda>c. c \<noteq> d) s = d # b" by (metis list.collapse)
  then have "s = a @ d # b" unfolding a by (metis takeWhile_dropWhile_id)
  then show ?thesis using a by (auto dest: set_takeWhileD)
qed

lemma split_on_none: "d \<notin> set s \<Longrightarrow> split_on d s = [s]"
  by (induction s) auto

text \<open>\<open>slice::join\<close>.\<close>

fun join :: "'a list \<Rightarrow> 'a list list \<Rightarrow> 'a list" where
  "join sep [] = []"
| "join sep [s] = s"
| "join sep (s # ss) = s @ sep @ join sep ss"

lemma join_Cons: "ss \<noteq> [] \<Longrightarrow> join sep (s # ss) = s @ sep @ join sep ss"
  by (cases ss) simp_all

lemma split_on_not_Nil [simp]: "split_on d s \<noteq> []"
  by (induction s) (auto split: list.split)

lemma join_split_on [simp]: "join [d] (split_on d s) = s"
proof (induction s)
  case (Cons c s)
  then show ?case by (cases "split_on d s") (auto simp: join_Cons, (cases "tl (split_on d s)", auto)+)
qed simp

lemma split_on_append: "d \<notin> set a \<Longrightarrow> split_on d (a @ d # b) = a # split_on d b"
  by (induction a) auto

lemma split_on_join: "ss \<noteq> [] \<Longrightarrow> list_all (\<lambda>s. d \<notin> set s) ss \<Longrightarrow> split_on d (join [d] ss) = ss"
proof (induction ss)
  case (Cons s ss)
  then show ?case by (cases ss) (simp_all add: split_on_none split_on_append)
qed simp

lemma split_on_pieces: "s \<in> set (split_on d t) \<Longrightarrow> d \<notin> set s"
  by (induction t arbitrary: s) (auto split: if_splits list.splits)

section \<open>Parsing of integers\<close>

text \<open>\<open>str::parse\<close> for integers: an optional sign, then at least one digit, then the range.\<close>

definition digit_byte :: "char \<Rightarrow> bool" where
  "digit_byte c \<longleftrightarrow> 48 \<le> code c \<and> code c \<le> 57"

definition digits_val :: "string \<Rightarrow> nat" where
  "digits_val s = foldl (\<lambda>acc c. acc * 10 + (code c - 48)) 0 s"

definition parse_digits :: "string \<Rightarrow> nat option" where
  "parse_digits s = (if s \<noteq> [] \<and> list_all digit_byte s then Some (digits_val s) else None)"

definition parse_unsigned :: "nat \<Rightarrow> string \<Rightarrow> nat option" where
  "parse_unsigned bound s =
     (case parse_digits (if take 1 s = ''+'' then drop 1 s else s) of
        None \<Rightarrow> None
      | Some n \<Rightarrow> if n \<le> bound then Some n else None)"

definition parse_u32 :: "string \<Rightarrow> nat option" where
  "parse_u32 = parse_unsigned (2 ^ 32 - 1)"

definition parse_u64 :: "string \<Rightarrow> nat option" where
  "parse_u64 = parse_unsigned (2 ^ 64 - 1)"

definition parse_signed :: "int \<Rightarrow> int \<Rightarrow> string \<Rightarrow> int option" where
  "parse_signed lo hi s =
     (let neg = (take 1 s = ''-'');
          body = (if neg \<or> take 1 s = ''+'' then drop 1 s else s)
      in case parse_digits body of
           None \<Rightarrow> None
         | Some n \<Rightarrow>
             let v = (if neg then - int n else int n)
             in if lo \<le> v \<and> v \<le> hi then Some v else None)"

definition parse_i64 :: "string \<Rightarrow> int option" where
  "parse_i64 = parse_signed i64_min i64_max"

lemma parse_i64_in_i64: "parse_i64 s = Some n \<Longrightarrow> in_i64 n"
  by (auto simp: parse_i64_def parse_signed_def in_i64_def Let_def split: option.splits if_splits)

section \<open>Printing of integers\<close>

definition digit_char :: "nat \<Rightarrow> char" where
  "digit_char d = char_of (48 + d)"

fun show_nat :: "nat \<Rightarrow> string" where
  "show_nat n = (if n < 10 then [digit_char n] else show_nat (n div 10) @ [digit_char (n mod 10)])"

declare show_nat.simps [simp del]

definition show_int :: "int \<Rightarrow> string" where
  "show_int n = (if n < 0 then CHR ''-'' # show_nat (nat (- n)) else show_nat (nat n))"

text \<open>The width specifier \<open>{:0w}\<close> of \<open>format!\<close> on a value that is not negative.\<close>

definition pad :: "nat \<Rightarrow> nat \<Rightarrow> string" where
  "pad w n = replicate (w - length (show_nat n)) (CHR ''0'') @ show_nat n"

lemma code_digit_char: "d < 10 \<Longrightarrow> code (digit_char d) = 48 + d"
  by (simp add: digit_char_def)

lemma digit_byte_char: "d < 10 \<Longrightarrow> digit_byte (digit_char d)"
  by (simp add: digit_byte_def code_digit_char)

lemma digits_val_snoc: "digits_val (s @ [c]) = digits_val s * 10 + (code c - 48)"
  by (simp add: digits_val_def)

lemma show_nat_not_Nil [simp]: "show_nat n \<noteq> []"
  by (subst show_nat.simps) simp

lemma show_nat_digits: "list_all digit_byte (show_nat n)"
proof (induction n rule: show_nat.induct)
  case (1 n)
  then show ?case by (subst show_nat.simps) (simp add: digit_byte_char)
qed

lemma digits_val_show_nat [simp]: "digits_val (show_nat n) = n"
proof (induction n rule: show_nat.induct)
  case (1 n)
  then show ?case
    by (subst show_nat.simps) (simp add: digits_val_snoc code_digit_char, simp add: digits_val_def code_digit_char)
qed

lemma parse_show_nat [simp]: "parse_digits (show_nat n) = Some n"
  by (simp add: parse_digits_def show_nat_digits)

lemma parse_signed_show_int:
  assumes "lo \<le> n" "n \<le> hi"
  shows "parse_signed lo hi (show_int n) = Some n"
proof (cases "n < 0")
  case False
  have "take 1 (show_nat (nat n)) \<noteq> ''-''" "take 1 (show_nat (nat n)) \<noteq> ''+''"
    using show_nat_digits [of "nat n"] by (cases "show_nat (nat n)"; auto simp: digit_byte_def)+
  with False assms show ?thesis by (simp add: parse_signed_def show_int_def)
qed (use assms in \<open>simp add: parse_signed_def show_int_def\<close>)

lemma parse_show_int: "in_i64 n \<Longrightarrow> parse_i64 (show_int n) = Some n"
  by (simp add: parse_i64_def parse_signed_show_int in_i64_def)

lemma digits_val_zeros: "digits_val (replicate k (CHR ''0'') @ s) = digits_val s"
  by (induction k) (simp_all add: digits_val_def)

lemma pad_digits: "list_all digit_byte (pad w n)"
  using show_nat_digits [of n] by (auto simp: pad_def list_all_iff digit_byte_def)

lemma digits_val_pad [simp]: "digits_val (pad w n) = n"
  by (simp add: pad_def digits_val_zeros)

lemma length_show_nat: "0 < w \<Longrightarrow> n < 10 ^ w \<Longrightarrow> length (show_nat n) \<le> w"
proof (induction n arbitrary: w rule: show_nat.induct)
  case (1 n)
  show ?case
  proof (cases "n < 10")
    case False
    with "1.prems" obtain v where "w = Suc v" "0 < v" by (cases w; cases "w - 1") auto
    with "1.IH" [OF False, of v] "1.prems" False show ?thesis
      by (subst show_nat.simps) (simp add: div_less_iff_less_mult)
  qed (use 1 in \<open>subst show_nat.simps, simp\<close>)
qed

lemma length_pad: "0 < w \<Longrightarrow> n < 10 ^ w \<Longrightarrow> length (pad w n) = w"
  by (simp add: pad_def length_show_nat)

end
