(* ===== verification/Tokens.thy ===== *)
theory Tokens
  imports Prelude
begin

text \<open>
  The tokens of the language, \<open>compiler/src/token.rs\<close>: spans, token kinds with the parts
  of an \<open>html`...`\<close> literal, tokens with their documentation comment, and the two
  keyword tables, each other's inverse.

  The unit variants of \<open>TokenKind\<close> are grouped as the source's comments group them, into
  keywords (\<open>Kw\<close>) and punctuation with operators (\<open>Pt\<close>).
  A Rust struct that takes part in the recursion (\<open>Token\<close>, inside \<open>HtmlPart\<close>, inside
  \<open>TokenKind\<close>) is a datatype with one constructor and selectors. A float literal keeps
  the decimal text that \<open>str::parse::<f64>\<close> rounds; no theory computes with the
  rounded value.
\<close>

section \<open>Spans\<close>

record span =
  sp_start :: nat
  sp_end :: nat
  sp_line :: nat
  sp_col :: nat

definition mk_span :: "nat \<Rightarrow> nat \<Rightarrow> nat \<Rightarrow> nat \<Rightarrow> span" where
  "mk_span s e l c = \<lparr>sp_start = s, sp_end = e, sp_line = l, sp_col = c\<rparr>"

lemma mk_span_sel [simp]:
  "sp_start (mk_span s e l c) = s" "sp_end (mk_span s e l c) = e"
  "sp_line (mk_span s e l c) = l" "sp_col (mk_span s e l c) = c"
  by (simp_all add: mk_span_def)

section \<open>Tokens\<close>

datatype keyword =
    KType | KEnum | KService | KRpc | KStream | KMatch | KImport | KFrom | KPub | KConst
  | KFn | KLet | KMut | KReturn | KIf | KElse | KWhile | KFor | KIn | KTest | KTransaction
  | KTrue | KFalse | KNull

datatype punct =
    LBrace | RBrace | LParen | RParen | LBracket | RBracket | Comma | Semi | Colon
  | Question | QuestionQuestion | At | Pipe | Lt | Gt | Equals | Arrow | FatArrow
  | Dot | DotDot
  | Plus | Minus | Star | Slash | Percent | EqEq | NotEq | LtEq | GtEq | AmpAmp | PipePipe
  | Bang

datatype token_kind =
    TInt int
  | TFloat string
  | TStr string
  | TIdent string
  | THtmlLit "html_part list"
  | Kw keyword
  | Pt punct
  | Eof
and html_part =
    HtmlText string
  | HtmlExpr "token list"
and token = Token (tk_kind: token_kind) (tk_span: span) (leading_doc: "string option")

definition mk_token :: "token_kind \<Rightarrow> span \<Rightarrow> token" where
  "mk_token k s = Token k s None"

lemma mk_token_sel [simp]:
  "tk_kind (mk_token k s) = k" "tk_span (mk_token k s) = s" "leading_doc (mk_token k s) = None"
  by (simp_all add: mk_token_def)

section \<open>Keywords\<close>

fun keyword_text :: "token_kind \<Rightarrow> string option" where
  "keyword_text (Kw KType) = Some ''type''"
| "keyword_text (Kw KEnum) = Some ''enum''"
| "keyword_text (Kw KService) = Some ''service''"
| "keyword_text (Kw KRpc) = Some ''rpc''"
| "keyword_text (Kw KStream) = Some ''stream''"
| "keyword_text (Kw KMatch) = Some ''match''"
| "keyword_text (Kw KImport) = Some ''import''"
| "keyword_text (Kw KFrom) = Some ''from''"
| "keyword_text (Kw KPub) = Some ''pub''"
| "keyword_text (Kw KConst) = Some ''const''"
| "keyword_text (Kw KFn) = Some ''fn''"
| "keyword_text (Kw KLet) = Some ''let''"
| "keyword_text (Kw KMut) = Some ''mut''"
| "keyword_text (Kw KReturn) = Some ''return''"
| "keyword_text (Kw KIf) = Some ''if''"
| "keyword_text (Kw KElse) = Some ''else''"
| "keyword_text (Kw KWhile) = Some ''while''"
| "keyword_text (Kw KFor) = Some ''for''"
| "keyword_text (Kw KIn) = Some ''in''"
| "keyword_text (Kw KTest) = Some ''test''"
| "keyword_text (Kw KTransaction) = Some ''transaction''"
| "keyword_text (Kw KTrue) = Some ''true''"
| "keyword_text (Kw KFalse) = Some ''false''"
| "keyword_text (Kw KNull) = Some ''null''"
| "keyword_text _ = None"

text \<open>
  The \<open>match\<close> of \<open>keyword_from_str\<close>, one pair per arm, in its order.
\<close>

definition keyword_table :: "(string \<times> keyword) list" where
  "keyword_table =
     [(''type'', KType), (''enum'', KEnum), (''service'', KService), (''rpc'', KRpc),
      (''stream'', KStream), (''match'', KMatch), (''import'', KImport), (''from'', KFrom),
      (''pub'', KPub), (''const'', KConst), (''fn'', KFn), (''let'', KLet),
      (''mut'', KMut), (''return'', KReturn), (''if'', KIf), (''else'', KElse),
      (''while'', KWhile), (''for'', KFor), (''in'', KIn), (''test'', KTest),
      (''transaction'', KTransaction), (''true'', KTrue), (''false'', KFalse), (''null'', KNull)]"

definition keyword_from_str :: "string \<Rightarrow> token_kind option" where
  "keyword_from_str s = map_option Kw (map_of keyword_table s)"

lemma distinct_keyword_table: "distinct (map fst keyword_table)"
  by code_simp

lemma keyword_text_from:
  assumes "keyword_from_str s = Some k"
  shows "keyword_text k = Some s"
proof -
  from assms obtain w where w: "map_of keyword_table s = Some w" and k: "k = Kw w"
    by (auto simp: keyword_from_str_def)
  from w have "(s, w) \<in> set keyword_table" by (rule map_of_SomeD)
  then show ?thesis by (auto simp: keyword_table_def k)
qed

lemma keyword_from_text:
  assumes "keyword_text k = Some s"
  shows "keyword_from_str s = Some k"
proof -
  from assms obtain w where k: "k = Kw w"
    by (cases k) simp_all
  with assms have "(s, w) \<in> set keyword_table"
    by (cases w) (simp_all add: keyword_table_def)
  then show ?thesis
    by (simp add: keyword_from_str_def map_of_is_SomeI distinct_keyword_table k)
qed

text \<open>
  The keyword tables agree: a word is lexed as the keyword \<open>k\<close> exactly when \<open>k\<close> prints
  as that word, so a keyword used where the grammar wants a name gets its own spelling back.
\<close>

lemma keyword_tables: "keyword_from_str s = Some k \<longleftrightarrow> keyword_text k = Some s"
  by (blast intro: keyword_from_text keyword_text_from)

text \<open>The keyword arm of the lexer never yields an identifier or the end marker.\<close>

lemma keyword_from_str_Kw: "keyword_from_str s = Some k \<Longrightarrow> \<exists>w. k = Kw w"
  by (auto simp: keyword_from_str_def)

end
