(* ===== verification/Lexer.thy ===== *)
theory Lexer
  imports Tokens
begin

text \<open>
  The lexer, \<open>compiler/src/lexer.rs\<close>: the state \<open>Lexer\<close> as a record, one definition
  per method. A method of the Rust type that can fail returns \<open>lex_error + ('a \<times> lexer)\<close>.
  A \<open>while\<close> over characters is a \<open>function\<close> whose measure is the text that remains.
  \<open>next_token\<close> and \<open>lex_html_literal\<close> call each other (an interpolation is lexed by the
  lexer itself), so they take fuel; \<open>LexerTotal\<close> proves that the fuel \<open>tokenize\<close> gives
  is always enough.
\<close>

section \<open>Errors\<close>

datatype lex_msg =
    UnclosedHtml
  | UnknownHtmlEscape nat
  | UnclosedInterpolation
  | EmptyInterpolation
  | UnclosedBlockComment
  | InvalidFloat string
  | InvalidInt string
  | IncompleteUnicodeEscape
  | InvalidUnicodeEscape
  | InvalidCodePoint
  | UnknownEscape nat
  | UnclosedString
  | LoneAmp
  | UnexpectedChar nat
  | MalformedPragma "nat list"
  | VersionTooOld "nat \<times> nat \<times> nat"
  | PanicUnwrap \<comment> \<open>not an error of the source: its \<open>unwrap()\<close> on \<open>None\<close> would panic\<close>

record lex_error =
  le_message :: lex_msg
  le_span :: span

section \<open>The state and its primitive moves\<close>

record lexer =
  chars :: "nat list"
  pos :: nat
  line :: nat
  col :: nat
  pending_doc :: "string option"

definition new_lexer :: "nat list \<Rightarrow> lexer" where
  "new_lexer source =
     \<lparr>chars = source, pos = 0, line = 1, col = 1, pending_doc = None\<rparr>"

definition peek :: "lexer \<Rightarrow> nat option" where
  "peek l = (if pos l < length (chars l) then Some (chars l ! pos l) else None)"

definition peek_at :: "lexer \<Rightarrow> nat \<Rightarrow> nat option" where
  "peek_at l k = (if pos l + k < length (chars l) then Some (chars l ! (pos l + k)) else None)"

definition advance :: "lexer \<Rightarrow> nat option \<times> lexer" where
  "advance l =
     (case peek l of
        None \<Rightarrow> (None, l)
      | Some ch \<Rightarrow>
          (Some ch,
           if ch = code CHR ''\<newline>''
           then l\<lparr>pos := pos l + 1, line := line l + 1, col := 1\<rparr>
           else l\<lparr>pos := pos l + 1, col := col l + 1\<rparr>))"

text \<open>\<open>self.advance();\<close> with the character discarded.\<close>

definition skip :: "lexer \<Rightarrow> lexer" where
  "skip l = snd (advance l)"

definition error_span :: "nat \<Rightarrow> nat \<Rightarrow> nat \<Rightarrow> nat \<Rightarrow> lex_msg \<Rightarrow> lex_error" where
  "error_span s e l c msg = \<lparr>le_message = msg, le_span = mk_span s e l c\<rparr>"

text \<open>\<open>self.chars[a..b].iter().collect()\<close>.\<close>

definition slice :: "'a list \<Rightarrow> nat \<Rightarrow> nat \<Rightarrow> 'a list" where
  "slice xs a b = take (b - a) (drop a xs)"

definition text_between :: "lexer \<Rightarrow> nat \<Rightarrow> nat \<Rightarrow> string" where
  "text_between l a b = utf8 (slice (chars l) a b)"

text \<open>What is left to read: the measure of every loop below.\<close>

definition remaining :: "lexer \<Rightarrow> nat" where
  "remaining l = length (chars l) - pos l"

lemma peek_Some_remaining: "peek l = Some c \<Longrightarrow> 0 < remaining l"
  by (auto simp: peek_def remaining_def split: if_splits)

lemma skip_remaining: "peek l = Some c \<Longrightarrow> remaining (skip l) < remaining l"
  by (auto simp: skip_def advance_def peek_def remaining_def split: if_splits)

lemma skip_remaining_le [simp]: "remaining (skip l) \<le> remaining l"
  by (auto simp: skip_def advance_def peek_def remaining_def split: if_splits option.splits)

lemma advance_skip: "advance l = (peek l, skip l)"
  by (auto simp: skip_def advance_def split: option.splits)

lemma skip_None: "peek l = None \<Longrightarrow> skip l = l"
  by (simp add: skip_def advance_def)

section \<open>Scanning loops\<close>

definition holds :: "(nat \<Rightarrow> bool) \<Rightarrow> nat option \<Rightarrow> bool" where
  "holds p c = (case c of None \<Rightarrow> False | Some ch \<Rightarrow> p ch)"

lemma holds_simps [simp]: "holds p None = False" "holds p (Some c) = p c"
  by (simp_all add: holds_def)

text \<open>\<open>while matches!(self.peek(), Some(c) if p(c)) { self.advance(); }\<close>\<close>

function skip_while :: "(nat \<Rightarrow> bool) \<Rightarrow> lexer \<Rightarrow> lexer" where
  "skip_while p l = (if holds p (peek l) then skip_while p (skip l) else l)"
  by pat_completeness auto
termination
  by (relation "measure (\<lambda>(p, l). remaining l)")
    (auto simp: holds_def skip_remaining split: option.splits)

declare skip_while.simps [simp del]

definition is_ident_start :: "nat \<Rightarrow> bool" where
  "is_ident_start c \<longleftrightarrow> is_ascii_alphabetic c \<or> c = code CHR ''_''"

definition is_ident_continue :: "nat \<Rightarrow> bool" where
  "is_ident_continue c \<longleftrightarrow> is_ascii_alphanumeric c \<or> c = code CHR ''_''"

section \<open>Trivia\<close>

definition not_newline :: "nat \<Rightarrow> bool" where
  "not_newline c \<longleftrightarrow> c \<noteq> code CHR ''\<newline>''"

text \<open>The inner loop of a block comment, after its opening; \<open>None\<close> is the end of the file.\<close>

function skip_block :: "lexer \<Rightarrow> lexer option" where
  "skip_block l =
     (case peek l of
        None \<Rightarrow> None
      | Some c \<Rightarrow>
          if c = code CHR ''*'' \<and> peek_at l 1 = Some (code CHR ''/'')
          then Some (skip (skip l))
          else skip_block (skip l))"
  by pat_completeness auto
termination
  by (relation "measure remaining") (auto simp: skip_remaining)

declare skip_block.simps [simp del]

text \<open>One \<open>///\<close> line: its text is added to \<open>pending_doc\<close>.\<close>

definition skip_doc_line :: "lexer \<Rightarrow> lexer" where
  "skip_doc_line l =
     (let l1 = skip (skip (skip l));
          l2 = (if peek l1 = Some (code CHR '' '') then skip l1 else l1);
          text_start = pos l2;
          l3 = skip_while not_newline l2;
          line_text = text_between l3 text_start (pos l3)
      in l3\<lparr>pending_doc :=
           Some (case pending_doc l3 of
                   Some acc \<Rightarrow> acc @ [CHR ''\<newline>''] @ line_text
                 | None \<Rightarrow> line_text)\<rparr>)"

lemma skip_while_remaining [simp]: "remaining (skip_while p l) \<le> remaining l"
proof (induction p l rule: skip_while.induct)
  case (1 p l)
  then show ?case
    by (subst skip_while.simps) (auto intro: order_trans [OF _ skip_remaining_le])
qed

lemma remaining_pending_doc [simp]: "remaining (l\<lparr>pending_doc := d\<rparr>) = remaining l"
  by (simp add: remaining_def)

lemma skip_doc_line_remaining:
  assumes "peek l = Some c"
  shows "remaining (skip_doc_line l) < remaining l"
proof -
  have "remaining (skip (skip (skip l))) < remaining l"
    using skip_remaining [OF assms] by (meson le_less_trans skip_remaining_le)
  then show ?thesis
    by (auto simp: skip_doc_line_def Let_def intro: le_less_trans [OF skip_while_remaining]
        le_less_trans [OF skip_remaining_le])
qed

lemma skip_block_remaining: "skip_block l = Some l' \<Longrightarrow> remaining l' \<le> remaining l"
proof (induction l rule: skip_block.induct)
  case (1 l)
  from "1.prems" show ?case
    by (subst (asm) skip_block.simps)
      (auto split: option.splits if_splits dest: "1.IH"
        intro: order_trans [OF skip_remaining_le] order_trans [OF _ skip_remaining_le])
qed

lemma skip_while_progress:
  "peek l = Some c \<Longrightarrow> p c \<Longrightarrow> remaining (skip_while p l) < remaining l"
  by (subst skip_while.simps) (simp add: le_less_trans [OF skip_while_remaining skip_remaining])

lemma block_progress:
  "skip_block (skip (skip l)) = Some l' \<Longrightarrow> peek l = Some c \<Longrightarrow> remaining l' < remaining l"
  by (meson le_less_trans skip_block_remaining skip_remaining skip_remaining_le)

text \<open>
  \<open>skip_trivia\<close>, the arms in the order of the source's \<open>match\<close>.
\<close>

function skip_trivia :: "lexer \<Rightarrow> lex_error + lexer" where
  "skip_trivia l =
     (case peek l of
        None \<Rightarrow> Inr l
      | Some c \<Rightarrow>
          if is_whitespace c then skip_trivia (skip l)
          else if c = code CHR ''/'' \<and> peek_at l 1 = Some (code CHR ''/'') \<and>
                  peek_at l 2 = Some (code CHR ''/'') \<and> peek_at l 3 \<noteq> Some (code CHR ''/'')
          then skip_trivia (skip_doc_line l)
          else if c = code CHR ''/'' \<and> peek_at l 1 = Some (code CHR ''/'')
          then skip_trivia (skip_while not_newline l)
          else if c = code CHR ''/'' \<and> peek_at l 1 = Some (code CHR ''*'')
          then (case skip_block (skip (skip l)) of
                  Some l' \<Rightarrow> skip_trivia l'
                | None \<Rightarrow>
                    Inl (error_span (pos l) (pos l + 2) (line l) (col l) UnclosedBlockComment))
          else Inr l)"
  by pat_completeness auto
termination
  by (relation "measure remaining")
    (auto simp: skip_remaining skip_doc_line_remaining skip_while_progress not_newline_def
      dest: block_progress)

declare skip_trivia.simps [simp del]

section \<open>Numbers and identifiers\<close>

text \<open>
  \<open>str::parse::<f64>\<close> accepts every text of the shape digits, dot, digits, the only shape
  that reaches it; the token keeps the text.
\<close>

definition parse_f64_text :: "string \<Rightarrow> string option" where
  "parse_f64_text s =
     (let ip = takeWhile digit_byte s; fp = drop (length ip + 1) s
      in if ip \<noteq> [] \<and> take 1 (drop (length ip) s) = ''.'' \<and> fp \<noteq> [] \<and> list_all digit_byte fp
         then Some s else None)"

definition lex_number :: "lexer \<Rightarrow> lex_error + (token_kind \<times> lexer)" where
  "lex_number l =
     (let start = pos l;
          l1 = skip_while is_ascii_digit l
      in if peek l1 = Some (code CHR ''.'') \<and> holds is_ascii_digit (peek_at l1 1)
         then (let l2 = skip_while is_ascii_digit (skip l1);
                   txt = text_between l2 start (pos l2)
               in case parse_f64_text txt of
                    Some v \<Rightarrow> Inr (TFloat v, l2)
                  | None \<Rightarrow> Inl (error_span start (pos l2) (line l) (col l) (InvalidFloat txt)))
         else (let txt = text_between l1 start (pos l1)
               in case parse_i64 txt of
                    Some v \<Rightarrow> Inr (TInt v, l1)
                  | None \<Rightarrow> Inl (error_span start (pos l1) (line l) (col l) (InvalidInt txt))))"

definition lex_ident_or_keyword :: "lexer \<Rightarrow> token_kind \<times> lexer" where
  "lex_ident_or_keyword l =
     (let start = pos l;
          l1 = skip_while is_ident_continue l;
          txt = text_between l1 start (pos l1)
      in (case keyword_from_str txt of Some k \<Rightarrow> k | None \<Rightarrow> TIdent txt, l1))"

section \<open>Strings\<close>

text \<open>\<open>u32::from_str_radix(_, 16)\<close> and \<open>char::from_u32\<close>.\<close>

definition hex_digit_val :: "nat \<Rightarrow> nat" where
  "hex_digit_val c = (if c \<le> 57 then c - 48 else if c \<le> 70 then c - 55 else c - 87)"

definition from_hex :: "nat list \<Rightarrow> nat option" where
  "from_hex ds =
     (let v = foldl (\<lambda>acc d. acc * 16 + hex_digit_val d) 0 ds
      in if ds \<noteq> [] \<and> list_all is_ascii_hexdigit ds \<and> v < 2 ^ 32 then Some v else None)"

definition char_from_u32 :: "nat \<Rightarrow> nat option" where
  "char_from_u32 n = (if is_scalar n then Some n else None)"

text \<open>
  The escape of a string literal, entered after its backslash: \<open>q\<close> is the position of the
  opening quote, \<open>e\<close> that of the backslash. \<open>lex_hex\<close> is the loop over four hex digits.
\<close>

type_synonym place = "nat \<times> nat \<times> nat"

fun lex_hex :: "nat \<Rightarrow> nat list \<Rightarrow> place \<Rightarrow> lexer \<Rightarrow> lex_error + (nat list \<times> lexer)" where
  "lex_hex 0 hex e l = Inr (hex, l)"
| "lex_hex (Suc n) hex (es, el, ec) l =
     (case advance l of
        (Some c, l1) \<Rightarrow>
          if is_ascii_hexdigit c then lex_hex n (hex @ [c]) (es, el, ec) l1
          else Inl (error_span es (pos l1) el ec IncompleteUnicodeEscape)
      | (None, l1) \<Rightarrow> Inl (error_span es (pos l1) el ec IncompleteUnicodeEscape))"

definition lex_string_escape :: "place \<Rightarrow> place \<Rightarrow> lexer \<Rightarrow> lex_error + (nat \<times> lexer)" where
  "lex_string_escape q e l =
     (case (q, e) of ((qs, ql, qc), (es, el, ec)) \<Rightarrow>
        (case advance l of
           (None, l1) \<Rightarrow> Inl (error_span qs (qs + 1) ql qc UnclosedString)
         | (Some c, l1) \<Rightarrow>
             if c = code CHR ''n'' then Inr (code CHR ''\<newline>'', l1)
             else if c = code CHR ''t'' then Inr (9, l1)
             else if c = code (CHR 0x5C) then Inr (code (CHR 0x5C), l1)
             else if c = code (CHR 0x22) then Inr (code (CHR 0x22), l1)
             else if c = code CHR ''u'' then
               rbind (lex_hex 4 [] (es, el, ec) l1) (\<lambda>(hex, l2).
               rbind (ok_or (error_span es (pos l2) el ec InvalidUnicodeEscape) (from_hex hex))
                 (\<lambda>n.
               rbind (ok_or (error_span es (pos l2) el ec InvalidCodePoint) (char_from_u32 n))
                 (\<lambda>ch. Inr (ch, l2))))
             else Inl (error_span es (pos l1) el ec (UnknownEscape c))))"

lemma advance_remaining: "advance l = (x, l') \<Longrightarrow> remaining l' \<le> remaining l"
  by (auto simp: advance_skip)

lemma advance_Some_remaining: "advance l = (Some c, l') \<Longrightarrow> remaining l' < remaining l"
  by (auto simp: advance_skip intro: skip_remaining)

lemma lex_hex_remaining: "lex_hex n hex e l = Inr (h, l') \<Longrightarrow> remaining l' \<le> remaining l"
  by (induction n hex e l rule: lex_hex.induct)
    (auto split: prod.splits option.splits if_splits dest!: advance_remaining)

lemma lex_string_escape_remaining:
  "lex_string_escape q e l = Inr (ch, l') \<Longrightarrow> remaining l' \<le> remaining l"
  by (auto simp: lex_string_escape_def results
      split: prod.splits option.splits if_splits dest!: advance_remaining lex_hex_remaining)

text \<open>The loop of \<open>lex_string\<close>, after the opening quote at \<open>q\<close>.\<close>

function lex_string_loop ::
  "place \<Rightarrow> string \<Rightarrow> lexer \<Rightarrow> lex_error + (token_kind \<times> lexer)" where
  "lex_string_loop q value l =
     (case advance l of
        (None, l1) \<Rightarrow>
          (case q of (qs, ql, qc) \<Rightarrow> Inl (error_span qs (qs + 1) ql qc UnclosedString))
      | (Some c, l1) \<Rightarrow>
          if c = code (CHR 0x22) then Inr (TStr value, l1)
          else if c = code (CHR 0x5C) then
            (case lex_string_escape q (pos l1 - 1, line l1, col l1 - 1) l1 of
               Inl err \<Rightarrow> Inl err
             | Inr (ch, l2) \<Rightarrow> lex_string_loop q (value @ utf8_char ch) l2)
          else lex_string_loop q (value @ utf8_char c) l1)"
  by pat_completeness auto
termination
  by (relation "measure (\<lambda>(q, value, l). remaining l)")
    (auto dest!: advance_Some_remaining [OF sym] lex_string_escape_remaining)

declare lex_string_loop.simps [simp del]

definition lex_string :: "lexer \<Rightarrow> lex_error + (token_kind \<times> lexer)" where
  "lex_string l = lex_string_loop (pos l, line l, col l) [] (skip l)"

section \<open>Punctuation\<close>

definition one_or_two :: "lexer \<Rightarrow> char \<Rightarrow> punct \<Rightarrow> punct \<Rightarrow> token_kind \<times> lexer" where
  "one_or_two l second one two =
     (if peek l = Some (code second) then (Pt two, skip l) else (Pt one, l))"

definition lex_punct :: "lexer \<Rightarrow> lex_error + (token_kind \<times> lexer)" where
  "lex_punct l0 =
     (case advance l0 of
        (None, l) \<Rightarrow> Inl (error_span (pos l0) (pos l) (line l0) (col l0) PanicUnwrap)
      | (Some c, l) \<Rightarrow>
          if c = code CHR ''{'' then Inr (Pt LBrace, l)
          else if c = code CHR ''}'' then Inr (Pt RBrace, l)
          else if c = code CHR ''('' then Inr (Pt LParen, l)
          else if c = code CHR '')'' then Inr (Pt RParen, l)
          else if c = code CHR ''['' then Inr (Pt LBracket, l)
          else if c = code CHR '']'' then Inr (Pt RBracket, l)
          else if c = code CHR '','' then Inr (Pt Comma, l)
          else if c = code CHR '';'' then Inr (Pt Semi, l)
          else if c = code CHR '':'' then Inr (Pt Colon, l)
          else if c = code CHR ''?'' then Inr (one_or_two l (CHR ''?'') Question QuestionQuestion)
          else if c = code CHR ''@'' then Inr (Pt At, l)
          else if c = code CHR ''.'' then Inr (one_or_two l (CHR ''.'') Dot DotDot)
          else if c = code CHR ''+'' then Inr (Pt Plus, l)
          else if c = code CHR ''*'' then Inr (Pt Star, l)
          else if c = code CHR ''/'' then Inr (Pt Slash, l)
          else if c = code CHR ''%'' then Inr (Pt Percent, l)
          else if c = code CHR ''<'' then Inr (one_or_two l (CHR ''='') Lt LtEq)
          else if c = code CHR ''>'' then Inr (one_or_two l (CHR ''='') Gt GtEq)
          else if c = code CHR ''='' then
            (if peek l = Some (code CHR ''='') then Inr (Pt EqEq, skip l)
             else if peek l = Some (code CHR ''>'') then Inr (Pt FatArrow, skip l)
             else Inr (Pt Equals, l))
          else if c = code CHR ''!'' then Inr (one_or_two l (CHR ''='') Bang NotEq)
          else if c = code CHR ''-'' then Inr (one_or_two l (CHR ''>'') Minus Arrow)
          else if c = code CHR ''&'' then
            (if peek l = Some (code CHR ''&'') then Inr (Pt AmpAmp, skip l)
             else Inl (error_span (pos l0) (pos l) (line l0) (col l0) LoneAmp))
          else if c = code CHR ''|'' then Inr (one_or_two l (CHR ''|'') Pipe PipePipe)
          else Inl (error_span (pos l0) (pos l) (line l0) (col l0) (UnexpectedChar c)))"

section \<open>Tokens\<close>

text \<open>
  The outcome of a method that may run out of fuel: \<open>None\<close> is out of fuel, which
  \<open>LexerTotal\<close> excludes for \<open>tokenize\<close>. \<open>lbind\<close> is \<open>?\<close> on it.
\<close>

type_synonym 'a lexed = "(lex_error + ('a \<times> lexer)) option"

definition lbind :: "'a lexed \<Rightarrow> ('a \<Rightarrow> lexer \<Rightarrow> 'b lexed) \<Rightarrow> 'b lexed" where
  "lbind m f =
     (case m of None \<Rightarrow> None | Some (Inl e) \<Rightarrow> Some (Inl e) | Some (Inr (x, l)) \<Rightarrow> f x l)"

lemma lbind_simps [simp]:
  "lbind None f = None"
  "lbind (Some (Inl e)) f = Some (Inl e)"
  "lbind (Some (Inr (x, l))) f = f x l"
  by (simp_all add: lbind_def)

text \<open>The escapes of an \<open>html`...`\<close> literal, entered before the backslash.\<close>

definition lex_html_escape :: "place \<Rightarrow> lexer \<Rightarrow> lex_error + (nat \<times> lexer)" where
  "lex_html_escape q l =
     (case q of (qs, ql, qc) \<Rightarrow>
        (case advance (skip l) of
           (None, l1) \<Rightarrow> Inl (error_span qs (qs + 1) ql qc UnclosedHtml)
         | (Some c, l1) \<Rightarrow>
             if c = code (CHR 0x60) then Inr (code (CHR 0x60), l1)
             else if c = code CHR ''$'' then Inr (code CHR ''$'', l1)
             else if c = code (CHR 0x5C) then Inr (code (CHR 0x5C), l1)
             else if c = code CHR ''n'' then Inr (code CHR ''\<newline>'', l1)
             else if c = code CHR ''t'' then Inr (9, l1)
             else Inl (error_span (pos l) (pos l1) (line l) (col l) (UnknownHtmlEscape c))))"

text \<open>
  \<open>next_token\<close>; \<open>lex_html_literal\<close>, entered at the opening backquote, with its loop
  \<open>html_loop\<close>; and the loop \<open>interpolation\<close> over the tokens of one \<open>${...}\<close>, which
  stops at the closing brace of depth zero. The Rust depth is an \<open>i32\<close>.
\<close>

fun next_token :: "nat \<Rightarrow> lexer \<Rightarrow> token lexed"
  and lex_html_literal :: "nat \<Rightarrow> lexer \<Rightarrow> token_kind lexed"
  and html_loop :: "nat \<Rightarrow> place \<Rightarrow> html_part list \<Rightarrow> string \<Rightarrow> lexer \<Rightarrow> token_kind lexed"
  and interpolation :: "nat \<Rightarrow> place \<Rightarrow> int \<Rightarrow> token list \<Rightarrow> lexer \<Rightarrow> (token list) lexed"
where
  "next_token 0 l = None"
| "next_token (Suc n) l =
     (case skip_trivia l of
        Inl e \<Rightarrow> Some (Inl e)
      | Inr l0 \<Rightarrow>
          (case peek l0 of
             None \<Rightarrow> Some (Inr (mk_token Eof (mk_span (pos l0) (pos l0) (line l0) (col l0)), l0))
           | Some c \<Rightarrow>
               lbind
                 (if is_ascii_digit c then Some (lex_number l0)
                  else if is_ident_start c then
                    (case lex_ident_or_keyword l0 of
                       (ident_kind, l1) \<Rightarrow>
                         if ident_kind = TIdent ''html'' \<and> peek l1 = Some (code (CHR 0x60))
                         then lex_html_literal n l1
                         else Some (Inr (ident_kind, l1)))
                  else if c = code (CHR 0x22) then Some (lex_string l0)
                  else Some (lex_punct l0))
                 (\<lambda>kind l2.
                    Some (Inr (Token kind (mk_span (pos l0) (pos l2) (line l0) (col l0))
                                 (pending_doc l2),
                               l2\<lparr>pending_doc := None\<rparr>)))))"
| "lex_html_literal 0 l = None"
| "lex_html_literal (Suc n) l = html_loop n (pos l, line l, col l) [] [] (skip l)"
| "html_loop 0 q parts txt l = None"
| "html_loop (Suc n) q parts txt l =
     (case peek l of
        None \<Rightarrow>
          (case q of (qs, ql, qc) \<Rightarrow> Some (Inl (error_span qs (qs + 1) ql qc UnclosedHtml)))
      | Some c \<Rightarrow>
          if c = code (CHR 0x60) then Some (Inr (THtmlLit (parts @ [HtmlText txt]), skip l))
          else if c = code (CHR 0x5C) then
            (case lex_html_escape q l of
               Inl e \<Rightarrow> Some (Inl e)
             | Inr (ch, l1) \<Rightarrow> html_loop n q parts (txt @ utf8_char ch) l1)
          else if c = code CHR ''$'' \<and> peek_at l 1 = Some (code CHR ''{'') then
            (let l1 = skip (skip l)
             in lbind (interpolation n (pos l1, line l1, col l1) 0 [] l1)
                  (\<lambda>expr_tokens l2.
                     if expr_tokens = []
                     then Some (Inl (error_span (pos l1) (pos l2) (line l1) (col l1)
                            EmptyInterpolation))
                     else html_loop n q (parts @ [HtmlText txt, HtmlExpr expr_tokens]) [] l2))
          else html_loop n q parts (txt @ utf8_char c) (skip l))"
| "interpolation 0 e depth toks l = None"
| "interpolation (Suc n) e depth toks l =
     lbind (next_token n l)
       (\<lambda>tok l1.
          if tk_kind tok = Eof then
            (case e of (es, el, ec) \<Rightarrow>
               Some (Inl (error_span es (pos l1) el ec UnclosedInterpolation)))
          else if tk_kind tok = Pt LBrace then interpolation n e (depth + 1) (toks @ [tok]) l1
          else if tk_kind tok = Pt RBrace \<and> depth = 0 then Some (Inr (toks, l1))
          else if tk_kind tok = Pt RBrace then interpolation n e (depth - 1) (toks @ [tok]) l1
          else interpolation n e depth (toks @ [tok]) l1)"

text \<open>\<open>run\<close>, the loop that collects tokens up to and including the end marker.\<close>

fun run :: "nat \<Rightarrow> lexer \<Rightarrow> token list \<Rightarrow> (lex_error + token list) option" where
  "run 0 l tokens = None"
| "run (Suc n) l tokens =
     (case next_token n l of
        None \<Rightarrow> None
      | Some (Inl e) \<Rightarrow> Some (Inl e)
      | Some (Inr (tok, l1)) \<Rightarrow>
          if tk_kind tok = Eof then Some (Inr (tokens @ [tok])) else run n l1 (tokens @ [tok]))"

end
