(* ===== verification/Pragma.thy ===== *)
theory Pragma
  imports Lexer
begin

text \<open>
  The version pragma \<open>#linkc >= "X.Y.Z"\<close> at the head of a file (\<open>check_version_pragma\<close>,
  \<open>parse_version_pragma\<close>, \<open>parse_semver\<close> of \<open>compiler/src/lexer.rs\<close>) and the entry
  point \<open>tokenize\<close>. The source is its sequence of code points; \<open>byte_len\<close> is the \<open>len()\<close>
  of the UTF-8 text, which is what the Rust code measures with here.
\<close>

section \<open>Texts as code points\<close>

definition byte_len :: "nat list \<Rightarrow> nat" where
  "byte_len cs = length (utf8 cs)"

fun split_inclusive :: "nat \<Rightarrow> nat list \<Rightarrow> nat list list" where
  "split_inclusive d [] = []"
| "split_inclusive d (c # cs) =
     (if c = d then [c] # split_inclusive d cs
      else case split_inclusive d cs of
             [] \<Rightarrow> [[c]]
           | piece # pieces \<Rightarrow> (c # piece) # pieces)"

definition trim_start :: "nat list \<Rightarrow> nat list" where
  "trim_start cs = dropWhile is_whitespace cs"

definition trim_end_matches :: "(nat \<Rightarrow> bool) \<Rightarrow> nat list \<Rightarrow> nat list" where
  "trim_end_matches p cs = rev (dropWhile p (rev cs))"

definition trim :: "nat list \<Rightarrow> nat list" where
  "trim cs = trim_end_matches is_whitespace (trim_start cs)"

section \<open>Versions\<close>

definition compiler_version :: string where
  "compiler_version = ''1.241.0''"

definition parse_semver :: "string \<Rightarrow> (nat \<times> nat \<times> nat) option" where
  "parse_semver s =
     (case split_on (CHR ''.'') s of
        [a, b, c] \<Rightarrow>
          (case (parse_u32 a, parse_u32 b, parse_u32 c) of
             (Some major, Some minor, Some patch) \<Rightarrow> Some (major, minor, patch)
           | _ \<Rightarrow> None)
      | _ \<Rightarrow> None)"

definition parse_version_pragma :: "nat list \<Rightarrow> (nat \<times> nat \<times> nat) option" where
  "parse_version_pragma rest =
     (case strip_prefix (cps ''>='') (trim_start rest) of
        None \<Rightarrow> None
      | Some r \<Rightarrow>
          (case strip_prefix [code (CHR 0x22)] (trim r) of
             None \<Rightarrow> None
           | Some r1 \<Rightarrow>
               (case strip_suffix [code (CHR 0x22)] r1 of
                  None \<Rightarrow> None
                | Some r2 \<Rightarrow> parse_semver (utf8 r2))))"

text \<open>The derived order on \<open>(u32, u32, u32)\<close>.\<close>

fun version_less :: "nat \<times> nat \<times> nat \<Rightarrow> nat \<times> nat \<times> nat \<Rightarrow> bool" where
  "version_less (a, b, c) (a', b', c') \<longleftrightarrow>
     a < a' \<or> (a = a' \<and> (b < b' \<or> (b = b' \<and> c < c')))"

section \<open>The pragma\<close>

definition blank_char :: "nat \<Rightarrow> nat" where
  "blank_char ch = (if ch = 9 then 9 else code CHR '' '')"

text \<open>
  The loop over the lines: \<open>passed\<close> is the text of the lines already passed (so \<open>offset\<close>
  is its length in bytes and the source is \<open>passed @ concat lines\<close>).
\<close>

fun pragma_loop :: "nat list \<Rightarrow> nat \<Rightarrow> nat list list \<Rightarrow> lex_error + nat list" where
  "pragma_loop passed line_no [] = Inr passed"
| "pragma_loop passed line_no (raw_line # rest) =
     (let offset = byte_len passed;
          ln = trim_end_matches (\<lambda>c. c = 13) (trim_end_matches (\<lambda>c. c = 10) raw_line);
          trimmed = trim_start ln;
          leading_ws = byte_len ln - byte_len trimmed
      in if trimmed = [] \<or> take 2 trimmed = cps ''//''
         then pragma_loop (passed @ raw_line) (line_no + 1) rest
         else case strip_prefix (cps ''#linkc'') trimmed of
                Some r \<Rightarrow>
                  (let err = error_span (offset + leading_ws) (offset + byte_len ln)
                               (line_no + 1) (leading_ws + 1)
                   in rbind (ok_or (err (MalformedPragma trimmed)) (parse_version_pragma r))
                        (\<lambda>required.
                           let current =
                             (case parse_semver compiler_version of Some v \<Rightarrow> v | None \<Rightarrow> (0, 0, 0))
                           in if version_less current required
                              then Inl (err (VersionTooOld required))
                              else Inr (passed @ map blank_char ln @
                                        drop (length ln) raw_line @ concat rest)))
              | None \<Rightarrow> Inr (passed @ concat (raw_line # rest)))"

definition check_version_pragma :: "nat list \<Rightarrow> lex_error + nat list" where
  "check_version_pragma source = pragma_loop [] 0 (split_inclusive 10 source)"

section \<open>The entry point\<close>

text \<open>
  \<open>tokenize\<close>: the fuel is twice the length of the text plus two.
\<close>

definition tokenize :: "nat list \<Rightarrow> (lex_error + token list) option" where
  "tokenize source =
     (case check_version_pragma source of
        Inl e \<Rightarrow> Some (Inl e)
      | Inr sanitized \<Rightarrow> run (2 * length sanitized + 2) (new_lexer sanitized) [])"

end
