(* ===== verification/LexerFacts.thy ===== *)
theory LexerFacts
  imports Pragma
begin

text \<open>
  How the lexer moves: every method keeps the text, goes forward, and keeps \<open>line\<close> and
  \<open>col\<close> the place of \<open>pos\<close> (\<open>lexer_ok\<close>). The lemmas \<open>*_moves\<close> say so for each method and are
  collected in \<open>moves\<close>; the fuel bound and the correctness of the tokens rest on them.
\<close>

section \<open>Places\<close>

definition line_of :: "nat list \<Rightarrow> nat \<Rightarrow> nat" where
  "line_of cs p = 1 + length (filter (\<lambda>c. c = 10) (take p cs))"

definition col_of :: "nat list \<Rightarrow> nat \<Rightarrow> nat" where
  "col_of cs p = 1 + length (takeWhile (\<lambda>c. c \<noteq> 10) (rev (take p cs)))"

lemma line_of_Suc:
  "p < length cs \<Longrightarrow> line_of cs (Suc p) = line_of cs p + (if cs ! p = 10 then 1 else 0)"
  by (simp add: line_of_def take_Suc_conv_app_nth)

lemma col_of_Suc:
  "p < length cs \<Longrightarrow> col_of cs (Suc p) = (if cs ! p = 10 then 1 else col_of cs p + 1)"
  by (simp add: col_of_def take_Suc_conv_app_nth)

lemma line_of_0 [simp]: "line_of cs 0 = 1"
  by (simp add: line_of_def)

lemma col_of_0 [simp]: "col_of cs 0 = 1"
  by (simp add: col_of_def)

definition lexer_ok :: "lexer \<Rightarrow> bool" where
  "lexer_ok l \<longleftrightarrow> pos l \<le> length (chars l) \<and>
     line l = line_of (chars l) (pos l) \<and> col l = col_of (chars l) (pos l)"

lemma lexer_ok_new: "lexer_ok (new_lexer cs)"
  by (simp add: lexer_ok_def new_lexer_def)

lemma lexer_ok_pending_doc [simp]: "lexer_ok (l\<lparr>pending_doc := d\<rparr>) = lexer_ok l"
  by (simp add: lexer_ok_def)

section \<open>Moves\<close>

definition moves :: "lexer \<Rightarrow> lexer \<Rightarrow> bool" where
  "moves l l' \<longleftrightarrow> chars l' = chars l \<and> pos l \<le> pos l' \<and> (lexer_ok l \<longrightarrow> lexer_ok l')"

named_theorems moves "the methods of the lexer move forward"

lemma moves_refl [simp, intro]: "moves l l"
  by (simp add: moves_def)

lemma moves_trans [trans]: "moves l l' \<Longrightarrow> moves l' l'' \<Longrightarrow> moves l l''"
  by (auto simp: moves_def)

lemma moves_chars: "moves l l' \<Longrightarrow> chars l' = chars l"
  by (simp add: moves_def)

lemma moves_pos: "moves l l' \<Longrightarrow> pos l \<le> pos l'"
  by (simp add: moves_def)

lemma moves_ok: "moves l l' \<Longrightarrow> lexer_ok l \<Longrightarrow> lexer_ok l'"
  by (simp add: moves_def)

lemma moves_remaining: "moves l l' \<Longrightarrow> remaining l' \<le> remaining l"
  by (auto simp: moves_def remaining_def)

lemma moves_pending_doc [moves]: "moves l l' \<Longrightarrow> moves l (l'\<lparr>pending_doc := d\<rparr>)"
  by (simp add: moves_def)

lemma peek_code: "peek l = Some c \<Longrightarrow> pos l < length (chars l) \<and> chars l ! pos l = c"
  by (auto simp: peek_def split: if_splits)

lemma chars_skip [simp]: "chars (skip l) = chars l"
  by (simp add: skip_def advance_def split: option.splits)

lemma pos_skip: "peek l = Some c \<Longrightarrow> pos (skip l) = Suc (pos l)"
  by (simp add: skip_def advance_def)

lemma pos_skip_None: "peek l = None \<Longrightarrow> pos (skip l) = pos l"
  by (simp add: skip_None)

lemma skip_ok:
  assumes "lexer_ok l" shows "lexer_ok (skip l)"
proof (cases "peek l")
  case None
  with assms show ?thesis by (simp add: skip_None)
next
  case (Some c)
  with assms show ?thesis
    using peek_code [OF Some]
    by (auto simp: lexer_ok_def skip_def advance_def line_of_Suc col_of_Suc)
qed

lemma skip_moves [moves]: "moves l (skip l)"
  by (cases "peek l") (auto simp: moves_def skip_ok pos_skip skip_None)

lemma moves_skip [moves]: "moves l l' \<Longrightarrow> moves l (skip l')"
  by (rule moves_trans [OF _ skip_moves])

lemma advance_moves [moves]: "advance l = (x, l') \<Longrightarrow> moves l l'"
  by (auto simp: advance_skip intro: moves)

lemma skip_while_moves [moves]: "moves l (skip_while p l)"
proof (induction p l rule: skip_while.induct)
  case (1 p l)
  show ?case
    by (subst skip_while.simps) (auto intro: moves_trans [OF skip_moves "1.IH"])
qed

lemma moves_skip_while [moves]: "moves l l' \<Longrightarrow> moves l (skip_while p l')"
  by (rule moves_trans [OF _ skip_while_moves])

lemma skip_block_moves [moves]: "skip_block l = Some l' \<Longrightarrow> moves l l'"
proof (induction l rule: skip_block.induct)
  case (1 l)
  from "1.prems" show ?case
    by (subst (asm) skip_block.simps)
      (auto split: option.splits if_splits intro: moves moves_trans [OF skip_moves "1.IH"])
qed

lemma skip_doc_line_moves [moves]: "moves l (skip_doc_line l)"
  by (simp add: skip_doc_line_def Let_def moves_pending_doc moves_skip_while moves_skip)

text \<open>One round of \<open>skip_trivia\<close>: it stops, or passes one piece of trivia and goes on.\<close>

lemma skip_trivia_round:
  assumes "skip_trivia l = Inr l'"
  obtains (stop) "l' = l"
  | (space) c where "peek l = Some c" "is_whitespace c" "skip_trivia (skip l) = Inr l'"
  | (doc) "peek l = Some 47" "peek_at l 1 = Some 47" "peek_at l 2 = Some 47"
      "skip_trivia (skip_doc_line l) = Inr l'"
  | (comment) "peek l = Some 47" "peek_at l 1 = Some 47"
      "skip_trivia (skip_while not_newline l) = Inr l'"
  | (block) l1 where "peek l = Some 47" "peek_at l 1 = Some 42"
      "skip_block (skip (skip l)) = Some l1" "skip_trivia l1 = Inr l'"
proof (cases "peek l")
  case None
  with assms have "l' = l" by (simp add: skip_trivia.simps [of l])
  then show thesis by (rule stop)
next
  case (Some c)
  note eq = assms [unfolded skip_trivia.simps [of l] Some option.case]
  consider "is_whitespace c" | "\<not> is_whitespace c" "c \<noteq> 47" | "\<not> is_whitespace c" "c = 47"
    by blast
  then show thesis
  proof cases
    case 1
    with eq have "skip_trivia (skip l) = Inr l'" by simp
    with Some 1 show thesis by (rule space)
  next
    case 2
    with eq have "l' = l" by simp
    then show thesis by (rule stop)
  next
    case 3
    have 4: "peek l = Some 47" using Some 3 by simp
    show thesis
    proof (cases "peek_at l 1 = Some 47")
      case True
      show thesis
      proof (cases "peek_at l 2 = Some 47 \<and> peek_at l 3 \<noteq> Some 47")
        case dc: True
        with eq True 3 have "skip_trivia (skip_doc_line l) = Inr l'" by simp
        with 4 True dc show thesis by (intro doc) simp_all
      next
        case False
        with eq True 3 have "skip_trivia (skip_while not_newline l) = Inr l'" by auto
        with 4 True show thesis by (rule comment)
      qed
    next
      case False
      show thesis
      proof (cases "peek_at l 1 = Some 42")
        case True
        with eq False 3 obtain l1 where "skip_block (skip (skip l)) = Some l1"
          and "skip_trivia l1 = Inr l'"
          by (auto split: option.splits)
        with 4 True show thesis by (rule block)
      next
        case nb: False
        with eq False 3 have "l' = l" by simp
        then show thesis by (rule stop)
      qed
    qed
  qed
qed

lemma skip_trivia_moves [moves]: "skip_trivia l = Inr l' \<Longrightarrow> moves l l'"
proof (induction "remaining l" arbitrary: l rule: less_induct)
  case less
  from less.prems show ?case
  proof (cases rule: skip_trivia_round)
    case stop
    then show ?thesis by simp
  next
    case (space c)
    then have "moves (skip l) l'" by (intro less.hyps skip_remaining)
    then show ?thesis by (rule moves_trans [OF skip_moves])
  next
    case doc
    then have "moves (skip_doc_line l) l'" by (intro less.hyps skip_doc_line_remaining)
    then show ?thesis by (rule moves_trans [OF skip_doc_line_moves])
  next
    case comment
    then have "remaining (skip_while not_newline l) < remaining l"
      by (intro skip_while_progress [of l 47]) (simp_all add: not_newline_def)
    then have "moves (skip_while not_newline l) l'" using comment by (intro less.hyps)
    then show ?thesis by (rule moves_trans [OF skip_while_moves])
  next
    case (block l1)
    then have "moves l1 l'" by (intro less.hyps block_progress)
    moreover have "moves l l1"
      using block(3) moves_trans [OF moves_skip [OF skip_moves] skip_block_moves] by simp
    ultimately show ?thesis by (rule moves_trans [rotated])
  qed
qed

text \<open>Where a loop over characters stops, and what it passed.\<close>

lemma skip_while_stop: "\<not> holds p (peek (skip_while p l))"
proof (induction p l rule: skip_while.induct)
  case (1 p l)
  then show ?case
    by (subst skip_while.simps) auto
qed

lemma skip_while_passed:
  "\<forall>i. pos l \<le> i \<and> i < pos (skip_while p l) \<longrightarrow> p (chars l ! i)"
proof (induction p l rule: skip_while.induct)
  case (1 p l)
  show ?case
  proof (cases "holds p (peek l)")
    case True
    then obtain c where c: "peek l = Some c" "p c" by (cases "peek l") auto
    then have "p (chars l ! pos l)" using peek_code by blast
    moreover have "\<forall>i. Suc (pos l) \<le> i \<and> i < pos (skip_while p (skip l)) \<longrightarrow> p (chars l ! i)"
      using "1.IH" [OF True] c by (simp add: pos_skip)
    ultimately have "\<forall>i. pos l \<le> i \<and> i < pos (skip_while p (skip l)) \<longrightarrow> p (chars l ! i)"
      by (metis Suc_leI le_neq_implies_less)
    with True show ?thesis by (subst skip_while.simps) simp
  next
    case False
    then show ?thesis by (subst skip_while.simps) auto
  qed
qed

lemma skip_while_le: "lexer_ok l \<Longrightarrow> pos (skip_while p l) \<le> length (chars l)"
  using skip_while_moves [of l p] by (auto simp: moves_def lexer_ok_def)

end
