(* ===== verification/LexerTotal.thy ===== *)
theory LexerTotal
  imports LexerFacts
begin

text \<open>
  Every token method moves forward and, unless it is at the end of the text, consumes
  something; so the fuel of \<open>tokenize\<close> is enough and the lexer always returns.
\<close>

section \<open>The methods for one token\<close>

lemma lex_number_moves [moves]: "lex_number l = Inr (k, l') \<Longrightarrow> moves l l'"
  by (auto simp: lex_number_def Let_def intro: moves split: if_splits option.splits)

lemma lex_number_progress:
  assumes "lex_number l = Inr (k, l')" "peek l = Some c" "is_ascii_digit c"
  shows "remaining l' < remaining l"
proof -
  have "remaining (skip_while is_ascii_digit l) < remaining l"
    using assms(2,3) by (rule skip_while_progress)
  with assms(1) show ?thesis
    by (auto simp: lex_number_def Let_def split: if_splits option.splits
        intro: le_less_trans [OF skip_while_remaining] le_less_trans [OF skip_remaining_le])
qed

lemma lex_ident_moves [moves]: "lex_ident_or_keyword l = (k, l') \<Longrightarrow> moves l l'"
  by (auto simp: lex_ident_or_keyword_def Let_def intro: moves)

lemma ident_start_continue: "is_ident_start c \<Longrightarrow> is_ident_continue c"
  by (auto simp: is_ident_start_def is_ident_continue_def is_ascii_alphanumeric_def)

lemma lex_ident_progress:
  "lex_ident_or_keyword l = (k, l') \<Longrightarrow> peek l = Some c \<Longrightarrow> is_ident_start c \<Longrightarrow>
     remaining l' < remaining l"
  by (auto simp: lex_ident_or_keyword_def Let_def ident_start_continue
      intro: skip_while_progress)

lemma lex_hex_moves [moves]: "lex_hex n hex e l = Inr (h, l') \<Longrightarrow> moves l l'"
proof (induction n hex e l rule: lex_hex.induct)
  case (2 n hex es el ec l)
  then obtain c l1 where a: "advance l = (Some c, l1)"
    and h: "lex_hex n (hex @ [c]) (es, el, ec) l1 = Inr (h, l')" and d: "is_ascii_hexdigit c"
    by (auto split: prod.splits option.splits if_splits)
  from "2.IH" [OF a [symmetric] refl d h] show ?case
    by (rule moves_trans [OF advance_moves [OF a]])
qed simp

lemma lex_string_escape_moves [moves]: "lex_string_escape q e l = Inr (ch, l') \<Longrightarrow> moves l l'"
  by (auto simp: lex_string_escape_def results split: prod.splits option.splits if_splits
      intro: moves moves_trans [OF advance_moves lex_hex_moves])

text \<open>
  Induction along the loop of a string literal that is closed: \<open>P v l k l'\<close> relates the
  value and the state at the head of a round to the token and the state at the end.
\<close>

lemma lex_string_loop_rule [consumes 1, case_names close escape plain]:
  assumes "lex_string_loop q v l = Inr (k, l')"
    and close: "\<And>v l. peek l = Some 34 \<Longrightarrow> P v l (TStr v) (skip l)"
    and escape: "\<And>v l q e ch l2. peek l = Some 92 \<Longrightarrow>
      lex_string_escape q e (skip l) = Inr (ch, l2) \<Longrightarrow> P (v @ utf8_char ch) l2 k l' \<Longrightarrow> P v l k l'"
    and plain: "\<And>v l c. peek l = Some c \<Longrightarrow> c \<noteq> 34 \<Longrightarrow> c \<noteq> 92 \<Longrightarrow>
      P (v @ utf8_char c) (skip l) k l' \<Longrightarrow> P v l k l'"
  shows "P v l k l'"
  using assms(1)
proof (induction q v l rule: lex_string_loop.induct)
  case (1 q v l)
  show ?case
  proof (cases "peek l")
    case None
    with "1.prems" show ?thesis
      by (subst (asm) lex_string_loop.simps) (simp add: advance_skip split: prod.splits)
  next
    case (Some c)
    then have a: "advance l = (Some c, skip l)" by (simp add: advance_skip)
    consider "c = 34" | "c = 92" | "c \<noteq> 34" "c \<noteq> 92" by blast
    then show ?thesis
    proof cases
      case 1
      with "1.prems" a have "TStr v = k \<and> skip l = l'"
        by (subst (asm) lex_string_loop.simps) simp
      with Some 1 show ?thesis using close [of l v] by auto
    next
      case 2
      with "1.prems" a have "(case lex_string_escape q
            (pos (skip l) - 1, line (skip l), col (skip l) - 1) (skip l) of
          Inl err \<Rightarrow> Inl err
        | Inr (ch, l2) \<Rightarrow> lex_string_loop q (v @ utf8_char ch) l2) = Inr (k, l')"
        by (subst (asm) lex_string_loop.simps) simp
      then obtain ch l2
        where e: "lex_string_escape q (pos (skip l) - 1, line (skip l), col (skip l) - 1) (skip l)
            = Inr (ch, l2)"
          and r: "lex_string_loop q (v @ utf8_char ch) l2 = Inr (k, l')"
        by (cases "lex_string_escape q (pos (skip l) - 1, line (skip l), col (skip l) - 1)
            (skip l)") (simp_all split: prod.splits)
      have "P (v @ utf8_char ch) l2 k l'"
        by (rule "1.IH"(1) [OF a [symmetric] refl _ _ e refl r]) (simp_all add: 2)
      with Some 2 show ?thesis by (auto intro: escape [OF _ e])
    next
      case 3
      with "1.prems" a have r: "lex_string_loop q (v @ utf8_char c) (skip l) = Inr (k, l')"
        by (subst (asm) lex_string_loop.simps) simp
      have "P (v @ utf8_char c) (skip l) k l'"
        by (rule "1.IH"(2) [OF a [symmetric] refl _ _ r]) (simp_all add: 3)
      then show ?thesis by (rule plain [OF Some 3])
    qed
  qed
qed

lemma lex_string_loop_moves [moves]: "lex_string_loop q v l = Inr (k, l') \<Longrightarrow> moves l l'"
proof (induction rule: lex_string_loop_rule)
  case (close v l)
  show ?case by (rule skip_moves)
next
  case (escape v l q e ch l2)
  then show ?case by (blast intro: moves_trans skip_moves lex_string_escape_moves)
next
  case (plain v l c)
  then show ?case by (blast intro: moves_trans skip_moves)
qed

lemma lex_string_moves [moves]: "lex_string l = Inr (k, l') \<Longrightarrow> moves l l'"
  unfolding lex_string_def by (rule moves_trans [OF skip_moves lex_string_loop_moves])

lemma lex_string_progress:
  assumes "lex_string l = Inr (k, l')" "peek l = Some c"
  shows "remaining l' < remaining l"
proof -
  have "moves (skip l) l'"
    using assms(1) unfolding lex_string_def by (rule lex_string_loop_moves)
  then show ?thesis
    using skip_remaining [OF assms(2)] by (auto dest: moves_remaining)
qed

lemma one_or_two_cases:
  "one_or_two l s a b = (k, l') \<Longrightarrow>
     (k = Pt b \<and> l' = skip l \<and> peek l = Some (code s)) \<or> (k = Pt a \<and> l' = l)"
  by (auto simp: one_or_two_def split: if_splits)

text \<open>
  \<open>lex_punct\<close> reads one or two characters.
\<close>

lemma lex_punct_cases:
  assumes "lex_punct l = Inr (k, l')"
  obtains "peek l \<noteq> None" "l' = skip l" | "peek l \<noteq> None" "l' = skip (skip l)" "peek (skip l) \<noteq> None"
proof -
  have "peek l \<noteq> None" and "l' = skip l \<or> (l' = skip (skip l) \<and> peek (skip l) \<noteq> None)"
    using assms
    by (auto simp: lex_punct_def advance_skip one_or_two_def split: option.splits if_splits)
  then show thesis using that by blast
qed

lemma lex_punct_moves [moves]: "lex_punct l = Inr (k, l') \<Longrightarrow> moves l l'"
  by (elim lex_punct_cases) (simp_all add: moves)

lemma lex_punct_progress: "lex_punct l = Inr (k, l') \<Longrightarrow> remaining l' < remaining l"
  by (elim lex_punct_cases)
    (auto intro: skip_remaining le_less_trans [OF skip_remaining_le skip_remaining])

lemma lex_html_escape_moves [moves]: "lex_html_escape q l = Inr (ch, l') \<Longrightarrow> moves l l'"
  by (auto simp: lex_html_escape_def advance_skip split: prod.splits option.splits if_splits
      intro: moves)

lemma lex_html_escape_progress:
  assumes "lex_html_escape q l = Inr (ch, l')" "peek l = Some c"
  shows "remaining l' < remaining l"
proof -
  have "l' = skip (skip l)"
    using assms(1)
    by (auto simp: lex_html_escape_def advance_skip split: prod.splits option.splits if_splits)
  then show ?thesis
    using skip_remaining [OF assms(2)] by (auto intro: le_less_trans [OF skip_remaining_le])
qed

section \<open>No method but the end of the text yields the end marker\<close>

lemma lex_number_kind: "lex_number l = Inr (k, l') \<Longrightarrow> k \<noteq> Eof"
  by (auto simp: lex_number_def Let_def split: if_splits option.splits)

lemma lex_ident_kind: "lex_ident_or_keyword l = (k, l') \<Longrightarrow> k \<noteq> Eof"
  by (auto simp: lex_ident_or_keyword_def Let_def split: option.splits dest: keyword_from_str_Kw)

lemma lex_string_loop_kind: "lex_string_loop q v l = Inr (k, l') \<Longrightarrow> \<exists>s. k = TStr s"
  by (induction rule: lex_string_loop_rule) auto

lemma lex_string_kind: "lex_string l = Inr (k, l') \<Longrightarrow> \<exists>s. k = TStr s"
  unfolding lex_string_def by (rule lex_string_loop_kind)

lemma lex_punct_kind: "lex_punct l = Inr (k, l') \<Longrightarrow> \<exists>p. k = Pt p"
  by (auto simp: lex_punct_def advance_skip one_or_two_def split: option.splits if_splits)

section \<open>The mutually recursive methods\<close>

lemma lbind_eq_Inr:
  "lbind m f = Some (Inr y) \<longleftrightarrow> (\<exists>x l. m = Some (Inr (x, l)) \<and> f x l = Some (Inr y))"
  by (auto simp: lbind_def split: option.splits sum.splits)

text \<open>The kind part of \<open>next_token\<close>, once trivia is skipped and a character is there.\<close>

definition lex_kind :: "nat \<Rightarrow> nat \<Rightarrow> lexer \<Rightarrow> token_kind lexed" where
  "lex_kind n c l0 =
     (if is_ascii_digit c then Some (lex_number l0)
      else if is_ident_start c then
        (case lex_ident_or_keyword l0 of
           (ident_kind, l1) \<Rightarrow>
             if ident_kind = TIdent ''html'' \<and> peek l1 = Some (code (CHR 0x60))
             then lex_html_literal n l1
             else Some (Inr (ident_kind, l1)))
      else if c = code (CHR 0x22) then Some (lex_string l0)
      else Some (lex_punct l0))"

lemma next_token_cases:
  assumes "next_token n l = Some (Inr (tok, l'))"
  obtains (eof) l0 where "skip_trivia l = Inr l0" "peek l0 = None" "l' = l0"
      "tok = mk_token Eof (mk_span (pos l0) (pos l0) (line l0) (col l0))"
  | (token) m l0 c k l2 where "n = Suc m" "skip_trivia l = Inr l0" "peek l0 = Some c"
      "lex_kind m c l0 = Some (Inr (k, l2))"
      "tok = Token k (mk_span (pos l0) (pos l2) (line l0) (col l0)) (pending_doc l2)"
      "l' = l2\<lparr>pending_doc := None\<rparr>"
proof (cases n)
  case 0
  with assms show thesis by simp
next
  case (Suc m)
  with assms obtain l0 where l0: "skip_trivia l = Inr l0"
    by (auto split: sum.splits)
  show thesis
  proof (cases "peek l0")
    case None
    with assms Suc l0 show thesis by (intro eof [OF l0]) auto
  next
    case (Some c)
    with assms Suc l0 obtain k l2 where "lex_kind m c l0 = Some (Inr (k, l2))"
      and "tok = Token k (mk_span (pos l0) (pos l2) (line l0) (col l0)) (pending_doc l2)"
      and "l' = l2\<lparr>pending_doc := None\<rparr>"
      unfolding lex_kind_def by (simp add: lbind_eq_Inr) (elim exE conjE, simp)
    then show thesis by (rule token [OF Suc l0 Some])
  qed
qed

lemma lex_kind_cases:
  assumes "lex_kind n c l0 = Some (Inr (k, l2))"
  obtains (number) "is_ascii_digit c" "lex_number l0 = Inr (k, l2)"
  | (ident) "is_ident_start c" "lex_ident_or_keyword l0 = (k, l2)"
      "\<not> (k = TIdent ''html'' \<and> peek l2 = Some 96)"
  | (html) l1 where "is_ident_start c" "lex_ident_or_keyword l0 = (TIdent ''html'', l1)"
      "peek l1 = Some 96" "lex_html_literal n l1 = Some (Inr (k, l2))"
  | (string) "c = 34" "lex_string l0 = Inr (k, l2)"
  | (punct) "\<not> is_ascii_digit c" "\<not> is_ident_start c" "c \<noteq> 34" "lex_punct l0 = Inr (k, l2)"
  using assms unfolding lex_kind_def
  by (auto split: if_splits prod.splits)

lemma html_loop_cases:
  assumes "html_loop n q parts buf l = Some (Inr (k, l'))"
  obtains (close) "peek l = Some 96" "k = THtmlLit (parts @ [HtmlText buf])" "l' = skip l"
  | (escape) m ch l1 where "n = Suc m" "peek l = Some 92" "lex_html_escape q l = Inr (ch, l1)"
      "html_loop m q parts (buf @ utf8_char ch) l1 = Some (Inr (k, l'))"
  | (expr) m l1 toks l2 where "n = Suc m" "peek l = Some 36" "peek_at l 1 = Some 123"
      "l1 = skip (skip l)"
      "interpolation m (pos l1, line l1, col l1) 0 [] l1 = Some (Inr (toks, l2))" "toks \<noteq> []"
      "html_loop m q (parts @ [HtmlText buf, HtmlExpr toks]) [] l2 = Some (Inr (k, l'))"
  | (plain) m c where "n = Suc m" "peek l = Some c" "c \<noteq> 96" "c \<noteq> 92"
      "c = 36 \<Longrightarrow> peek_at l 1 \<noteq> Some 123"
      "html_loop m q parts (buf @ utf8_char c) (skip l) = Some (Inr (k, l'))"
proof (cases n)
  case 0
  with assms show thesis by simp
next
  case (Suc m)
  show thesis
  proof (cases "peek l")
    case None
    with assms Suc show thesis by (simp split: prod.splits)
  next
    case (Some c)
    note eq = assms [unfolded Suc html_loop.simps Some option.case]
    consider "c = 96" | "c = 92" | "c = 36" "peek_at l 1 = Some 123"
      | "c \<noteq> 96" "c \<noteq> 92" "c \<noteq> 36 \<or> peek_at l 1 \<noteq> Some 123" by blast
    then show thesis
    proof cases
      case 1
      with eq Some show thesis by (intro close) auto
    next
      case 2
      with eq obtain ch l1 where "lex_html_escape q l = Inr (ch, l1)"
        and "html_loop m q parts (buf @ utf8_char ch) l1 = Some (Inr (k, l'))"
        by (auto split: sum.splits)
      then show thesis by (rule escape [OF Suc Some [unfolded 2]])
    next
      case 3
      with eq obtain toks l2
        where "interpolation m (pos (skip (skip l)), line (skip (skip l)), col (skip (skip l)))
            0 [] (skip (skip l)) = Some (Inr (toks, l2))" and "toks \<noteq> []"
          and "html_loop m q (parts @ [HtmlText buf, HtmlExpr toks]) [] l2 = Some (Inr (k, l'))"
        by (auto simp: lbind_eq_Inr Let_def split: if_splits)
      then show thesis using 3 Some by (intro expr [OF Suc _ _ refl]) simp_all
    next
      case 4
      with eq have "html_loop m q parts (buf @ utf8_char c) (skip l) = Some (Inr (k, l'))"
        by auto
      then show thesis using 4 by (intro plain [OF Suc Some]) auto
    qed
  qed
qed

lemma interpolation_cases:
  assumes "interpolation n e depth toks l = Some (Inr (ts, l'))"
  obtains (close) m tok where "n = Suc m" "next_token m l = Some (Inr (tok, l'))"
      "tk_kind tok = Pt RBrace" "depth = 0" "ts = toks"
  | (more) m tok l1 d where "n = Suc m" "next_token m l = Some (Inr (tok, l1))"
      "tk_kind tok \<noteq> Eof" "tk_kind tok = Pt RBrace \<longrightarrow> depth \<noteq> 0"
      "d = depth + (if tk_kind tok = Pt LBrace then 1 else if tk_kind tok = Pt RBrace then -1 else 0)"
      "interpolation m e d (toks @ [tok]) l1 = Some (Inr (ts, l'))"
proof (cases n)
  case 0
  with assms show thesis by simp
next
  case (Suc m)
  with assms obtain tok l1 where tok: "next_token m l = Some (Inr (tok, l1))"
    by (auto simp: lbind_eq_Inr)
  note eq = assms [unfolded Suc interpolation.simps tok lbind_simps]
  have ne: "tk_kind tok \<noteq> Eof" using eq by (auto split: prod.splits)
  show thesis
  proof (cases "tk_kind tok = Pt RBrace \<and> depth = 0")
    case True
    with eq tok show thesis by (intro close [OF Suc]) auto
  next
    case False
    with eq ne tok show thesis by (intro more [OF Suc tok ne _ refl]) auto
  qed
qed

section \<open>Progress of the mutually recursive methods\<close>

lemma lex_kind_step:
  assumes k: "lex_kind n c l0 = Some (Inr (k, l2))" and c: "peek l0 = Some c"
    and html: "\<And>l1 k l2. lex_html_literal n l1 = Some (Inr (k, l2)) \<Longrightarrow>
      moves l1 l2 \<and> (\<exists>parts. k = THtmlLit parts)"
  shows "moves l0 l2 \<and> remaining l2 < remaining l0 \<and> k \<noteq> Eof"
  using k
proof (cases rule: lex_kind_cases)
  case number
  then show ?thesis using c by (blast intro: moves lex_number_progress dest: lex_number_kind)
next
  case ident
  then show ?thesis using c by (blast intro: moves lex_ident_progress dest: lex_ident_kind)
next
  case (html l1)
  note h = assms(3) [OF html(4)]
  have "remaining l1 < remaining l0" using html(2) c html(1) by (rule lex_ident_progress)
  moreover have "remaining l2 \<le> remaining l1" using h moves_remaining by blast
  ultimately show ?thesis
    using h lex_ident_moves [OF html(2)] moves_trans by fastforce
next
  case string
  then show ?thesis
    using c lex_string_moves lex_string_progress lex_string_kind by fastforce
next
  case punct
  then show ?thesis using lex_punct_moves lex_punct_progress lex_punct_kind by fastforce
qed

lemma lex_progress:
  "next_token n l = Some (Inr (tok, l')) \<Longrightarrow>
     moves l l' \<and> (tk_kind tok \<noteq> Eof \<longrightarrow> remaining l' < remaining l)"
  "lex_html_literal n l = Some (Inr (k, l')) \<Longrightarrow> moves l l' \<and> (\<exists>parts. k = THtmlLit parts)"
  "html_loop n q parts buf l = Some (Inr (k, l')) \<Longrightarrow>
     moves l l' \<and> (\<exists>parts. k = THtmlLit parts)"
  "interpolation n e depth toks l = Some (Inr (ts, l')) \<Longrightarrow> moves l l'"
proof (induction n arbitrary: l l' tok k q parts buf e depth toks ts)
  case 0
  {
    case 1 then show ?case by simp
  next
    case 2 then show ?case by simp
  next
    case 3 then show ?case by simp
  next
    case 4 then show ?case by simp
  }
next
  case (Suc n)
  {
    case 1
    then show ?case
    proof (cases rule: next_token_cases)
      case (eof l0)
      then show ?thesis by (simp add: moves)
    next
      case (token m l0 c k l2)
      then have "moves l0 l2 \<and> remaining l2 < remaining l0 \<and> k \<noteq> Eof"
        using lex_kind_step [OF token(4,3)] Suc.IH(2) by blast
      moreover have "moves l l0" using token(2) by (rule skip_trivia_moves)
      ultimately show ?thesis
        using token(5,6) by (auto intro: moves_trans moves_pending_doc dest: moves_remaining)
    qed
  next
    case 2
    then have "moves (skip l) l' \<and> (\<exists>parts. k = THtmlLit parts)"
      using Suc.IH(3) by simp
    then show ?case by (blast intro: moves_trans skip_moves)
  next
    case 3
    then show ?case
    proof (cases rule: html_loop_cases)
      case close
      then show ?thesis by (simp add: moves)
    next
      case (escape m ch l1)
      then show ?thesis
        using Suc.IH(3) lex_html_escape_moves by (blast intro: moves_trans)
    next
      case (expr m l1 toks l2)
      then have "moves l1 l2" and "moves l2 l' \<and> (\<exists>parts. k = THtmlLit parts)"
        using Suc.IH(3,4) by blast+
      moreover have "moves l l1" using expr(4) by (simp add: moves)
      ultimately show ?thesis by (blast intro: moves_trans)
    next
      case (plain m c)
      then show ?thesis using Suc.IH(3) by (blast intro: moves_trans skip_moves)
    qed
  next
    case 4
    then show ?case
    proof (cases rule: interpolation_cases)
      case (close m tok)
      then show ?thesis using Suc.IH(1) by blast
    next
      case (more m tok l1 d)
      then show ?thesis using Suc.IH(1,4) by (blast intro: moves_trans)
    qed
  }
qed

lemmas next_token_progress = lex_progress(1)
lemmas lex_html_progress = lex_progress(2)
lemmas html_loop_progress = lex_progress(3)
lemmas interpolation_progress = lex_progress(4)

section \<open>The fuel is enough\<close>

lemma lbind_None: "lbind m f = None \<longleftrightarrow>
    m = None \<or> (\<exists>x l. m = Some (Inr (x, l)) \<and> f x l = None)"
  by (auto simp: lbind_def split: option.splits sum.splits)

lemma lex_fuel:
  "2 * remaining l + 1 \<le> n \<Longrightarrow> next_token n l \<noteq> None"
  "2 * remaining l + 2 \<le> n \<Longrightarrow> lex_html_literal n l \<noteq> None"
  "2 * remaining l + 1 \<le> n \<Longrightarrow> html_loop n q parts buf l \<noteq> None"
  "2 * remaining l + 2 \<le> n \<Longrightarrow> interpolation n e depth toks l \<noteq> None"
proof (induction n arbitrary: l q parts buf e depth toks)
  case 0
  {
    case 1 then show ?case by simp
  next
    case 2 then show ?case by simp
  next
    case 3 then show ?case by simp
  next
    case 4 then show ?case by simp
  }
next
  case (Suc n)
  {
    case 1
    show ?case
    proof
      assume none: "next_token (Suc n) l = None"
      then obtain l0 where l0: "skip_trivia l = Inr l0" by (auto split: sum.splits)
      from none l0 obtain c where c: "peek l0 = Some c" by (auto split: option.splits)
      from none l0 c have "lex_kind n c l0 = None"
        by (auto simp: lbind_None lex_kind_def)
      then obtain l1 where l1: "lex_html_literal n l1 = None" "is_ident_start c"
        "lex_ident_or_keyword l0 = (TIdent ''html'', l1)"
        by (auto simp: lex_kind_def split: if_splits prod.splits)
      have "remaining l1 < remaining l0" using l1(3) c l1(2) by (rule lex_ident_progress)
      moreover have "remaining l0 \<le> remaining l" using l0 by (intro moves_remaining moves)
      ultimately have "2 * remaining l1 + 2 \<le> n" using 1 by linarith
      then show False using Suc.IH(2) l1(1) by blast
    qed
  next
    case 2
    have "2 * remaining (skip l) + 1 \<le> n" using 2 skip_remaining_le [of l] by linarith
    then show ?case using Suc.IH(3) by simp
  next
    case 3
    show ?case
    proof
      assume none: "html_loop (Suc n) q parts buf l = None"
      then obtain c where c: "peek l = Some c" by (auto split: option.splits prod.splits)
      have r: "2 * remaining (skip l) + 2 \<le> n" using skip_remaining [OF c] 3 by linarith
      have r2: "2 * remaining (skip (skip l)) + 2 \<le> n"
        using r skip_remaining_le [of "skip l"] by linarith
      note eq = none [unfolded html_loop.simps c option.case]
      have loop: "2 * remaining l' + 1 \<le> n \<Longrightarrow> html_loop n q p t l' \<noteq> None" for l' p t
        using Suc.IH(3) by blast
      show False
      proof (cases "c = 36 \<and> peek_at l 1 = Some 123")
        case True
        let ?l1 = "skip (skip l)"
        have "interpolation n (pos ?l1, line ?l1, col ?l1) 0 [] ?l1 \<noteq> None"
          by (rule Suc.IH(4) [OF r2])
        with eq True obtain ts l2
          where i: "interpolation n (pos ?l1, line ?l1, col ?l1) 0 [] ?l1 = Some (Inr (ts, l2))"
            and h: "html_loop n q (parts @ [HtmlText buf, HtmlExpr ts]) [] l2 = None"
          by (auto simp: Let_def lbind_None split: if_splits)
        have "remaining l2 \<le> remaining ?l1" using interpolation_progress [OF i]
          by (rule moves_remaining)
        with r2 h loop [of l2] show False by auto
      next
        case False
        show False
        proof (cases "c = 92")
          case True
          with eq obtain ch l1 where e: "lex_html_escape q l = Inr (ch, l1)"
            and h: "html_loop n q parts (buf @ utf8_char ch) l1 = None"
            by (auto split: sum.splits)
          have "2 * remaining l1 + 1 \<le> n" using lex_html_escape_progress [OF e c] 3 by linarith
          with h loop show False by blast
        next
          case ne: False
          with eq False have "c \<noteq> 96 \<and> html_loop n q parts (buf @ utf8_char c) (skip l) = None"
            by (auto split: if_splits)
          with r loop [of "skip l" parts "buf @ utf8_char c"] show False by simp
        qed
      qed
    qed
  next
    case 4
    show ?case
    proof
      assume none: "interpolation (Suc n) e depth toks l = None"
      have "next_token n l \<noteq> None" using 4 by (intro Suc.IH(1)) simp
      with none obtain tok l1 where tok: "next_token n l = Some (Inr (tok, l1))"
        by (auto simp: lbind_None)
      note eq = none [unfolded interpolation.simps tok lbind_simps]
      then have "tk_kind tok \<noteq> Eof" by (auto split: prod.splits)
      then have "2 * remaining l1 + 2 \<le> n" using next_token_progress [OF tok] 4 by linarith
      then have "interpolation n e d ts l1 \<noteq> None" for d ts
        by (rule Suc.IH(4))
      moreover have "\<exists>d ts. interpolation n e d ts l1 = None"
        using eq by (auto split: if_splits prod.splits)
      ultimately show False by blast
    qed
  }
qed

lemma run_fuel: "2 * remaining l + 2 \<le> n \<Longrightarrow> run n l toks \<noteq> None"
proof (induction n arbitrary: l toks)
  case (Suc n)
  have t: "next_token n l \<noteq> None" using Suc.prems by (intro lex_fuel(1)) simp
  show ?case
  proof
    assume none: "run (Suc n) l toks = None"
    with t obtain tok l1 where tok: "next_token n l = Some (Inr (tok, l1))"
      and ne: "tk_kind tok \<noteq> Eof" and r: "run n l1 (toks @ [tok]) = None"
      by (auto split: option.splits sum.splits if_splits)
    have "2 * remaining l1 + 2 \<le> n" using next_token_progress [OF tok] ne Suc.prems by linarith
    then show False using Suc.IH r by blast
  qed
qed simp

lemma tokenize_returns: "\<exists>r. tokenize source = Some r"
proof (cases "check_version_pragma source")
  case (Inr s)
  have "run (2 * length s + 2) (new_lexer s) [] \<noteq> None"
    by (rule run_fuel) (simp add: remaining_def new_lexer_def)
  with Inr show ?thesis by (simp add: tokenize_def)
qed (simp add: tokenize_def)

end
