(* ===== verification/LexSpec.thy ===== *)
theory LexSpec
  imports LexerTotal
begin

text \<open>
  What a token stream promises about the text, as a grammar over positions with no lexer
  state: \<open>trivia_at cs p q\<close> (blanks and comments fill \<open>p..q\<close>), \<open>token_at cs p t q\<close>
  (trivia from \<open>p\<close> to the start of \<open>t\<close>, whose spelling ends at \<open>q\<close>), \<open>stream_at\<close> (a
  whole stream up to the end marker). Spelling is maximal munch. \<open>LexSound\<close> proves that
  the lexer's output satisfies it.
\<close>

definition char_at :: "nat list \<Rightarrow> nat \<Rightarrow> nat option" where
  "char_at cs p = (if p < length cs then Some (cs ! p) else None)"

lemma peek_char_at: "peek l = char_at (chars l) (pos l)"
  by (simp add: peek_def char_at_def)

lemma peek_at_char_at: "peek_at l k = char_at (chars l) (pos l + k)"
  by (simp add: peek_at_def char_at_def)

section \<open>Trivia\<close>

inductive trivia_at :: "nat list \<Rightarrow> nat \<Rightarrow> nat \<Rightarrow> bool" for cs :: "nat list" where
  none: "trivia_at cs p p"
| blank: "char_at cs p = Some c \<Longrightarrow> is_whitespace c \<Longrightarrow> trivia_at cs (Suc p) q \<Longrightarrow> trivia_at cs p q"
| line_comment: "char_at cs p = Some 47 \<Longrightarrow> char_at cs (Suc p) = Some 47 \<Longrightarrow> p + 2 \<le> r \<Longrightarrow>
    \<forall>i. p \<le> i \<and> i < r \<longrightarrow> cs ! i \<noteq> 10 \<Longrightarrow> char_at cs r \<in> {None, Some 10} \<Longrightarrow>
    trivia_at cs r q \<Longrightarrow> trivia_at cs p q"
| block_comment: "char_at cs p = Some 47 \<Longrightarrow> char_at cs (Suc p) = Some 42 \<Longrightarrow> p + 2 \<le> r \<Longrightarrow>
    \<forall>i. p + 2 \<le> i \<and> i < r \<longrightarrow> \<not> (char_at cs i = Some 42 \<and> char_at cs (Suc i) = Some 47) \<Longrightarrow>
    char_at cs r = Some 42 \<Longrightarrow> char_at cs (Suc r) = Some 47 \<Longrightarrow>
    trivia_at cs (r + 2) q \<Longrightarrow> trivia_at cs p q"

section \<open>Spellings\<close>

fun punct_text :: "punct \<Rightarrow> string" where
  "punct_text LBrace = ''{''" | "punct_text RBrace = ''}''"
| "punct_text LParen = ''(''" | "punct_text RParen = '')''"
| "punct_text LBracket = ''[''" | "punct_text RBracket = '']''"
| "punct_text Comma = '',''" | "punct_text Semi = '';''" | "punct_text Colon = '':''"
| "punct_text Question = ''?''" | "punct_text QuestionQuestion = ''??''"
| "punct_text At = ''@''" | "punct_text Pipe = ''|''" | "punct_text Lt = ''<''"
| "punct_text Gt = ''>''" | "punct_text Equals = ''=''" | "punct_text Arrow = ''->''"
| "punct_text FatArrow = ''=>''" | "punct_text Dot = ''.''" | "punct_text DotDot = ''..''"
| "punct_text Plus = ''+''" | "punct_text Minus = ''-''" | "punct_text Star = ''*''"
| "punct_text Slash = ''/''" | "punct_text Percent = ''%''" | "punct_text EqEq = ''==''"
| "punct_text NotEq = ''!=''" | "punct_text LtEq = ''<=''" | "punct_text GtEq = ''>=''"
| "punct_text AmpAmp = ''&&''" | "punct_text PipePipe = ''||''" | "punct_text Bang = ''!''"

definition text_at :: "nat list \<Rightarrow> nat \<Rightarrow> string \<Rightarrow> bool" where
  "text_at cs p s \<longleftrightarrow> slice cs p (p + length s) = cps s"

definition punct_at :: "nat list \<Rightarrow> nat \<Rightarrow> punct \<Rightarrow> nat \<Rightarrow> bool" where
  "punct_at cs p k q \<longleftrightarrow> text_at cs p (punct_text k) \<and> q = p + length (punct_text k) \<and>
     (\<forall>k'. text_at cs p (punct_text k') \<longrightarrow> length (punct_text k') \<le> length (punct_text k))"

definition run_of :: "(nat \<Rightarrow> bool) \<Rightarrow> nat list \<Rightarrow> nat \<Rightarrow> nat \<Rightarrow> bool" where
  "run_of f cs p q \<longleftrightarrow> p < q \<and> q \<le> length cs \<and> (\<forall>i. p \<le> i \<and> i < q \<longrightarrow> f (cs ! i)) \<and>
     \<not> holds f (char_at cs q)"

definition word_at :: "nat list \<Rightarrow> nat \<Rightarrow> token_kind \<Rightarrow> nat \<Rightarrow> bool" where
  "word_at cs p k q \<longleftrightarrow> run_of is_ident_continue cs p q \<and> is_ident_start (cs ! p) \<and>
     (k = TIdent (utf8 (slice cs p q)) \<and> (\<nexists>w. keyword_text w = Some (utf8 (slice cs p q))) \<or>
      keyword_text k = Some (utf8 (slice cs p q)))"

definition int_at :: "nat list \<Rightarrow> nat \<Rightarrow> int \<Rightarrow> nat \<Rightarrow> bool" where
  "int_at cs p n q \<longleftrightarrow> run_of is_ascii_digit cs p q \<and>
     \<not> (char_at cs q = Some 46 \<and> holds is_ascii_digit (char_at cs (Suc q))) \<and>
     n = int (digits_val (utf8 (slice cs p q))) \<and> n \<le> i64_max"

definition float_at :: "nat list \<Rightarrow> nat \<Rightarrow> string \<Rightarrow> nat \<Rightarrow> bool" where
  "float_at cs p f q \<longleftrightarrow> f = utf8 (slice cs p q) \<and>
     (\<exists>m. run_of is_ascii_digit cs p m \<and> char_at cs m = Some 46 \<and>
          run_of is_ascii_digit cs (Suc m) q)"

definition simple_escape :: "nat \<Rightarrow> nat option" where
  "simple_escape c =
     (if c = 110 then Some 10 else if c = 116 then Some 9
      else if c = 92 then Some 92 else if c = 34 then Some 34 else None)"

inductive string_at :: "nat list \<Rightarrow> nat \<Rightarrow> nat list \<Rightarrow> nat \<Rightarrow> bool" for cs :: "nat list" where
  close: "char_at cs p = Some 34 \<Longrightarrow> string_at cs p [] (Suc p)"
| plain: "char_at cs p = Some c \<Longrightarrow> c \<noteq> 34 \<Longrightarrow> c \<noteq> 92 \<Longrightarrow> string_at cs (Suc p) vs q \<Longrightarrow>
    string_at cs p (c # vs) q"
| escape: "char_at cs p = Some 92 \<Longrightarrow> char_at cs (Suc p) = Some e \<Longrightarrow> simple_escape e = Some c \<Longrightarrow>
    string_at cs (p + 2) vs q \<Longrightarrow> string_at cs p (c # vs) q"
| unicode: "char_at cs p = Some 92 \<Longrightarrow> char_at cs (Suc p) = Some 117 \<Longrightarrow>
    length (slice cs (p + 2) (p + 6)) = 4 \<Longrightarrow> from_hex (slice cs (p + 2) (p + 6)) = Some c \<Longrightarrow>
    is_scalar c \<Longrightarrow> string_at cs (p + 6) vs q \<Longrightarrow> string_at cs p (c # vs) q"

definition html_escape_char :: "nat \<Rightarrow> nat option" where
  "html_escape_char c =
     (if c = 96 then Some 96 else if c = 36 then Some 36 else if c = 92 then Some 92
      else if c = 110 then Some 10 else if c = 116 then Some 9 else None)"

section \<open>Tokens\<close>

inductive token_at :: "nat list \<Rightarrow> nat \<Rightarrow> token \<Rightarrow> nat \<Rightarrow> bool"
  and kind_at :: "nat list \<Rightarrow> nat \<Rightarrow> token_kind \<Rightarrow> nat \<Rightarrow> bool"
  and html_at :: "nat list \<Rightarrow> nat \<Rightarrow> string \<Rightarrow> html_part list \<Rightarrow> nat \<Rightarrow> bool"
  and braced_at :: "nat list \<Rightarrow> nat \<Rightarrow> int \<Rightarrow> token list \<Rightarrow> nat \<Rightarrow> bool"
  for cs :: "nat list"
where
  token: "trivia_at cs p s \<Longrightarrow> kind_at cs s k q \<Longrightarrow>
    token_at cs p (Token k (mk_span s q (line_of cs s) (col_of cs s)) d) q"
| word: "word_at cs p k q \<Longrightarrow>
    \<not> (k = TIdent ''html'' \<and> char_at cs q = Some 96) \<Longrightarrow> kind_at cs p k q"
| int: "int_at cs p n q \<Longrightarrow> kind_at cs p (TInt n) q"
| float: "float_at cs p f q \<Longrightarrow> kind_at cs p (TFloat f) q"
| string: "char_at cs p = Some 34 \<Longrightarrow> string_at cs (Suc p) vs q \<Longrightarrow>
    kind_at cs p (TStr (utf8 vs)) q"
| punct: "punct_at cs p k q \<Longrightarrow> kind_at cs p (Pt k) q"
| html: "text_at cs p ''html`'' \<Longrightarrow> html_at cs (p + 5) [] parts q \<Longrightarrow>
    kind_at cs p (THtmlLit parts) q"
| html_close: "char_at cs p = Some 96 \<Longrightarrow> html_at cs p buf [HtmlText buf] (Suc p)"
| html_plain: "char_at cs p = Some c \<Longrightarrow> c \<noteq> 96 \<Longrightarrow> c \<noteq> 92 \<Longrightarrow>
    \<not> (c = 36 \<and> char_at cs (Suc p) = Some 123) \<Longrightarrow>
    html_at cs (Suc p) (buf @ utf8_char c) parts q \<Longrightarrow> html_at cs p buf parts q"
| html_escape: "char_at cs p = Some 92 \<Longrightarrow> char_at cs (Suc p) = Some e \<Longrightarrow>
    html_escape_char e = Some c \<Longrightarrow> html_at cs (p + 2) (buf @ utf8_char c) parts q \<Longrightarrow>
    html_at cs p buf parts q"
| html_expr: "char_at cs p = Some 36 \<Longrightarrow> char_at cs (Suc p) = Some 123 \<Longrightarrow>
    braced_at cs (p + 2) 0 toks r \<Longrightarrow> toks \<noteq> [] \<Longrightarrow> html_at cs r [] parts q \<Longrightarrow>
    html_at cs p buf (HtmlText buf # HtmlExpr toks # parts) q"
| braced_close: "token_at cs p t q \<Longrightarrow> tk_kind t = Pt RBrace \<Longrightarrow> braced_at cs p 0 [] q"
| braced_more: "token_at cs p t r \<Longrightarrow> \<not> (tk_kind t = Pt RBrace \<and> d = 0) \<Longrightarrow>
    braced_at cs r
      (d + (if tk_kind t = Pt LBrace then 1 else if tk_kind t = Pt RBrace then -1 else 0)) ts q \<Longrightarrow>
    braced_at cs p d (t # ts) q"

text \<open>A stream: tokens one after the other, then the end marker at the end of the text.\<close>

fun stream_at :: "nat list \<Rightarrow> nat \<Rightarrow> token list \<Rightarrow> bool" where
  "stream_at cs p [] = False"
| "stream_at cs p [t] \<longleftrightarrow>
     trivia_at cs p (length cs) \<and>
     t = Token Eof (mk_span (length cs) (length cs) (line_of cs (length cs)) (col_of cs (length cs)))
           None"
| "stream_at cs p (t # ts) \<longleftrightarrow> (\<exists>q. token_at cs p t q \<and> stream_at cs q ts)"

end
