(* ===== verification/LexSound.thy ===== *)
theory LexSound
  imports LexSpec
begin

text \<open>
  The lexer's output satisfies the grammar of \<open>LexSpec\<close>: one lemma per method, then the
  mutual induction over the fuel, then \<open>run\<close>.
\<close>

section \<open>Positions\<close>

lemma char_at_nth: "char_at cs p = Some c \<Longrightarrow> p < length cs \<and> cs ! p = c"
  by (auto simp: char_at_def split: if_splits)

lemma pos_skip_at: "char_at (chars l) (pos l) = Some c \<Longrightarrow> pos (skip l) = Suc (pos l)"
  by (rule pos_skip) (simp add: peek_char_at)

lemma pos_skip_at2:
  "char_at (chars l) (pos l) = Some c \<Longrightarrow> char_at (chars l) (Suc (pos l)) = Some d \<Longrightarrow>
     pos (skip (skip l)) = pos l + 2"
  using pos_skip_at [of l] pos_skip_at [of "skip l"] by simp

lemma skip_while_chars [simp]: "chars (skip_while p l) = chars l"
  by (rule moves_chars [OF skip_while_moves])

lemma skip_while_stop_at: "\<not> holds p (char_at (chars l) (pos (skip_while p l)))"
  using skip_while_stop [of p l] by (simp add: peek_char_at)

lemma skip_while_start: "pos l \<le> pos (skip_while p l)"
  by (rule moves_pos [OF skip_while_moves])

lemma skip_while_run:
  assumes "lexer_ok l" "char_at (chars l) (pos l) = Some c" "p c"
  shows "run_of p (chars l) (pos l) (pos (skip_while p l))"
proof -
  have "pos l < pos (skip_while p l)"
  proof (rule ccontr)
    assume "\<not> pos l < pos (skip_while p l)"
    then have "pos (skip_while p l) = pos l" using skip_while_start [of l p] by simp
    then show False using skip_while_stop_at [of p l] assms(2,3) by simp
  qed
  then show ?thesis
    using skip_while_passed [of l p] skip_while_stop_at [of p l] skip_while_le [OF assms(1), of p]
    by (simp add: run_of_def)
qed

section \<open>Trivia\<close>

lemma skip_block_at:
  "skip_block l = Some l' \<Longrightarrow>
     \<exists>r. pos l \<le> r \<and> pos l' = r + 2 \<and>
       char_at (chars l) r = Some 42 \<and> char_at (chars l) (Suc r) = Some 47 \<and>
       (\<forall>i. pos l \<le> i \<and> i < r \<longrightarrow>
          \<not> (char_at (chars l) i = Some 42 \<and> char_at (chars l) (Suc i) = Some 47))"
proof (induction l rule: skip_block.induct)
  case (1 l)
  obtain c where c: "peek l = Some c"
    using "1.prems" by (subst (asm) skip_block.simps) (auto split: option.splits)
  have c': "char_at (chars l) (pos l) = Some c" using c by (simp add: peek_char_at)
  show ?case
  proof (cases "c = 42 \<and> peek_at l 1 = Some 47")
    case True
    then have "l' = skip (skip l)"
      using "1.prems" c by (subst (asm) skip_block.simps) simp
    moreover have "pos (skip (skip l)) = pos l + 2"
      using True c' by (intro pos_skip_at2) (auto simp: peek_at_char_at)
    ultimately show ?thesis
      using True c' by (intro exI [of _ "pos l"]) (auto simp: peek_at_char_at)
  next
    case False
    have s: "skip_block (skip l) = Some l'"
      using "1.prems" c False by (subst (asm) skip_block.simps) auto
    have "\<not> (c = code CHR ''*'' \<and> peek_at l 1 = Some (code CHR ''/''))"
      using False by simp
    from "1.IH" [OF c this s] obtain r where r: "Suc (pos l) \<le> r" "pos l' = r + 2"
      "char_at (chars l) r = Some 42" "char_at (chars l) (Suc r) = Some 47"
      "\<forall>i. Suc (pos l) \<le> i \<and> i < r \<longrightarrow>
          \<not> (char_at (chars l) i = Some 42 \<and> char_at (chars l) (Suc i) = Some 47)"
      by (auto simp: pos_skip [OF c])
    have "\<forall>i. pos l \<le> i \<and> i < r \<longrightarrow>
        \<not> (char_at (chars l) i = Some 42 \<and> char_at (chars l) (Suc i) = Some 47)"
    proof (intro allI impI)
      fix i assume i: "pos l \<le> i \<and> i < r"
      show "\<not> (char_at (chars l) i = Some 42 \<and> char_at (chars l) (Suc i) = Some 47)"
        using r(5) i False c' by (cases "i = pos l") (auto simp: peek_at_char_at)
    qed
    with r show ?thesis by (intro exI [of _ r]) simp
  qed
qed

lemma skip_doc_line_at:
  assumes ok: "lexer_ok l" and s: "char_at (chars l) (pos l) = Some 47"
    "char_at (chars l) (Suc (pos l)) = Some 47" "char_at (chars l) (pos l + 2) = Some 47"
  shows "pos l + 2 \<le> pos (skip_doc_line l) \<and> chars (skip_doc_line l) = chars l \<and>
    (\<forall>i. pos l \<le> i \<and> i < pos (skip_doc_line l) \<longrightarrow> chars l ! i \<noteq> 10) \<and>
    char_at (chars l) (pos (skip_doc_line l)) \<in> {None, Some 10}"
proof -
  let ?l1 = "skip (skip (skip l))"
  let ?l2 = "if peek ?l1 = Some (code CHR '' '') then skip ?l1 else ?l1"
  let ?l3 = "skip_while not_newline ?l2"
  have e: "pos (skip_doc_line l) = pos ?l3" "chars (skip_doc_line l) = chars l"
    by (simp_all add: skip_doc_line_def Let_def)
  have p1: "pos ?l1 = pos l + 3"
    using pos_skip_at2 [OF s(1,2)] s(3) pos_skip_at [of "skip (skip l)"] by simp
  have p2: "pos l + 3 \<le> pos ?l2" "\<forall>i. pos l + 3 \<le> i \<and> i < pos ?l2 \<longrightarrow> chars l ! i \<noteq> 10"
  proof -
    show "pos l + 3 \<le> pos ?l2"
      using p1 skip_moves [of ?l1] by (auto dest: moves_pos)
    show "\<forall>i. pos l + 3 \<le> i \<and> i < pos ?l2 \<longrightarrow> chars l ! i \<noteq> 10"
    proof (intro allI impI)
      fix i assume i: "pos l + 3 \<le> i \<and> i < pos ?l2"
      then have c: "char_at (chars l) (pos l + 3) = Some 32"
        using p1 by (simp add: peek_char_at split: if_splits)
      then have "i = pos l + 3"
        using i p1 by (simp add: peek_char_at pos_skip_at)
      with char_at_nth [OF c] show "chars l ! i \<noteq> 10" by simp
    qed
  qed
  have three: "chars l ! pos l = 47" "chars l ! (pos l + 1) = 47" "chars l ! (pos l + 2) = 47"
    using s by (auto dest: char_at_nth)
  have c2: "chars ?l2 = chars l" by simp
  have passed: "\<forall>i. pos ?l2 \<le> i \<and> i < pos ?l3 \<longrightarrow> chars l ! i \<noteq> 10"
    using skip_while_passed [of ?l2 not_newline] by (simp only: c2) (simp add: not_newline_def)
  have "\<forall>i. pos l \<le> i \<and> i < pos ?l3 \<longrightarrow> chars l ! i \<noteq> 10"
  proof (intro allI impI)
    fix i assume i: "pos l \<le> i \<and> i < pos ?l3"
    then consider "i = pos l" | "i = pos l + 1" | "i = pos l + 2" | "pos l + 3 \<le> i" "i < pos ?l2"
      | "pos ?l2 \<le> i" by linarith
    then show "chars l ! i \<noteq> 10"
      using three p2(2) passed i by cases auto
  qed
  moreover have "char_at (chars l) (pos ?l3) \<in> {None, Some 10}"
    using skip_while_stop_at [of not_newline ?l2] unfolding c2
    by (cases "char_at (chars l) (pos ?l3)") (auto simp: not_newline_def)
  moreover have "pos l + 2 \<le> pos ?l3"
    using p2(1) skip_while_start [of ?l2 not_newline] by linarith
  ultimately show ?thesis unfolding e by blast
qed

lemma skip_comment_at:
  assumes s: "char_at (chars l) (pos l) = Some 47" "char_at (chars l) (Suc (pos l)) = Some 47"
  shows "pos l + 2 \<le> pos (skip_while not_newline l) \<and>
    (\<forall>i. pos l \<le> i \<and> i < pos (skip_while not_newline l) \<longrightarrow> chars l ! i \<noteq> 10) \<and>
    char_at (chars l) (pos (skip_while not_newline l)) \<in> {None, Some 10}"
proof -
  let ?r = "pos (skip_while not_newline l)"
  have stop: "\<not> holds not_newline (char_at (chars l) ?r)" by (rule skip_while_stop_at)
  have "pos l \<le> ?r" by (rule skip_while_start)
  moreover have "?r \<noteq> pos l" "?r \<noteq> Suc (pos l)" using stop s by (auto simp: not_newline_def)
  ultimately have "pos l + 2 \<le> ?r" by linarith
  then show ?thesis
    using skip_while_passed [of l not_newline] stop
    by (cases "char_at (chars l) ?r") (auto simp: not_newline_def)
qed

lemma skip_trivia_at:
  "skip_trivia l = Inr l' \<Longrightarrow> lexer_ok l \<Longrightarrow> trivia_at (chars l) (pos l) (pos l')"
proof (induction "remaining l" arbitrary: l rule: less_induct)
  case less
  note ok = less.prems(2)
  from less.prems(1) show ?case
  proof (cases rule: skip_trivia_round)
    case stop
    then show ?thesis by (simp add: trivia_at.none)
  next
    case (space c)
    then have "trivia_at (chars (skip l)) (pos (skip l)) (pos l')"
      using ok by (intro less.hyps skip_remaining skip_ok)
    then have "trivia_at (chars l) (Suc (pos l)) (pos l')"
      using space by (simp add: pos_skip)
    with space show ?thesis by (simp add: peek_char_at trivia_at.blank)
  next
    case doc
    have d: "char_at (chars l) (pos l) = Some 47" "char_at (chars l) (Suc (pos l)) = Some 47"
      "char_at (chars l) (pos l + 2) = Some 47"
      using doc by (simp_all add: peek_char_at peek_at_char_at)
    note f = skip_doc_line_at [OF ok d]
    have "trivia_at (chars (skip_doc_line l)) (pos (skip_doc_line l)) (pos l')"
      using doc ok by (intro less.hyps skip_doc_line_remaining moves_ok [OF skip_doc_line_moves])
    then have "trivia_at (chars l) (pos (skip_doc_line l)) (pos l')" using f by simp
    then show ?thesis
      by (rule trivia_at.line_comment [OF d(1,2), rotated 3]) (use f in auto)
  next
    case comment
    have d: "char_at (chars l) (pos l) = Some 47" "char_at (chars l) (Suc (pos l)) = Some 47"
      using comment by (simp_all add: peek_char_at peek_at_char_at)
    have "remaining (skip_while not_newline l) < remaining l"
      using comment by (intro skip_while_progress [of l 47]) (simp_all add: not_newline_def)
    then have "trivia_at (chars (skip_while not_newline l)) (pos (skip_while not_newline l)) (pos l')"
      using comment ok by (intro less.hyps moves_ok [OF skip_while_moves])
    then have "trivia_at (chars l) (pos (skip_while not_newline l)) (pos l')" by simp
    then show ?thesis
      by (rule trivia_at.line_comment [OF d, rotated 3]) (use skip_comment_at [OF d] in auto)
  next
    case (block l1)
    have d: "char_at (chars l) (pos l) = Some 47" "char_at (chars l) (Suc (pos l)) = Some 42"
      using block by (simp_all add: peek_char_at peek_at_char_at)
    have m: "moves l l1"
      using block(3) moves_trans [OF moves_skip [OF skip_moves] skip_block_moves] by simp
    have "trivia_at (chars l1) (pos l1) (pos l')"
      using block ok by (intro less.hyps block_progress moves_ok [OF m])
    moreover obtain r where r: "pos l + 2 \<le> r" "pos l1 = r + 2"
      "char_at (chars l) r = Some 42" "char_at (chars l) (Suc r) = Some 47"
      "\<forall>i. pos l + 2 \<le> i \<and> i < r \<longrightarrow>
          \<not> (char_at (chars l) i = Some 42 \<and> char_at (chars l) (Suc i) = Some 47)"
      using skip_block_at [OF block(3)] by (auto simp: pos_skip_at2 [OF d])
    ultimately show ?thesis
      using moves_chars [OF m] trivia_at.block_comment [OF d r(1,5,3,4)] by simp
  qed
qed

section \<open>Words and numbers\<close>

lemma set_slice: "q \<le> length cs \<Longrightarrow> set (slice cs p q) = {cs ! i | i. p \<le> i \<and> i < q}"
proof (intro set_eqI iffI)
  fix x assume q: "q \<le> length cs" and "x \<in> set (slice cs p q)"
  then obtain i where "i < q - p" "x = cs ! (p + i)"
    by (auto simp: slice_def in_set_conv_nth)
  then show "x \<in> {cs ! i | i. p \<le> i \<and> i < q}" by (auto intro!: exI [of _ "p + i"])
next
  fix x assume q: "q \<le> length cs" and "x \<in> {cs ! i | i. p \<le> i \<and> i < q}"
  then obtain i where "x = cs ! i" "p \<le> i" "i < q" by auto
  with q have "x = slice cs p q ! (i - p)" "i - p < length (slice cs p q)"
    by (simp_all add: slice_def)
  then show "x \<in> set (slice cs p q)" using nth_mem by metis
qed

lemma length_slice: "q \<le> length cs \<Longrightarrow> length (slice cs p q) = q - p"
  by (simp add: slice_def)

lemma run_of_slice:
  "run_of f cs p q \<Longrightarrow> slice cs p q \<noteq> [] \<and> (\<forall>c \<in> set (slice cs p q). f c)"
  using length_slice [of q cs p] by (auto simp: run_of_def set_slice)

lemma digits_utf8:
  assumes "\<forall>c \<in> set cs. is_ascii_digit c"
  shows "list_all digit_byte (utf8 cs)"
proof -
  have "\<forall>c \<in> set cs. c < 128" using assms by (auto simp: is_ascii_digit_def)
  then have "utf8 cs = map char_of cs" by (rule utf8_ascii)
  then show ?thesis
    using assms by (auto simp: list_all_iff digit_byte_def is_ascii_digit_def)
qed

lemma parse_i64_digits:
  assumes "list_all digit_byte s" "s \<noteq> []"
  shows "parse_i64 s = (if int (digits_val s) \<le> i64_max then Some (int (digits_val s)) else None)"
proof -
  obtain c s' where s: "s = c # s'" using assms(2) by (cases s) auto
  have "c \<noteq> CHR ''-''" "c \<noteq> CHR ''+''" using assms(1) s by (auto simp: digit_byte_def)
  then show ?thesis
    using assms s by (simp add: parse_i64_def parse_signed_def parse_digits_def i64_min_def)
qed

lemma utf8_Nil_iff [simp]: "utf8 cs = [] \<longleftrightarrow> cs = []"
  by (cases cs) simp_all

lemma lex_number_at:
  assumes ok: "lexer_ok l" and c: "char_at (chars l) (pos l) = Some c" "is_ascii_digit c"
    and n: "lex_number l = Inr (k, l')"
  shows "kind_at (chars l) (pos l) k (pos l')"
proof -
  let ?cs = "chars l"
  define l1 where "l1 = skip_while is_ascii_digit l"
  have r1: "run_of is_ascii_digit ?cs (pos l) (pos l1)"
    unfolding l1_def using ok c by (rule skip_while_run)
  have c1: "chars l1 = ?cs" by (simp add: l1_def)
  show ?thesis
  proof (cases "peek l1 = Some 46 \<and> holds is_ascii_digit (peek_at l1 1)")
    case True
    define l2 where "l2 = skip_while is_ascii_digit (skip l1)"
    obtain d where d: "char_at ?cs (pos l1) = Some 46" "char_at ?cs (Suc (pos l1)) = Some d"
      "is_ascii_digit d"
      using True by (auto simp: peek_char_at peek_at_char_at c1 holds_def split: option.splits)
    have p: "pos (skip l1) = Suc (pos l1)" using d(1) by (simp add: pos_skip_at c1)
    have "lexer_ok (skip l1)" unfolding l1_def by (intro skip_ok moves_ok [OF skip_while_moves] ok)
    then have r2: "run_of is_ascii_digit ?cs (Suc (pos l1)) (pos l2)"
      using skip_while_run [of "skip l1" d is_ascii_digit] d p c1 by (simp add: l2_def)
    have "chars l2 = ?cs" by (simp add: l2_def c1)
    with n True have "k = TFloat (utf8 (slice ?cs (pos l) (pos l2)))" "l' = l2"
      by (auto simp: lex_number_def Let_def l1_def [symmetric] l2_def [symmetric]
          text_between_def parse_f64_text_def split: if_splits option.splits)
    then show ?thesis using r1 r2 d(1)
      by (auto simp: float_at_def intro!: token_at_kind_at_html_at_braced_at.float)
  next
    case False
    let ?txt = "utf8 (slice ?cs (pos l) (pos l1))"
    have "list_all digit_byte ?txt" "?txt \<noteq> []"
      using run_of_slice [OF r1] by (simp_all add: digits_utf8)
    then have "k = TInt (int (digits_val ?txt))" "l' = l1" "int (digits_val ?txt) \<le> i64_max"
      using n False by (auto simp: lex_number_def Let_def l1_def [symmetric] text_between_def c1
          parse_i64_digits split: if_splits)
    moreover have "\<not> (char_at ?cs (pos l1) = Some 46 \<and> holds is_ascii_digit (char_at ?cs (Suc (pos l1))))"
      using False by (simp add: peek_char_at peek_at_char_at c1)
    ultimately show ?thesis using r1 by (simp add: int_at_def token_at_kind_at_html_at_braced_at.int)
  qed
qed

lemma text_between_skip_while [simp]: "text_between (skip_while p l) a b = text_between l a b"
  by (simp add: text_between_def)

lemma lex_ident_at:
  assumes ok: "lexer_ok l" and c: "char_at (chars l) (pos l) = Some c" "is_ident_start c"
    and n: "lex_ident_or_keyword l = (k, l')"
  shows "word_at (chars l) (pos l) k (pos l')"
proof -
  have r: "run_of is_ident_continue (chars l) (pos l) (pos (skip_while is_ident_continue l))"
    using ok c by (auto intro: skip_while_run ident_start_continue)
  let ?txt = "text_between l (pos l) (pos (skip_while is_ident_continue l))"
  have l': "l' = skip_while is_ident_continue l"
    and k: "k = (case keyword_from_str ?txt of Some k \<Rightarrow> k | None \<Rightarrow> TIdent ?txt)"
    using n by (auto simp: lex_ident_or_keyword_def Let_def cong: option.case_cong)
  have "k = TIdent ?txt \<and> (\<nexists>w. keyword_text w = Some ?txt) \<or> keyword_text k = Some ?txt"
    using k by (cases "keyword_from_str ?txt") (auto simp: keyword_tables [symmetric])
  then show ?thesis
    using r c char_at_nth [OF c(1)] by (auto simp: word_at_def l' text_between_def)
qed

section \<open>Strings\<close>

lemma char_at_skip:
  assumes "char_at (chars l) (pos l) = Some c"
  shows "peek (skip l) = char_at (chars l) (Suc (pos l))"
  using assms by (simp add: peek_char_at pos_skip_at)

text \<open>The loop over the four hex digits reads exactly four characters.\<close>

lemma lex_hex_at:
  "lex_hex n hex e l = Inr (h, l') \<Longrightarrow> pos l \<le> length (chars l) \<Longrightarrow>
     h = hex @ slice (chars l) (pos l) (pos l + n) \<and> pos l' = pos l + n \<and>
     length (slice (chars l) (pos l) (pos l + n)) = n"
proof (induction n hex e l rule: lex_hex.induct)
  case (1 hex e l)
  then show ?case by (simp add: slice_def)
next
  case (2 n hex es el ec l)
  obtain c where c: "char_at (chars l) (pos l) = Some c"
    and h: "lex_hex n (hex @ [c]) (es, el, ec) (skip l) = Inr (h, l')"
    and d: "is_ascii_hexdigit c"
    using "2.prems"(1) by (auto simp: advance_skip peek_char_at split: option.splits if_splits)
  note p = pos_skip_at [OF c]
  have lt: "pos l < length (chars l)" "chars l ! pos l = c" using char_at_nth [OF c] by auto
  have a: "(Some c, skip l) = advance l" using c by (simp add: advance_skip peek_char_at)
  have "h = (hex @ [c]) @ slice (chars l) (Suc (pos l)) (Suc (pos l) + n) \<and>
      pos l' = Suc (pos l) + n \<and> length (slice (chars l) (Suc (pos l)) (Suc (pos l) + n)) = n"
    using "2.IH" [OF a refl d h] lt p by simp
  moreover have "slice (chars l) (pos l) (pos l + Suc n)
      = c # slice (chars l) (Suc (pos l)) (Suc (pos l) + n)"
    using lt by (simp add: slice_def Cons_nth_drop_Suc [symmetric])
  ultimately show ?case by simp
qed

lemma lex_string_escape_at:
  assumes bs: "char_at (chars l) (pos l) = Some 92"
    and e: "lex_string_escape q e (skip l) = Inr (ch, l2)"
    and rest: "string_at (chars l) (pos l2) vs r"
  shows "string_at (chars l) (pos l) (ch # vs) r"
proof -
  have p: "pos (skip l) = Suc (pos l)" using bs by (rule pos_skip_at)
  obtain c where c: "char_at (chars l) (Suc (pos l)) = Some c"
    using e by (auto simp: lex_string_escape_def advance_skip char_at_skip [OF bs]
        split: prod.splits option.splits)
  have p2: "pos (skip (skip l)) = pos l + 2" using bs c by (rule pos_skip_at2)
  show ?thesis
  proof (cases "c = 117")
    case False
    have "simple_escape c = Some ch \<and> l2 = skip (skip l)"
      using e False by (auto simp: lex_string_escape_def advance_skip char_at_skip [OF bs] c
          simple_escape_def split: prod.splits if_splits)
    with bs c rest p2 show ?thesis by (auto intro: string_at.escape)
  next
    case True
    obtain es el ec where ee: "e = (es, el, ec)" by (cases e) auto
    from e True obtain hex l1 where h: "lex_hex 4 [] (es, el, ec) (skip (skip l)) = Inr (hex, l1)"
      and v: "from_hex hex = Some ch" "is_scalar ch" "l2 = l1"
      by (auto simp: lex_string_escape_def advance_skip char_at_skip [OF bs] c ee results
          char_from_u32_def split: prod.splits if_splits)
    have "pos (skip (skip l)) \<le> length (chars (skip (skip l)))"
      using p2 char_at_nth [OF c] by simp
    from lex_hex_at [OF h this] p2 v have
      "hex = slice (chars l) (pos l + 2) (pos l + 6)" "pos l2 = pos l + 6"
      "length (slice (chars l) (pos l + 2) (pos l + 6)) = 4"
      by (simp_all add: add.commute)
    with bs c True v rest show ?thesis by (auto intro: string_at.unicode)
  qed
qed

lemma lex_string_loop_at:
  "lex_string_loop q v l = Inr (k, l') \<Longrightarrow>
     \<exists>vs. k = TStr (v @ utf8 vs) \<and> string_at (chars l) (pos l) vs (pos l')"
proof (induction rule: lex_string_loop_rule)
  case (close v l)
  then show ?case
    by (intro exI [of _ "[]"]) (simp add: peek_char_at pos_skip_at string_at.close)
next
  case (escape v l q e ch l2)
  then obtain vs where vs: "k = TStr (v @ utf8 (ch # vs))"
    "string_at (chars l2) (pos l2) vs (pos l')" by auto
  have "moves l l2"
    using escape(2) moves_trans [OF skip_moves lex_string_escape_moves] by blast
  then have "string_at (chars l) (pos l2) vs (pos l')" using vs by (simp add: moves_chars)
  then have "string_at (chars l) (pos l) (ch # vs) (pos l')"
    using escape by (intro lex_string_escape_at) (simp_all add: peek_char_at)
  with vs show ?case by blast
next
  case (plain v l c)
  then obtain vs where vs: "k = TStr (v @ utf8 (c # vs))"
    "string_at (chars l) (pos (skip l)) vs (pos l')" by auto
  moreover have "pos (skip l) = Suc (pos l)" using plain(1) by (rule pos_skip)
  ultimately have "string_at (chars l) (pos l) (c # vs) (pos l')"
    using plain by (intro string_at.plain) (simp_all add: peek_char_at)
  with vs show ?case by blast
qed

lemma lex_string_at:
  assumes c: "char_at (chars l) (pos l) = Some 34" and n: "lex_string l = Inr (k, l')"
  shows "kind_at (chars l) (pos l) k (pos l')"
  using lex_string_loop_at [OF n [unfolded lex_string_def]] c
  by (auto simp: pos_skip_at intro: token_at_kind_at_html_at_braced_at.string)

section \<open>Punctuation\<close>

lemma text_at_Nil [simp]: "text_at cs p []"
  by (simp add: text_at_def slice_def cps_def)

lemma text_at_Cons [simp]:
  "text_at cs p (a # s) \<longleftrightarrow> char_at cs p = Some (code a) \<and> text_at cs (Suc p) s"
proof (cases "p < length cs")
  case True
  then have "drop p cs = cs ! p # drop (Suc p) cs" by (simp add: Cons_nth_drop_Suc)
  with True show ?thesis by (simp add: text_at_def slice_def cps_def char_at_def)
next
  case False
  then show ?thesis by (simp add: text_at_def slice_def cps_def char_at_def)
qed

text \<open>No punctuation is longer than two characters; these are the long ones.\<close>

lemma long_punct:
  assumes "text_at cs p (punct_text k')" "length (punct_text k') \<noteq> 1"
    "char_at cs p = Some c"
  shows "length (punct_text k') = 2 \<and> (\<exists>d. char_at cs (Suc p) = Some d \<and>
    (c, d) \<in> {(63, 63), (45, 62), (61, 62), (46, 46), (61, 61), (33, 61), (60, 61), (62, 61),
       (38, 38), (124, 124)})"
  using assms by (cases k') simp_all

lemma punct_at_two:
  assumes "text_at cs p (punct_text k)" "length (punct_text k) = 2"
  shows "punct_at cs p k (Suc (Suc p))"
proof -
  have "length (punct_text k') \<le> 2" for k' by (cases k') simp_all
  with assms show ?thesis by (simp add: punct_at_def)
qed

lemma punct_at_one:
  assumes "text_at cs p (punct_text k)" "length (punct_text k) = 1" "char_at cs p = Some c"
    "\<And>d. char_at cs (Suc p) = Some d \<Longrightarrow>
      (c, d) \<notin> {(63, 63), (45, 62), (61, 62), (46, 46), (61, 61), (33, 61), (60, 61), (62, 61),
       (38, 38), (124, 124)}"
  shows "punct_at cs p k (Suc p)"
proof -
  have "length (punct_text k') \<le> 1" if "text_at cs p (punct_text k')" for k'
    using long_punct [OF that _ assms(3)] assms(4) by fastforce
  with assms show ?thesis by (simp add: punct_at_def)
qed

lemma if_elims:
  assumes "(if b then x else y) = z"
  obtains "b" "x = z" | "\<not> b" "y = z"
  using assms by (auto split: if_splits)

lemma lex_punct_at:
  assumes c: "char_at (chars l) (pos l) = Some c" and n: "lex_punct l = Inr (k, l')"
  shows "\<exists>p. k = Pt p \<and> punct_at (chars l) (pos l) p (pos l')"
proof -
  have pk: "peek l = Some c" using c by (simp add: peek_char_at)
  note p1 = pos_skip_at [OF c]
  note nxt = char_at_skip [OF c]
  have two: "pos (skip (skip l)) = pos l + 2" if "char_at (chars l) (Suc (pos l)) = Some d" for d
    using c that by (rule pos_skip_at2)
  show ?thesis
    using n
    unfolding lex_punct_def advance_skip pk prod.case option.case
    by (elim if_elims)
      (auto simp: p1 two c nxt one_or_two_def split: if_splits
        intro!: punct_at_one [OF _ _ c] punct_at_two)
qed

section \<open>The mutual induction\<close>

lemmas kind_at_intros = token_at_kind_at_html_at_braced_at.intros

lemma lex_html_escape_at:
  assumes "char_at (chars l) (pos l) = Some 92" "lex_html_escape q l = Inr (ch, l')"
  shows "\<exists>e. char_at (chars l) (Suc (pos l)) = Some e \<and> html_escape_char e = Some ch \<and>
    pos l' = pos l + 2 \<and> chars l' = chars l"
proof -
  obtain e where e: "char_at (chars l) (Suc (pos l)) = Some e"
    using assms(2) by (auto simp: lex_html_escape_def advance_skip char_at_skip [OF assms(1)]
        split: prod.splits option.splits)
  have "html_escape_char e = Some ch \<and> l' = skip (skip l)"
    using assms(2) e by (auto simp: lex_html_escape_def advance_skip char_at_skip [OF assms(1)]
        html_escape_char_def split: prod.splits if_splits)
  then show ?thesis using e pos_skip_at2 [OF assms(1) e] by simp
qed

text \<open>The word \<open>html\<close> before a backquote has its spelling in the text.\<close>

lemma html_word:
  assumes "word_at cs p (TIdent ''html'') q" "char_at cs q = Some 96"
  shows "text_at cs p ''html`'' \<and> q = p + 4"
proof -
  have r: "run_of is_ident_continue cs p q" and u: "utf8 (slice cs p q) = ''html''"
    using assms(1) by (auto simp: word_at_def)
  have "\<forall>c \<in> set (slice cs p q). c < 128"
    using run_of_slice [OF r]
    by (auto simp: is_ident_continue_def is_ascii_alphanumeric_def is_ascii_alphabetic_def
        is_ascii_digit_def)
  then have "map char_of (slice cs p q) = ''html''" and small: "\<forall>c \<in> set (slice cs p q). c < 128"
    using u by (simp_all add: utf8_ascii)
  then have "map of_char (map char_of (slice cs p q)) = cps ''html''"
    by (simp add: cps_def)
  then have s: "slice cs p q = cps ''html''"
  proof -
    have "map (\<lambda>c. c mod 256) (slice cs p q) = slice cs p q"
      using small by (intro map_idI) auto
    then show ?thesis
      using \<open>map of_char (map char_of (slice cs p q)) = cps ''html''\<close> by (simp add: comp_def)
  qed
  have "q \<le> length cs" "p < q" using r by (auto simp: run_of_def)
  then have q: "q = p + 4"
    using length_slice [of q cs p] s by (simp add: cps_def)
  have "text_at cs p ''html''" using s q by (simp add: text_at_def numeral_eq_Suc)
  then show ?thesis using assms(2) q by (simp add: numeral_eq_Suc)
qed

lemma lex_kind_at:
  assumes k: "lex_kind n c l0 = Some (Inr (k, l2))" and ok: "lexer_ok l0"
    and c: "char_at (chars l0) (pos l0) = Some c"
    and html: "\<And>l1 k l2. lex_html_literal n l1 = Some (Inr (k, l2)) \<Longrightarrow> lexer_ok l1 \<Longrightarrow>
      char_at (chars l1) (pos l1) = Some 96 \<Longrightarrow>
      \<exists>parts. k = THtmlLit parts \<and> html_at (chars l1) (Suc (pos l1)) [] parts (pos l2)"
  shows "kind_at (chars l0) (pos l0) k (pos l2)"
  using k
proof (cases rule: lex_kind_cases)
  case number
  then show ?thesis using ok c by (blast intro: lex_number_at)
next
  case ident
  then have "\<not> (k = TIdent ''html'' \<and> char_at (chars l0) (pos l2) = Some 96)"
    using moves_chars [OF lex_ident_moves [OF ident(2)]] by (simp add: peek_char_at)
  then show ?thesis using ok c ident by (blast intro: kind_at_intros lex_ident_at)
next
  case (html l1)
  have w: "word_at (chars l0) (pos l0) (TIdent ''html'') (pos l1)"
    using ok c html(1,2) by (rule lex_ident_at)
  have m: "moves l0 l1" using html(2) by (rule lex_ident_moves)
  have q: "char_at (chars l1) (pos l1) = Some 96" using html(3) by (simp add: peek_char_at)
  obtain parts where "k = THtmlLit parts" "html_at (chars l1) (Suc (pos l1)) [] parts (pos l2)"
    using assms(4) [OF html(4) moves_ok [OF m ok] q] by blast
  moreover have "Suc (pos l1) = pos l0 + 5"
    using html_word [OF w] q moves_chars [OF m] by simp
  ultimately show ?thesis
    using html_word [OF w] q moves_chars [OF m] by (auto intro!: kind_at_intros(7) simp del: text_at_Cons)
next
  case string
  then show ?thesis using c by (blast intro: lex_string_at)
next
  case punct
  then show ?thesis using c lex_punct_at by (blast intro: kind_at_intros)
qed

text \<open>
  The five statements of the induction over the fuel: every method finds what the grammar
  asks for, and leaves the state where the spelling ends.
\<close>

lemma lex_sound:
  "next_token n l = Some (Inr (tok, l')) \<Longrightarrow> lexer_ok l \<Longrightarrow> tk_kind tok \<noteq> Eof \<Longrightarrow>
     token_at (chars l) (pos l) tok (pos l')"
  "lex_html_literal n l = Some (Inr (k, l')) \<Longrightarrow> lexer_ok l \<Longrightarrow>
     char_at (chars l) (pos l) = Some 96 \<Longrightarrow>
     \<exists>ps. k = THtmlLit ps \<and> html_at (chars l) (Suc (pos l)) [] ps (pos l')"
  "html_loop n q parts buf l = Some (Inr (k, l')) \<Longrightarrow> lexer_ok l \<Longrightarrow>
     \<exists>ps. k = THtmlLit (parts @ ps) \<and> html_at (chars l) (pos l) buf ps (pos l')"
  "interpolation n e depth toks l = Some (Inr (ts, l')) \<Longrightarrow> lexer_ok l \<Longrightarrow>
     \<exists>us. ts = toks @ us \<and> braced_at (chars l) (pos l) depth us (pos l')"
proof (induction n arbitrary: l l' tok k q parts buf e depth toks ts)
  case 0
  {
    case 1 then show ?case by simp
  next
    case 2 then show ?case by simp
  next
    case 3 then show ?case by simp
  next
    case 4 then show ?case by simp
  }
next
  case (Suc n)
  {
    case 1
    note ok = 1(2) and ne = 1(3)
    from 1(1) show ?case
    proof (cases rule: next_token_cases)
      case (eof l0)
      with ne show ?thesis by simp
    next
      case (token m l0 c k l2)
      note m = skip_trivia_moves [OF token(2)]
      have c: "char_at (chars l0) (pos l0) = Some c" using token(3) by (simp add: peek_char_at)
      have "kind_at (chars l0) (pos l0) k (pos l2)"
        using lex_kind_at [OF token(4) moves_ok [OF m ok] c] Suc.IH(2) token(1) by blast
      moreover have "trivia_at (chars l) (pos l) (pos l0)"
        using token(2) ok by (rule skip_trivia_at)
      moreover have "line l0 = line_of (chars l) (pos l0)" "col l0 = col_of (chars l) (pos l0)"
        using moves_ok [OF m ok] moves_chars [OF m] by (auto simp: lexer_ok_def)
      ultimately show ?thesis
        using moves_chars [OF m] by (simp add: token(5,6) kind_at_intros(1))
    qed
  next
    case 2
    then have "html_loop n (pos l, line l, col l) [] [] (skip l) = Some (Inr (k, l'))" by simp
    from Suc.IH(3) [OF this skip_ok [OF 2(2)]] 2(3) show ?case
      by (simp add: pos_skip_at)
  next
    case 3
    note ok = 3(2)
    from 3(1) show ?case
    proof (cases rule: html_loop_cases)
      case close
      then show ?thesis
        by (auto simp: peek_char_at pos_skip_at intro!: kind_at_intros(8))
    next
      case (escape m ch l1)
      then have b: "char_at (chars l) (pos l) = Some 92" by (simp add: peek_char_at)
      from lex_html_escape_at [OF b escape(3)] obtain e
        where e: "char_at (chars l) (Suc (pos l)) = Some e" "html_escape_char e = Some ch"
          "pos l1 = pos l + 2" "chars l1 = chars l" by blast
      have "lexer_ok l1" using ok lex_html_escape_moves [OF escape(3)] by (blast intro: moves_ok)
      with Suc.IH(3) escape(1,4) obtain ps where "k = THtmlLit (parts @ ps)"
        "html_at (chars l1) (pos l1) (buf @ utf8_char ch) ps (pos l')" by blast
      with e show ?thesis using kind_at_intros(10) [OF b e(1,2)] by auto
    next
      case (expr m l1 toks l2)
      have b: "char_at (chars l) (pos l) = Some 36" "char_at (chars l) (Suc (pos l)) = Some 123"
        using expr(2,3) by (simp_all add: peek_char_at peek_at_char_at)
      have p: "pos l1 = pos l + 2" "chars l1 = chars l" using b expr(4) pos_skip_at2 by simp_all
      have ok1: "lexer_ok l1" using ok expr(4) by (simp add: skip_ok)
      have m2: "moves l1 l2" by (rule interpolation_progress [OF expr(5)])
      from expr(1,5) have "interpolation n (pos l1, line l1, col l1) 0 [] l1 = Some (Inr (toks, l2))"
        by simp
      from Suc.IH(4) [OF this ok1] p have br: "braced_at (chars l) (pos l + 2) 0 toks (pos l2)"
        by simp
      from Suc.IH(3) expr(1,7) moves_ok [OF m2 ok1] obtain ps
        where "k = THtmlLit ((parts @ [HtmlText buf, HtmlExpr toks]) @ ps)"
          "html_at (chars l2) (pos l2) [] ps (pos l')" by blast
      with moves_chars [OF m2] p show ?thesis
        using kind_at_intros(11) [OF b br expr(6)] by auto
    next
      case (plain m c)
      then have c: "char_at (chars l) (pos l) = Some c" by (simp add: peek_char_at)
      from Suc.IH(3) plain(1,6) skip_ok [OF ok] obtain ps where "k = THtmlLit (parts @ ps)"
        "html_at (chars (skip l)) (pos (skip l)) (buf @ utf8_char c) ps (pos l')" by blast
      moreover have "html_at (chars l) (pos l) buf ps (pos l')"
        if "html_at (chars l) (Suc (pos l)) (buf @ utf8_char c) ps (pos l')" for ps
        using plain(3-5) that by (intro kind_at_intros(9) [OF c]) (auto simp: peek_at_char_at)
      ultimately show ?thesis using pos_skip_at [OF c] by auto
    qed
  next
    case 4
    note ok = 4(2)
    from 4(1) show ?case
    proof (cases rule: interpolation_cases)
      case (close m tok)
      then have "next_token n l = Some (Inr (tok, l'))" "tk_kind tok \<noteq> Eof" by simp_all
      then have "token_at (chars l) (pos l) tok (pos l')" using Suc.IH(1) ok by blast
      with close show ?thesis by (auto intro: kind_at_intros(12))
    next
      case (more m tok l1 d)
      have m: "moves l l1" using next_token_progress [OF more(2)] by blast
      have t: "token_at (chars l) (pos l) tok (pos l1)"
        using Suc.IH(1) more(1-3) ok by blast
      from Suc.IH(4) more(1,6) moves_ok [OF m ok] obtain us
        where "ts = (toks @ [tok]) @ us" "braced_at (chars l1) (pos l1) d us (pos l')" by blast
      moreover have "braced_at (chars l) (pos l) depth (tok # us) (pos l')"
        if "braced_at (chars l) (pos l1) d us (pos l')" for us
        using more(4,5) that by (intro kind_at_intros(13) [OF t]) auto
      ultimately show ?thesis using moves_chars [OF m] by auto
    qed
  }
qed

text \<open>The end marker stands at the end of the text, after trivia only.\<close>

lemma next_token_eof_at:
  assumes n: "next_token n l = Some (Inr (tok, l'))" and ok: "lexer_ok l" and e: "tk_kind tok = Eof"
  shows "trivia_at (chars l) (pos l) (length (chars l)) \<and>
    tok = Token Eof (mk_span (length (chars l)) (length (chars l))
      (line_of (chars l) (length (chars l))) (col_of (chars l) (length (chars l)))) None"
  using n
proof (cases rule: next_token_cases)
  case (eof l0)
  note m = skip_trivia_moves [OF eof(1)]
  have ok0: "lexer_ok l0" using m ok by (rule moves_ok)
  then have "pos l0 = length (chars l)"
    using eof(2) moves_chars [OF m] by (auto simp: peek_def lexer_ok_def split: if_splits)
  moreover from ok0 have "line l0 = line_of (chars l) (pos l0)" "col l0 = col_of (chars l) (pos l0)"
    using moves_chars [OF m] by (auto simp: lexer_ok_def)
  ultimately show ?thesis
    using skip_trivia_at [OF eof(1) ok] eof(4) by (simp add: mk_token_def)
next
  case (token m l0 c k l2)
  then have "k \<noteq> Eof"
    using lex_kind_step [OF token(4,3)] lex_html_progress by blast
  with token(5) e show ?thesis by simp
qed

lemma run_sound:
  "run n l toks = Some (Inr ts) \<Longrightarrow> lexer_ok l \<Longrightarrow>
     \<exists>us. ts = toks @ us \<and> stream_at (chars l) (pos l) us"
proof (induction n arbitrary: l toks)
  case (Suc n)
  obtain tok l1 where t: "next_token n l = Some (Inr (tok, l1))"
    using Suc.prems(1) by (auto split: option.splits sum.splits)
  show ?case
  proof (cases "tk_kind tok = Eof")
    case True
    with Suc.prems(1) t have "ts = toks @ [tok]" by simp
    with next_token_eof_at [OF t Suc.prems(2) True] show ?thesis by auto
  next
    case False
    have m: "moves l l1" using next_token_progress [OF t] by blast
    from False Suc.prems(1) t have "run n l1 (toks @ [tok]) = Some (Inr ts)" by simp
    from Suc.IH [OF this moves_ok [OF m Suc.prems(2)]] moves_chars [OF m] obtain us
      where us: "ts = toks @ tok # us" "stream_at (chars l) (pos l1) us" by auto
    moreover have "token_at (chars l) (pos l) tok (pos l1)"
      using lex_sound(1) [OF t Suc.prems(2) False] .
    ultimately show ?thesis by (cases us) auto
  qed
qed simp

end
