(* ===== verification/LexProps.thy ===== *)
theory LexProps
  imports LexSound
begin

text \<open>
  The promises of the front end on whole files: \<open>tokenize\<close> returns, its tokens are those
  of the grammar of \<open>LexSpec\<close>, and the version pragma is checked without moving anything.
  The section on evaluation gathers what simplification needs to run the lexer on a
  concrete file.
\<close>

section \<open>Evaluation\<close>

lemma peek_record [simp]:
  "peek \<lparr>chars = cs, pos = p, line = ln, col = cl, pending_doc = d\<rparr> =
     (if p < length cs then Some (cs ! p) else None)"
  by (simp add: peek_def)

lemmas fuel_numeral =
  next_token.simps(2) [of "pred_numeral k" for k, folded numeral_eq_Suc]
  run.simps(2) [of "pred_numeral k" for k, folded numeral_eq_Suc]
  lex_html_literal.simps(2) [of "pred_numeral k" for k, folded numeral_eq_Suc]
  html_loop.simps(2) [of "pred_numeral k" for k, folded numeral_eq_Suc]
  interpolation.simps(2) [of "pred_numeral k" for k, folded numeral_eq_Suc]

lemmas lexer_eval =
  fuel_numeral tokenize_def check_version_pragma_def trim_start_def trim_end_matches_def
  trim_def is_whitespace_def strip_prefix_def strip_suffix_def new_lexer_def mk_token_def
  lex_ident_or_keyword_def is_ident_continue_def is_ascii_alphanumeric_def
  is_ascii_alphabetic_def is_ascii_digit_def is_ident_start_def text_between_def slice_def
  utf8_def utf8_char_def keyword_from_str_def keyword_table_def lex_punct_def one_or_two_def
  cps_def skip_trivia.simps skip_def advance_def peek_at_def skip_while.simps char_of_def

section \<open>Positions through the pragma\<close>

definition same_places :: "nat list \<Rightarrow> nat list \<Rightarrow> bool" where
  "same_places cs ds \<longleftrightarrow> map not_newline cs = map not_newline ds"

lemma same_places_refl [simp]: "same_places cs cs"
  by (simp add: same_places_def)

lemma same_places_append:
  "same_places cs ds \<Longrightarrow> same_places cs' ds' \<Longrightarrow> same_places (cs @ cs') (ds @ ds')"
  by (simp add: same_places_def)

lemma same_places_take: "same_places cs ds \<Longrightarrow> same_places (take p cs) (take p ds)"
  by (simp add: same_places_def flip: take_map)

lemma filter_map_not_newline:
  "length (filter (\<lambda>c. c = 10) cs) = length (filter Not (map not_newline cs))"
  by (induction cs) (auto simp: not_newline_def)

lemma takeWhile_map_not_newline:
  "length (takeWhile (\<lambda>c. c \<noteq> 10) cs) = length (takeWhile id (map not_newline cs))"
  by (induction cs) (auto simp: not_newline_def)

lemma same_places_line: "same_places cs ds \<Longrightarrow> line_of cs p = line_of ds p"
  using same_places_take [of cs ds p]
  by (simp add: line_of_def filter_map_not_newline same_places_def)

lemma same_places_col:
  assumes "same_places cs ds"
  shows "col_of cs p = col_of ds p"
proof -
  have "map not_newline (rev (take p cs)) = map not_newline (rev (take p ds))"
    using same_places_take [OF assms, of p] by (simp add: same_places_def flip: rev_map)
  then show ?thesis by (simp add: col_of_def takeWhile_map_not_newline)
qed

lemma dropWhile_absent: "x \<notin> set xs \<Longrightarrow> dropWhile (\<lambda>c. c = x) (rev xs) = rev xs"
  by (metis (full_types) dropWhile_eq_self_iff hd_in_set set_rev)

lemma trim_end_matches_decomp: "\<exists>e. cs = trim_end_matches p cs @ e \<and> (\<forall>c \<in> set e. p c)"
proof
  let ?e = "rev (takeWhile p (rev cs))"
  have "rev cs = takeWhile p (rev cs) @ dropWhile p (rev cs)" by simp
  then have "cs = rev (dropWhile p (rev cs)) @ ?e" by (metis rev_append rev_rev_ident)
  then show "cs = trim_end_matches p cs @ ?e \<and> (\<forall>c \<in> set ?e. p c)"
    by (auto simp: trim_end_matches_def dest: set_takeWhileD)
qed

lemma split_inclusive_concat [simp]: "concat (split_inclusive d cs) = cs"
  by (induction d cs rule: split_inclusive.induct) (auto split: list.splits)

text \<open>A piece of a \<open>split_inclusive\<close> has its separator, if any, at its end only.\<close>

lemma split_inclusive_piece:
  "p \<in> set (split_inclusive d cs) \<Longrightarrow> \<exists>b e. p = b @ e \<and> d \<notin> set b \<and> (e = [] \<or> e = [d])"
proof (induction d cs arbitrary: p rule: split_inclusive.induct)
  case (2 d c cs)
  show ?case
  proof (cases "c = d \<or> p \<in> set (split_inclusive d cs)")
    case True
    moreover have "\<exists>b e. p = b @ e \<and> d \<notin> set b \<and> (e = [] \<or> e = [d])"
      if "p \<in> set (split_inclusive d cs)"
      using 2(1,2) that by (cases "c = d") simp_all
    moreover have "p = [d] \<or> p \<in> set (split_inclusive d cs)" if "c = d"
      using 2(3) that by simp
    ultimately show ?thesis by fastforce
  next
    case False
    with 2(3) consider "p = [c]" | piece pieces where
      "split_inclusive d cs = piece # pieces" "p = c # piece"
      by (cases "split_inclusive d cs") auto
    then show ?thesis
    proof cases
      case 1
      with False show ?thesis by (intro exI [of _ "[c]"] exI [of _ "[]"]) simp
    next
      case (2 piece pieces)
      have "\<exists>b e. piece = b @ e \<and> d \<notin> set b \<and> (e = [] \<or> e = [d])"
        by (rule "2.IH") (use False 2 in simp_all)
      then obtain b e where "piece = b @ e" "d \<notin> set b" "e = [] \<or> e = [d]" by blast
      then show ?thesis using False 2 by (intro exI [of _ "c # b"] exI [of _ e]) simp
    qed
  qed
qed simp

lemma trimmed_line_not_newline:
  assumes "raw \<in> set (split_inclusive 10 cs)"
  shows "10 \<notin> set (trim_end_matches (\<lambda>c. c = 13) (trim_end_matches (\<lambda>c. c = 10) raw))"
proof -
  obtain b e where r: "raw = b @ e" "10 \<notin> set b" "e = [] \<or> e = [10]"
    using split_inclusive_piece [OF assms] by blast
  have "trim_end_matches (\<lambda>c. c = 10) raw = b"
  proof -
    from r show ?thesis by (auto simp: trim_end_matches_def dropWhile_absent)
  qed
  with r(2) trim_end_matches_decomp [of b "\<lambda>c. c = 13"] show ?thesis
    by (metis UnCI set_append)
qed

lemma blank_same_places:
  "10 \<notin> set cs \<Longrightarrow> same_places cs (map blank_char cs)"
  by (induction cs) (auto simp: same_places_def not_newline_def blank_char_def)

lemma pragma_loop_places:
  "pragma_loop passed n ls = Inr clean \<Longrightarrow>
     \<forall>raw \<in> set ls. 10 \<notin> set (trim_end_matches (\<lambda>c. c = 13) (trim_end_matches (\<lambda>c. c = 10) raw)) \<Longrightarrow>
     same_places (passed @ concat ls) clean"
proof (induction passed n ls rule: pragma_loop.induct)
  case (2 passed line_no raw rest)
  let ?ln = "trim_end_matches (\<lambda>c. c = 13) (trim_end_matches (\<lambda>c. c = 10) raw)"
  let ?tr = "trim_start ?ln"
  obtain e where e: "raw = ?ln @ e"
    by (metis append.assoc trim_end_matches_decomp)
  show ?case
  proof (cases "?tr = [] \<or> take 2 ?tr = cps ''//''")
    case True
    with "2.prems"(1) have s: "pragma_loop (passed @ raw) (line_no + 1) rest = Inr clean"
      by (simp add: Let_def)
    have "same_places ((passed @ raw) @ concat rest) clean"
      by (rule "2.IH" [OF refl refl refl refl True s]) (use "2.prems"(2) in simp)
    then show ?thesis by simp
  next
    case False
    with "2.prems"(1) consider "clean = passed @ concat (raw # rest)"
      | "clean = passed @ map blank_char ?ln @ drop (length ?ln) raw @ concat rest"
      by (auto simp: Let_def results split: option.splits if_splits)
    then show ?thesis
    proof cases
      case 2
      have "same_places (?ln @ e) (map blank_char ?ln @ e)"
        using "2.prems"(2) by (intro same_places_append blank_same_places) simp_all
      moreover have "drop (length ?ln) raw = e" by (subst e) simp
      ultimately show ?thesis using e 2
        by (metis append.assoc concat.simps(2) same_places_append same_places_refl)
    qed simp
  qed
qed simp

section \<open>The pragma line\<close>

text \<open>A line, without its end, that may stand before the pragma: blank or a comment.\<close>

definition header_line :: "nat list \<Rightarrow> bool" where
  "header_line ln \<longleftrightarrow> 10 \<notin> set ln \<and>
     (let t = trim_start (trim_end_matches (\<lambda>c. c = 13) ln) in t = [] \<or> take 2 t = cps ''//'')"

definition running :: "nat \<times> nat \<times> nat" where
  "running = (1, 241, 0)"

lemma parse_compiler_version: "parse_semver compiler_version = Some running"
  by (simp add: parse_semver_def compiler_version_def running_def parse_u32_def
      parse_unsigned_def parse_digits_def digits_val_def digit_byte_def)

lemma split_inclusive_line:
  "d \<notin> set ln \<Longrightarrow> split_inclusive d (ln @ d # cs) = (ln @ [d]) # split_inclusive d cs"
  by (induction ln) auto

lemma split_inclusive_lines:
  "\<forall>h \<in> set hs. d \<notin> set h \<Longrightarrow>
     split_inclusive d (concat (map (\<lambda>h. h @ [d]) hs) @ cs) =
       map (\<lambda>h. h @ [d]) hs @ split_inclusive d cs"
  by (induction hs) (simp_all add: split_inclusive_line)

lemma trim_end_newline: "10 \<notin> set ln \<Longrightarrow> trim_end_matches (\<lambda>c. c = 10) (ln @ [10]) = ln"
  by (simp add: trim_end_matches_def dropWhile_absent)

lemma pragma_loop_header:
  "\<forall>h \<in> set hs. header_line h \<Longrightarrow>
     pragma_loop passed n (map (\<lambda>h. h @ [10]) hs @ ls) =
       pragma_loop (passed @ concat (map (\<lambda>h. h @ [10]) hs)) (n + length hs) ls"
proof (induction hs arbitrary: passed n)
  case (Cons h hs)
  then have "header_line h" by simp
  then have h: "trim_end_matches (\<lambda>c. c = 10) (h @ [10]) = h"
    "trim_start (trim_end_matches (\<lambda>c. c = 13) h) = [] \<or>
     take 2 (trim_start (trim_end_matches (\<lambda>c. c = 13) h)) = cps ''//''"
    by (simp_all add: header_line_def Let_def trim_end_newline)
  with Cons show ?case by (simp add: Let_def)
qed simp

lemma pragma_line_kept:
  assumes "10 \<notin> set (ind @ cps ''#linkc'' @ rest)" and "rest = [] \<or> last rest \<noteq> 13"
    and "\<forall>c \<in> set ind. is_whitespace c"
  shows "trim_end_matches (\<lambda>c. c = 13)
           (trim_end_matches (\<lambda>c. c = 10) ((ind @ cps ''#linkc'' @ rest) @ [10])) =
         ind @ cps ''#linkc'' @ rest"
    and "trim_start (ind @ cps ''#linkc'' @ rest) = cps ''#linkc'' @ rest"
proof -
  have "last (ind @ cps ''#linkc'' @ rest) \<noteq> 13"
    using assms(2) by (auto simp: cps_def)
  then have "dropWhile (\<lambda>c. c = 13) (rev (ind @ cps ''#linkc'' @ rest)) =
             rev (ind @ cps ''#linkc'' @ rest)"
    unfolding dropWhile_eq_self_iff hd_rev by simp
  then show "trim_end_matches (\<lambda>c. c = 13)
           (trim_end_matches (\<lambda>c. c = 10) ((ind @ cps ''#linkc'' @ rest) @ [10])) =
         ind @ cps ''#linkc'' @ rest"
    using trim_end_newline [OF assms(1)] by (simp add: trim_end_matches_def)
  have "\<not> is_whitespace 35" by (simp add: is_whitespace_def)
  then show "trim_start (ind @ cps ''#linkc'' @ rest) = cps ''#linkc'' @ rest"
    using assms(3) by (simp add: trim_start_def dropWhile_append2 cps_def)
qed

text \<open>What \<open>pragma_loop\<close> does at the line of the pragma.\<close>

definition pragma_verdict :: "nat list \<Rightarrow> nat \<Rightarrow> nat list \<Rightarrow> nat list \<Rightarrow> nat list \<Rightarrow> lex_error + nat list" where
  "pragma_verdict before n ind rest after =
     (let ln = ind @ cps ''#linkc'' @ rest;
          err = error_span (byte_len before + byte_len ind) (byte_len before + byte_len ln)
                  (n + 1) (byte_len ind + 1)
      in case parse_version_pragma rest of
           None \<Rightarrow> Inl (err (MalformedPragma (cps ''#linkc'' @ rest)))
         | Some v \<Rightarrow>
             if version_less running v then Inl (err (VersionTooOld v))
             else Inr (before @ map blank_char ln @ 10 # after))"

lemma pragma_loop_line:
  assumes "\<forall>h \<in> set hs. header_line h"
    and "10 \<notin> set (ind @ cps ''#linkc'' @ rest)" and "rest = [] \<or> last rest \<noteq> 13"
    and "\<forall>c \<in> set ind. is_whitespace c"
  defines "before \<equiv> concat (map (\<lambda>h. h @ [10]) hs)"
  shows "check_version_pragma (before @ ind @ cps ''#linkc'' @ rest @ 10 # after) =
           pragma_verdict before (length hs) ind rest after"
proof -
  define tr where "tr = cps ''#linkc'' @ rest"
  define ln where "ln = ind @ tr"
  note l = assms(2) [folded tr_def, folded ln_def]
  have kept: "trim_end_matches (\<lambda>c. c = 13) (trim_end_matches (\<lambda>c. c = 10) (ln @ [10])) = ln"
    "trim_start ln = tr"
    using pragma_line_kept [OF assms(2-4)] by (simp_all add: ln_def tr_def)
  have "split_inclusive 10 (before @ ln @ 10 # after) =
        map (\<lambda>h. h @ [10]) hs @ (ln @ [10]) # split_inclusive 10 after"
    unfolding before_def using assms(1) split_inclusive_line [OF l]
    by (subst split_inclusive_lines) (auto simp: header_line_def)
  then have c: "check_version_pragma (before @ ln @ 10 # after) =
      pragma_loop before (length hs) ((ln @ [10]) # split_inclusive 10 after)"
    using pragma_loop_header [OF assms(1)] by (simp add: check_version_pragma_def before_def)
  have t: "byte_len ln - byte_len tr = byte_len ind" "take 2 tr \<noteq> cps ''//''" "tr \<noteq> []"
    "strip_prefix (cps ''#linkc'') tr = Some rest"
    by (simp_all add: ln_def tr_def byte_len_def cps_def strip_prefix_def)
  have "check_version_pragma (before @ ln @ 10 # after) =
           pragma_verdict before (length hs) ind rest after"
    unfolding c pragma_loop.simps Let_def kept
    by (simp add: t append_eq_conv_conj [THEN iffD1, THEN conjunct2] pragma_verdict_def Let_def parse_compiler_version
        flip: ln_def tr_def split: option.split)
  then show ?thesis by (simp add: ln_def tr_def)
qed

section \<open>Properties\<close>

text \<open>
  \<open>tokenize\<close> returns on every text, with a list of tokens or a lexical error: every
  loop of the lexer, the mutual recursion of literals and interpolations included, ends.
\<close>

theorem tokenize_total: "\<exists>r. tokenize source = Some r"
  by (rule tokenize_returns)

text \<open>
  C1. When \<open>tokenize\<close> succeeds, its tokens are a stream of the grammar over the sanitised
  text: each token is spelled, by maximal munch, at its span, with line and column those of
  its start, only blanks and comments are skipped, interpolations hold the tokens of their
  own text, and the end marker stands at the end.
\<close>

theorem tokenize_sound:
  assumes "tokenize source = Some (Inr ts)"
  shows "\<exists>clean. check_version_pragma source = Inr clean \<and> stream_at clean 0 ts"
proof -
  from assms obtain clean where c: "check_version_pragma source = Inr clean"
    and r: "run (2 * length clean + 2) (new_lexer clean) [] = Some (Inr ts)"
    by (auto simp: tokenize_def split: sum.splits)
  from run_sound [OF r lexer_ok_new] c show ?thesis by (simp add: new_lexer_def)
qed

lemma tokenize_example:
  "tokenize (cps ''x == y'') =
     Some (Inr [mk_token (TIdent ''x'') (mk_span 0 1 1 1), mk_token (Pt EqEq) (mk_span 2 4 1 3),
       mk_token (TIdent ''y'') (mk_span 5 6 1 6), mk_token Eof (mk_span 6 6 1 7)])"
  by (simp add: lexer_eval bit_0)

theorem tokenize_sound_witness:
  "\<exists>clean. check_version_pragma (cps ''x == y'') = Inr clean \<and>
     stream_at clean 0
      [mk_token (TIdent ''x'') (mk_span 0 1 1 1), mk_token (Pt EqEq) (mk_span 2 4 1 3),
       mk_token (TIdent ''y'') (mk_span 5 6 1 6), mk_token Eof (mk_span 6 6 1 7)]"
  by (rule tokenize_sound [OF tokenize_example])

text \<open>
  C26. Accepting the version pragma moves nothing: the text handed to the lexer has the same
  length, and every position has the same line and column as in the file.
\<close>

theorem pragma_keeps_places:
  assumes "check_version_pragma source = Inr clean"
  shows "length clean = length source \<and>
    line_of clean p = line_of source p \<and> col_of clean p = col_of source p"
proof -
  have "same_places ([] @ concat (split_inclusive 10 source)) clean"
    using assms trimmed_line_not_newline
    by (intro pragma_loop_places) (simp_all add: check_version_pragma_def)
  then have s: "same_places source clean" by simp
  then have "length clean = length source"
    unfolding same_places_def by (metis length_map)
  with same_places_line [OF s] same_places_col [OF s] show ?thesis by simp
qed

text \<open>The pragma of the witnesses, \<open> >= "a.b.c"\<close> after \<open>#linkc\<close>.\<close>

definition at_least :: "string \<Rightarrow> nat list" where
  "at_least v = cps '' >= '' @ [34] @ cps v @ [34]"

lemma parse_at_least:
  "parse_version_pragma (at_least ''1.2.0'') = Some (1, 2, 0)"
  "parse_version_pragma (at_least ''2.0.0'') = Some (2, 0, 0)"
  by (simp_all add: at_least_def lexer_eval parse_version_pragma_def parse_semver_def
      parse_u32_def parse_unsigned_def parse_digits_def digits_val_def digit_byte_def bit_0)

lemma header_comment: "10 \<notin> set ln \<Longrightarrow> 13 \<notin> set ln \<Longrightarrow> header_line (cps ''//'' @ ln)"
proof -
  assume n: "10 \<notin> set ln" "13 \<notin> set ln"
  then have "trim_end_matches (\<lambda>c. c = 13) (cps ''//'' @ ln) = cps ''//'' @ ln"
    using dropWhile_absent [of 13 "cps ''//'' @ ln"] by (simp add: trim_end_matches_def cps_def)
  with n show ?thesis
    by (simp add: header_line_def Let_def trim_start_def cps_def is_whitespace_def)
qed

text \<open>
  The version pragma, found after blank lines and comments only, decides: a malformed
  one is an error, one that asks for a version later than the running one is an error, any
  other becomes blanks and the rest of the file is untouched.
\<close>

theorem pragma_gate:
  assumes "\<forall>h \<in> set hs. header_line h"
    and "10 \<notin> set (ind @ cps ''#linkc'' @ rest)" and "rest = [] \<or> last rest \<noteq> 13"
    and "\<forall>c \<in> set ind. is_whitespace c"
  shows "check_version_pragma
           (concat (map (\<lambda>h. h @ [10]) hs) @ ind @ cps ''#linkc'' @ rest @ 10 # after) =
         pragma_verdict (concat (map (\<lambda>h. h @ [10]) hs)) (length hs) ind rest after"
  by (rule pragma_loop_line [OF assms])

lemma at_least_line:
  "10 \<notin> set ([] @ cps ''#linkc'' @ at_least ''2.0.0'')"
  "at_least ''2.0.0'' = [] \<or> last (at_least ''2.0.0'') \<noteq> 13"
  "10 \<notin> set ([] @ cps ''#linkc'' @ at_least ''1.2.0'')"
  "at_least ''1.2.0'' = [] \<or> last (at_least ''1.2.0'') \<noteq> 13"
  by (simp_all add: at_least_def cps_def)

lemma pragma_examples:
  "pragma_verdict (cps ''//'' @ [241, 10]) 1 [] (at_least ''2.0.0'') [] =
     Inl (error_span 5 22 2 1 (VersionTooOld (2, 0, 0)))"
  "pragma_verdict [] 0 [] (at_least ''1.2.0'') [120] =
     Inr (map blank_char (cps ''#linkc'' @ at_least ''1.2.0'') @ [10, 120])"
  by (simp_all add: pragma_verdict_def Let_def parse_at_least running_def)
    (simp_all add: at_least_def cps_def byte_len_def utf8_char_def,
      simp_all add: numeral_eq_Suc)

theorem pragma_gate_witness:
  "check_version_pragma (cps ''//'' @ 241 # 10 # cps ''#linkc'' @ at_least ''2.0.0'' @ [10]) =
     Inl (error_span 5 22 2 1 (VersionTooOld (2, 0, 0)))"
  using pragma_gate [of "[cps ''//'' @ [241]]" "[]" "at_least ''2.0.0''" "[]"]
    header_comment [of "[241]"] at_least_line pragma_examples
  by simp

theorem pragma_keeps_places_witness:
  "let source = cps ''#linkc'' @ at_least ''1.2.0'' @ [10, 120];
       clean = map blank_char (cps ''#linkc'' @ at_least ''1.2.0'') @ [10, 120]
   in length clean = length source \<and>
      line_of clean 18 = line_of source 18 \<and> col_of clean 18 = col_of source 18"
proof -
  have "check_version_pragma (cps ''#linkc'' @ at_least ''1.2.0'' @ [10, 120]) =
      Inr (map blank_char (cps ''#linkc'' @ at_least ''1.2.0'') @ [10, 120])"
    using pragma_loop_line [of "[]" "[]" "at_least ''1.2.0''" "[120]"] at_least_line pragma_examples
    by simp
  from pragma_keeps_places [OF this, of 18] show ?thesis unfolding Let_def .
qed

lemma utf8_char_length: "1 \<le> length (utf8_char c)" "128 \<le> c \<Longrightarrow> 2 \<le> length (utf8_char c)"
  by (simp_all add: utf8_char_def)

lemma byte_len_ge: "length cs \<le> byte_len cs"
  by (induction cs) (auto simp: byte_len_def intro: add_mono [OF utf8_char_length(1), simplified])

lemma byte_len_gr:
  assumes "c \<in> set cs" "128 \<le> c"
  shows "length cs < byte_len cs"
proof -
  obtain a b where cs: "cs = a @ c # b" using assms(1) by (auto simp: in_set_conv_decomp)
  have "byte_len cs = byte_len a + length (utf8_char c) + byte_len b"
    by (simp add: cs byte_len_def)
  with byte_len_ge [of a] byte_len_ge [of b] utf8_char_length(2) [OF assms(2)] cs
  show ?thesis by simp
qed

text \<open>
  The span of a pragma error is counted in bytes, while every other span of the lexer
  counts characters: after a header with a character outside ASCII it starts to the right of
  the pragma it reports.
\<close>

theorem pragma_span_drift:
  assumes "\<forall>h \<in> set hs. header_line h"
    and "10 \<notin> set (cps ''#linkc'' @ rest)" and "rest = [] \<or> last rest \<noteq> 13"
    and "parse_version_pragma rest = None"
    and "c \<in> set (concat (map (\<lambda>h. h @ [10]) hs))" and "128 \<le> c"
  shows "\<exists>e. check_version_pragma
               (concat (map (\<lambda>h. h @ [10]) hs) @ cps ''#linkc'' @ rest @ 10 # after) = Inl e \<and>
             length (concat (map (\<lambda>h. h @ [10]) hs)) < sp_start (le_span e)"
  using pragma_loop_line [of hs "[]" rest after] assms(1-4) byte_len_gr [OF assms(5,6)]
  by (simp add: pragma_verdict_def Let_def error_span_def)

theorem pragma_span_drift_witness:
  "\<exists>e. check_version_pragma (cps ''//'' @ 241 # 10 # cps ''#linkc'' @ [10]) = Inl e \<and>
       4 < sp_start (le_span e)"
  using pragma_span_drift [of "[cps ''//'' @ [241]]" "[]" 241 "[]"] header_comment [of "[241]"]
  by (simp add: cps_def parse_version_pragma_def trim_start_def strip_prefix_def
      eval_nat_numeral)

text \<open>
  A lexical error may span several lines, against the comment in \<open>skip_trivia\<close> that a
  renderer can take every one for a single line: the span of an empty interpolation with a
  line break inside ends on the line after the one it starts on.
\<close>

theorem lex_error_two_lines:
  "\<exists>source e. tokenize source = Some (Inl e) \<and>
     sp_line (le_span e) < line_of source (sp_end (le_span e))"
proof (intro exI conjI)
  show "tokenize (cps ''html'' @ [96, 36, 123, 10, 125, 96]) =
      Some (Inl (error_span 7 9 1 8 EmptyInterpolation))"
    by (simp add: lexer_eval bit_0) (simp add: numeral_eq_Suc)
  show "sp_line (le_span (error_span 7 9 1 8 EmptyInterpolation)) <
      line_of (cps ''html'' @ [96, 36, 123, 10, 125, 96])
        (sp_end (le_span (error_span 7 9 1 8 EmptyInterpolation)))"
    by (simp add: error_span_def line_of_def cps_def)
qed

end
