(* ===== verification/Types.thy ===== *)
theory Types
  imports Prelude
begin

text \<open>
  Resolved types, \<open>compiler/src/types.rs\<close>: the type \<open>Type\<close> with the fields of its
  structs, how a type is written in messages, and the subtyping that the checker uses for
  every assignment, argument and result.

  The unit and name-only variants, which \<open>is_subtype\<close> compares by equality alone, are
  grouped into \<open>prim\<close> and the built-in modules into \<open>builtin\<close>. \<open>FieldType\<close>, which
  takes part in the recursion, is a datatype with selectors.
\<close>

section \<open>Types\<close>

datatype builtin =
    Math | Crypto | Http | Json | Base64 | Env | Request | Smtp | Response | Pdf | Excel | Ai
  | Mcp | Image | Background | Time | Log | Cache

datatype prim =
    IntTy | Int64 | Decimal | Timestamp | Float | String | Uuid | Html | Vector nat | Bool | Void
  | Enum string | TypeParam string | Db | Auth | Service string | Builtin builtin

datatype ty =
    Prim prim
  | Null
  | Optional ty
  | List ty
  | Tuple "ty list"
  | Function "ty list" ty
  | Struct "string option" "field_type list"
  | ResultOf ty ty
  | PatchOf ty
  | MapOf ty ty
  | Generic string "ty list"
  | Union "ty list"
  | Dynamic
  | DbCollection ty
  | DbQuery ty
and field_type = FieldType (ft_name: string) (ft_optional: bool) (ft_ty: ty)

section \<open>How a type is written\<close>

fun builtin_text :: "builtin \<Rightarrow> string" where
  "builtin_text Math = ''math''" | "builtin_text Crypto = ''crypto''"
| "builtin_text Http = ''http''" | "builtin_text Json = ''json''"
| "builtin_text Base64 = ''base64''" | "builtin_text Env = ''env''"
| "builtin_text Request = ''request''" | "builtin_text Smtp = ''smtp''"
| "builtin_text Response = ''response''" | "builtin_text Pdf = ''pdf''"
| "builtin_text Excel = ''excel''" | "builtin_text Ai = ''ai''"
| "builtin_text Mcp = ''mcp''" | "builtin_text Image = ''image''"
| "builtin_text Background = ''background''" | "builtin_text Time = ''time''"
| "builtin_text Log = ''log''" | "builtin_text Cache = ''cache''"

fun prim_text :: "prim \<Rightarrow> string" where
  "prim_text IntTy = ''Int''" | "prim_text Int64 = ''Int64''"
| "prim_text Decimal = ''Decimal''" | "prim_text Timestamp = ''Timestamp''"
| "prim_text Float = ''Float''" | "prim_text String = ''String''"
| "prim_text Uuid = ''Uuid''" | "prim_text Html = ''Html''"
| "prim_text (Vector n) = ''Vector<'' @ show_nat n @ ''>''"
| "prim_text Bool = ''Bool''" | "prim_text Void = ''Void''"
| "prim_text (Enum n) = n" | "prim_text (TypeParam n) = n"
| "prim_text Db = ''db''" | "prim_text Auth = ''auth''"
| "prim_text (Service n) = ''service '' @ n"
| "prim_text (Builtin b) = builtin_text b"

text \<open>\<open>Display for Type\<close>; the accented letter of the Spanish word is two bytes.\<close>

fun type_text :: "ty \<Rightarrow> string" and field_text :: "field_type \<Rightarrow> string" where
  "type_text (Prim p) = prim_text p"
| "type_text Null = ''null''"
| "type_text (Optional t) = type_text t @ ''?''"
| "type_text (List t) = type_text t @ ''[]''"
| "type_text (Tuple ts) = ''('' @ join '', '' (map type_text ts) @ '')''"
| "type_text (Function ps r) = ''|'' @ join '', '' (map type_text ps) @ ''| -> '' @ type_text r"
| "type_text (Struct (Some n) fs) = n"
| "type_text (Struct None fs) = ''{ '' @ join '', '' (map field_text fs) @ '' }''"
| "type_text (ResultOf t e) = ''Result<'' @ type_text t @ '', '' @ type_text e @ ''>''"
| "type_text (PatchOf t) = ''Patch<'' @ type_text t @ ''>''"
| "type_text (MapOf k t) = ''Map<'' @ type_text k @ '', '' @ type_text t @ ''>''"
| "type_text (Generic n ts) =
     (if ts = [] then n else n @ ''<'' @ join '', '' (map type_text ts) @ ''>'')"
| "type_text (Union ts) = join '' | '' (map type_text ts)"
| "type_text Dynamic = ''Dynamic''"
| "type_text (DbCollection t) =
     ''db.<colecci'' @ utf8_char 243 @ ''n de '' @ type_text t @ ''>''"
| "type_text (DbQuery t) = ''db.<consulta ordenada de '' @ type_text t @ ''>''"
| "field_text (FieldType n opt t) = n @ (if opt then ''?'' else []) @ '': '' @ type_text t"

section \<open>Subtyping\<close>

text \<open>
  \<open>is_subtype\<close>, the arms of its \<open>match\<close> in order, and \<open>params_accept\<close>. The lookup of a
  field by name takes the first field of that name.
\<close>

definition field_named :: "string \<Rightarrow> field_type list \<Rightarrow> field_type option" where
  "field_named n fs = find (\<lambda>f. ft_name f = n) fs"

lemma size_zip1: "(x, y) \<in> set (zip xs ys) \<Longrightarrow> size x < size_list size xs"
  by (drule set_zip_leftD) (induction xs, auto)

lemma size_zip2: "(x, y) \<in> set (zip xs ys) \<Longrightarrow> size y < size_list size ys"
  by (drule set_zip_rightD) (induction ys, auto)

lemma size_member: "x \<in> set xs \<Longrightarrow> size x < size_list size xs"
  by (induction xs) auto

lemma size_ft_ty: "size (ft_ty f) < size f"
  by (cases f) simp

lemma size_field: "f \<in> set fs \<Longrightarrow> size (ft_ty f) < size_list size fs"
  by (meson less_trans size_ft_ty size_member)

lemma field_named_Some: "field_named n fs = Some f \<Longrightarrow> f \<in> set fs \<and> ft_name f = n"
  by (auto simp: field_named_def find_Some_iff)

lemma size_field_named: "field_named n fs = Some f \<Longrightarrow> size (ft_ty f) < size_list size fs"
  using field_named_Some size_field by blast

lemma size_zip:
  "(x, y) \<in> set (zip xs ys) \<Longrightarrow> size x + size y < size_list size xs + size_list size ys"
  by (meson add_strict_mono size_zip1 size_zip2)

lemma size_fields:
  "f \<in> set fs \<Longrightarrow> field_named n gs = Some g \<Longrightarrow>
     size (ft_ty f) + size (ft_ty g) < size_list size fs + size_list size gs"
  by (meson add_strict_mono size_field size_field_named)

definition is_optional :: "ty \<Rightarrow> bool" where
  "is_optional t = (case t of Optional _ \<Rightarrow> True | _ \<Rightarrow> False)"

function is_subtype :: "ty \<Rightarrow> ty \<Rightarrow> bool" and params_accept :: "ty list \<Rightarrow> ty list \<Rightarrow> bool" where
  "is_subtype sub super \<longleftrightarrow>
     (if sub = super then True
      else case (sub, super) of
        (Dynamic, _) \<Rightarrow> True
      | (_, Dynamic) \<Rightarrow> True
      | (Null, Optional _) \<Rightarrow> True
      | (Optional a, Optional b) \<Rightarrow> is_subtype a b
      | (a, Optional b) \<Rightarrow> is_subtype sub b
      | (List a, List b) \<Rightarrow> is_subtype a b
      | (Tuple a, Tuple b) \<Rightarrow>
          length a = length b \<and> list_all (\<lambda>(x, y). is_subtype x y) (zip a b)
      | (ResultOf a1 b1, ResultOf a2 b2) \<Rightarrow> is_subtype a1 a2 \<and> is_subtype b1 b2
      | (PatchOf a, PatchOf b) \<Rightarrow> is_subtype a b
      | (Struct _ sub_fields, PatchOf inner) \<Rightarrow>
          (case inner of
             Struct _ inner_fields \<Rightarrow>
               list_all (\<lambda>sub_f.
                 case field_named (ft_name sub_f) inner_fields of
                   Some inner_f \<Rightarrow>
                     is_subtype (ft_ty sub_f) (ft_ty inner_f) \<or>
                     (is_optional (ft_ty inner_f) \<and> is_subtype (ft_ty sub_f) Null)
                 | None \<Rightarrow> False) sub_fields
           | _ \<Rightarrow> False)
      | (MapOf k1 v1, MapOf k2 v2) \<Rightarrow> is_subtype k1 k2 \<and> is_subtype v1 v2
      | (Function p1 r1, Function p2 r2) \<Rightarrow> params_accept p2 p1 \<and> is_subtype r1 r2
      | (Struct _ sub_fields, Struct _ sup_fields) \<Rightarrow>
          list_all (\<lambda>sup_f.
            case field_named (ft_name sup_f) sub_fields of
              Some sub_f \<Rightarrow>
                (ft_optional sup_f \<or> \<not> ft_optional sub_f) \<and>
                is_subtype (ft_ty sub_f) (ft_ty sup_f)
            | None \<Rightarrow> ft_optional sup_f) sup_fields
      | (Union members, _) \<Rightarrow> list_all (\<lambda>m. is_subtype m super) members
      | (_, Union members) \<Rightarrow> list_ex (\<lambda>m. is_subtype sub m) members
      | _ \<Rightarrow> False)"
| "params_accept expected candidate \<longleftrightarrow>
     length expected = length candidate \<and>
     list_all (\<lambda>(e, c). is_subtype e c) (zip expected candidate)"
  by pat_completeness auto

termination
  by (relation "measure (\<lambda>x. case x of Inl (a, b) \<Rightarrow> size a + size b
        | Inr (es, cs) \<Rightarrow> size_list size es + size_list size cs)")
    (auto dest: size_zip size_fields size_field size_member)

declare is_subtype.simps [simp del] params_accept.simps [simp del]

section \<open>The arms\<close>

lemma is_subtype_refl [simp]: "is_subtype t t"
  by (simp add: is_subtype.simps)

lemma is_subtype_Dynamic [simp]: "is_subtype Dynamic t" "is_subtype t Dynamic"
  by (simp_all add: is_subtype.simps split: ty.split)

lemma is_subtype_Optional [simp]: "is_subtype Null (Optional b)"
  by (simp add: is_subtype.simps)

lemma is_subtype_Optional_Optional [simp]:
  "is_subtype (Optional a) (Optional b) \<longleftrightarrow> a = b \<or> is_subtype a b"
  by (subst is_subtype.simps) simp

lemma is_subtype_widen:
  assumes "a \<noteq> Null" "\<nexists>a'. a = Optional a'" "a \<noteq> Dynamic"
  shows "is_subtype a (Optional b) \<longleftrightarrow> is_subtype a b"
  using assms by (subst is_subtype.simps) (auto split: ty.split)

lemma is_subtype_arms [simp]:
  "is_subtype (List a) (List b) \<longleftrightarrow> is_subtype a b"
  "is_subtype (ResultOf a1 b1) (ResultOf a2 b2) \<longleftrightarrow> is_subtype a1 a2 \<and> is_subtype b1 b2"
  "is_subtype (MapOf a1 b1) (MapOf a2 b2) \<longleftrightarrow> is_subtype a1 a2 \<and> is_subtype b1 b2"
  "is_subtype (PatchOf a) (PatchOf b) \<longleftrightarrow> is_subtype a b"
  by (subst is_subtype.simps; force)+

lemma list_all2_zip:
  "list_all2 P xs ys \<longleftrightarrow> length xs = length ys \<and> list_all (\<lambda>(x, y). P x y) (zip xs ys)"
  by (auto simp: list_all2_iff list_all_iff)

lemma params_accept_list: "params_accept es cs \<longleftrightarrow> list_all2 is_subtype es cs"
  by (simp add: params_accept.simps list_all2_zip)

lemma list_all2_subtype_refl [simp]: "list_all2 is_subtype ts ts"
  by (simp add: list_all2_conv_all_nth)

lemma is_subtype_Tuple [simp]: "is_subtype (Tuple as) (Tuple bs) \<longleftrightarrow> list_all2 is_subtype as bs"
  by (subst is_subtype.simps) (auto simp flip: list_all2_zip)

lemma is_subtype_Function [simp]:
  "is_subtype (Function p1 r1) (Function p2 r2) \<longleftrightarrow>
     list_all2 is_subtype p2 p1 \<and> is_subtype r1 r2"
  by (subst is_subtype.simps) (auto simp: params_accept_list)

definition field_sub :: "field_type list \<Rightarrow> field_type \<Rightarrow> bool" where
  "field_sub sub_fields super_f =
     (case field_named (ft_name super_f) sub_fields of
        Some sub_f \<Rightarrow>
          (ft_optional super_f \<or> \<not> ft_optional sub_f) \<and>
          is_subtype (ft_ty sub_f) (ft_ty super_f)
      | None \<Rightarrow> ft_optional super_f)"

lemma is_subtype_Struct:
  "is_subtype (Struct n fs) (Struct m gs) \<longleftrightarrow>
     n = m \<and> fs = gs \<or> list_all (field_sub fs) gs"
  by (subst is_subtype.simps, simp add: field_sub_def [abs_def]) blast

lemma is_subtype_Union_left:
  assumes "\<nexists>b. t = Optional b" "t \<noteq> Dynamic"
  shows "is_subtype (Union ms) t \<longleftrightarrow> Union ms = t \<or> list_all (\<lambda>m. is_subtype m t) ms"
  using assms by (subst is_subtype.simps) (auto split: ty.split)

lemma is_subtype_Union_right:
  assumes "\<nexists>ms'. t = Union ms'" "t \<noteq> Dynamic"
  shows "is_subtype t (Union ms) \<longleftrightarrow> list_ex (\<lambda>m. is_subtype t m) ms"
  using assms by (subst is_subtype.simps) (auto split: ty.split)

definition field_patch :: "field_type list \<Rightarrow> field_type \<Rightarrow> bool" where
  "field_patch inner_fields sub_f =
     (case field_named (ft_name sub_f) inner_fields of
        Some inner_f \<Rightarrow>
          is_subtype (ft_ty sub_f) (ft_ty inner_f) \<or>
          (is_optional (ft_ty inner_f) \<and> is_subtype (ft_ty sub_f) Null)
      | None \<Rightarrow> False)"

text \<open>The arm by which two types are related.\<close>

inductive arm :: "ty \<Rightarrow> ty \<Rightarrow> bool" where
  eq: "arm t t"
| dynamic: "s = Dynamic \<or> t = Dynamic \<Longrightarrow> arm s t"
| null: "arm Null (Optional b)"
| both: "is_subtype a b \<Longrightarrow> arm (Optional a) (Optional b)"
| widen: "s \<noteq> Null \<Longrightarrow> \<nexists>a. s = Optional a \<Longrightarrow> is_subtype s b \<Longrightarrow> arm s (Optional b)"
| list: "is_subtype a b \<Longrightarrow> arm (List a) (List b)"
| tuple: "list_all2 is_subtype as bs \<Longrightarrow> arm (Tuple as) (Tuple bs)"
| result: "is_subtype a c \<Longrightarrow> is_subtype b d \<Longrightarrow> arm (ResultOf a b) (ResultOf c d)"
| patch: "is_subtype a b \<Longrightarrow> arm (PatchOf a) (PatchOf b)"
| struct_patch: "list_all (field_patch gs) fs \<Longrightarrow> arm (Struct n fs) (PatchOf (Struct m gs))"
| map: "is_subtype a c \<Longrightarrow> is_subtype b d \<Longrightarrow> arm (MapOf a b) (MapOf c d)"
| closure: "list_all2 is_subtype qs ps \<Longrightarrow> is_subtype r q \<Longrightarrow> arm (Function ps r) (Function qs q)"
| struct: "list_all (field_sub fs) gs \<Longrightarrow> arm (Struct n fs) (Struct m gs)"
| union_left: "\<nexists>b. t = Optional b \<Longrightarrow> list_all (\<lambda>m. is_subtype m t) ms \<Longrightarrow> arm (Union ms) t"
| union_right: "\<nexists>ls. s = Union ls \<Longrightarrow> list_ex (\<lambda>m. is_subtype s m) ms \<Longrightarrow> arm s (Union ms)"

lemma is_subtype_arm: "is_subtype s t \<Longrightarrow> arm s t"
proof (cases "s = t \<or> s = Dynamic \<or> t = Dynamic")
  case True
  then show ?thesis using arm.eq arm.dynamic by blast
next
  case False
  assume "is_subtype s t"
  with False have u: "case (s, t) of
        (Null, Optional _) \<Rightarrow> True
      | (Optional a, Optional b) \<Rightarrow> is_subtype a b
      | (a, Optional b) \<Rightarrow> is_subtype s b
      | (List a, List b) \<Rightarrow> is_subtype a b
      | (Tuple a, Tuple b) \<Rightarrow> list_all2 is_subtype a b
      | (ResultOf a1 b1, ResultOf a2 b2) \<Rightarrow> is_subtype a1 a2 \<and> is_subtype b1 b2
      | (PatchOf a, PatchOf b) \<Rightarrow> is_subtype a b
      | (Struct _ fs, PatchOf (Struct _ gs)) \<Rightarrow> list_all (field_patch gs) fs
      | (MapOf k1 v1, MapOf k2 v2) \<Rightarrow> is_subtype k1 k2 \<and> is_subtype v1 v2
      | (Function p1 r1, Function p2 r2) \<Rightarrow> list_all2 is_subtype p2 p1 \<and> is_subtype r1 r2
      | (Struct _ fs, Struct _ gs) \<Rightarrow> list_all (field_sub fs) gs
      | (Union ms, _) \<Rightarrow> list_all (\<lambda>m. is_subtype m t) ms
      | (_, Union ms) \<Rightarrow> list_ex (\<lambda>m. is_subtype s m) ms
      | _ \<Rightarrow> False"
    by (subst (asm) is_subtype.simps)
      (simp add: params_accept_list field_sub_def [abs_def] field_patch_def [abs_def]
        flip: list_all2_zip split: ty.splits)
  then show ?thesis using False
    by (cases s; cases t; simp split: ty.splits)
      (blast intro: arm.intros)+
qed

end
