(* ===== verification/TypeValues.thy ===== *)
theory TypeValues
  imports Types
begin

text \<open>
  The specification of subtyping: the values that a type has.
\<close>

section \<open>What subtyping promises\<close>

text \<open>
  The specification: the values of a type. A structure may carry fields that its type does
  not name; an optional field may be absent; a value of an opaque type (a closure, an
  instance of a declared generic, a query) carries its type.
\<close>

datatype val =
    VPrim prim string
  | VNull
  | VList "val list"
  | VTuple "val list"
  | VStruct "(string \<times> val) list"
  | VOk val
  | VErr val
  | VMap "(val \<times> val) list"
  | VOpaque ty

function (sequential) inhabits :: "ty \<Rightarrow> val \<Rightarrow> bool" and field_ok :: "field_type \<Rightarrow> (string \<times> val) list \<Rightarrow> bool" where
  "inhabits (Prim p) v = (case v of VPrim q _ \<Rightarrow> p = q | _ \<Rightarrow> False)"
| "inhabits Null v = (v = VNull)"
| "inhabits (Optional t) v = (v = VNull \<or> inhabits t v)"
| "inhabits (List t) v = (case v of VList vs \<Rightarrow> list_all (inhabits t) vs | _ \<Rightarrow> False)"
| "inhabits (Tuple ts) v =
     (case v of
        VTuple vs \<Rightarrow> length ts = length vs \<and> list_all (\<lambda>(t, u). inhabits t u) (zip ts vs)
      | _ \<Rightarrow> False)"
| "inhabits (Struct n fs) v =
     (case v of VStruct kvs \<Rightarrow> list_all (\<lambda>f. field_ok f kvs) fs | _ \<Rightarrow> False)"
| "inhabits (ResultOf t e) v =
     (case v of VOk u \<Rightarrow> inhabits t u | VErr u \<Rightarrow> inhabits e u | _ \<Rightarrow> False)"
| "inhabits (MapOf k t) v =
     (case v of VMap kvs \<Rightarrow> list_all (\<lambda>(x, y). inhabits k x \<and> inhabits t y) kvs | _ \<Rightarrow> False)"
| "inhabits (PatchOf t) v =
     (case t of
        Struct n fs \<Rightarrow>
          (case v of
             VStruct kvs \<Rightarrow> list_all (\<lambda>f. map_of kvs (ft_name f) = None \<or> field_ok f kvs) fs
           | _ \<Rightarrow> False)
      | _ \<Rightarrow> False)"
| "inhabits (Union ts) v = list_ex (\<lambda>t. inhabits t v) ts"
| "inhabits Dynamic v = True"
| "inhabits (Function ps r) v = (v = VOpaque (Function ps r))"
| "inhabits (Generic n ts) v = (v = VOpaque (Generic n ts))"
| "inhabits (DbCollection t) v = (v = VOpaque (DbCollection t))"
| "inhabits (DbQuery t) v = (v = VOpaque (DbQuery t))"
| "field_ok (FieldType n opt t) kvs =
     (case map_of kvs n of Some u \<Rightarrow> inhabits t u | None \<Rightarrow> opt)"
  by pat_completeness auto

termination
  by (relation "measure (case_sum (size \<circ> fst) (size \<circ> fst))")
    (auto dest: size_zip1 size_member)

text \<open>No \<open>Dynamic\<close> inside.\<close>

fun static :: "ty \<Rightarrow> bool" and static_field :: "field_type \<Rightarrow> bool" where
  "static (Optional t) = static t"
| "static (List t) = static t"
| "static (Tuple ts) = list_all static ts"
| "static (Struct n fs) = list_all static_field fs"
| "static (ResultOf t e) = (static t \<and> static e)"
| "static (MapOf k t) = (static k \<and> static t)"
| "static (PatchOf t) = static t"
| "static (Union ts) = list_all static ts"
| "static (Function ps r) = (list_all static ps \<and> static r)"
| "static Dynamic = False"
| "static _ = True"
| "static_field (FieldType n opt t) = static t"

text \<open>
  Types whose values a structural supertype can be trusted with: no \<open>Dynamic\<close>, no optional
  field, no \<open>Patch\<close>, no function.
\<close>

fun rigid :: "ty \<Rightarrow> bool" and rigid_field :: "field_type \<Rightarrow> bool" where
  "rigid (Optional t) = rigid t"
| "rigid (List t) = rigid t"
| "rigid (Tuple ts) = list_all rigid ts"
| "rigid (Struct n fs) = list_all rigid_field fs"
| "rigid (ResultOf t e) = (rigid t \<and> rigid e)"
| "rigid (MapOf k t) = (rigid k \<and> rigid t)"
| "rigid (Union ts) = list_all rigid ts"
| "rigid Dynamic = False"
| "rigid (PatchOf t) = False"
| "rigid (Function ps r) = False"
| "rigid _ = True"
| "rigid_field (FieldType n opt t) = (\<not> opt \<and> rigid t)"

lemma field_ok_FieldType:
  "field_ok f kvs \<longleftrightarrow>
     (case map_of kvs (ft_name f) of Some u \<Rightarrow> inhabits (ft_ty f) u | None \<Rightarrow> ft_optional f)"
  by (cases f) (simp split: option.split)

lemma static_field_ty: "static_field f \<longleftrightarrow> static (ft_ty f)"
  by (cases f) simp

lemma rigid_field_ty: "rigid_field f \<longleftrightarrow> \<not> ft_optional f \<and> rigid (ft_ty f)"
  by (cases f) simp

lemma inhabits_Tuple: "inhabits (Tuple ts) (VTuple vs) \<longleftrightarrow> list_all2 inhabits ts vs"
  by (simp add: list_all2_zip)

text \<open>A field of the subtype's structure covers the field of the same name.\<close>

lemma field_sub_ok:
  assumes "field_sub fs g" "rigid_field g" "list_all static_field fs"
    and "list_all (\<lambda>f. field_ok f kvs) fs"
    and "\<And>f u. f \<in> set fs \<Longrightarrow> is_subtype (ft_ty f) (ft_ty g) \<Longrightarrow> static (ft_ty f) \<Longrightarrow>
           rigid (ft_ty g) \<Longrightarrow> inhabits (ft_ty f) u \<Longrightarrow> inhabits (ft_ty g) u"
  shows "field_ok g kvs"
proof -
  from assms(1,2) obtain f where f: "field_named (ft_name g) fs = Some f" "\<not> ft_optional f"
    "is_subtype (ft_ty f) (ft_ty g)"
    by (auto simp: field_sub_def rigid_field_ty split: option.splits)
  then have m: "f \<in> set fs" "ft_name f = ft_name g" using field_named_Some by blast+
  with assms(3,4) f(2) obtain u where "map_of kvs (ft_name g) = Some u" "inhabits (ft_ty f) u"
    "static (ft_ty f)"
    by (auto simp: list_all_iff field_ok_FieldType static_field_ty split: option.splits)
  with assms(2) assms(5) [OF m(1) f(3)] show ?thesis
    by (simp add: field_ok_FieldType rigid_field_ty)
qed

lemma subtype_sound:
  "is_subtype s t \<Longrightarrow> static s \<Longrightarrow> rigid t \<Longrightarrow> inhabits s v \<Longrightarrow> inhabits t v"
proof (induction "size s + size t" arbitrary: s t v rule: less_induct)
  case less
  note IH = less.hyps [OF _ _ _ _]
  from is_subtype_arm [OF less.prems(1)] show ?case
  proof cases
    case (list a b)
    with less.prems obtain vs where v: "v = VList vs" "list_all (inhabits a) vs"
      by (auto split: val.splits)
    have "list_all (inhabits b) vs"
      using v(2) by (rule list.pred_mono_strong) (use list less.prems IH [of a b] in auto)
    with list v show ?thesis by simp
  next
    case (tuple as bs)
    with less.prems obtain vs where v: "v = VTuple vs" "list_all2 inhabits as vs"
      by (auto simp: list_all2_zip split: val.splits)
    have "inhabits (bs ! i) (vs ! i)" if i: "i < length bs" for i
    proof (rule IH [of "as ! i" "bs ! i"])
      have l: "length as = length bs" using tuple by (simp add: list_all2_lengthD)
      show "size (as ! i) + size (bs ! i) < size s + size t"
        using size_member [OF nth_mem, of i as] size_member [OF nth_mem, of i bs] i l tuple by simp
      show "is_subtype (as ! i) (bs ! i)" "static (as ! i)" "rigid (bs ! i)"
        using tuple less.prems i l by (simp_all add: list_all2_nthD2 list_all_length)
      show "inhabits (as ! i) (vs ! i)" using v i l by (simp add: list_all2_nthD)
    qed
    then have "list_all2 inhabits bs vs"
      using v tuple by (auto simp: list_all2_conv_all_nth)
    with tuple v show ?thesis by (simp only: inhabits_Tuple)
  next
    case (map a c b d)
    with less.prems obtain kvs where v: "v = VMap kvs"
      "list_all (\<lambda>(x, y). inhabits a x \<and> inhabits b y) kvs"
      by (auto split: val.splits)
    have "list_all (\<lambda>(x, y). inhabits c x \<and> inhabits d y) kvs"
      using v(2) by (rule list.pred_mono_strong)
        (use map less.prems IH [of a c] IH [of b d] in auto)
    with map v show ?thesis by simp
  next
    case (struct fs gs n m)
    with less.prems obtain kvs where v: "v = VStruct kvs" "list_all (\<lambda>f. field_ok f kvs) fs"
      by (auto split: val.splits)
    have "field_ok g kvs" if g: "g \<in> set gs" for g
    proof (rule field_sub_ok [OF _ _ _ v(2)])
      show "field_sub fs g" "rigid_field g" "list_all static_field fs"
        using struct less.prems g by (auto simp: list_all_iff)
      show "inhabits (ft_ty g) u"
        if "f \<in> set fs" "is_subtype (ft_ty f) (ft_ty g)" "static (ft_ty f)" "rigid (ft_ty g)"
          "inhabits (ft_ty f) u" for f u
        using that size_field [OF that(1)] size_field [OF g] struct
        by (intro IH [of "ft_ty f" "ft_ty g"]) simp_all
    qed
    with struct v show ?thesis by (simp add: list_all_iff)
  next
    case (union_left ms)
    with less.prems(4) obtain a where a: "a \<in> set ms" "inhabits a v"
      by (auto simp: list_ex_iff)
    with union_left less.prems show ?thesis
      using IH [of a t] size_member [OF a(1)] by (auto simp: list_all_iff)
  next
    case (union_right ms)
    then obtain a where a: "a \<in> set ms" "is_subtype s a" by (auto simp: list_ex_iff)
    with union_right less.prems size_member [OF a(1)] have "inhabits a v"
      by (intro IH [of s a]) (auto simp: list_all_iff)
    with a union_right show ?thesis by (auto simp: list_ex_iff)
  next
    case (widen b)
    with less.prems IH [of s b] show ?thesis by simp
  next
    case (both a b)
    with less.prems IH [of a b] show ?thesis by auto
  next
    case (result a c b d)
    with less.prems IH [of a c] IH [of b d] show ?thesis by (auto split: val.splits)
  qed (use less.prems in auto)
qed

end
