(* ===== verification/TypeProps.thy ===== *)
theory TypeProps
  imports TypeValues
begin

text \<open>
  The promises of \<open>is_subtype\<close>: values keep their type along subtyping, and subtyping is
  transitive, on the types where the rules for structures make that true; and the examples
  that show why the restriction is needed.
\<close>

section \<open>Building a subtyping\<close>

lemma is_subtype_Optional_intro:
  "s \<noteq> Null \<Longrightarrow> \<nexists>a. s = Optional a \<Longrightarrow> is_subtype s b \<Longrightarrow> is_subtype s (Optional b)"
  by (cases "s = Dynamic") (simp_all add: is_subtype_widen)

lemma is_subtype_Union_left_intro:
  "\<nexists>b. t = Optional b \<Longrightarrow> list_all (\<lambda>m. is_subtype m t) ms \<Longrightarrow> is_subtype (Union ms) t"
  by (cases "t = Dynamic") (simp_all add: is_subtype_Union_left)

lemma is_subtype_Union_right_intro:
  "\<nexists>ls. s = Union ls \<Longrightarrow> m \<in> set ms \<Longrightarrow> is_subtype s m \<Longrightarrow> is_subtype s (Union ms)"
  by (cases "s = Dynamic") (auto simp: is_subtype_Union_right list_ex_iff)

text \<open>
  Four facts proved together by induction on size: an optional type is above, every member
  of a union on the left is below, and a member of a union on the right may be replaced by
  the union.
\<close>

lemma subtype_shapes:
  shows "size x + size c = n \<Longrightarrow> is_subtype x c \<Longrightarrow> is_subtype x (Optional c)"
    and "size x + size c = n \<Longrightarrow> is_subtype (Optional x) c \<Longrightarrow> is_subtype x c"
    and "size (Union ls) + size c = n \<Longrightarrow> is_subtype (Union ls) c \<Longrightarrow> m \<in> set ls \<Longrightarrow> is_subtype m c"
    and "size x + size m + 1 = n \<Longrightarrow> is_subtype x m \<Longrightarrow> m \<in> set ms \<Longrightarrow> is_subtype x (Union ms)"
proof (induction n arbitrary: x c ls m ms rule: less_induct)
  case (less n)
  note W = less.IH(1) [OF _ refl] and L1 = less.IH(2) [OF _ refl]
    and L2 = less.IH(3) [OF _ refl] and R = less.IH(4) [OF _ refl]
  {
    case 1
    then show ?case
    proof (cases x)
      case (Optional a)
      with 1 show ?thesis using L1 [of a c] by simp
    qed (use 1 is_subtype_Optional_intro [of x c] in simp_all)
  next
    case 2
    from is_subtype_arm [OF 2(2)] show ?case
    proof cases
      case eq
      with 2 W [of x x] show ?thesis by simp
    next
      case (both b)
      with 2 W [of x b] show ?thesis by simp
    next
      case (union_right ls)
      then obtain k where k: "k \<in> set ls" "is_subtype (Optional x) k" by (auto simp: list_ex_iff)
      with union_right 2 size_member [OF k(1)] show ?thesis
        using L1 [of x k] R [of x k ls] by simp
    qed simp_all
  next
    case 3
    from is_subtype_arm [OF 3(2)] show ?case
    proof cases
      case eq
      with 3 size_member [OF 3(3)] show ?thesis using R [of m m ls] by simp
    next
      case (widen b)
      with 3 size_member [OF 3(3)] show ?thesis using L2 [of ls b m] W [of m b] by simp
    next
      case union_left
      with 3 show ?thesis by (simp add: list_all_iff)
    qed simp_all
  next
    case 4
    show ?case
    proof (cases "\<exists>ls. x = Union ls")
      case True
      then obtain ls where x: "x = Union ls" ..
      have "is_subtype k (Union ms)" if k: "k \<in> set ls" for k
        using 4 x k size_member [OF k] L2 [of ls m k] R [of k m ms] by simp
      then have "is_subtype (Union ls) (Union ms)"
        by (intro is_subtype_Union_left_intro) (simp_all add: list_all_iff)
      with x show ?thesis by simp
    next
      case False
      with 4 show ?thesis by (blast intro: is_subtype_Union_right_intro)
    qed
  }
qed

lemmas subtype_optional = subtype_shapes(1) [OF refl]
  and subtype_Union_member = subtype_shapes(3) [OF refl]
  and subtype_Union = subtype_shapes(4) [OF refl]

section \<open>Transitivity\<close>

text \<open>No \<open>Dynamic\<close>, no \<open>Patch\<close>, no optional field, no \<open>null\<close> as a member of a union.\<close>

fun strict :: "ty \<Rightarrow> bool" and strict_field :: "field_type \<Rightarrow> bool" where
  "strict (Optional t) = strict t"
| "strict (List t) = strict t"
| "strict (Tuple ts) = list_all strict ts"
| "strict (Function ps r) = (list_all strict ps \<and> strict r)"
| "strict (Struct n fs) = list_all strict_field fs"
| "strict (ResultOf t e) = (strict t \<and> strict e)"
| "strict (MapOf k t) = (strict k \<and> strict t)"
| "strict (Union ts) = (Null \<notin> set ts \<and> list_all strict ts)"
| "strict Dynamic = False"
| "strict (PatchOf t) = False"
| "strict _ = True"
| "strict_field (FieldType n opt t) = (\<not> opt \<and> strict t)"

lemma strict_field_ty: "strict_field f \<longleftrightarrow> \<not> ft_optional f \<and> strict (ft_ty f)"
  by (cases f) simp

inductive_cases arm_to_Null: "arm x Null"
inductive_cases arm_to_Optional: "arm x (Optional b)"
inductive_cases arm_of_Optional: "arm (Optional b) c"
inductive_cases arm_of_Struct: "arm (Struct n fs) c"

text \<open>Below \<open>null\<close> there are only unions with nothing in them.\<close>

lemma below_Null:
  "is_subtype x Null \<Longrightarrow> x \<noteq> Null \<Longrightarrow> strict x \<Longrightarrow> is_subtype x c"
proof (induction "size x + size c" arbitrary: x c rule: less_induct)
  case less
  obtain ms where x: "x = Union ms" "list_all (\<lambda>m. is_subtype m Null) ms"
    using is_subtype_arm [OF less.prems(1)] less.prems(2,3) by (elim arm_to_Null) auto
  show ?case
  proof (cases "\<exists>b. c = Optional b")
    case True
    then obtain b where c: "c = Optional b" ..
    have "is_subtype x b" by (rule less.hyps) (use less.prems c in simp_all)
    with c show ?thesis by (simp add: subtype_optional)
  next
    case False
    have "is_subtype m c" if m: "m \<in> set ms" for m
      by (rule less.hyps) (use less.prems x m size_member [OF m] in \<open>auto simp: list_all_iff\<close>)
    with x False show ?thesis
      by (simp add: is_subtype_Union_left_intro list_all_iff)
  qed
qed

text \<open>The ways up from a type that is neither optional nor a union.\<close>

lemma field_sub_trans:
  assumes "field_sub gs h" "strict_field h" "\<And>g. g \<in> set gs \<Longrightarrow> field_sub fs g"
    and "\<And>f g. f \<in> set fs \<Longrightarrow> g \<in> set gs \<Longrightarrow> is_subtype (ft_ty f) (ft_ty g) \<Longrightarrow>
           is_subtype (ft_ty g) (ft_ty h) \<Longrightarrow> is_subtype (ft_ty f) (ft_ty h)"
  shows "field_sub fs h"
proof -
  from assms(1,2) obtain g where g: "field_named (ft_name h) gs = Some g" "\<not> ft_optional g"
    "is_subtype (ft_ty g) (ft_ty h)"
    by (auto simp: field_sub_def strict_field_ty split: option.splits)
  then have m: "g \<in> set gs" "ft_name g = ft_name h" using field_named_Some by blast+
  from assms(3) [OF m(1)] g(2) obtain f where f: "field_named (ft_name h) fs = Some f"
    "\<not> ft_optional f" "is_subtype (ft_ty f) (ft_ty g)"
    by (auto simp: field_sub_def m(2) split: option.splits)
  have "f \<in> set fs" using f(1) field_named_Some by blast
  from assms(4) [OF this m(1) f(3) g(3)] f(1,2) assms(2) show ?thesis
    by (simp add: field_sub_def)
qed

text \<open>
  Types with the same head, the case of transitivity that is left when optional types and
  unions are out of the way.
\<close>

lemma subtype_trans_heads:
  assumes "is_subtype a b" "is_subtype b c" "strict a" "strict b" "strict c"
    and "\<nexists>t. b = Optional t" "\<nexists>t. c = Optional t" "\<nexists>ts. a = Union ts" "\<nexists>ts. b = Union ts"
      "\<nexists>ts. c = Union ts"
    and IH: "\<And>x y z. is_subtype x y \<Longrightarrow> is_subtype y z \<Longrightarrow>
      size x + size y + size z < size a + size b + size c \<Longrightarrow> strict x \<Longrightarrow> strict y \<Longrightarrow> strict z \<Longrightarrow> is_subtype x z"
  shows "is_subtype a c"
proof -
  have all2: "list_all2 is_subtype as cs"
    if "list_all2 is_subtype as bs" "list_all2 is_subtype bs cs"
      "size_list size as + size_list size bs + size_list size cs < size a + size b + size c"
      "list_all strict as" "list_all strict bs" "list_all strict cs" for as bs cs
  proof (rule list_all2_all_nthI)
    show l: "length as = length cs" using that by (simp add: list_all2_lengthD)
    fix i assume i: "i < length as"
    then have "i < length bs" "i < length cs" using that l by (auto simp: list_all2_lengthD)
    then show "is_subtype (as ! i) (cs ! i)"
      using i that l size_member [OF nth_mem, of i as] size_member [OF nth_mem, of i bs]
        size_member [OF nth_mem, of i cs]
      by - (rule IH [of "as ! i" "bs ! i"], simp_all add: list_all2_nthD list_all_length)
  qed
  from is_subtype_arm [OF assms(1)] show ?thesis
  proof cases
    case eq
    with assms show ?thesis by simp
  next
    case (list a' b')
    from is_subtype_arm [OF assms(2)] this show ?thesis using assms(3-) by cases (auto elim!: IH)
  next
    case (tuple as bs)
    from is_subtype_arm [OF assms(2)] this show ?thesis using assms(3-) by cases (auto elim!: all2)
  next
    case (result a1 b1 a2 b2)
    from is_subtype_arm [OF assms(2)] this show ?thesis using assms(3-) by cases (auto elim!: IH)
  next
    case (map a1 b1 a2 b2)
    from is_subtype_arm [OF assms(2)] this show ?thesis using assms(3-) by cases (auto elim!: IH)
  next
    case (closure qs ps r q)
    from is_subtype_arm [OF assms(2)] this show ?thesis using assms(3-) by cases (auto elim!: IH all2)
  next
    case (struct fs gs n m)
    note ab = this
    have "c = b \<or> (\<exists>m' hs. c = Struct m' hs \<and> list_all (field_sub gs) hs)"
      using is_subtype_arm [OF assms(2)] assms(4,5,7,10) ab by (auto elim!: arm_of_Struct)
    then show ?thesis
    proof (elim disjE exE conjE)
      assume "c = b"
      with ab show ?thesis by (simp add: is_subtype_Struct)
    next
      fix m' hs assume c: "c = Struct m' hs" "list_all (field_sub gs) hs"
      have "field_sub fs h" if h: "h \<in> set hs" for h
      proof (rule field_sub_trans [of gs h fs])
        show "is_subtype (ft_ty f) (ft_ty h)"
          if "f \<in> set fs" "g \<in> set gs" "is_subtype (ft_ty f) (ft_ty g)"
            "is_subtype (ft_ty g) (ft_ty h)" for f g
          using that(3,4)
          by (rule IH) (use that(1,2) h ab c assms(3-5) size_field [OF that(1)]
            size_field [OF that(2)] size_field [OF h] in \<open>auto simp: list_all_iff strict_field_ty\<close>)
      qed (use h ab c assms(3-5) in \<open>auto simp: list_all_iff\<close>)
      with ab c show ?thesis by (simp add: is_subtype_Struct list_all_iff)
    qed
  qed (use assms in auto)
qed

text \<open>Subtyping is transitive on strict types.\<close>

lemma subtype_trans_strict:
  "is_subtype a b \<Longrightarrow> is_subtype b c \<Longrightarrow> strict a \<Longrightarrow> strict b \<Longrightarrow> strict c \<Longrightarrow> is_subtype a c"
proof (induction "size a + size b + size c" arbitrary: a b c rule: less_induct)
  case less
  note ab = is_subtype_arm [OF less.prems(1)] and bc = is_subtype_arm [OF less.prems(2)]
  have nodyn: "a \<noteq> Dynamic" "b \<noteq> Dynamic" "c \<noteq> Dynamic" using less.prems by auto
  have below: ?case if "\<exists>d. c = Optional d \<and> is_subtype b d"
  proof -
    from that obtain d where d: "c = Optional d" "is_subtype b d" by blast
    have "is_subtype a d" by (rule less.hyps [of a b d]) (use d less.prems in simp_all)
    with d show ?thesis by (simp add: subtype_optional)
  qed
  consider (opt) d where "c = Optional d" | (left) as where "a = Union as" "\<nexists>d. c = Optional d"
    | (mid) bs where "b = Union bs" "\<nexists>d. c = Optional d" "\<nexists>as. a = Union as"
    | (right) ms where "c = Union ms" "\<nexists>as. a = Union as" "\<nexists>bs. b = Union bs"
    | (heads) "\<nexists>d. c = Optional d" "\<nexists>as. a = Union as" "\<nexists>bs. b = Union bs" "\<nexists>ms. c = Union ms"
    by metis
  then show ?case
  proof cases
    case (opt d)
    consider "b = Null" | b' where "b = Optional b'" | "b \<noteq> Null" "\<nexists>b'. b = Optional b'" by blast
    then show ?thesis
    proof cases
      case 1
      with less.prems opt show ?thesis by (cases "a = Null") (auto intro: below_Null)
    next
      case (2 b')
      with bc opt nodyn have "b' = d \<or> is_subtype b' d" by (auto elim: arm_to_Optional)
      then have bd: "is_subtype b' d" by auto
      have step: "is_subtype x d" if "is_subtype x b'" "size x \<le> size a" "strict x" for x
        by (rule less.hyps [OF _ that(1) bd]) (use less.prems 2 opt that in simp_all)
      from ab 2 nodyn consider "a = Optional b'" | "a = Null" | a' where "a = Optional a'" "is_subtype a' b'"
        | "is_subtype a b'"
        by (auto elim: arm_to_Optional)
      then show ?thesis
      proof cases
        case 4
        with step [of a] less.prems opt show ?thesis by (simp add: subtype_optional)
      qed (use bd opt step less.prems in auto)
    next
      case 3
      with bc opt nodyn below show ?thesis by (auto elim: arm_to_Optional)
    qed
  next
    case (left as)
    show ?thesis
    proof (cases "a = b \<or> b = Null")
      case True
      with less.prems left show ?thesis by (auto intro: below_Null)
    next
      case False
      have "is_subtype m c" if m: "m \<in> set as" for m
        by (rule less.hyps [of m b c])
          (use less.prems m left size_member [OF m] subtype_Union_member [of as b m] in
            \<open>auto simp: list_all_iff\<close>)
      with left show ?thesis by (simp add: is_subtype_Union_left_intro list_all_iff)
    qed
  next
    case (mid bs)
    with less.prems(1) nodyn obtain m where m: "m \<in> set bs" "is_subtype a m"
      by (auto simp: is_subtype_Union_right list_ex_iff)
    show ?thesis
      by (rule less.hyps [of a m c])
        (use less.prems m mid size_member [OF m(1)] subtype_Union_member [of bs c m] in
          \<open>auto simp: list_all_iff\<close>)
  next
    case (right ms)
    with less.prems(2) nodyn obtain m where m: "m \<in> set ms" "is_subtype b m"
      by (auto simp: is_subtype_Union_right list_ex_iff)
    have "is_subtype a m"
      by (rule less.hyps [of a b m])
        (use less.prems m right size_member [OF m(1)] in \<open>auto simp: list_all_iff\<close>)
    with m right show ?thesis by (simp add: subtype_Union)
  next
    case heads
    show ?thesis
    proof (cases "\<exists>b'. b = Optional b'")
      case True
      with bc heads nodyn show ?thesis by (auto elim: arm_of_Optional)
    next
      case False
      show ?thesis
        by (rule subtype_trans_heads [OF less.prems(1,2)])
          (use less.prems heads False less.hyps in auto)
    qed
  qed
qed

section \<open>Properties\<close>

text \<open>
  C12. Subtyping is safe for values: on types without \<open>Dynamic\<close>, and a supertype without
  functions, patches and optional fields, every value of a subtype is a value of the
  supertype, through structures of other widths, tuples, maps, results and unions.
\<close>

theorem subtype_safe:
  assumes "is_subtype s t" "static s" "rigid t" "inhabits s v"
  shows "inhabits t v"
  by (rule subtype_sound [OF assms])

definition point :: ty where
  "point = Struct (Some ''P'') [FieldType ''x'' False (Prim IntTy), FieldType ''y'' False (Prim String)]"

definition only_x :: ty where
  "only_x = Struct None [FieldType ''x'' False (Union [Prim IntTy, Prim Bool])]"

definition a_point :: val where
  "a_point = VStruct [(''x'', VPrim IntTy ''1''), (''y'', VPrim String ''s'')]"

lemmas example_types = point_def only_x_def a_point_def

lemma point_only_x: "is_subtype point only_x"
  by (simp add: example_types is_subtype_Struct field_sub_def field_named_def is_subtype_Union_right)

theorem subtype_safe_witness:
  "inhabits (Optional (List only_x)) (VList [a_point])"
proof (rule subtype_safe)
  show "is_subtype (List point) (Optional (List only_x))"
    by (simp add: is_subtype_widen point_only_x)
qed (simp_all add: example_types)

text \<open>
  C24. Subtyping is transitive on types without \<open>Dynamic\<close>, patches, optional fields and
  \<open>null\<close> members of unions: what flows through an intermediate annotation may flow
  directly.
\<close>

theorem subtype_transitive:
  assumes "is_subtype a b" "is_subtype b c" "strict a" "strict b" "strict c"
  shows "is_subtype a c"
  by (rule subtype_trans_strict [OF assms])

theorem subtype_transitive_witness:
  "is_subtype (List point) (Optional (List only_x))"
proof (rule subtype_transitive)
  show "is_subtype (List point) (List only_x)" by (simp add: point_only_x)
  show "is_subtype (List only_x) (Optional (List only_x))" by (simp add: is_subtype_widen)
qed (simp_all add: example_types)

text \<open>
  A function type is a subtype only in the safe direction: the arguments that the
  expected type promises to pass are values of the parameters of the function that is used,
  and its results are values of the expected result.
\<close>

theorem function_subtype_safe:
  assumes "is_subtype (Function ps r) (Function qs q)"
    and "list_all static qs" "list_all rigid ps" "static r" "rigid q"
    and vs: "list_all2 inhabits qs vs" and v: "inhabits r v"
  shows "length qs = length ps \<and> list_all2 inhabits ps vs \<and> inhabits q v"
proof (intro conjI)
  have sub: "list_all2 is_subtype qs ps" "is_subtype r q" using assms(1) by simp_all
  then show l: "length qs = length ps" by (simp add: list_all2_lengthD)
  show "inhabits q v"
    using subtype_sound [OF sub(2)] assms(4,5) v by blast
  show "list_all2 inhabits ps vs"
  proof (rule list_all2_all_nthI)
    show "length ps = length vs" using l list_all2_lengthD [OF vs] by simp
    show "inhabits (ps ! i) (vs ! i)" if i: "i < length ps" for i
      using subtype_sound [of "qs ! i" "ps ! i" "vs ! i"] sub(1) vs assms(2,3) i l
      by (simp add: list_all2_nthD list_all_length)
  qed
qed

theorem function_subtype_safe_witness:
  "length [point] = length [only_x] \<and> list_all2 inhabits [only_x] [a_point] \<and> inhabits only_x a_point"
  by (rule function_subtype_safe [of _ point])
    (simp_all add: point_only_x, simp_all add: example_types)

text \<open>
  Optional fields make subtyping lose both: the type with a text field \<open>y\<close> is below the
  type without \<open>y\<close>, which is below the type where \<open>y\<close> is an optional number; the first is
  not below the last, and a value of the first is no value of the last.
\<close>

theorem optional_field_gap:
  "\<exists>a b c v. is_subtype a b \<and> is_subtype b c \<and> \<not> is_subtype a c \<and>
     inhabits a v \<and> inhabits b v \<and> \<not> inhabits c v"
proof (intro exI conjI)
  let ?b = "Struct None [FieldType ''x'' False (Prim IntTy)]"
  let ?c = "Struct None [FieldType ''x'' False (Prim IntTy), FieldType ''y'' True (Prim IntTy)]"
  have p: "\<not> is_subtype (Prim String) (Prim IntTy)" by (simp add: is_subtype.simps)
  show "is_subtype point ?b" "is_subtype ?b ?c"
    by (simp_all add: example_types is_subtype_Struct field_sub_def field_named_def)
  show "\<not> is_subtype point ?c"
    by (simp add: example_types is_subtype_Struct field_sub_def field_named_def p)
  show "inhabits point a_point" "inhabits ?b a_point" "\<not> inhabits ?c a_point"
    by (simp_all add: example_types)
qed

text \<open>
  The text of a type does not determine it: a list of a union is written as the union
  whose last member is a list.
\<close>

theorem type_text_ambiguous:
  "\<exists>a b. type_text a = type_text b \<and> a \<noteq> b \<and> \<not> is_subtype a b \<and> \<not> is_subtype b a"
proof (intro exI conjI)
  let ?a = "List (Union [Prim IntTy, Prim String])" and ?b = "Union [Prim IntTy, List (Prim String)]"
  show "type_text ?a = type_text ?b" "?a \<noteq> ?b" by simp_all
  have n: "\<not> is_subtype (Prim IntTy) (Prim String)" "\<not> is_subtype (Prim IntTy) (List t)"
    "\<not> is_subtype (List t) (Prim p)" for t p
    by (simp_all add: is_subtype.simps)
  show "\<not> is_subtype ?a ?b" "\<not> is_subtype ?b ?a"
    by (simp_all add: is_subtype_Union_right is_subtype_Union_left n)
qed

end
