(* ===== verification/Durations.thy ===== *)
theory Durations
  imports Prelude
begin

text \<open>
  The durations that annotations carry: \<open>parse_interval\<close> of \<open>cron.rs\<close>, \<open>parse_ttl\<close> of
  \<open>cache.rs\<close> and \<open>RateLimitSpec::parse\<close> of \<open>rate_limit.rs\<close> (all in \<open>compiler/src\<close>). A
  text is its list of code points; a duration is its number of seconds. The products are
  taken modulo \<open>2 ^ 64\<close>, as a release build computes them.
\<close>

datatype duration_error =
    BadFormat
  | PanicBoundary \<comment> \<open>not an error of the source: \<open>split_at\<close> inside a character panics\<close>

text \<open>\<open>raw.split_at(raw.len() - 1)\<close> on a text that is not empty.\<close>

definition split_last :: "nat list \<Rightarrow> duration_error + (nat list \<times> nat)" where
  "split_last raw = (if last raw < 128 then Inr (butlast raw, last raw) else Inl PanicBoundary)"

definition mul_u64 :: "nat \<Rightarrow> nat \<Rightarrow> nat" where
  "mul_u64 a b = (a * b) mod 2 ^ 64"

definition parse_interval :: "nat list \<Rightarrow> duration_error + nat" where
  "parse_interval raw =
     (if raw = [] then Inl BadFormat
      else rbind (split_last raw) (\<lambda>(num_str, unit).
           rbind (ok_or BadFormat (parse_u64 (utf8 num_str))) (\<lambda>num.
             if num = 0 then Inl BadFormat
             else if unit = code CHR ''s'' then Inr num
             else if unit = code CHR ''m'' then Inr (mul_u64 num 60)
             else if unit = code CHR ''h'' then Inr (mul_u64 num 3600)
             else if unit = code CHR ''d'' then Inr (mul_u64 num 86400)
             else Inl BadFormat)))"

text \<open>\<open>parse_ttl\<close> repeats the code of \<open>parse_interval\<close>.\<close>

definition parse_ttl :: "nat list \<Rightarrow> duration_error + nat" where
  "parse_ttl raw =
     (if raw = [] then Inl BadFormat
      else rbind (split_last raw) (\<lambda>(num_str, unit).
           rbind (ok_or BadFormat (parse_u64 (utf8 num_str))) (\<lambda>num.
             if num = 0 then Inl BadFormat
             else if unit = code CHR ''s'' then Inr num
             else if unit = code CHR ''m'' then Inr (mul_u64 num 60)
             else if unit = code CHR ''h'' then Inr (mul_u64 num 3600)
             else if unit = code CHR ''d'' then Inr (mul_u64 num 86400)
             else Inl BadFormat)))"

record rate_limit_spec =
  rl_count :: nat
  rl_window :: nat

definition parse_rate_limit :: "nat list \<Rightarrow> duration_error + rate_limit_spec" where
  "parse_rate_limit raw =
     rbind (ok_or BadFormat (split_once (code CHR ''/'') raw)) (\<lambda>(count_str, window_str).
     rbind (ok_or BadFormat (parse_u32 (utf8 count_str))) (\<lambda>count.
       if count = 0 then Inl BadFormat
       else if window_str = [] then Inl BadFormat
       else rbind (split_last window_str) (\<lambda>(num_str, unit).
            rbind (if num_str = [] then Inr 1 else ok_or BadFormat (parse_u64 (utf8 num_str)))
              (\<lambda>num.
              if num = 0 then Inl BadFormat
              else if unit = code CHR ''s'' then Inr \<lparr>rl_count = count, rl_window = num\<rparr>
              else if unit = code CHR ''m''
                then Inr \<lparr>rl_count = count, rl_window = mul_u64 num 60\<rparr>
              else if unit = code CHR ''h''
                then Inr \<lparr>rl_count = count, rl_window = mul_u64 num 3600\<rparr>
              else Inl BadFormat))))"

section \<open>Printed numbers\<close>

text \<open>The code points of a printed number parse back.\<close>

lemma show_nat_ascii: "c \<in> set (show_nat n) \<Longrightarrow> code c < 128"
  using show_nat_digits [of n] by (auto simp: list_all_iff digit_byte_def)

lemma utf8_cps: "\<forall>c \<in> set s. code c < 128 \<Longrightarrow> utf8 (cps s) = s"
  by (simp add: cps_def utf8_ascii map_idI)

lemma utf8_show_nat [simp]: "utf8 (cps (show_nat n)) = show_nat n"
  by (rule utf8_cps) (use show_nat_ascii in blast)

lemma show_nat_no_plus: "take 1 (show_nat n) \<noteq> ''+''"
proof
  assume "take 1 (show_nat n) = ''+''"
  then have "CHR ''+'' \<in> set (show_nat n)" by (metis in_set_takeD list.set_intros(1))
  with show_nat_digits [of n] show False by (auto simp: list_all_iff digit_byte_def)
qed

lemma parse_unsigned_show: "parse_unsigned bound (show_nat n) = (if n \<le> bound then Some n else None)"
  using show_nat_no_plus [of n] by (simp add: parse_unsigned_def)

section \<open>Properties\<close>

text \<open>The units in seconds.\<close>

definition unit_seconds :: "char \<Rightarrow> nat option" where
  "unit_seconds u =
     (if u = CHR ''s'' then Some 1 else if u = CHR ''m'' then Some 60
      else if u = CHR ''h'' then Some 3600 else if u = CHR ''d'' then Some 86400 else None)"

text \<open>
  A number of seconds, minutes, hours or days parses to its length: printed as \<open>n\<close> and
  a unit it yields \<open>n\<close> units, as long as the seconds fit in 64 bits, for \<open>@cron\<close> and
  \<open>@cache\<close> alike.
\<close>

theorem duration_round_trip:
  assumes "unit_seconds u = Some k" "0 < n" "n * k < 2 ^ 64"
  shows "parse_interval (cps (show_nat n @ [u])) = Inr (n * k) \<and>
         parse_ttl (cps (show_nat n @ [u])) = Inr (n * k)"
proof -
  have "n < 2 ^ 64"
  proof (rule le_less_trans [OF _ assms(3)])
    show "n \<le> n * k" using assms(1) by (auto simp: unit_seconds_def split: if_splits)
  qed
  then have "parse_u64 (show_nat n) = Some n"
    by (simp add: parse_u64_def parse_unsigned_show)
  moreover have "cps (show_nat n @ [u]) = cps (show_nat n) @ [code u]" "cps (show_nat n) \<noteq> []"
    by (simp_all add: cps_def)
  ultimately show ?thesis
    using assms
    by (auto simp: parse_interval_def parse_ttl_def split_last_def unit_seconds_def mul_u64_def
        split: if_splits)
qed

theorem duration_round_trip_witness:
  "parse_interval (cps (show_nat 5 @ [CHR ''m''])) = Inr (5 * 60) \<and>
   parse_ttl (cps (show_nat 5 @ [CHR ''m''])) = Inr (5 * 60)"
  by (rule duration_round_trip) (simp_all add: unit_seconds_def)

text \<open>
  A text whose last character is not ASCII makes the parsers of \<open>@cron\<close>, \<open>@cache\<close> and
  \<open>@rate_limit\<close> panic instead of reporting the format.
\<close>

theorem duration_panics:
  assumes "128 \<le> c"
  shows "parse_interval (raw @ [c]) = Inl PanicBoundary \<and> parse_ttl (raw @ [c]) = Inl PanicBoundary"
  using assms by (simp add: parse_interval_def parse_ttl_def split_last_def)

theorem duration_panics_witness:
  "parse_interval (cps ''5'' @ [241]) = Inl PanicBoundary \<and> parse_ttl (cps ''5'' @ [241]) = Inl PanicBoundary"
  by (rule duration_panics) simp

text \<open>
  A number of units beyond 64 bits wraps: the longest interval one can write may be a
  short one, down to zero seconds.
\<close>

theorem duration_wraps:
  "\<exists>n < 2 ^ 64. 0 < n \<and> parse_interval (cps (show_nat n @ [CHR ''d''])) = Inr 0"
proof (intro exI conjI)
  let ?n = "2 ^ 57 :: nat"
  show "?n < 2 ^ 64" "0 < ?n" by simp_all
  have "parse_u64 (show_nat ?n) = Some ?n"
    by (simp add: parse_u64_def parse_unsigned_show)
  moreover have "cps (show_nat ?n @ [CHR ''d'']) = cps (show_nat ?n) @ [100]" "cps (show_nat ?n) \<noteq> []"
    by (simp_all add: cps_def)
  ultimately show "parse_interval (cps (show_nat ?n @ [CHR ''d''])) = Inr 0"
    by (simp add: parse_interval_def split_last_def mul_u64_def)
qed

end
