(* ===== verification/Timestamp.thy ===== *)
theory Timestamp
  imports Prelude
begin

text \<open>
  Dates and instants, \<open>compiler/src/runtime/timestamp.rs\<close>: the conversion between days
  since 1970-01-01 and the proleptic Gregorian calendar, the fixed ISO 8601 form in both
  directions, the binary forms of PostgreSQL, the two forms of the AWS signature and
  \<open>dateFromParts\<close>. An instant is an \<open>i64\<close> of milliseconds; the wrap-around is written
  out in the two functions that can leave the range.
\<close>

section \<open>The calendar\<close>

definition ms_per_day :: int where "ms_per_day = 86400000"
definition ms_per_hour :: int where "ms_per_hour = 3600000"
definition ms_per_min :: int where "ms_per_min = 60000"
definition ms_per_sec :: int where "ms_per_sec = 1000"

lemmas ms_defs = ms_per_day_def ms_per_hour_def ms_per_min_def ms_per_sec_def

definition days_from_civil :: "int \<Rightarrow> int \<Rightarrow> int \<Rightarrow> int" where
  "days_from_civil y m d =
     (let y = y - (if m \<le> 2 then 1 else 0);
          era = tdiv (if 0 \<le> y then y else y - 399) 400;
          yoe = y - era * 400;
          doy = tdiv (153 * (m + (if 2 < m then - 3 else 9)) + 2) 5 + d - 1;
          doe = yoe * 365 + tdiv yoe 4 - tdiv yoe 100 + doy
      in era * 146097 + doe - 719468)"

definition civil_from_days :: "int \<Rightarrow> int \<times> int \<times> int" where
  "civil_from_days z =
     (let z = z + 719468;
          era = tdiv (if 0 \<le> z then z else z - 146096) 146097;
          doe = z - era * 146097;
          yoe = tdiv (doe - tdiv doe 1460 + tdiv doe 36524 - tdiv doe 146096) 365;
          y = yoe + era * 400;
          doy = doe - (365 * yoe + tdiv yoe 4 - tdiv yoe 100);
          mp = tdiv (5 * doy + 2) 153;
          d = doy - tdiv (153 * mp + 2) 5 + 1;
          m = mp + (if mp < 10 then 3 else - 9)
      in (y + (if m \<le> 2 then 1 else 0), m, d))"

text \<open>The calendar itself, the specification of the two.\<close>

definition leap :: "int \<Rightarrow> bool" where
  "leap y \<longleftrightarrow> y mod 4 = 0 \<and> (y mod 100 \<noteq> 0 \<or> y mod 400 = 0)"

definition days_in_month :: "int \<Rightarrow> int \<Rightarrow> int" where
  "days_in_month y m =
     (if m = 2 then (if leap y then 29 else 28)
      else if m \<in> {4, 6, 9, 11} then 30 else 31)"

definition valid_date :: "int \<Rightarrow> int \<Rightarrow> int \<Rightarrow> bool" where
  "valid_date y m d \<longleftrightarrow> 1 \<le> m \<and> m \<le> 12 \<and> 1 \<le> d \<and> d \<le> days_in_month y m"

text \<open>\<open>if x >= 0 { x } else { x - (n - 1) } / n\<close> is the floor.\<close>

lemma tdiv_floor:
  assumes "0 < n" "k = n - 1"
  shows "tdiv (if 0 \<le> x then x else x - k) n = x div n"
proof (cases "0 \<le> x")
  case True
  with assms show ?thesis by (simp add: tdiv_nonneg)
next
  case False
  have "- ((n - 1 - x) div n) = x div n"
  proof -
    have "(n - 1 - x) div n = - (x div n)"
    proof (rule int_div_pos_eq [where r = "n - 1 - x mod n"])
      show "n - 1 - x = n * (- (x div n)) + (n - 1 - x mod n)"
        unfolding mult_minus_right using mult_div_mod_eq [of n x] by linarith
      show "0 \<le> n - 1 - x mod n" using pos_mod_bound [OF assms(1), of x] by simp
      show "n - 1 - x mod n < n" using pos_mod_sign [OF assms(1), of x] by simp
    qed
    then show ?thesis by simp
  qed
  with False assms(1) show ?thesis unfolding assms(2) by (simp add: tdiv_def algebra_simps)
qed

section \<open>Years of an era\<close>

text \<open>
  A year of an era of 400 years starts in March; year \<open>y\<close> of an era has the days
  \<open>year_start y\<close> before it, and day 365 only when February has a 29th.
\<close>

definition year_start :: "int \<Rightarrow> int" where
  "year_start y = 365 * y + y div 4 - y div 100"

lemma year_start_parts:
  fixes c q r :: int
  assumes "0 \<le> q" "q < 25" "0 \<le> r" "r < 4" "0 \<le> c"
  shows "(100 * c + 4 * q + r) div 4 = 25 * c + q" "(100 * c + 4 * q + r) div 100 = c"
    "year_start (100 * c + 4 * q + r) = 36524 * c + 1461 * q + 365 * r"
proof -
  show a: "(100 * c + 4 * q + r) div 4 = 25 * c + q"
    by (rule int_div_pos_eq [where r = r]) (use assms in simp_all)
  show b: "(100 * c + 4 * q + r) div 100 = c"
    by (rule int_div_pos_eq [where r = "4 * q + r"]) (use assms in simp_all)
  show "year_start (100 * c + 4 * q + r) = 36524 * c + 1461 * q + 365 * r"
    unfolding year_start_def a b by simp
qed

lemma year_of_day:
  fixes c q r doy :: int
  assumes "0 \<le> c" "c < 4" "0 \<le> q" "q < 25" "0 \<le> r" "r < 4" "0 \<le> doy" "doy \<le> 365"
    and leap: "doy = 365 \<longrightarrow> r = 3 \<and> (q = 24 \<longrightarrow> c = 3)"
  defines "doe \<equiv> 36524 * c + 1461 * q + 365 * r + doy"
  shows "(doe - doe div 1460 + doe div 36524 - doe div 146096) div 365 = 100 * c + 4 * q + r"
    and "0 \<le> doe" "doe \<le> 146096"
proof -
  define e where "e = 1461 * q + 365 * r + doy"
  have e: "0 \<le> e" "e \<le> 36524" "e = 36524 \<longrightarrow> c = 3" and doe: "doe = 36524 * c + e"
    using assms by (auto simp: e_def)
  then show "0 \<le> doe" "doe \<le> 146096" using assms by auto
  have cent: "doe div 36524 - doe div 146096 = c"
  proof (cases "e = 36524")
    case True
    with e doe show ?thesis by simp
  next
    case False
    then have "doe div 36524 = c" using e doe by (intro int_div_pos_eq [where r = e]) simp_all
    moreover have "doe div 146096 = 0" using False e doe assms by (intro div_pos_pos_trivial) auto
    ultimately show ?thesis by simp
  qed
  define k where "k = (24 * c + q + 365 * r + doy) div 1460"
  have "doe div 1460 = 25 * c + q + k"
    unfolding k_def doe e_def
    by (subst div_mult_self2 [of 1460 "24 * c + q + 365 * r + doy" "25 * c + q", symmetric])
      (simp_all add: algebra_simps)
  then have inner: "doe - doe div 1460 + doe div 36524 - doe div 146096 =
      365 * (100 * c + 4 * q + r) + (doy - k)"
    using cent by (simp add: doe e_def)
  have w: "0 \<le> 24 * c + q + 365 * r + doy" "24 * c + q + 365 * r + doy < 2920"
    using assms(1-8) by linarith+
  have "k = (if 1460 \<le> 24 * c + q + 365 * r + doy then 1 else 0)"
    unfolding k_def using w int_div_pos_eq [of "24 * c + q + 365 * r + doy" 1460 1]
    by (auto simp: div_pos_pos_trivial)
  then have "0 \<le> doy - k" "doy - k < 365" using assms by auto
  then show "(doe - doe div 1460 + doe div 36524 - doe div 146096) div 365 = 100 * c + 4 * q + r"
    unfolding inner by (intro int_div_pos_eq [where r = "doy - k"]) simp_all
qed

lemma year_split:
  fixes y :: int
  assumes "0 \<le> y" "y < 400"
  obtains c q r where "y = 100 * c + 4 * q + r" "0 \<le> c" "c < 4" "0 \<le> q" "q < 25" "0 \<le> r" "r < 4"
proof (rule that [of "y div 100" "y mod 100 div 4" "y mod 4"])
  have "y mod 100 mod 4 = y mod 4" by (rule mod_mod_cancel) simp
  then show "y = 100 * (y div 100) + 4 * (y mod 100 div 4) + y mod 4"
    using mult_div_mod_eq [of 100 y] mult_div_mod_eq [of 4 "y mod 100"] by linarith
qed (use assms in \<open>auto simp: div_less_iff_less_mult\<close>)

lemma mod_of_sum: "(y::int) = z + k * n \<Longrightarrow> y mod n = z mod n"
  by simp

text \<open>Leap years in the terms of an era.\<close>

lemma leap_era:
  fixes c q r :: int
  assumes "0 \<le> c" "c < 4" "0 \<le> q" "q < 25" "0 \<le> r" "r < 4"
  shows "leap (era * 400 + (100 * c + 4 * q + r) + 1) \<longleftrightarrow> r = 3 \<and> (q = 24 \<longrightarrow> c = 3)"
proof -
  define y where "y = era * 400 + (100 * c + 4 * q + r) + 1"
  have "y mod 4 = (r + 1) mod 4"
    unfolding y_def by (rule mod_of_sum [where k = "100 * era + 25 * c + q"]) simp
  moreover have "(r + 1) mod 4 = (if r = 3 then 0 else r + 1)"
    using assms by auto
  moreover have "y mod 100 = (4 * q + r + 1) mod 100"
    unfolding y_def by (rule mod_of_sum [where k = "4 * era + c"]) simp
  moreover have "y mod 400 = (100 * c + 4 * q + r + 1) mod 400"
    unfolding y_def by (rule mod_of_sum [where k = era]) simp
  moreover have "(4 * q + r + 1) mod 100 = (if q = 24 \<and> r = 3 then 0 else 4 * q + r + 1)"
    using assms by auto
  moreover have "(100 * c + 4 * q + r + 1) mod 400 =
      (if c = 3 \<and> q = 24 \<and> r = 3 then 0 else 100 * c + 4 * q + r + 1)"
    using assms by auto
  ultimately show ?thesis
    unfolding leap_def y_def [symmetric] using assms by (auto split: if_splits)
qed

lemma day_split:
  fixes doe :: int
  assumes "0 \<le> doe" "doe \<le> 146096"
  obtains c q r doy where "doe = 36524 * c + 1461 * q + 365 * r + doy" "0 \<le> c" "c < 4"
    "0 \<le> q" "q < 25" "0 \<le> r" "r < 4" "0 \<le> doy" "doy \<le> 365"
    "doy = 365 \<longrightarrow> r = 3 \<and> (q = 24 \<longrightarrow> c = 3)"
proof -
  define c where "c = min 3 (doe div 36524)"
  define e where "e = doe - 36524 * c"
  have c: "0 \<le> c" "c < 4" using assms by (auto simp: c_def div_int_pos_iff)
  have e: "0 \<le> e" "e \<le> 36524" "e = 36524 \<longrightarrow> c = 3"
    using assms pos_mod_bound [of 36524 doe] mult_div_mod_eq [of 36524 doe]
      pos_mod_sign [of 36524 doe]
    by (auto simp: e_def c_def min_def)
  define q where "q = e div 1461"
  define f where "f = e mod 1461"
  have q: "0 \<le> q" "q < 25" "e = 1461 * q + f" "0 \<le> f" "f < 1461"
    using e by (auto simp: q_def f_def div_less_iff_less_mult)
  define r where "r = min 3 (f div 365)"
  define doy where "doy = f - 365 * r"
  have r: "0 \<le> r" "r < 4" using q by (auto simp: r_def div_int_pos_iff)
  have doy: "0 \<le> doy" "doy \<le> 365" "doy = 365 \<longrightarrow> r = 3"
    using q pos_mod_bound [of 365 f] mult_div_mod_eq [of 365 f] pos_mod_sign [of 365 f]
    by (auto simp: doy_def r_def min_def)
  show thesis
  proof (rule that [of c q r doy])
    show "doy = 365 \<longrightarrow> r = 3 \<and> (q = 24 \<longrightarrow> c = 3)"
      using doy q e by (auto simp: doy_def)
  qed (use c q r doy in \<open>simp_all add: doy_def e_def\<close>)
qed

section \<open>Months of a year\<close>

definition month_len :: "int \<Rightarrow> int" where
  "month_len mp = (if mp = 11 then 29 else if mp \<in> {1, 3, 6, 8} then 30 else 31)"

lemma month_cases:
  "0 \<le> mp \<Longrightarrow> mp \<le> 11 \<Longrightarrow> mp \<in> {0, 1, 2, 3, 4, 5, 6, 7, 8, 9, 10, 11 :: int}"
  by (simp, presburger)

lemma month_of_day:
  assumes "0 \<le> mp" "mp \<le> 11" "1 \<le> d" "d \<le> month_len mp"
  defines "doy \<equiv> (153 * mp + 2) div 5 + d - 1"
  shows "(5 * doy + 2) div 153 = mp" "0 \<le> doy" "doy \<le> 365" "doy = 365 \<longleftrightarrow> mp = 11 \<and> d = 29"
proof -
  show "(5 * doy + 2) div 153 = mp"
    using month_cases [OF assms(1,2)] assms(3,4)
    by (intro int_div_pos_eq [where r = "5 * doy + 2 - 153 * mp"])
      (auto simp: doy_def month_len_def)
  show "0 \<le> doy" "doy \<le> 365" "doy = 365 \<longleftrightarrow> mp = 11 \<and> d = 29"
    using month_cases [OF assms(1,2)] assms(3,4) by (auto simp: doy_def month_len_def)
qed

lemma day_of_month:
  fixes doy :: int
  assumes "0 \<le> doy" "doy \<le> 365"
  defines "mp \<equiv> (5 * doy + 2) div 153"
  defines "d \<equiv> doy - (153 * mp + 2) div 5 + 1"
  shows "0 \<le> mp" "mp \<le> 11" "1 \<le> d" "d \<le> month_len mp"
proof -
  show mp: "0 \<le> mp" "mp \<le> 11" using assms(1,2) by (auto simp: mp_def div_int_pos_iff)
  have "153 * mp \<le> 5 * doy + 2" "5 * doy + 2 < 153 * mp + 153"
    using mult_div_mod_eq [of 153 "5 * doy + 2"] pos_mod_bound [of 153 "5 * doy + 2"]
      pos_mod_sign [of 153 "5 * doy + 2"] by (simp_all add: mp_def)
  then show "1 \<le> d" "d \<le> month_len mp"
    using month_cases [OF mp] assms(1,2) by (auto simp: d_def month_len_def)
qed

section \<open>The two conversions\<close>

definition march_month :: "int \<Rightarrow> int" where
  "march_month m = (if 2 < m then m - 3 else m + 9)"

definition march_year :: "int \<Rightarrow> int \<Rightarrow> int" where
  "march_year y m = (if m \<le> 2 then y - 1 else y)"

lemma days_from_civil_floor:
  assumes "1 \<le> m" "m \<le> 12"
  shows "days_from_civil y m d =
    march_year y m div 400 * 146097 + year_start (march_year y m mod 400) +
    ((153 * march_month m + 2) div 5 + d - 1) - 719468"
proof -
  let ?y = "y - (if m \<le> 2 then 1 else 0)"
  have y: "?y = march_year y m" by (simp add: march_year_def)
  have "tdiv (if 0 \<le> ?y then ?y else ?y - 399) 400 = ?y div 400"
    by (rule tdiv_floor) simp_all
  moreover have "?y - ?y div 400 * 400 = ?y mod 400" by (simp add: minus_div_mult_eq_mod)
  moreover have "0 \<le> ?y mod 400" by simp
  moreover have "m + (if 2 < m then - 3 else 9) = march_month m" "0 \<le> march_month m"
    using assms by (simp_all add: march_month_def)
  ultimately show ?thesis
    unfolding days_from_civil_def Let_def y
    by (simp add: tdiv_nonneg year_start_def)
qed

lemma civil_from_days_floor:
  "civil_from_days z =
     (let doe = (z + 719468) mod 146097;
          yoe = (doe - doe div 1460 + doe div 36524 - doe div 146096) div 365;
          doy = doe - year_start yoe;
          mp = (5 * doy + 2) div 153;
          m = (if mp < 10 then mp + 3 else mp - 9);
          y = yoe + (z + 719468) div 146097 * 400
      in (if m \<le> 2 then y + 1 else y, m, doy - (153 * mp + 2) div 5 + 1))"
proof -
  let ?z = "z + 719468"
  define doe where "doe = ?z mod 146097"
  have era: "tdiv (if 0 \<le> ?z then ?z else ?z - 146096) 146097 = ?z div 146097"
    by (rule tdiv_floor) simp_all
  have m: "?z - ?z div 146097 * 146097 = doe" by (simp add: minus_div_mult_eq_mod doe_def)
  have doe: "0 \<le> doe" "doe \<le> 146096"
    using pos_mod_bound [of 146097 ?z] by (simp_all add: doe_def)
  obtain c q r doy where s: "doe = 36524 * c + 1461 * q + 365 * r + doy" "0 \<le> c" "c < 4"
    "0 \<le> q" "q < 25" "0 \<le> r" "r < 4" "0 \<le> doy" "doy \<le> 365"
    "doy = 365 \<longrightarrow> r = 3 \<and> (q = 24 \<longrightarrow> c = 3)"
    using day_split doe by metis
  define yoe where "yoe = (doe - doe div 1460 + doe div 36524 - doe div 146096) div 365"
  have y: "yoe = 100 * c + 4 * q + r"
    unfolding yoe_def s(1) by (rule year_of_day(1) [OF s(2-10)])
  then have yoe: "0 \<le> yoe" "doe - year_start yoe = doy"
    using s year_start_parts [of q r c] by simp_all
  have "0 \<le> doe - doe div 1460 + doe div 36524 - doe div 146096"
    using yoe(1) by (simp add: yoe_def pos_imp_zdiv_nonneg_iff)
  then have t: "tdiv (doe - tdiv doe 1460 + tdiv doe 36524 - tdiv doe 146096) 365 = yoe"
    using doe(1) by (simp add: tdiv_nonneg yoe_def)
  have d: "doe - (365 * yoe + tdiv yoe 4 - tdiv yoe 100) = doy"
    using yoe by (simp add: tdiv_nonneg year_start_def)
  have mp: "0 \<le> (5 * doy + 2) div 153" "tdiv (5 * doy + 2) 153 = (5 * doy + 2) div 153"
    using s(8) by (simp_all add: div_int_pos_iff tdiv_nonneg)
  then have md: "tdiv (153 * ((5 * doy + 2) div 153) + 2) 5 = (153 * ((5 * doy + 2) div 153) + 2) div 5"
    by (simp add: tdiv_nonneg)
  show ?thesis
    unfolding civil_from_days_def Let_def era m t d mp(2) md
    unfolding doe_def [symmetric] yoe_def [symmetric] yoe(2)
    by simp
qed

text \<open>A valid date in the terms of an era, the day of the year counted from March.\<close>

definition march_day :: "int \<Rightarrow> int \<Rightarrow> int" where
  "march_day m d = (153 * march_month m + 2) div 5 + d - 1"

lemma valid_date_era:
  assumes "valid_date y m d"
  obtains c q r where "march_year y m mod 400 = 100 * c + 4 * q + r" "0 \<le> c" "c < 4" "0 \<le> q" "q < 25"
    "0 \<le> r" "r < 4" "0 \<le> march_day m d" "march_day m d \<le> 365"
    "march_day m d = 365 \<longrightarrow> r = 3 \<and> (q = 24 \<longrightarrow> c = 3)"
    "(5 * march_day m d + 2) div 153 = march_month m"
proof -
  let ?Y = "march_year y m"
  have "0 \<le> ?Y mod 400" "?Y mod 400 < 400" by simp_all
  then obtain c q r where p: "?Y mod 400 = 100 * c + 4 * q + r" "0 \<le> c" "c < 4" "0 \<le> q" "q < 25"
    "0 \<le> r" "r < 4" using year_split by metis
  have m: "1 \<le> m" "m \<le> 12" "1 \<le> d" "d \<le> days_in_month y m"
    using assms by (auto simp: valid_date_def)
  have mm: "0 \<le> march_month m" "march_month m \<le> 11" using m by (auto simp: march_month_def)
  have "d \<le> month_len (march_month m)"
    using m by (auto simp: days_in_month_def month_len_def march_month_def split: if_splits)
  note day = month_of_day [OF mm m(3) this, folded march_day_def]
  have "leap y \<longleftrightarrow> r = 3 \<and> (q = 24 \<longrightarrow> c = 3)" if "m = 2"
  proof -
    have "?Y div 400 * 400 + (100 * c + 4 * q + r) = ?Y" using p(1) by (metis div_mult_mod_eq)
    then have "y = ?Y div 400 * 400 + (100 * c + 4 * q + r) + 1" using that by (simp add: march_year_def)
    with leap_era [OF p(2-7), of "?Y div 400"] show ?thesis by simp
  qed
  moreover have "march_month m = 11 \<longleftrightarrow> m = 2" using m by (auto simp: march_month_def)
  ultimately have "march_day m d = 365 \<longrightarrow> r = 3 \<and> (q = 24 \<longrightarrow> c = 3)"
    using day(4) m(4) by (auto simp: days_in_month_def split: if_splits)
  with that p day show thesis by blast
qed

text \<open>The inverse conversion on a day given by its era, century, cycle, year and day.\<close>

lemma civil_from_days_parts:
  fixes c q r doy :: int
  assumes s: "0 \<le> c" "c < 4" "0 \<le> q" "q < 25" "0 \<le> r" "r < 4" "0 \<le> doy" "doy \<le> 365"
    "doy = 365 \<longrightarrow> r = 3 \<and> (q = 24 \<longrightarrow> c = 3)"
    and z: "z + 719468 = 36524 * c + 1461 * q + 365 * r + doy + era * 146097"
  defines "y \<equiv> 100 * c + 4 * q + r + era * 400"
  defines "mp \<equiv> (5 * doy + 2) div 153"
  defines "m \<equiv> (if mp < 10 then mp + 3 else mp - 9)"
  shows "civil_from_days z = (if m \<le> 2 then y + 1 else y, m, doy - (153 * mp + 2) div 5 + 1)"
proof -
  define doe where "doe = 36524 * c + 1461 * q + 365 * r + doy"
  note day = year_of_day [OF s, folded doe_def]
  have e: "(z + 719468) mod 146097 = doe" "(z + 719468) div 146097 = era"
    unfolding z doe_def [symmetric] using day(2,3) by simp_all
  have start: "doe - year_start (100 * c + 4 * q + r) = doy"
    using year_start_parts(3) [of q r c] s by (simp add: doe_def)
  show ?thesis
    unfolding civil_from_days_floor Let_def e day(1) start
    unfolding mp_def m_def y_def by simp
qed

lemma civil_days:
  assumes "valid_date y m d"
  shows "civil_from_days (days_from_civil y m d) = (y, m, d)"
proof -
  from valid_date_era [OF assms] obtain c q r where v:
    "march_year y m mod 400 = 100 * c + 4 * q + r" "0 \<le> c" "c < 4" "0 \<le> q" "q < 25"
    "0 \<le> r" "r < 4" "0 \<le> march_day m d" "march_day m d \<le> 365"
    "march_day m d = 365 \<longrightarrow> r = 3 \<and> (q = 24 \<longrightarrow> c = 3)"
    "(5 * march_day m d + 2) div 153 = march_month m" .
  have m: "1 \<le> m" "m \<le> 12" using assms by (auto simp: valid_date_def)
  have z: "days_from_civil y m d + 719468 =
      36524 * c + 1461 * q + 365 * r + march_day m d + march_year y m div 400 * 146097"
    unfolding days_from_civil_floor [OF m] v(1)
    using year_start_parts(3) [of q r c] v(2-7) by (simp add: march_day_def)
  have y: "100 * c + 4 * q + r + march_year y m div 400 * 400 = march_year y m"
    using v(1) by (metis mod_div_mult_eq)
  have b: "(if march_month m < 10 then march_month m + 3 else march_month m - 9) = m"
    "(if m \<le> 2 then march_year y m + 1 else march_year y m) = y"
    "march_day m d - (153 * march_month m + 2) div 5 + 1 = d"
    using m by (auto simp: march_month_def march_year_def march_day_def)
  show ?thesis
    using civil_from_days_parts [OF v(2-10) z] unfolding v(11) y b .
qed

lemma days_civil:
  assumes "civil_from_days z = (y, m, d)"
  shows "valid_date y m d \<and> days_from_civil y m d = z"
proof -
  define doe where "doe = (z + 719468) mod 146097"
  define era where "era = (z + 719468) div 146097"
  have "0 \<le> doe" "doe \<le> 146096"
    using pos_mod_bound [of 146097 "z + 719468"] by (simp_all add: doe_def)
  then obtain c q r doy where s: "doe = 36524 * c + 1461 * q + 365 * r + doy" "0 \<le> c" "c < 4"
    "0 \<le> q" "q < 25" "0 \<le> r" "r < 4" "0 \<le> doy" "doy \<le> 365"
    "doy = 365 \<longrightarrow> r = 3 \<and> (q = 24 \<longrightarrow> c = 3)"
    using day_split by metis
  define yoe where "yoe = 100 * c + 4 * q + r"
  define mp where "mp = (5 * doy + 2) div 153"
  have z: "z + 719468 = doe + era * 146097"
    unfolding doe_def era_def by (metis mod_div_mult_eq)
  have ymd: "m = (if mp < 10 then mp + 3 else mp - 9)" "d = doy - (153 * mp + 2) div 5 + 1"
    "y = (if m \<le> 2 then yoe + era * 400 + 1 else yoe + era * 400)"
    using civil_from_days_parts [OF s(2-10) z [unfolded s(1)]] assms
    unfolding yoe_def mp_def by simp_all
  have mp: "0 \<le> mp" "mp \<le> 11" "1 \<le> d" "d \<le> month_len mp"
    using day_of_month [OF s(8,9)] unfolding ymd(2) mp_def by simp_all
  have m: "1 \<le> m" "m \<le> 12" "march_month m = mp" "mp = 11 \<longleftrightarrow> m = 2" "march_year y m = yoe + era * 400"
    using mp(1,2) ymd(1,3) by (auto simp: march_month_def march_year_def)
  have yoe: "0 \<le> yoe" "yoe < 400" using s(2-7) by (auto simp: yoe_def)
  have leap: "leap y" if "m = 2" "d = 29"
  proof -
    have "doy = 365" using month_of_day(4) [OF mp] ymd(2) that m(4) by simp
    then have "leap (era * 400 + yoe + 1)" using leap_era [OF s(2-7), of era] s(10) by (simp add: yoe_def)
    then show ?thesis using ymd(3) that by (simp add: add.commute)
  qed
  have "month_len mp = days_in_month y m" if "m \<noteq> 2"
    using ymd(1) mp(1,2) that by (auto simp: month_len_def days_in_month_def)
  moreover have "d \<le> days_in_month y m" if "m = 2"
    using that mp(4) m(4) leap by (cases "d = 29") (auto simp: days_in_month_def month_len_def)
  ultimately have "valid_date y m d"
    using m(1,2) mp(3,4) by (cases "m = 2") (simp_all add: valid_date_def)
  moreover have "(yoe + era * 400) div 400 = era" "(yoe + era * 400) mod 400 = yoe"
    using yoe by simp_all
  then have "days_from_civil y m d = z"
    unfolding days_from_civil_floor [OF m(1,2)] m(3,5)
    using year_start_parts(3) [of q r c] s(1-7) z ymd(2) by (simp add: yoe_def)
  ultimately show ?thesis ..
qed

end
