(* ===== verification/Cron.thy ===== *)
theory Cron
  imports Durations Timestamp
begin

text \<open>
  The schedules of \<open>@cron\<close>, \<open>compiler/src/cron.rs\<close>: cron expressions of five fields,
  precomputed to tables, and the search for the next instant that matches. A text is its
  list of code points. The loop over a range keeps its \<open>u32\<close> counter, which wraps when
  the step is huge; \<open>range_fuel\<close> is more than its number of rounds.
\<close>

section \<open>Expressions\<close>

datatype cron_error =
    BadStep "nat list"
  | ZeroStep "nat list"
  | BadRange "nat list"
  | BadValue "nat list"
  | OutOfRange "nat list"
  | WrongFieldCount nat
  | BadInterval duration_error
  | PanicIndex \<comment> \<open>not an error of the source: an index below the range panics\<close>

record cron_expr =
  minute :: "bool list"
  hour :: "bool list"
  day_of_month :: "bool list"
  month :: "bool list"
  day_of_week :: "bool list"
  dom_restricted :: bool
  dow_restricted :: bool

datatype schedule = Interval nat | Expression cron_expr

text \<open>
  The inner loop \<open>while v <= hi { allowed[v - lowest] = true; v += step; }\<close>; \<open>None\<close> is out
  of fuel.
\<close>

fun mark_range ::
  "nat \<Rightarrow> nat \<Rightarrow> nat \<Rightarrow> nat \<Rightarrow> nat \<Rightarrow> bool list \<Rightarrow> (cron_error + bool list) option" where
  "mark_range 0 lowest hi step v allowed = None"
| "mark_range (Suc n) lowest hi step v allowed =
     (if v \<le> hi then
        if lowest \<le> v \<and> v - lowest < length allowed
        then mark_range n lowest hi step ((v + step) mod 2 ^ 32) (allowed[v - lowest := True])
        else Some (Inl PanicIndex)
      else Some (Inr allowed))"

definition range_fuel :: "nat \<Rightarrow> nat" where
  "range_fuel hi = hi + 2"

definition parse_number :: "nat list \<Rightarrow> nat option" where
  "parse_number s = parse_u32 (utf8 s)"

text \<open>The step and the bounds of one part of a field.\<close>

definition part_step :: "nat list \<Rightarrow> cron_error + (nat list \<times> nat)" where
  "part_step part =
     (case split_once (code CHR ''/'') part of
        Some (r, s) \<Rightarrow>
          rbind (ok_or (BadStep s) (parse_number s)) (\<lambda>step.
            if step = 0 then Inl (ZeroStep s) else Inr (r, step))
      | None \<Rightarrow> Inr (part, 1))"

definition part_bounds :: "nat list \<Rightarrow> nat \<Rightarrow> nat \<Rightarrow> cron_error + (nat \<times> nat)" where
  "part_bounds range_part lowest highest =
     (if range_part = cps ''*'' then Inr (lowest, highest)
      else case split_once (code CHR ''-'') range_part of
        Some (a, b) \<Rightarrow>
          rbind (ok_or (BadRange range_part) (parse_number a)) (\<lambda>lo.
          rbind (ok_or (BadRange range_part) (parse_number b)) (\<lambda>hi. Inr (lo, hi)))
      | None \<Rightarrow> rbind (ok_or (BadValue range_part) (parse_number range_part)) (\<lambda>v. Inr (v, v)))"

fun parse_parts ::
  "nat list list \<Rightarrow> nat \<Rightarrow> nat \<Rightarrow> bool list \<Rightarrow> (cron_error + bool list) option" where
  "parse_parts [] lowest highest allowed = Some (Inr allowed)"
| "parse_parts (part # parts) lowest highest allowed =
     (case rbind (part_step part) (\<lambda>(range_part, step).
           rbind (part_bounds range_part lowest highest) (\<lambda>(lo, hi).
             if hi < lo \<or> lo < lowest \<or> highest < hi then Inl (OutOfRange range_part)
             else Inr (lo, hi, step))) of
        Inl e \<Rightarrow> Some (Inl e)
      | Inr (lo, hi, step) \<Rightarrow>
          (case mark_range (range_fuel hi) lowest hi step lo allowed of
             None \<Rightarrow> None
           | Some (Inl e) \<Rightarrow> Some (Inl e)
           | Some (Inr allowed') \<Rightarrow> parse_parts parts lowest highest allowed'))"

definition parse_field :: "nat list \<Rightarrow> nat \<Rightarrow> nat \<Rightarrow> (cron_error + bool list) option" where
  "parse_field spec lowest highest =
     parse_parts (split_on (code CHR '','') spec) lowest highest
       (replicate (highest - lowest + 1) False)"

text \<open>\<open>str::split_whitespace\<close>.\<close>

fun split_whitespace :: "nat list \<Rightarrow> nat list list" where
  "split_whitespace [] = []"
| "split_whitespace (c # cs) =
     (if is_whitespace c then split_whitespace cs
      else case cs of
             [] \<Rightarrow> [[c]]
           | d # _ \<Rightarrow>
               if is_whitespace d then [c] # split_whitespace cs
               else case split_whitespace cs of [] \<Rightarrow> [[c]] | w # ws \<Rightarrow> (c # w) # ws)"

definition obind :: "('e + 'a) option \<Rightarrow> ('a \<Rightarrow> ('e + 'b) option) \<Rightarrow> ('e + 'b) option" where
  "obind m f =
     (case m of None \<Rightarrow> None | Some (Inl e) \<Rightarrow> Some (Inl e) | Some (Inr x) \<Rightarrow> f x)"

definition fold_sunday :: "bool list \<Rightarrow> bool list" where
  "fold_sunday dow = take 7 (if dow ! 7 then dow[0 := True] else dow)"

definition parse_expression :: "nat list \<Rightarrow> (cron_error + cron_expr) option" where
  "parse_expression raw =
     (case split_whitespace raw of
        [f0, f1, f2, f3, f4] \<Rightarrow>
          obind (parse_field f0 0 59) (\<lambda>mi.
          obind (parse_field f1 0 23) (\<lambda>h.
          obind (parse_field f2 1 31) (\<lambda>dom.
          obind (parse_field f3 1 12) (\<lambda>mo.
          obind (parse_field f4 0 7) (\<lambda>dow.
            Some (Inr \<lparr>minute = mi, hour = h, day_of_month = dom, month = mo,
                       day_of_week = fold_sunday dow,
                       dom_restricted = (f2 \<noteq> cps ''*''), dow_restricted = (f4 \<noteq> cps ''*'')\<rparr>))))))
      | ws \<Rightarrow> Some (Inl (WrongFieldCount (length ws))))"

definition parse_schedule :: "nat list \<Rightarrow> (cron_error + schedule) option" where
  "parse_schedule raw =
     (if code CHR '' '' \<in> set raw
      then obind (parse_expression raw) (\<lambda>e. Some (Inr (Expression e)))
      else case parse_interval raw of
             Inl e \<Rightarrow> Some (Inl (BadInterval e))
           | Inr secs \<Rightarrow> Some (Inr (Interval secs)))"

section \<open>The next instant\<close>

definition day_ok :: "cron_expr \<Rightarrow> int \<Rightarrow> int \<Rightarrow> bool" where
  "day_ok e d weekday =
     (case (dom_restricted e, dow_restricted e) of
        (True, True) \<Rightarrow> day_of_month e ! nat (d - 1) \<or> day_of_week e ! nat weekday
      | (True, False) \<Rightarrow> day_of_month e ! nat (d - 1)
      | (False, True) \<Rightarrow> day_of_week e ! nat weekday
      | (False, False) \<Rightarrow> True)"

text \<open>The body of the loop of \<open>next_run_after\<close>: does the minute \<open>candidate_min\<close> match?\<close>

definition minute_matches :: "cron_expr \<Rightarrow> int \<Rightarrow> bool" where
  "minute_matches e candidate_min =
     (let total_ms = candidate_min * ms_per_min;
          days = total_ms div ms_per_day;
          ms_of_day = total_ms mod ms_per_day;
          (y, m, d) = civil_from_days days;
          h = nat (tdiv ms_of_day ms_per_hour);
          mi = nat (tdiv (trem ms_of_day ms_per_hour) ms_per_min);
          weekday = (days + 4) mod 7
      in month e ! nat (m - 1) \<and> day_ok e d weekday \<and> hour e ! h \<and> minute e ! mi)"

definition max_minutes_ahead :: nat where
  "max_minutes_ahead = 4 * 366 * 24 * 60"

fun next_match :: "cron_expr \<Rightarrow> nat \<Rightarrow> int \<Rightarrow> int option" where
  "next_match e 0 candidate_min = None"
| "next_match e (Suc n) candidate_min =
     (if minute_matches e candidate_min then Some (candidate_min * ms_per_min)
      else next_match e n (candidate_min + 1))"

text \<open>
  \<open>next_run_after\<close>; the products stay within 64 bits for every instant that the calendar
  of \<open>Timestamp\<close> can print.
\<close>

definition next_run_after :: "cron_expr \<Rightarrow> int \<Rightarrow> int option" where
  "next_run_after e now_ms = next_match e max_minutes_ahead (now_ms div ms_per_min + 1)"

section \<open>The tables\<close>

lemma mark_range_length:
  "mark_range n lowest hi step v allowed = Some (Inr tab) \<Longrightarrow> length tab = length allowed"
  by (induction n lowest hi step v allowed rule: mark_range.induct) (auto split: if_splits)

text \<open>The loop ends: without a wrap the counter grows, and a step that wraps makes it fall.\<close>

lemma mark_range_returns:
  assumes "hi < 2 ^ 31" "0 < step" "step < 2 ^ 32" "0 < n"
    and "v \<le> hi \<Longrightarrow> (if step + hi < 2 ^ 32 then hi + 2 - v else v + 2) \<le> n"
  shows "mark_range n lowest hi step v allowed \<noteq> None"
  using assms(4,5)
proof (induction n arbitrary: v allowed)
  case (Suc n)
  show ?case
  proof (cases "v \<le> hi")
    case True
    have "mark_range n lowest hi step ((v + step) mod 2 ^ 32) tab \<noteq> None" for tab
    proof (cases "v + step < 2 ^ 32")
      case small: True
      then have "(v + step) mod 2 ^ 32 = v + step" by simp
      with Suc True small assms show ?thesis by (intro Suc.IH) (auto split: if_splits)
    next
      case False
      then have "(v + step) mod 2 ^ 32 = v + step - 2 ^ 32"
        using True assms by (simp add: mod_if)
      with Suc True False assms show ?thesis by (intro Suc.IH) (auto split: if_splits)
    qed
    with True show ?thesis by auto
  qed simp
qed simp

lemma mark_range_table:
  assumes "hi + step < 2 ^ 32" "0 < step"
  shows "mark_range n lowest hi step v allowed = Some (Inr tab) \<Longrightarrow> i < length allowed \<Longrightarrow>
    tab ! i \<longleftrightarrow> allowed ! i \<or> (lowest + i \<le> hi \<and> v \<le> lowest + i \<and> (lowest + i - v) mod step = 0)"
proof (induction n arbitrary: v allowed)
  case (Suc n)
  show ?case
  proof (cases "v \<le> hi")
    case True
    with assms have w: "(v + step) mod 4294967296 = v + step" by simp
    let ?a = "allowed[v - lowest := True]"
    from True Suc.prems have b: "lowest \<le> v" "v - lowest < length allowed"
      "mark_range n lowest hi step (v + step) ?a = Some (Inr tab)"
      by (auto simp: w split: if_splits)
    have "tab ! i \<longleftrightarrow> ?a ! i \<or> (lowest + i \<le> hi \<and> v + step \<le> lowest + i \<and> (lowest + i - (v + step)) mod step = 0)"
      by (rule Suc.IH [OF b(3)]) (use Suc.prems in simp)
    moreover have "?a ! i \<longleftrightarrow> allowed ! i \<or> lowest + i = v"
      using b Suc.prems(2) by (auto simp: nth_list_update)
    moreover have "v \<le> lowest + i \<and> (lowest + i - v) mod step = 0 \<longleftrightarrow>
        lowest + i = v \<or> v + step \<le> lowest + i \<and> (lowest + i - (v + step)) mod step = 0"
    proof (cases "v + step \<le> lowest + i")
      case far: True
      then have "lowest + i - v = (lowest + i - (v + step)) + step" by simp
      then have "(lowest + i - v) mod step = (lowest + i - (v + step)) mod step"
        by (metis mod_add_self2)
      with far assms(2) show ?thesis by (simp only:) auto
    next
      case near: False
      then have "lowest + i - v < step \<or> lowest + i < v" by linarith
      with near assms(2) show ?thesis by auto
    qed
    ultimately show ?thesis using True by auto
  next
    case False
    with Suc.prems show ?thesis by auto
  qed
qed simp

lemma parse_number_u32: "parse_number s = Some v \<Longrightarrow> v < 4294967296"
  by (auto simp: parse_number_def parse_u32_def parse_unsigned_def split: option.splits if_splits)

lemma part_step_bounds: "part_step part = Inr (r, step) \<Longrightarrow> 0 < step \<and> step < 2 ^ 32"
  by (auto simp: part_step_def results split: option.splits if_splits dest!: parse_number_u32)

lemma obind_Inr: "obind m f = Some (Inr y) \<longleftrightarrow> (\<exists>x. m = Some (Inr x) \<and> f x = Some (Inr y))"
  by (auto simp: obind_def split: option.splits sum.splits)

lemma obind_not_None: "m \<noteq> None \<Longrightarrow> (\<And>x. f x \<noteq> None) \<Longrightarrow> obind m f \<noteq> None"
  by (auto simp: obind_def split: option.splits sum.splits)

lemma parse_parts_returns: "highest < 2 ^ 31 \<Longrightarrow> parse_parts parts lowest highest allowed \<noteq> None"
proof (induction parts lowest highest allowed rule: parse_parts.induct)
  case (2 part parts lowest highest allowed)
  have "mark_range (range_fuel hi) lowest hi step lo allowed \<noteq> None"
    if "part_step part = Inr (r, step)" "\<not> highest < hi" "\<not> hi < lo" for r step lo hi
    using part_step_bounds [OF that(1)] that(2,3) 2(2)
    by (intro mark_range_returns) (auto simp: range_fuel_def)
  with 2 show ?case
    by (fastforce simp: results split: sum.splits option.splits prod.splits if_splits)
qed simp

lemma parse_parts_length:
  "parse_parts parts lowest highest allowed = Some (Inr tab) \<Longrightarrow> length tab = length allowed"
  by (induction parts lowest highest allowed rule: parse_parts.induct)
    (auto split: sum.splits option.splits prod.splits dest: mark_range_length)

text \<open>What one part of a field admits.\<close>

definition part_admits :: "nat list \<Rightarrow> nat \<Rightarrow> nat \<Rightarrow> nat \<Rightarrow> bool" where
  "part_admits part lowest highest v \<longleftrightarrow>
     (case part_step part of
        Inl e \<Rightarrow> False
      | Inr (r, step) \<Rightarrow>
          (case part_bounds r lowest highest of
             Inl e \<Rightarrow> False
           | Inr (lo, hi) \<Rightarrow> lo \<le> v \<and> v \<le> hi \<and> (v - lo) mod step = 0))"

definition small_step :: "nat \<Rightarrow> nat list \<Rightarrow> bool" where
  "small_step highest part \<longleftrightarrow>
     (case part_step part of Inl e \<Rightarrow> True | Inr (r, step) \<Rightarrow> highest + step < 2 ^ 32)"

lemma parse_parts_table:
  "parse_parts parts lowest highest allowed = Some (Inr tab) \<Longrightarrow> list_all (small_step highest) parts \<Longrightarrow>
     i < length allowed \<Longrightarrow>
     tab ! i \<longleftrightarrow> allowed ! i \<or> list_ex (\<lambda>part. part_admits part lowest highest (lowest + i)) parts"
proof (induction parts lowest highest allowed rule: parse_parts.induct)
  case (2 part parts lowest highest allowed)
  from "2.prems"(1) obtain r step lo hi tab' where p: "part_step part = Inr (r, step)"
    "part_bounds r lowest highest = Inr (lo, hi)" "\<not> (hi < lo \<or> lo < lowest \<or> highest < hi)"
    "mark_range (range_fuel hi) lowest hi step lo allowed = Some (Inr tab')"
    "parse_parts parts lowest highest tab' = Some (Inr tab)"
    by (auto simp: results split: sum.splits option.splits prod.splits if_splits)
  have "hi + step < 2 ^ 32" using "2.prems"(2) p by (simp add: small_step_def)
  then have "tab' ! i \<longleftrightarrow> allowed ! i \<or> part_admits part lowest highest (lowest + i)"
    using mark_range_table [OF _ _ p(4) "2.prems"(3)] part_step_bounds [OF p(1)] p
    by (auto simp: part_admits_def)
  moreover have "tab ! i \<longleftrightarrow> tab' ! i \<or> list_ex (\<lambda>part. part_admits part lowest highest (lowest + i)) parts"
    using p mark_range_length [OF p(4)] "2.prems" by (intro "2.IH") (auto simp: results)
  ultimately show ?case by auto
qed simp

section \<open>Well-formed expressions\<close>

definition cron_ok :: "cron_expr \<Rightarrow> bool" where
  "cron_ok e \<longleftrightarrow> length (minute e) = 60 \<and> length (hour e) = 24 \<and> length (day_of_month e) = 31 \<and>
     length (month e) = 12 \<and> length (day_of_week e) = 7"

lemma parse_field_length:
  "parse_field spec lowest highest = Some (Inr tab) \<Longrightarrow> length tab = highest - lowest + 1"
  by (auto simp: parse_field_def dest: parse_parts_length)

lemma parse_expression_ok: "parse_expression raw = Some (Inr e) \<Longrightarrow> cron_ok e"
  by (auto simp: parse_expression_def obind_Inr cron_ok_def fold_sunday_def
      split: list.splits dest!: parse_field_length)

end
