(* ===== verification/IsoTime.thy ===== *)
theory IsoTime
  imports Timestamp
begin

text \<open>
  The texts and binary forms of an instant, the second half of
  \<open>compiler/src/runtime/timestamp.rs\<close>: ISO 8601 with fixed width, the dates of the AWS
  signature, the microseconds and days of PostgreSQL, and \<open>dateFromParts\<close>.
\<close>

section \<open>Formatting\<close>

text \<open>\<open>{x:0w}\<close> on a signed integer: the sign counts in the width.\<close>

definition pad_int :: "nat \<Rightarrow> int \<Rightarrow> string" where
  "pad_int w n = (if n < 0 then CHR ''-'' # pad (w - 1) (nat (- n)) else pad w (nat n))"

definition ymd_hms_milli_from_millis ::
  "int \<Rightarrow> int \<times> int \<times> int \<times> int \<times> int \<times> int \<times> int" where
  "ymd_hms_milli_from_millis total_ms =
     (let days = total_ms div ms_per_day;
          ms_of_day = total_ms mod ms_per_day;
          (y, m, d) = civil_from_days days;
          hour = tdiv ms_of_day ms_per_hour;
          mins = tdiv (trem ms_of_day ms_per_hour) ms_per_min;
          sec = tdiv (trem ms_of_day ms_per_min) ms_per_sec;
          ms = trem ms_of_day ms_per_sec
      in (y, m, d, hour, mins, sec, ms))"

definition iso_text :: "int \<Rightarrow> int \<Rightarrow> int \<Rightarrow> int \<Rightarrow> int \<Rightarrow> int \<Rightarrow> int \<Rightarrow> string" where
  "iso_text y m d hour mins sec ms =
     pad_int 4 y @ ''-'' @ pad_int 2 m @ ''-'' @ pad_int 2 d @ ''T'' @ pad_int 2 hour @ '':'' @
     pad_int 2 mins @ '':'' @ pad_int 2 sec @ ''.'' @ pad_int 3 ms @ ''Z''"

definition format_iso8601_millis :: "int \<Rightarrow> string" where
  "format_iso8601_millis total_ms =
     (case ymd_hms_milli_from_millis total_ms of
        (y, m, d, hour, mins, sec, ms) \<Rightarrow> iso_text y m d hour mins sec ms)"

definition format_aws_sigv4_datetime :: "int \<Rightarrow> string \<times> string" where
  "format_aws_sigv4_datetime total_ms =
     (let days = total_ms div ms_per_day;
          ms_of_day = total_ms mod ms_per_day;
          (y, m, d) = civil_from_days days;
          hour = tdiv ms_of_day ms_per_hour;
          mins = tdiv (trem ms_of_day ms_per_hour) ms_per_min;
          sec = tdiv (trem ms_of_day ms_per_min) ms_per_sec;
          date_stamp = pad_int 4 y @ pad_int 2 m @ pad_int 2 d
      in (date_stamp, date_stamp @ ''T'' @ pad_int 2 hour @ pad_int 2 mins @ pad_int 2 sec @ ''Z''))"

section \<open>Parsing\<close>

definition digit_at :: "string \<Rightarrow> nat \<Rightarrow> int option" where
  "digit_at b i = (if digit_byte (b ! i) then Some (int (code (b ! i) - 48)) else None)"

fun num_at :: "string \<Rightarrow> nat \<Rightarrow> nat \<Rightarrow> int \<Rightarrow> int option" where
  "num_at b i 0 acc = Some acc"
| "num_at b i (Suc n) acc =
     (case digit_at b i of None \<Rightarrow> None | Some d \<Rightarrow> num_at b (Suc i) n (acc * 10 + d))"

definition parse_iso8601_millis :: "string \<Rightarrow> int option" where
  "parse_iso8601_millis b =
     (if length b \<noteq> 24 then None
      else if b ! 4 \<noteq> CHR ''-'' \<or> b ! 7 \<noteq> CHR ''-'' \<or> b ! 10 \<noteq> CHR ''T'' \<or>
              b ! 13 \<noteq> CHR '':'' \<or> b ! 16 \<noteq> CHR '':'' \<or> b ! 19 \<noteq> CHR ''.'' \<or> b ! 23 \<noteq> CHR ''Z''
      then None
      else
        Option.bind (num_at b 0 4 0) (\<lambda>y.
        Option.bind (num_at b 5 2 0) (\<lambda>m.
        Option.bind (num_at b 8 2 0) (\<lambda>d.
        Option.bind (num_at b 11 2 0) (\<lambda>hour.
        Option.bind (num_at b 14 2 0) (\<lambda>mins.
        Option.bind (num_at b 17 2 0) (\<lambda>sec.
        Option.bind (num_at b 20 3 0) (\<lambda>ms.
          if \<not> (1 \<le> m \<and> m \<le> 12) \<or> \<not> (1 \<le> d \<and> d \<le> 31) \<or> 23 < hour \<or> 59 < mins \<or> 59 < sec
          then None
          else
            let days = days_from_civil y m d
            in if civil_from_days days \<noteq> (y, m, d) then None
               else Some (days * ms_per_day + hour * ms_per_hour + mins * ms_per_min +
                          sec * ms_per_sec + ms)))))))))"

section \<open>PostgreSQL\<close>

definition pg_epoch_days :: int where "pg_epoch_days = 10957"

definition wrap32 :: "int \<Rightarrow> int" where
  "wrap32 n = (n + 2 ^ 31) mod 2 ^ 32 - 2 ^ 31"

definition millis_from_pg_timestamp_micros :: "int \<Rightarrow> int" where
  "millis_from_pg_timestamp_micros micros = micros div 1000 + pg_epoch_days * ms_per_day"

definition millis_from_pg_date_days :: "int \<Rightarrow> int" where
  "millis_from_pg_date_days days = (days + pg_epoch_days) * ms_per_day"

definition pg_timestamp_micros_from_millis :: "int \<Rightarrow> int" where
  "pg_timestamp_micros_from_millis millis =
     wrap64 (wrap64 (millis - pg_epoch_days * ms_per_day) * 1000)"

definition pg_date_days_from_millis :: "int \<Rightarrow> int" where
  "pg_date_days_from_millis millis = wrap32 (millis div ms_per_day - pg_epoch_days)"

section \<open>Dates from their parts\<close>

datatype date_error =
    BadYear int | BadMonth int | BadDay int | BadHour int | BadMinute int | BadSecond int
  | NoSuchDate int int int

definition date_from_parts ::
  "int \<Rightarrow> int \<Rightarrow> int \<Rightarrow> int \<Rightarrow> int \<Rightarrow> int \<Rightarrow> date_error + int" where
  "date_from_parts year month day hour minute second =
     (if \<not> (0 \<le> year \<and> year \<le> 9999) then Inl (BadYear year)
      else if \<not> (1 \<le> month \<and> month \<le> 12) then Inl (BadMonth month)
      else if \<not> (1 \<le> day \<and> day \<le> 31) then Inl (BadDay day)
      else if \<not> (0 \<le> hour \<and> hour \<le> 23) then Inl (BadHour hour)
      else if \<not> (0 \<le> minute \<and> minute \<le> 59) then Inl (BadMinute minute)
      else if \<not> (0 \<le> second \<and> second \<le> 59) then Inl (BadSecond second)
      else ok_or (NoSuchDate year month day)
             (parse_iso8601_millis (iso_text year month day hour minute second 0)))"

section \<open>The time of day\<close>

definition clock_ms :: "int \<Rightarrow> int \<Rightarrow> int \<Rightarrow> int \<Rightarrow> int" where
  "clock_ms hour mins sec ms = hour * ms_per_hour + mins * ms_per_min + sec * ms_per_sec + ms"

definition valid_clock :: "int \<Rightarrow> int \<Rightarrow> int \<Rightarrow> int \<Rightarrow> bool" where
  "valid_clock hour mins sec ms \<longleftrightarrow>
     0 \<le> hour \<and> hour \<le> 23 \<and> 0 \<le> mins \<and> mins \<le> 59 \<and> 0 \<le> sec \<and> sec \<le> 59 \<and> 0 \<le> ms \<and> ms \<le> 999"

lemma clock_ms_range:
  "valid_clock hour mins sec ms \<Longrightarrow> 0 \<le> clock_ms hour mins sec ms \<and> clock_ms hour mins sec ms < ms_per_day"
  by (simp add: valid_clock_def clock_ms_def ms_defs)

lemma div_mod_of:
  "(x::int) = n * q + r \<Longrightarrow> 0 \<le> r \<Longrightarrow> r < n \<Longrightarrow> x div n = q \<and> x mod n = r"
  by (simp add: div_pos_pos_trivial mod_pos_pos_trivial)

lemma instant_parts:
  assumes "valid_date y m d" "valid_clock hour mins sec ms"
  shows "ymd_hms_milli_from_millis (days_from_civil y m d * ms_per_day + clock_ms hour mins sec ms) =
    (y, m, d, hour, mins, sec, ms)"
proof -
  let ?c = "clock_ms hour mins sec ms"
  have c: "0 \<le> ?c" "?c < ms_per_day" "0 < ms_per_day"
    using clock_ms_range [OF assms(2)] by (simp_all add: ms_defs)
  then have e: "(days_from_civil y m d * ms_per_day + ?c) div ms_per_day = days_from_civil y m d"
    "(days_from_civil y m d * ms_per_day + ?c) mod ms_per_day = ?c"
    by simp_all
  have h: "?c div 3600000 = hour" "?c mod 3600000 = mins * 60000 + sec * 1000 + ms"
    "(mins * 60000 + sec * 1000 + ms) div 60000 = mins" "?c mod 60000 = sec * 1000 + ms"
    "(sec * 1000 + ms) div 1000 = sec" "?c mod 1000 = ms"
  proof -
    have v: "0 \<le> mins" "mins \<le> 59" "0 \<le> sec" "sec \<le> 59" "0 \<le> ms" "ms \<le> 999"
      using assms(2) by (simp_all add: valid_clock_def)
    have "?c = 3600000 * hour + (mins * 60000 + sec * 1000 + ms)"
      "?c = 60000 * (hour * 60 + mins) + (sec * 1000 + ms)"
      "?c = 1000 * (hour * 3600 + mins * 60 + sec) + ms"
      by (simp_all add: clock_ms_def ms_defs)
    note parts = this [THEN div_mod_of]
      div_mod_of [of "mins * 60000 + sec * 1000 + ms" 60000 mins "sec * 1000 + ms"]
      div_mod_of [of "sec * 1000 + ms" 1000 sec ms]
    have r: "0 \<le> mins * 60000 + sec * 1000 + ms" "mins * 60000 + sec * 1000 + ms < 3600000"
      "0 \<le> sec * 1000 + ms" "sec * 1000 + ms < 60000" "ms < 1000"
      "mins * 60000 + sec * 1000 + ms = 60000 * mins + (sec * 1000 + ms)"
      "sec * 1000 + ms = 1000 * sec + ms"
      using v by linarith+
    show "?c div 3600000 = hour" "?c mod 3600000 = mins * 60000 + sec * 1000 + ms"
      using parts(1) [OF r(1,2)] by blast+
    show "(mins * 60000 + sec * 1000 + ms) div 60000 = mins" "(sec * 1000 + ms) div 1000 = sec"
      using parts(4) [OF r(6,3,4)] parts(5) [OF r(7) v(5) r(5)] by blast+
    show "?c mod 60000 = sec * 1000 + ms" "?c mod 1000 = ms"
      using parts(2) [OF r(3,4)] parts(3) [OF v(5) r(5)] by blast+
  qed
  have nn: "0 \<le> mins * 60000 + sec * 1000 + ms" "0 \<le> sec * 1000 + ms"
    using assms(2) by (simp_all add: valid_clock_def)
  have t: "tdiv ?c ms_per_hour = hour" "trem ?c ms_per_hour = mins * 60000 + sec * 1000 + ms"
    "tdiv (mins * 60000 + sec * 1000 + ms) ms_per_min = mins" "trem ?c ms_per_min = sec * 1000 + ms"
    "tdiv (sec * 1000 + ms) ms_per_sec = sec" "trem ?c ms_per_sec = ms"
    using h tdiv_nonneg [OF c(1)] trem_nonneg [OF c(1)] tdiv_nonneg [OF nn(1)] tdiv_nonneg [OF nn(2)]
    unfolding ms_defs by (simp_all only: zero_less_numeral)
  show ?thesis
    unfolding ymd_hms_milli_from_millis_def Let_def e civil_days [OF assms(1)] t by simp
qed

lemma parts_instant:
  assumes "ymd_hms_milli_from_millis t = (y, m, d, hour, mins, sec, ms)"
  shows "valid_date y m d" "valid_clock hour mins sec ms"
    "t = days_from_civil y m d * ms_per_day + clock_ms hour mins sec ms"
proof -
  define c where "c = t mod ms_per_day"
  have c: "0 \<le> c" "c < 86400000" by (simp_all add: c_def ms_defs)
  have p: "civil_from_days (t div ms_per_day) = (y, m, d)"
    "hour = c div 3600000" "mins = c mod 3600000 div 60000" "sec = c mod 60000 div 1000" "ms = c mod 1000"
    using assms c unfolding ymd_hms_milli_from_millis_def Let_def c_def [symmetric]
    by (auto simp: tdiv_nonneg trem_nonneg ms_defs split: prod.splits)
  show "valid_date y m d" using days_civil [OF p(1)] by simp
  define q1 r1 q2 r2 q3 r3 where q: "q1 = c div 3600000" "r1 = c mod 3600000" "q2 = r1 div 60000"
    "r2 = r1 mod 60000" "q3 = r2 div 1000" "r3 = r2 mod 1000"
  have e: "3600000 * q1 + r1 = c" "60000 * q2 + r2 = r1" "1000 * q3 + r3 = r2"
    and b: "0 \<le> r1" "r1 < 3600000" "0 \<le> r2" "r2 < 60000" "0 \<le> r3" "r3 < 1000"
    by (simp_all add: q)
  have cancel: "c mod 60000 = r2" "c mod 1000 = r3"
    by (simp_all add: q mod_mod_cancel)
  have h: "hour = q1" "mins = q2" "sec = q3" "ms = r3"
    unfolding p(2-5) cancel by (simp_all add: q)
  have "0 \<le> q1" "q1 \<le> 23" "0 \<le> q2" "q2 \<le> 59" "0 \<le> q3" "q3 \<le> 59"
    using e b c by linarith+
  with b h show "valid_clock hour mins sec ms" by (simp add: valid_clock_def)
  have "clock_ms hour mins sec ms = c"
    unfolding clock_ms_def ms_defs h using e by linarith
  then show "t = days_from_civil y m d * ms_per_day + clock_ms hour mins sec ms"
    using days_civil [OF p(1)] by (simp add: c_def)
qed

section \<open>Digits of fixed width\<close>

lemma digits_val_append: "digits_val (s @ t) = digits_val s * 10 ^ length t + digits_val t"
proof (induction t rule: rev_induct)
  case (snoc c t)
  then show ?case
    using digits_val_snoc [of "s @ t" c] by (simp add: digits_val_snoc algebra_simps)
qed (simp add: digits_val_def)

lemma digits_val_bound: "list_all digit_byte s \<Longrightarrow> digits_val s < 10 ^ length s"
  by (induction s rule: rev_induct) (auto simp: digits_val_snoc digit_byte_def, simp add: digits_val_def)

lemma last_digit_unique:
  "(a :: nat) * 10 + x = b * 10 + y \<Longrightarrow> x < 10 \<Longrightarrow> y < 10 \<Longrightarrow> a = b \<and> x = y"
  by presburger

lemma digits_unique:
  "length s = length t \<Longrightarrow> list_all digit_byte s \<Longrightarrow> list_all digit_byte t \<Longrightarrow>
     digits_val s = digits_val t \<Longrightarrow> s = t"
proof (induction s arbitrary: t rule: rev_induct)
  case (snoc c s)
  then obtain d t' where t: "t = t' @ [d]" by (cases t rule: rev_cases) auto
  have cd: "48 \<le> code c" "code c \<le> 57" "48 \<le> code d" "code d \<le> 57"
    using snoc.prems t by (auto simp: digit_byte_def)
  have "digits_val s * 10 + (code c - 48) = digits_val t' * 10 + (code d - 48)"
    using snoc.prems(4) by (simp add: t digits_val_snoc)
  then have "digits_val s = digits_val t' \<and> code c - 48 = code d - 48"
    by (rule last_digit_unique) (use cd in linarith)+
  with cd have "digits_val s = digits_val t'" "code c = code d"
    using eq_diff_iff [OF cd(1,3)] by simp_all
  with snoc t show ?case by simp
qed simp

lemma pad_digits_val: "list_all digit_byte s \<Longrightarrow> s \<noteq> [] \<Longrightarrow> pad (length s) (digits_val s) = s"
  using digits_val_bound [of s]
  by (intro digits_unique) (simp_all add: length_pad pad_digits)

text \<open>What \<open>num_at\<close> reads is the number written in the slice.\<close>

definition digs :: "string \<Rightarrow> int option" where
  "digs s = (if list_all digit_byte s then Some (int (digits_val s)) else None)"

lemma num_at_slice:
  "i + n \<le> length b \<Longrightarrow>
     num_at b i n acc = map_option (\<lambda>v. acc * 10 ^ n + v) (digs (take n (drop i b)))"
proof (induction n arbitrary: i acc)
  case 0
  then show ?case by (simp add: digs_def digits_val_def)
next
  case (Suc n)
  then have t: "take (Suc n) (drop i b) = b ! i # take n (drop (Suc i) b)"
    by (simp add: Cons_nth_drop_Suc [symmetric])
  have l: "length (take n (drop (Suc i) b)) = n" using Suc.prems by simp
  define k where "k = code (b ! i) - 48"
  have "digits_val (b ! i # take n (drop (Suc i) b)) =
      k * 10 ^ n + digits_val (take n (drop (Suc i) b))"
    using digits_val_append [of "[b ! i]" "take n (drop (Suc i) b)"] l
    by (simp add: k_def digits_val_def [of "[_]"])
  with Suc show ?case
    unfolding t num_at.simps
    by (auto simp: digs_def digit_at_def k_def [symmetric] algebra_simps)
qed

lemma digs_pad_int: "0 \<le> n \<Longrightarrow> digs (pad_int w n) = Some n"
  by (simp add: digs_def pad_int_def pad_digits)

lemma length_pad_int: "0 \<le> n \<Longrightarrow> 0 < w \<Longrightarrow> n < 10 ^ w \<Longrightarrow> length (pad_int w n) = w"
  by (simp add: pad_int_def length_pad nat_less_iff)

lemma digs_Some: "digs s = Some n \<Longrightarrow> s \<noteq> [] \<Longrightarrow> 0 \<le> n \<and> n < 10 ^ length s \<and> s = pad_int (length s) n"
  using digits_val_bound [of s] pad_digits_val [of s]
  by (auto simp: digs_def pad_int_def split: if_splits simp flip: of_nat_less_iff)

section \<open>The ISO form in both directions\<close>

lemma list_2: "length xs = 2 \<Longrightarrow> \<exists>a b. xs = [a, b]"
  by (auto simp: numeral_eq_Suc length_Suc_conv)

lemma list_3: "length xs = 3 \<Longrightarrow> \<exists>a b c. xs = [a, b, c]"
  by (auto simp: numeral_eq_Suc length_Suc_conv)

lemma list_4: "length xs = 4 \<Longrightarrow> \<exists>a b c d. xs = [a, b, c, d]"
  by (auto simp: numeral_eq_Suc length_Suc_conv)

text \<open>A text of the fixed shape, by its seven fields.\<close>

definition iso_fields ::
  "string \<Rightarrow> string \<Rightarrow> string \<Rightarrow> string \<Rightarrow> string \<Rightarrow> string \<Rightarrow> string \<Rightarrow> string" where
  "iso_fields y m d h mi s ms =
     y @ ''-'' @ m @ ''-'' @ d @ ''T'' @ h @ '':'' @ mi @ '':'' @ s @ ''.'' @ ms @ ''Z''"

lemma iso_fields_slices:
  assumes "length y = 4" "length m = 2" "length d = 2" "length h = 2" "length mi = 2" "length s = 2"
    "length ms = 3"
  defines "b \<equiv> iso_fields y m d h mi s ms"
  shows "length b = 24"
    "b ! 4 = CHR ''-''" "b ! 7 = CHR ''-''" "b ! 10 = CHR ''T''" "b ! 13 = CHR '':''"
    "b ! 16 = CHR '':''" "b ! 19 = CHR ''.''" "b ! 23 = CHR ''Z''"
    "take 4 b = y" "take 2 (drop 5 b) = m" "take 2 (drop 8 b) = d" "take 2 (drop 11 b) = h"
    "take 2 (drop 14 b) = mi" "take 2 (drop 17 b) = s" "take 3 (drop 20 b) = ms"
proof -
  from assms(1-7) obtain y1 y2 y3 y4 m1 m2 d1 d2 h1 h2 i1 i2 s1 s2 z1 z2 z3 where
    e: "y = [y1, y2, y3, y4]" "m = [m1, m2]" "d = [d1, d2]" "h = [h1, h2]" "mi = [i1, i2]"
      "s = [s1, s2]" "ms = [z1, z2, z3]"
    using list_2 list_3 list_4 by metis
  show "length b = 24"
    "b ! 4 = CHR ''-''" "b ! 7 = CHR ''-''" "b ! 10 = CHR ''T''" "b ! 13 = CHR '':''"
    "b ! 16 = CHR '':''" "b ! 19 = CHR ''.''" "b ! 23 = CHR ''Z''"
    "take 4 b = y" "take 2 (drop 5 b) = m" "take 2 (drop 8 b) = d" "take 2 (drop 11 b) = h"
    "take 2 (drop 14 b) = mi" "take 2 (drop 17 b) = s" "take 3 (drop 20 b) = ms"
    by (simp_all add: b_def e iso_fields_def)
qed

lemma iso_fields_of:
  assumes "length b = 24"
    "b ! 4 = CHR ''-''" "b ! 7 = CHR ''-''" "b ! 10 = CHR ''T''" "b ! 13 = CHR '':''"
    "b ! 16 = CHR '':''" "b ! 19 = CHR ''.''" "b ! 23 = CHR ''Z''"
  shows "b = iso_fields (take 4 b) (take 2 (drop 5 b)) (take 2 (drop 8 b))
    (take 2 (drop 11 b)) (take 2 (drop 14 b)) (take 2 (drop 17 b)) (take 3 (drop 20 b))"
proof -
  have split: "drop i b = take n (drop i b) @ b ! (i + n) # drop (Suc (i + n)) b" if "i + n < 24" for i n
    using that assms(1) by (metis Cons_nth_drop_Suc append_take_drop_id drop_drop add.commute)
  have "b = drop 0 b" "drop 24 b = []" using assms(1) by simp_all
  then show ?thesis
    using split [of 0 4] split [of 5 2] split [of 8 2] split [of 11 2] split [of 14 2] split [of 17 2]
      split [of 20 3] assms
    by (simp add: iso_fields_def)
qed

lemma iso_text_fields:
  "iso_text y m d h mi s ms =
     iso_fields (pad_int 4 y) (pad_int 2 m) (pad_int 2 d) (pad_int 2 h) (pad_int 2 mi) (pad_int 2 s)
       (pad_int 3 ms)"
  by (simp add: iso_text_def iso_fields_def)

lemma days_in_month_31: "days_in_month y m \<le> 31"
  by (simp add: days_in_month_def)

lemma parse_iso_text:
  assumes "0 \<le> y" "y \<le> 9999" "1 \<le> m" "m \<le> 12" "1 \<le> d" "d \<le> 31" "valid_clock h mi s ms"
  shows "parse_iso8601_millis (iso_text y m d h mi s ms) =
    (if civil_from_days (days_from_civil y m d) = (y, m, d)
     then Some (days_from_civil y m d * ms_per_day + clock_ms h mi s ms) else None)"
proof -
  have c: "0 \<le> h" "h \<le> 23" "0 \<le> mi" "mi \<le> 59" "0 \<le> s" "s \<le> 59" "0 \<le> ms" "ms \<le> 999"
    using assms(7) by (simp_all add: valid_clock_def)
  have l: "length (pad_int 4 y) = 4" "length (pad_int 2 m) = 2" "length (pad_int 2 d) = 2"
    "length (pad_int 2 h) = 2" "length (pad_int 2 mi) = 2" "length (pad_int 2 s) = 2"
    "length (pad_int 3 ms) = 3"
    using assms(1-6) c by (simp_all add: length_pad_int)
  define b where "b = iso_text y m d h mi s ms"
  note sl = iso_fields_slices [OF l, folded iso_text_fields, folded b_def]
  have n: "num_at b 0 4 0 = Some y" "num_at b 5 2 0 = Some m" "num_at b 8 2 0 = Some d"
    "num_at b 11 2 0 = Some h" "num_at b 14 2 0 = Some mi" "num_at b 17 2 0 = Some s"
    "num_at b 20 3 0 = Some ms"
    using assms(1,3,5) c by (simp_all add: num_at_slice sl digs_pad_int)
  show ?thesis
    unfolding b_def [symmetric] parse_iso8601_millis_def sl n Option.bind.simps Let_def
    using assms(1-6) c by (simp add: clock_ms_def)
qed

lemma parse_iso_Some:
  assumes "parse_iso8601_millis b = Some t"
  obtains y m d h mi s ms where "0 \<le> y" "y \<le> 9999" "valid_date y m d" "valid_clock h mi s ms"
    "b = iso_text y m d h mi s ms" "t = days_from_civil y m d * ms_per_day + clock_ms h mi s ms"
proof -
  from assms have b: "length b = 24"
    "b ! 4 = CHR ''-''" "b ! 7 = CHR ''-''" "b ! 10 = CHR ''T''" "b ! 13 = CHR '':''"
    "b ! 16 = CHR '':''" "b ! 19 = CHR ''.''" "b ! 23 = CHR ''Z''"
    by (auto simp: parse_iso8601_millis_def split: if_splits)
  with assms obtain y m d h mi s ms where
    n: "num_at b 0 4 0 = Some y" "num_at b 5 2 0 = Some m" "num_at b 8 2 0 = Some d"
    "num_at b 11 2 0 = Some h" "num_at b 14 2 0 = Some mi" "num_at b 17 2 0 = Some s"
    "num_at b 20 3 0 = Some ms" and r: "1 \<le> m" "m \<le> 12" "h \<le> 23" "mi \<le> 59" "s \<le> 59"
    "civil_from_days (days_from_civil y m d) = (y, m, d)"
    "t = days_from_civil y m d * ms_per_day + clock_ms h mi s ms"
    by (auto simp: parse_iso8601_millis_def Let_def bind_eq_Some_conv clock_ms_def split: if_splits)
  have g: "0 \<le> v \<and> v < 10 ^ k \<and> take k (drop i b) = pad_int k v"
    if "num_at b i k 0 = Some v" "0 < k" "i + k \<le> 24" for i k v
    using digs_Some [of "take k (drop i b)" v] that b(1) by (auto simp: num_at_slice)
  have "b = iso_text y m d h mi s ms"
    by (subst iso_fields_of [OF b])
      (use g [OF n(1)] g [OF n(2)] g [OF n(3)] g [OF n(4)] g [OF n(5)] g [OF n(6)] g [OF n(7)] in
        \<open>simp add: iso_text_fields\<close>)
  moreover have "valid_clock h mi s ms" "0 \<le> y" "y \<le> 9999"
    using g [OF n(1)] g [OF n(4)] g [OF n(5)] g [OF n(6)] g [OF n(7)] r
    by (simp_all add: valid_clock_def)
  moreover have "valid_date y m d" using days_civil [OF r(6)] by simp
  ultimately show thesis using that r(7) by blast
qed

section \<open>Properties\<close>



text \<open>
  Every day, before and after the epoch, is a valid date of the proleptic Gregorian
  calendar and comes back from it.
\<close>

theorem day_round_trip:
  "case civil_from_days z of (y, m, d) \<Rightarrow> valid_date y m d \<and> days_from_civil y m d = z"
  using days_civil [of z] by (auto split: prod.split)

text \<open>The first and the last day of the years with four digits.\<close>

lemma days_from_civil_linear:
  assumes "1 \<le> m" "m \<le> 12"
  shows "days_from_civil y m d =
    365 * march_year y m + march_year y m div 4 - march_year y m div 100 + march_year y m div 400 -
    719468 + march_day m d"
proof -
  define Y e r where "Y = march_year y m" "e = Y div 400" "r = Y mod 400"
  have Y: "Y = r + 400 * e" by (simp add: Y_e_r_def)
  have "Y div 4 = r div 4 + 100 * e" "Y div 100 = r div 100 + 4 * e"
    using div_mult_self2 [of 4 r "100 * e"] div_mult_self2 [of 100 r "4 * e"] by (simp_all add: Y)
  then show ?thesis
    unfolding days_from_civil_floor [OF assms] march_day_def Y_e_r_def(1) [symmetric]
      Y_e_r_def(2) [symmetric] Y_e_r_def(3) [symmetric]
    using Y by (simp add: year_start_def)
qed

lemma march_day_half:
  assumes "valid_date y m d"
  shows "if m \<le> 2 then 306 \<le> march_day m d \<and> march_day m d \<le> 365
    else 0 \<le> march_day m d \<and> march_day m d \<le> 305"
proof -
  have m: "0 \<le> march_month m" "march_month m \<le> 11" "1 \<le> d"
    using assms by (auto simp: valid_date_def march_month_def)
  have "d \<le> month_len (march_month m)"
    using assms by (auto simp: valid_date_def days_in_month_def month_len_def march_month_def split: if_splits)
  moreover have "m \<le> 2 \<longleftrightarrow> march_month m \<in> {10, 11}"
    using assms by (auto simp: valid_date_def march_month_def)
  ultimately show ?thesis
    using month_cases [OF m(1,2)] m(3) by (auto simp: march_day_def month_len_def)
qed

lemma four_digit_years:
  assumes "valid_date y m d" "- 719528 \<le> days_from_civil y m d" "days_from_civil y m d \<le> 2932896"
  shows "0 \<le> y \<and> y \<le> 9999"
proof -
  define Y a b c where "Y = march_year y m" "a = Y div 4" "b = Y div 100" "c = Y div 400"
  have f: "days_from_civil y m d = 365 * Y + a - b + c - 719468 + march_day m d"
    using assms(1) by (simp add: Y_a_b_c_def days_from_civil_linear valid_date_def)
  have abc: "4 * a \<le> Y" "Y \<le> 4 * a + 3" "100 * b \<le> Y" "Y \<le> 100 * b + 99" "400 * c \<le> Y"
    "Y \<le> 400 * c + 399"
    unfolding Y_a_b_c_def(2-4)
    using pos_mod_bound [of 4 Y] pos_mod_sign [of 4 Y] mult_div_mod_eq [of 4 Y]
      pos_mod_bound [of 100 Y] pos_mod_sign [of 100 Y] mult_div_mod_eq [of 100 Y]
      pos_mod_bound [of 400 Y] pos_mod_sign [of 400 Y] mult_div_mod_eq [of 400 Y] by simp_all
  have neg: "a \<le> - 1 \<and> c \<le> - 1" if "Y < 0" using abc(1,5) that by linarith
  show ?thesis
  proof (cases "m \<le> 2")
    case True
    then have "Y = y - 1" "306 \<le> march_day m d" "march_day m d \<le> 365"
      using march_day_half [OF assms(1)] by (simp_all add: Y_a_b_c_def march_year_def)
    with f abc assms(2,3) neg show ?thesis by (cases "Y < 0") linarith+
  next
    case False
    then have "Y = y" "0 \<le> march_day m d" "march_day m d \<le> 305"
      using march_day_half [OF assms(1)] by (simp_all add: Y_a_b_c_def march_year_def)
    with f abc assms(2,3) neg show ?thesis by (cases "Y < 0") linarith+
  qed
qed

lemma four_digit_days:
  assumes "valid_date y m d" "0 \<le> y" "y \<le> 9999"
  shows "- 719528 \<le> days_from_civil y m d \<and> days_from_civil y m d \<le> 2932896"
proof -
  define Y a b c where "Y = march_year y m" "a = Y div 4" "b = Y div 100" "c = Y div 400"
  have f: "days_from_civil y m d = 365 * Y + a - b + c - 719468 + march_day m d"
    using assms(1) by (simp add: Y_a_b_c_def days_from_civil_linear valid_date_def)
  have abc: "4 * a \<le> Y" "Y \<le> 4 * a + 3" "100 * b \<le> Y" "Y \<le> 100 * b + 99" "400 * c \<le> Y"
    "Y \<le> 400 * c + 399"
    unfolding Y_a_b_c_def(2-4)
    using pos_mod_bound [of 4 Y] pos_mod_sign [of 4 Y] mult_div_mod_eq [of 4 Y]
      pos_mod_bound [of 100 Y] pos_mod_sign [of 100 Y] mult_div_mod_eq [of 100 Y]
      pos_mod_bound [of 400 Y] pos_mod_sign [of 400 Y] mult_div_mod_eq [of 400 Y] by simp_all
  have "Y = y - 1 \<and> 306 \<le> march_day m d \<and> march_day m d \<le> 365 \<or>
      Y = y \<and> 0 \<le> march_day m d \<and> march_day m d \<le> 305"
    using march_day_half [OF assms(1)] by (simp add: Y_a_b_c_def march_year_def split: if_splits)
  then consider "Y = - 1" "306 \<le> march_day m d" "march_day m d \<le> 365"
    | "0 \<le> Y" "Y \<le> 9998" "0 \<le> march_day m d" "march_day m d \<le> 365"
    | "Y = 9999" "0 \<le> march_day m d" "march_day m d \<le> 305"
    using assms(2,3) by linarith
  then show ?thesis
  proof cases
    case 2
    then have "- 1 < a" "- 1 < c" "b \<le> 99" "a \<le> 2499" "c \<le> 24" using abc by linarith+
    with 2 f abc show ?thesis by linarith
  next
    case 3
    then have "a = 2499" "b = 99" "c = 24" by (simp_all add: Y_a_b_c_def(2-4))
    with 3 f show ?thesis by simp
  qed (use f abc in linarith)+
qed

lemma parse_iso_range:
  assumes "parse_iso8601_millis b = Some t"
  shows "- 62167219200000 \<le> t \<and> t \<le> 253402300799999"
proof -
  from parse_iso_Some [OF assms] obtain y m d h mi s ms where
    v: "0 \<le> y" "y \<le> 9999" "valid_date y m d" "valid_clock h mi s ms"
      "t = days_from_civil y m d * ms_per_day + clock_ms h mi s ms" by metis
  from four_digit_days [OF v(3,1,2)] clock_ms_range [OF v(4)] show ?thesis
    unfolding v(5) by (simp add: ms_per_day_def)
qed

lemma format_parses:
  assumes "- 62167219200000 \<le> t" "t \<le> 253402300799999"
  shows "parse_iso8601_millis (format_iso8601_millis t) = Some t"
proof -
  obtain y m d h mi s ms where p: "ymd_hms_milli_from_millis t = (y, m, d, h, mi, s, ms)"
    by (metis prod_cases7)
  note v = parts_instant [OF p]
  have "- 719528 * ms_per_day \<le> t" "t < 2932897 * ms_per_day"
    using assms by (simp_all add: ms_per_day_def)
  moreover have "0 \<le> clock_ms h mi s ms" "clock_ms h mi s ms < ms_per_day"
    using clock_ms_range [OF v(2)] by simp_all
  ultimately have "- 719528 \<le> days_from_civil y m d" "days_from_civil y m d \<le> 2932896"
    unfolding v(3) by (simp_all add: ms_per_day_def)
  then have "0 \<le> y \<and> y \<le> 9999" by (rule four_digit_years [OF v(1)])
  then have "parse_iso8601_millis (iso_text y m d h mi s ms) = Some t"
    using v(1,2) days_in_month_31 [of y m] civil_days [OF v(1)]
    by (subst parse_iso_text) (simp_all add: v(3) valid_date_def)
  then show ?thesis by (simp add: format_iso8601_millis_def p)
qed

text \<open>
  C18. What a \<open>Timestamp\<close> prints is what the parser accepts: within the years 0 to 9999 the
  text of an instant parses to that instant.
\<close>

theorem iso_format_parse:
  assumes "- 62167219200000 \<le> t" "t \<le> 253402300799999"
  shows "parse_iso8601_millis (format_iso8601_millis t) = Some t"
  by (rule format_parses [OF assms])

theorem iso_format_parse_witness:
  "parse_iso8601_millis (format_iso8601_millis (- 1)) = Some (- 1)"
  by (rule iso_format_parse) simp_all

text \<open>
  The parser accepts no other spelling: a text it takes is exactly what the instant it
  yields prints.
\<close>

theorem iso_parse_format:
  assumes "parse_iso8601_millis b = Some t"
  shows "format_iso8601_millis t = b"
proof -
  obtain y m d h mi s ms where "valid_date y m d" "valid_clock h mi s ms"
    "b = iso_text y m d h mi s ms" "t = days_from_civil y m d * ms_per_day + clock_ms h mi s ms"
    using parse_iso_Some [OF assms] by metis
  then show ?thesis by (simp add: format_iso8601_millis_def instant_parts)
qed

lemma show_nat_eval:
  "n < 10 \<Longrightarrow> show_nat n = [digit_char n]"
  "10 \<le> n \<Longrightarrow> show_nat n = show_nat (n div 10) @ [digit_char (n mod 10)]"
  by (subst show_nat.simps, simp)+

lemma parse_epoch: "parse_iso8601_millis ''1970-01-01T00:00:00.000Z'' = Some 0"
proof -
  have "parse_iso8601_millis (iso_text 1970 1 1 0 0 0 0) = Some 0"
  proof -
    have "days_from_civil 1970 1 1 = 0"
      by (simp add: days_from_civil_floor march_year_def march_month_def year_start_def)
    moreover have "valid_date 1970 1 1" by (simp add: valid_date_def days_in_month_def)
    ultimately show ?thesis
      using civil_days [of 1970 1 1] by (subst parse_iso_text) (simp_all add: valid_clock_def clock_ms_def)
  qed
  moreover have "iso_text 1970 1 1 0 0 0 0 = ''1970-01-01T00:00:00.000Z''"
    by (simp add: iso_text_def pad_int_def pad_def show_nat_eval digit_char_def char_of_def bit_0)
      (simp add: numeral_2_eq_2)
  ultimately show ?thesis by simp
qed

theorem iso_parse_format_witness:
  "format_iso8601_millis 0 = ''1970-01-01T00:00:00.000Z''"
  by (rule iso_parse_format [OF parse_epoch])

text \<open>
  \<open>dateFromParts\<close> yields the instant of its parts exactly when they name a date that
  exists and a time of day; the error names the first part out of range.
\<close>

theorem date_from_parts_correct:
  "date_from_parts y m d h mi s =
     (if y < 0 \<or> 9999 < y then Inl (BadYear y)
      else if m < 1 \<or> 12 < m then Inl (BadMonth m)
      else if d < 1 \<or> 31 < d then Inl (BadDay d)
      else if h < 0 \<or> 23 < h then Inl (BadHour h)
      else if mi < 0 \<or> 59 < mi then Inl (BadMinute mi)
      else if s < 0 \<or> 59 < s then Inl (BadSecond s)
      else if d \<le> days_in_month y m
           then Inr (days_from_civil y m d * 86400000 + h * 3600000 + mi * 60000 + s * 1000)
           else Inl (NoSuchDate y m d))"
proof (cases "0 \<le> y \<and> y \<le> 9999 \<and> 1 \<le> m \<and> m \<le> 12 \<and> 1 \<le> d \<and> d \<le> 31 \<and> valid_clock h mi s 0")
  case True
  have "civil_from_days (days_from_civil y m d) = (y, m, d) \<longleftrightarrow> d \<le> days_in_month y m"
    using True civil_days [of y m d] days_civil [of "days_from_civil y m d" y m d]
    by (auto simp: valid_date_def)
  with True show ?thesis
    by (auto simp: date_from_parts_def parse_iso_text valid_clock_def clock_ms_def ms_defs)
next
  case False
  then show ?thesis by (auto simp: date_from_parts_def valid_clock_def)
qed

text \<open>
  An instant written to a PostgreSQL timestamp column and read back is the same instant,
  as long as its microseconds fit in 64 bits.
\<close>

theorem pg_timestamp_round_trip:
  assumes "in_i64 ((t - pg_epoch_days * ms_per_day) * 1000)"
  shows "millis_from_pg_timestamp_micros (pg_timestamp_micros_from_millis t) = t"
proof -
  have "in_i64 (t - pg_epoch_days * ms_per_day)" using assms by (simp add: i64_defs)
  with assms show ?thesis
    by (simp add: pg_timestamp_micros_from_millis_def millis_from_pg_timestamp_micros_def wrap64_id)
qed

theorem pg_timestamp_round_trip_witness:
  "millis_from_pg_timestamp_micros (pg_timestamp_micros_from_millis (- 5)) = - 5"
  by (rule pg_timestamp_round_trip) (simp add: i64_defs pg_epoch_days_def ms_per_day_def)

text \<open>
  An instant written to a PostgreSQL date column comes back as the midnight that starts
  its day, as long as the day fits in 32 bits.
\<close>

theorem pg_date_truncates:
  assumes "- (2 ^ 31) \<le> t div ms_per_day - pg_epoch_days" "t div ms_per_day - pg_epoch_days < 2 ^ 31"
  shows "millis_from_pg_date_days (pg_date_days_from_millis t) = t - t mod ms_per_day"
proof -
  have "wrap32 (t div ms_per_day - pg_epoch_days) = t div ms_per_day - pg_epoch_days"
    using assms by (simp add: wrap32_def)
  then show ?thesis
    by (simp add: millis_from_pg_date_days_def pg_date_days_from_millis_def minus_mod_eq_div_mult)
qed

theorem pg_date_truncates_witness:
  "millis_from_pg_date_days (pg_date_days_from_millis (- 1)) = - 1 - (- 1) mod ms_per_day"
  by (rule pg_date_truncates) (simp_all add: ms_per_day_def pg_epoch_days_def)

end
