(* ===== verification/CronProps.thy ===== *)
theory CronProps
  imports Cron IsoTime
begin

text \<open>
  The promises of cron expressions: parsing ends and its tables say what the fields say, the
  search finds the first instant of the calendar that matches, and what the bound of four
  years of the search leaves out.
\<close>

section \<open>Instants that match\<close>

definition instant :: "int \<Rightarrow> int \<Rightarrow> int \<Rightarrow> int \<Rightarrow> int \<Rightarrow> int" where
  "instant y m d h mi = days_from_civil y m d * ms_per_day + clock_ms h mi 0 0"

text \<open>
  The specification: a date of the calendar and a time of day that the five tables admit.
\<close>

definition fires :: "cron_expr \<Rightarrow> int \<Rightarrow> int \<Rightarrow> int \<Rightarrow> int \<Rightarrow> int \<Rightarrow> bool" where
  "fires e y m d h mi \<longleftrightarrow> valid_date y m d \<and> valid_clock h mi 0 0 \<and>
     month e ! nat (m - 1) \<and> day_ok e d ((days_from_civil y m d + 4) mod 7) \<and>
     hour e ! nat h \<and> minute e ! nat mi"

lemma instant_minute: "\<exists>k. instant y m d h mi = k * ms_per_min"
  by (rule exI [of _ "days_from_civil y m d * 1440 + h * 60 + mi"])
    (simp add: instant_def clock_ms_def ms_defs)

lemma minute_instant:
  obtains y m d h mi where "valid_date y m d" "valid_clock h mi 0 0" "k * ms_per_min = instant y m d h mi"
proof -
  obtain y m d h mi s ms where p: "ymd_hms_milli_from_millis (k * ms_per_min) = (y, m, d, h, mi, s, ms)"
    by (metis prod_cases7)
  note v = parts_instant [OF p]
  have c: "valid_clock h mi s ms" by (rule v(2))
  define z where "z = days_from_civil y m d * 1440 + h * 60 + mi"
  have "k * 60000 = 60000 * z + (s * 1000 + ms)"
    using v(3) by (simp add: clock_ms_def ms_defs z_def)
  moreover have "0 \<le> s * 1000 + ms" "s * 1000 + ms < 60000" using c by (simp_all add: valid_clock_def)
  ultimately have "k = z" by linarith
  with \<open>k * 60000 = 60000 * z + (s * 1000 + ms)\<close> have "s * 1000 + ms = 0" by simp
  with c have "s = 0" "ms = 0" by (simp_all add: valid_clock_def)
  with v that show thesis by (simp add: instant_def)
qed

lemma minute_matches_fires:
  assumes "valid_date y m d" "valid_clock h mi 0 0" "k * ms_per_min = instant y m d h mi"
  shows "minute_matches e k \<longleftrightarrow> fires e y m d h mi"
proof -
  let ?t = "instant y m d h mi"
  have "ymd_hms_milli_from_millis ?t = (y, m, d, h, mi, 0, 0)"
    unfolding instant_def by (rule instant_parts [OF assms(1,2)])
  then have "tdiv (?t mod ms_per_day) ms_per_hour = h"
    "tdiv (trem (?t mod ms_per_day) ms_per_hour) ms_per_min = mi"
    "civil_from_days (?t div ms_per_day) = (y, m, d)"
    unfolding ymd_hms_milli_from_millis_def Let_def by (auto split: prod.splits)
  moreover have "?t div ms_per_day = days_from_civil y m d"
    using clock_ms_range [OF assms(2)] by (simp add: instant_def ms_per_day_def)
  ultimately show ?thesis
    using assms unfolding minute_matches_def assms(3) Let_def by (simp add: fires_def)
qed

section \<open>The search\<close>

lemma next_match_Some:
  "next_match e n c = Some t \<Longrightarrow>
     \<exists>k. c \<le> k \<and> k < c + int n \<and> t = k * ms_per_min \<and> minute_matches e k \<and>
         (\<forall>j. c \<le> j \<and> j < k \<longrightarrow> \<not> minute_matches e j)"
proof (induction n arbitrary: c)
  case (Suc n)
  show ?case
  proof (cases "minute_matches e c")
    case True
    with Suc.prems show ?thesis by auto
  next
    case False
    with Suc.prems have "next_match e n (c + 1) = Some t" by simp
    from Suc.IH [OF this] obtain k where k: "c + 1 \<le> k" "k < c + 1 + int n" "t = k * ms_per_min"
      "minute_matches e k" "\<forall>j. c + 1 \<le> j \<and> j < k \<longrightarrow> \<not> minute_matches e j" by blast
    have "\<not> minute_matches e j" if "c \<le> j" "j < k" for j
      using that k(5) False by (cases "j = c") auto
    with k show ?thesis by (intro exI [of _ k]) auto
  qed
qed simp

lemma next_match_None:
  "next_match e n c = None \<Longrightarrow> c \<le> k \<Longrightarrow> k < c + int n \<Longrightarrow> \<not> minute_matches e k"
proof (induction n arbitrary: c)
  case (Suc n)
  then show ?case by (cases "k = c") (auto split: if_splits)
qed simp

lemma after_now:
  "now < k * ms_per_min \<longleftrightarrow> now div ms_per_min + 1 \<le> k"
proof -
  define q r where "q = now div 60000" and "r = now mod 60000"
  then have "now = 60000 * q + r" "0 \<le> r" "r < 60000" by simp_all
  then have "now < k * 60000 \<longleftrightarrow> q + 1 \<le> k" by (cases "q + 1 \<le> k") linarith+
  then show ?thesis by (simp add: q_def ms_per_min_def)
qed

section \<open>Examples\<close>

definition every_minute :: cron_expr where
  "every_minute =
     \<lparr>minute = replicate 60 True, hour = replicate 24 True, day_of_month = replicate 31 True,
      month = replicate 12 True, day_of_week = replicate 7 True,
      dom_restricted = False, dow_restricted = False\<rparr>"

lemma fires_every_minute:
  "valid_date y m d \<Longrightarrow> valid_clock h mi 0 0 \<Longrightarrow> fires every_minute y m d h mi"
  by (simp add: fires_def every_minute_def day_ok_def valid_date_def valid_clock_def nat_less_iff)

lemma next_every_minute: "next_run_after every_minute now = Some ((now div ms_per_min + 1) * ms_per_min)"
proof -
  define c where "c = now div ms_per_min + 1"
  obtain y m d h mi where i: "valid_date y m d" "valid_clock h mi 0 0" "c * ms_per_min = instant y m d h mi"
    by (rule minute_instant)
  then have m: "minute_matches every_minute c"
    using minute_matches_fires [OF i] fires_every_minute by blast
  obtain n where n: "max_minutes_ahead = Suc n" by (cases max_minutes_ahead) (simp_all add: max_minutes_ahead_def)
  show ?thesis unfolding next_run_after_def n c_def [symmetric] using m by simp
qed

text \<open>Fields that are one number, or a star.\<close>

lemma parse_field_number:
  assumes "\<not> {44, 47, 45} \<inter> set s \<noteq> {}" "s \<noteq> cps ''*''" "parse_number s = Some v"
    and "lowest \<le> v" "v \<le> highest" "highest < 2 ^ 31"
  shows "parse_field s lowest highest = Some (Inr ((replicate (highest - lowest + 1) False)[v - lowest := True]))"
proof -
  have "split_once 47 s = None" "split_once 45 s = None" "split_on 44 s = [s]"
    using assms(1) by (auto simp: split_once_def intro!: split_on_none)
  moreover have "Suc v mod 4294967296 = Suc v" using assms(5,6) by simp
  moreover have fuel: "range_fuel v = Suc (Suc v)" by (simp add: range_fuel_def)
  ultimately show ?thesis
    using assms(2-5)
    by (simp add: parse_field_def part_step_def part_bounds_def fuel del: replicate_Suc)
qed

lemma mark_range_star:
  assumes "highest < 2 ^ 31" "length allowed = highest + 1 - lowest" "highest + 2 - v \<le> n" "0 < n"
    and "lowest \<le> v" "v \<le> highest + 1" "\<forall>i < v - lowest. allowed ! i"
  shows "mark_range n lowest highest 1 v allowed = Some (Inr (replicate (highest + 1 - lowest) True))"
  using assms(2-7)
proof (induction n arbitrary: v allowed)
  case (Suc n)
  show ?case
  proof (cases "v \<le> highest")
    case True
    then have "(v + 1) mod 4294967296 = v + 1" using assms(1) by simp
    moreover have "mark_range n lowest highest 1 (v + 1) (allowed[v - lowest := True]) =
        Some (Inr (replicate (highest + 1 - lowest) True))"
      using Suc.prems True by (intro Suc.IH) (auto simp: nth_list_update)
    ultimately show ?thesis using True Suc.prems by simp
  next
    case False
    with Suc.prems have "v = highest + 1" by simp
    with Suc.prems have "allowed = replicate (highest + 1 - lowest) True"
      by (intro nth_equalityI) auto
    with False show ?thesis by simp
  qed
qed simp

lemma parse_field_star:
  "highest < 2 ^ 31 \<Longrightarrow> lowest \<le> highest \<Longrightarrow>
     parse_field (cps ''*'') lowest highest = Some (Inr (replicate (highest - lowest + 1) True))"
  using mark_range_star [of highest "replicate (highest - lowest + 1) False" lowest lowest "range_fuel highest"]
  by (simp add: parse_field_def part_step_def part_bounds_def split_once_def cps_def range_fuel_def
      Suc_diff_le del: replicate_Suc mark_range.simps)

text \<open>\<open>0 0 29 2 *\<close>, the midnight of every leap day.\<close>

definition leap_day :: cron_expr where
  "leap_day =
     \<lparr>minute = (replicate 60 False)[0 := True], hour = (replicate 24 False)[0 := True],
      day_of_month = (replicate 31 False)[28 := True], month = (replicate 12 False)[1 := True],
      day_of_week = replicate 7 True, dom_restricted = True, dow_restricted = False\<rparr>"

lemma fires_leap_day: "fires leap_day y m d h mi \<longleftrightarrow> m = 2 \<and> d = 29 \<and> h = 0 \<and> mi = 0 \<and> leap y"
proof
  assume "fires leap_day y m d h mi"
  then have v: "valid_date y m d" "valid_clock h mi 0 0" and t:
    "(replicate 12 False)[1 := True] ! nat (m - 1)" "(replicate 31 False)[28 := True] ! nat (d - 1)"
    "(replicate 24 False)[0 := True] ! nat h" "(replicate 60 False)[0 := True] ! nat mi"
    by (simp_all add: fires_def leap_day_def day_ok_def)
  have b: "1 \<le> m" "m \<le> 12" "1 \<le> d" "d \<le> 31" "0 \<le> h" "h \<le> 23" "0 \<le> mi" "mi \<le> 59"
    using v days_in_month_31 [of y m] by (auto simp: valid_date_def valid_clock_def)
  have "nat (m - 1) < 12" "nat (d - 1) < 31" "nat h < 24" "nat mi < 60" using b by auto
  with t have "nat (m - 1) = 1" "nat (d - 1) = 28" "nat h = 0" "nat mi = 0"
    by (auto simp: nth_list_update split: if_splits)
  with b have "m = 2" "d = 29" "h = 0" "mi = 0" by auto
  with v show "m = 2 \<and> d = 29 \<and> h = 0 \<and> mi = 0 \<and> leap y"
    by (auto simp: valid_date_def days_in_month_def split: if_splits)
next
  assume "m = 2 \<and> d = 29 \<and> h = 0 \<and> mi = 0 \<and> leap y"
  then show "fires leap_day y m d h mi"
    by (simp add: fires_def leap_day_def day_ok_def valid_date_def valid_clock_def days_in_month_def)
qed

lemma obind_Some_Inr: "obind (Some (Inr x)) f = f x"
  by (simp add: obind_def)

lemma fold_sunday_star: "fold_sunday (replicate 8 True) = replicate 7 True"
  by (simp add: fold_sunday_def eval_nat_numeral)

lemma parse_leap_day: "parse_expression (cps ''0 0 29 2 *'') = Some (Inr leap_day)"
proof -
  have w: "split_whitespace (cps ''0 0 29 2 *'') = [cps ''0'', cps ''0'', cps ''29'', cps ''2'', cps ''*'']"
    by (simp add: cps_def is_whitespace_def)
  have n: "parse_number (cps ''0'') = Some 0" "parse_number (cps ''29'') = Some 29"
    "parse_number (cps ''2'') = Some 2"
    by (simp_all add: cps_def parse_number_def parse_u32_def parse_unsigned_def parse_digits_def
        digits_val_def digit_byte_def utf8_char_def char_of_def bit_0)
  have "parse_field (cps ''0'') 0 59 = Some (Inr ((replicate 60 False)[0 := True]))"
    "parse_field (cps ''0'') 0 23 = Some (Inr ((replicate 24 False)[0 := True]))"
    "parse_field (cps ''29'') 1 31 = Some (Inr ((replicate 31 False)[28 := True]))"
    "parse_field (cps ''2'') 1 12 = Some (Inr ((replicate 12 False)[1 := True]))"
    "parse_field (cps ''*'') 0 7 = Some (Inr (replicate 8 True))"
    using parse_field_number [OF _ _ n(1), of 0 59] parse_field_number [OF _ _ n(1), of 0 23]
      parse_field_number [OF _ _ n(2), of 1 31] parse_field_number [OF _ _ n(3), of 1 12]
      parse_field_star [of 7 0]
    by (simp_all add: cps_def del: replicate_Suc)
  then show ?thesis
    unfolding parse_expression_def w list.case leap_day_def
    by (simp only: obind_Some_Inr fold_sunday_star) (simp add: cps_def)
qed

lemma days_leap_day:
  "days_from_civil y 2 29 = 365 * (y - 1) + (y - 1) div 4 - (y - 1) div 100 + (y - 1) div 400 - 719103"
  by (simp add: days_from_civil_linear march_year_def march_day_def march_month_def)

section \<open>Properties\<close>


text \<open>
  No next run means that no admitted instant lies within the four years searched.
\<close>

theorem next_run_none:
  assumes "next_run_after e now = None" "fires e y m d h mi" "now < instant y m d h mi"
  shows "now div ms_per_min + int max_minutes_ahead < instant y m d h mi div ms_per_min"
proof -
  obtain j where j: "instant y m d h mi = j * ms_per_min" using instant_minute by blast
  then have "minute_matches e j"
    using assms(2) minute_matches_fires [of y m d h mi j e] by (simp add: fires_def)
  moreover have "now div ms_per_min + 1 \<le> j" using assms(3) j after_now [of now j] by simp
  ultimately have "now div ms_per_min + 1 + int max_minutes_ahead \<le> j"
    using next_match_None [OF assms(1) [unfolded next_run_after_def], of j] by linarith
  then show ?thesis by (simp add: j ms_per_min_def)
qed


text \<open>
  Parsing a cron expression ends on every text, also when a huge step makes the counter
  of a range wrap.
\<close>

theorem parse_expression_total: "parse_expression raw \<noteq> None"
proof -
  have f: "parse_field f lowest highest \<noteq> None" if "highest < 2 ^ 31" for f lowest highest
    unfolding parse_field_def by (rule parse_parts_returns [OF that])
  show ?thesis
    unfolding parse_expression_def
    by (simp split: list.split del: not_None_eq) (intro allI impI obind_not_None f; simp)
qed

text \<open>
  A field admits exactly the values of its parts: entry \<open>v\<close> of the table is set when
  some part between commas reaches \<open>v\<close> from its lower bound by its step, as long as the
  steps do not reach the end of 32 bits.
\<close>

theorem field_meaning:
  assumes "parse_field spec lowest highest = Some (Inr tab)"
    and "list_all (small_step highest) (split_on (code CHR '','') spec)"
    and "lowest \<le> v" "v \<le> highest"
  shows "tab ! (v - lowest) \<longleftrightarrow>
    list_ex (\<lambda>part. part_admits part lowest highest v) (split_on (code CHR '','') spec)"
  using parse_parts_table [OF assms(1) [unfolded parse_field_def] assms(2), of "v - lowest"] assms(3,4)
  by (simp del: replicate_Suc)


lemma parse_zero_field:
  "parse_field (cps ''0'') 0 59 = Some (Inr ((replicate 60 False)[0 := True]))"
  using parse_field_number [of "cps ''0''" 0 0 59]
  by (simp add: cps_def parse_number_def parse_u32_def parse_unsigned_def parse_digits_def
        digits_val_def digit_byte_def utf8_char_def char_of_def bit_0 del: replicate_Suc)

theorem field_meaning_witness:
  "(replicate 60 False)[0 := True] ! (7 - 0) \<longleftrightarrow>
    list_ex (\<lambda>part. part_admits part 0 59 7) (split_on (code CHR '','') (cps ''0''))"
  by (rule field_meaning [OF parse_zero_field])
    (simp_all add: cps_def small_step_def part_step_def split_once_def)


text \<open>The search from the leap day of 2096 finds nothing: 2100 is no leap year.\<close>

lemma no_leap_day_until_2100: "next_run_after leap_day (instant 2096 2 29 0 0) = None"
proof (rule ccontr)
  let ?now = "instant 2096 2 29 0 0"
  assume "next_run_after leap_day ?now \<noteq> None"
  then obtain t where "next_run_after leap_day ?now = Some t" by blast
  from next_match_Some [OF this [unfolded next_run_after_def]] obtain k where
    k: "?now div ms_per_min + 1 \<le> k" "k < ?now div ms_per_min + 1 + int max_minutes_ahead"
      "minute_matches leap_day k" by blast
  obtain y m d h mi where i: "valid_date y m d" "valid_clock h mi 0 0" "k * ms_per_min = instant y m d h mi"
    by (rule minute_instant)
  then have f: "m = 2" "d = 29" "h = 0" "mi = 0" "leap y"
    using minute_matches_fires [OF i] k(3) fires_leap_day by blast+
  have n: "?now = 46080 * ms_per_day" by (simp add: instant_def clock_ms_def days_leap_day)
  have "k = 1440 * days_from_civil y 2 29"
    using i(3) by (simp add: f instant_def clock_ms_def ms_defs)
  then have b: "46080 < days_from_civil y 2 29" "days_from_civil y 2 29 \<le> 46080 + 1464"
    using k(1,2) by (simp_all add: n ms_defs max_minutes_ahead_def)
  define z a c e where "z = y - 1" "a = z div 4" "c = z div 100" "e = z div 400"
  have ace: "4 * a \<le> z" "z \<le> 4 * a + 3" "100 * c \<le> z" "z \<le> 100 * c + 99"
    "400 * e \<le> z" "z \<le> 400 * e + 399"
    unfolding z_a_c_e_def(2-4)
    using pos_mod_bound [of 4 z] pos_mod_sign [of 4 z] mult_div_mod_eq [of 4 z]
      pos_mod_bound [of 100 z] pos_mod_sign [of 100 z] mult_div_mod_eq [of 100 z]
      pos_mod_bound [of 400 z] pos_mod_sign [of 400 z] mult_div_mod_eq [of 400 z]
    by simp_all
  have "days_from_civil y 2 29 = 365 * z + a - c + e - 719103"
    by (simp add: days_leap_day z_a_c_e_def)
  with b ace have "2095 \<le> z" "z \<le> 2100" by linarith+
  then have "y = 2096 \<or> y = 2097 \<or> y = 2098 \<or> y = 2099 \<or> y = 2100 \<or> y = 2101"
    unfolding z_a_c_e_def(1) by linarith
  with b f(5) show False by (auto simp: leap_def days_leap_day)
qed

text \<open>
  The search gives up too early around a century: after the leap day of 2096 the
  expression for midnight of every leap day has no next run, although the leap day of 2104
  matches it; the scheduler then stops the task for ever.
\<close>

theorem leap_day_missed:
  "next_run_after leap_day (instant 2096 2 29 0 0) = None \<and> fires leap_day 2104 2 29 0 0 \<and>
   instant 2096 2 29 0 0 < instant 2104 2 29 0 0"
  using no_leap_day_until_2100
  by (intro conjI) (simp_all add: fires_leap_day leap_def, simp add: instant_def days_leap_day ms_per_day_def)

theorem next_run_none_witness:
  "instant 2096 2 29 0 0 div ms_per_min + int max_minutes_ahead < instant 2104 2 29 0 0 div ms_per_min"
  by (rule next_run_none [OF no_leap_day_until_2100])
    (simp_all add: fires_leap_day leap_def instant_def days_leap_day ms_per_day_def)

end
