(* ===== verification/Expiry.thy ===== *)
theory Expiry
  imports Prelude "HOL-Library.AList"
begin

text \<open>
  What the in-memory stores of the server share (\<open>compiler/src/idempotency.rs\<close> and
  \<open>cache.rs\<close>): a \<open>HashMap\<close> keyed by service, rpc and a text, whose entries expire and are
  swept from time to time. A \<open>HashMap\<close> is an association list with distinct keys;
  \<open>retain\<close> is \<open>filter\<close>. An \<open>Instant\<close> is a number of nanoseconds, taken by the caller
  and passed to the operation. The interface \<open>expiring_store\<close> states that sweeping
  is not observable; both stores interpret it.
\<close>

type_synonym store_key = "string \<times> string \<times> string"

definition nanos :: "nat \<Rightarrow> nat" where
  "nanos secs = secs * 10 ^ 9"

definition sweep_every :: nat where
  "sweep_every = 1000"

text \<open>\<open>HashMap::retain\<close>.\<close>

definition retain :: "('k \<Rightarrow> 'v \<Rightarrow> bool) \<Rightarrow> ('k \<times> 'v) list \<Rightarrow> ('k \<times> 'v) list" where
  "retain P m = filter (\<lambda>(k, v). P k v) m"

definition keys_distinct :: "('k \<times> 'v) list \<Rightarrow> bool" where
  "keys_distinct m \<longleftrightarrow> distinct (map fst m)"

named_theorems store_simps "lookups in the stores"

lemma keys_distinct_Nil [simp]: "keys_distinct []"
  by (simp add: keys_distinct_def)

lemma keys_distinct_update [simp]: "keys_distinct m \<Longrightarrow> keys_distinct (AList.update k v m)"
  unfolding keys_distinct_def by (rule distinct_update)

lemma keys_distinct_delete [simp]: "keys_distinct m \<Longrightarrow> keys_distinct (AList.delete k m)"
  unfolding keys_distinct_def by (rule distinct_delete)

lemma keys_distinct_retain [simp]: "keys_distinct m \<Longrightarrow> keys_distinct (retain P m)"
  by (induction m) (auto simp: keys_distinct_def retain_def)

lemma map_of_retain [store_simps]:
  "keys_distinct m \<Longrightarrow>
     map_of (retain P m) k = (case map_of m k of None \<Rightarrow> None | Some v \<Rightarrow> if P k v then Some v else None)"
proof (induction m)
  case (Cons x m)
  obtain k' v where x: "x = (k', v)" by (cases x)
  from Cons.prems have "map_of m k' = None" and IH: "keys_distinct m"
    by (auto simp: keys_distinct_def x map_of_eq_None_iff)
  with Cons.IH [OF IH] show ?case by (auto simp: x retain_def split: option.split)
qed (simp add: retain_def)

lemma map_of_update [store_simps]:
  "map_of (AList.update k v m) k' = (if k' = k then Some v else map_of m k')"
  by (simp add: update_conv')

lemma map_of_delete [store_simps]:
  "map_of (AList.delete k m) k' = (if k' = k then None else map_of m k')"
  by (simp add: delete_conv')

section \<open>The interface of an expiring store\<close>

text \<open>
  \<open>look s now k\<close> is what a client sees at \<open>now\<close>; \<open>tick s now\<close> is one call of
  \<open>sweep_if_due\<close>.
\<close>

locale expiring_store =
  fixes inv :: "'s \<Rightarrow> bool"
    and look :: "'s \<Rightarrow> nat \<Rightarrow> 'k \<Rightarrow> 'v option"
    and tick :: "'s \<Rightarrow> nat \<Rightarrow> 's"
  assumes inv_tick: "inv s \<Longrightarrow> inv (tick s now)"
    and look_tick: "inv s \<Longrightarrow> now \<le> later \<Longrightarrow> look (tick s now) later k = look s later k"
begin

lemma inv_ticks: "inv s \<Longrightarrow> inv (foldl tick s ts)"
  by (induction ts arbitrary: s) (simp_all add: inv_tick)

text \<open>However often the store was swept, what is seen afterwards is the same.\<close>

lemma look_ticks:
  "inv s \<Longrightarrow> list_all (\<lambda>t. t \<le> later) ts \<Longrightarrow> look (foldl tick s ts) later k = look s later k"
  by (induction ts arbitrary: s) (simp_all add: inv_tick look_tick)

end

text \<open>A store that is also written: what is put is seen while it lives, and nothing else changes.\<close>

locale expiring_map = expiring_store inv look tick
  for inv :: "'s \<Rightarrow> bool"
    and look :: "'s \<Rightarrow> nat \<Rightarrow> 'k \<Rightarrow> 'v option"
    and tick :: "'s \<Rightarrow> nat \<Rightarrow> 's" +
  fixes lives :: "nat \<Rightarrow> 'e \<Rightarrow> bool"
    and view :: "'e \<Rightarrow> 'v"
    and store :: "'s \<Rightarrow> 'k \<Rightarrow> 'e \<Rightarrow> 's"
  assumes inv_store: "inv s \<Longrightarrow> inv (store s k e)"
    and look_store: "inv s \<Longrightarrow>
      look (store s k e) later k' =
        (if k' = k then (if lives later e then Some (view e) else None) else look s later k')"
begin

lemma look_store_ticks:
  assumes "inv s" "list_all (\<lambda>t. t \<le> later) ts" "lives later e"
  shows "look (foldl tick (store s k e) ts) later k = Some (view e)"
  using look_ticks [OF inv_store [OF assms(1)] assms(2)] assms(1,3) by (simp add: look_store)

lemma look_store_other:
  assumes "inv s" "list_all (\<lambda>t. t \<le> later) ts" "k' \<noteq> k"
  shows "look (foldl tick (store s k e) ts) later k' = look s later k'"
  using look_ticks [OF inv_store [OF assms(1)] assms(2)] assms(1,3) by (simp add: look_store)

end

end
