(* ===== verification/Idempotency.thy ===== *)
theory Idempotency
  imports Expiry
begin

text \<open>
  The store of \<open>@idempotent\<close>, \<open>compiler/src/idempotency.rs\<close>. Every operation runs under
  the lock of the store, so that concurrent requests are sequences of these operations.
\<close>

text \<open>\<open>enum Lookup\<close>; its \<open>InFlight\<close> is \<open>Busy\<close> here.\<close>

datatype lookup = Reserved | Hit nat string string | Conflict | Busy

text \<open>\<open>enum Entry\<close>: hash and start, or hash, status, body, content type and end.\<close>

datatype entry =
    InFlight string nat
  | Done string nat string string nat

definition entry_ttl :: nat where
  "entry_ttl = nanos (24 * 3600)"

definition in_flight_stale_after :: nat where
  "in_flight_stale_after = nanos 120"

record idempotency_store =
  entries :: "(store_key \<times> entry) list"
  checks_since_sweep :: nat

definition new_store :: idempotency_store where
  "new_store = \<lparr>entries = [], checks_since_sweep = 0\<rparr>"

text \<open>\<open>now.saturating_duration_since(t)\<close> is the subtraction of natural numbers.\<close>

fun keeps :: "nat \<Rightarrow> entry \<Rightarrow> bool" where
  "keeps now (Done _ _ _ _ stored_at) \<longleftrightarrow> now - stored_at \<le> entry_ttl"
| "keeps now (InFlight _ started_at) \<longleftrightarrow> now - started_at \<le> in_flight_stale_after"

definition sweep_if_due :: "idempotency_store \<Rightarrow> nat \<Rightarrow> idempotency_store" where
  "sweep_if_due s now =
     (let s = s\<lparr>checks_since_sweep := checks_since_sweep s + 1\<rparr>
      in if checks_since_sweep s < sweep_every then s
         else s\<lparr>checks_since_sweep := 0, entries := retain (\<lambda>_. keeps now) (entries s)\<rparr>)"

definition reclaim :: "nat \<Rightarrow> entry option \<Rightarrow> bool" where
  "reclaim now found =
     (case found of
        None \<Rightarrow> True
      | Some (Done _ _ _ _ stored_at) \<Rightarrow> entry_ttl < now - stored_at
      | Some (InFlight _ started_at) \<Rightarrow> in_flight_stale_after < now - started_at)"

definition reserve ::
  "idempotency_store \<Rightarrow> nat \<Rightarrow> store_key \<Rightarrow> string \<Rightarrow> idempotency_store \<times> lookup" where
  "reserve s now k request_hash =
     (let s = sweep_if_due s now
      in if reclaim now (map_of (entries s) k)
         then (s\<lparr>entries := AList.update k (InFlight request_hash now) (entries s)\<rparr>, Reserved)
         else case the (map_of (entries s) k) of
                Done h status body content_type _ \<Rightarrow>
                  (s, if h \<noteq> request_hash then Conflict else Hit status body content_type)
              | InFlight h _ \<Rightarrow> (s, if h \<noteq> request_hash then Conflict else Busy))"

definition complete ::
  "idempotency_store \<Rightarrow> nat \<Rightarrow> store_key \<Rightarrow> string \<Rightarrow> nat \<Rightarrow> string \<Rightarrow> string \<Rightarrow> idempotency_store" where
  "complete s now k request_hash status body content_type =
     s\<lparr>entries := AList.update k (Done request_hash status body content_type now) (entries s)\<rparr>"

definition release :: "idempotency_store \<Rightarrow> store_key \<Rightarrow> idempotency_store" where
  "release s k = s\<lparr>entries := AList.delete k (entries s)\<rparr>"

section \<open>What the store shows\<close>

definition idem_ok :: "idempotency_store \<Rightarrow> bool" where
  "idem_ok s \<longleftrightarrow> keys_distinct (entries s) \<and> checks_since_sweep s < sweep_every"

text \<open>The entry that counts at an instant.\<close>

definition live_entry :: "idempotency_store \<Rightarrow> nat \<Rightarrow> store_key \<Rightarrow> entry option" where
  "live_entry s now k =
     (case map_of (entries s) k of None \<Rightarrow> None | Some e \<Rightarrow> if keeps now e then Some e else None)"

definition set_entry :: "idempotency_store \<Rightarrow> store_key \<Rightarrow> entry \<Rightarrow> idempotency_store" where
  "set_entry s k e = s\<lparr>entries := AList.update k e (entries s)\<rparr>"

lemma keeps_earlier: "now \<le> later \<Longrightarrow> keeps later e \<Longrightarrow> keeps now e"
  by (cases e) auto

lemma idem_ok_new [simp]: "idem_ok new_store"
  by (simp add: idem_ok_def new_store_def sweep_every_def)

lemma live_entry_new [simp]: "live_entry new_store now k = None"
  by (simp add: live_entry_def new_store_def)

lemma idem_ok_sweep: "idem_ok s \<Longrightarrow> idem_ok (sweep_if_due s now)"
  by (auto simp: idem_ok_def sweep_if_due_def Let_def sweep_every_def)

lemma live_entry_sweep:
  "idem_ok s \<Longrightarrow> now \<le> later \<Longrightarrow> live_entry (sweep_if_due s now) later k = live_entry s later k"
  using keeps_earlier [of now later]
  by (auto simp: idem_ok_def sweep_if_due_def live_entry_def Let_def store_simps split: option.split)

interpretation idem: expiring_map idem_ok live_entry sweep_if_due keeps "\<lambda>e. e" set_entry
proof unfold_locales
  fix s k e k' later
  assume "idem_ok s"
  then show "idem_ok (set_entry s k e)" by (simp add: idem_ok_def set_entry_def)
  show "live_entry (set_entry s k e) later k' =
      (if k' = k then (if keeps later e then Some e else None) else live_entry s later k')"
    by (simp add: live_entry_def set_entry_def store_simps)
qed (simp_all add: idem_ok_sweep live_entry_sweep)

text \<open>\<open>reserve\<close> in terms of the live entry.\<close>

definition answer :: "entry option \<Rightarrow> string \<Rightarrow> lookup" where
  "answer found request_hash =
     (case found of
        None \<Rightarrow> Reserved
      | Some (Done h status body content_type _) \<Rightarrow>
          if h = request_hash then Hit status body content_type else Conflict
      | Some (InFlight h _) \<Rightarrow> if h = request_hash then Busy else Conflict)"

lemma reclaim_live: "reclaim now (map_of (entries s) k) \<longleftrightarrow> live_entry s now k = None"
  by (auto simp: reclaim_def live_entry_def split: option.split entry.split)

lemma reserve_answer:
  assumes "idem_ok s"
  shows "reserve s now k h =
    (if live_entry s now k = None then (set_entry (sweep_if_due s now) k (InFlight h now), Reserved)
     else (sweep_if_due s now, answer (live_entry s now k) h))"
proof (cases "live_entry s now k")
  case None
  then have "live_entry (sweep_if_due s now) now k = None"
    by (simp add: live_entry_sweep [OF assms order_refl])
  with None show ?thesis by (simp add: reserve_def Let_def reclaim_live set_entry_def)
next
  case (Some e)
  then have l: "live_entry (sweep_if_due s now) now k = Some e"
    by (simp add: live_entry_sweep [OF assms order_refl])
  then have "map_of (entries (sweep_if_due s now)) k = Some e"
    by (auto simp: live_entry_def split: option.splits if_splits)
  then show ?thesis using Some l
    by (simp add: reserve_def Let_def reclaim_live answer_def split: entry.split)
qed

lemma idem_ok_reserve: "idem_ok s \<Longrightarrow> reserve s now k h = (s', l) \<Longrightarrow> idem_ok s'"
  by (auto simp: reserve_answer idem.inv_tick idem.inv_store split: if_splits)

lemma idem_ok_complete: "idem_ok s \<Longrightarrow> idem_ok (complete s now k h status body content_type)"
  by (simp add: complete_def idem_ok_def)

lemma idem_ok_release: "idem_ok s \<Longrightarrow> idem_ok (release s k)"
  by (simp add: release_def idem_ok_def)

lemma complete_set: "complete s now k h status body content_type = set_entry s k (Done h status body content_type now)"
  by (simp add: complete_def set_entry_def)

lemma live_entry_release: "live_entry (release s k) later k' = (if k' = k then None else live_entry s later k')"
  by (simp add: live_entry_def release_def store_simps)

end
