(* ===== verification/CacheStore.thy ===== *)
theory CacheStore
  imports Expiry Durations
begin

text \<open>
  The store of \<open>@cache\<close>, \<open>compiler/src/cache.rs\<close>. \<open>Instant::now() + ttl\<close> panics when the
  seconds leave 64 signed bits: \<open>put\<close> returns an option, \<open>None\<close> for the panic.
\<close>

record cache_entry =
  status :: nat
  body :: string
  content_type :: string
  expires_at :: nat

record cache_store =
  cache_entries :: "(store_key \<times> cache_entry) list"
  cache_checks :: nat
  hits :: nat
  misses :: nat

definition new_cache :: cache_store where
  "new_cache = \<lparr>cache_entries = [], cache_checks = 0, hits = 0, misses = 0\<rparr>"

definition cache_sweep_if_due :: "cache_store \<Rightarrow> nat \<Rightarrow> cache_store" where
  "cache_sweep_if_due s now =
     (let s = s\<lparr>cache_checks := cache_checks s + 1\<rparr>
      in if cache_checks s < sweep_every then s
         else s\<lparr>cache_checks := 0,
                cache_entries := retain (\<lambda>_ e. now < expires_at e) (cache_entries s)\<rparr>)"

definition cache_get :: "cache_store \<Rightarrow> nat \<Rightarrow> store_key \<Rightarrow> cache_store \<times> (nat \<times> string \<times> string) option" where
  "cache_get s now k =
     (let s = cache_sweep_if_due s now
      in case map_of (cache_entries s) k of
           Some e \<Rightarrow>
             if now < expires_at e
             then (s\<lparr>hits := hits s + 1\<rparr>, Some (status e, body e, content_type e))
             else (s\<lparr>misses := misses s + 1\<rparr>, None)
         | None \<Rightarrow> (s\<lparr>misses := misses s + 1\<rparr>, None))"

text \<open>\<open>Instant + Duration\<close>: the seconds of an \<open>Instant\<close> are an \<open>i64\<close>.\<close>

definition instant_add :: "nat \<Rightarrow> nat \<Rightarrow> nat option" where
  "instant_add now ttl = (if now + ttl < nanos (2 ^ 63) then Some (now + ttl) else None)"

definition cache_put ::
  "cache_store \<Rightarrow> nat \<Rightarrow> store_key \<Rightarrow> nat \<Rightarrow> string \<Rightarrow> string \<Rightarrow> nat \<Rightarrow> cache_store option" where
  "cache_put s now k st b ct ttl =
     (case instant_add now ttl of
        None \<Rightarrow> None
      | Some t \<Rightarrow>
          Some (s\<lparr>cache_entries :=
            AList.update k \<lparr>status = st, body = b, content_type = ct, expires_at = t\<rparr> (cache_entries s)\<rparr>))"

definition cache_clear :: "cache_store \<Rightarrow> cache_store" where
  "cache_clear s = s\<lparr>cache_entries := []\<rparr>"

text \<open>The address \<open>service.rpc\<close> of a key.\<close>

fun rpc_address :: "store_key \<Rightarrow> string" where
  "rpc_address (service, rpc, _) = service @ ''.'' @ rpc"

definition cache_clear_prefix :: "cache_store \<Rightarrow> string \<Rightarrow> cache_store" where
  "cache_clear_prefix s prefix =
     s\<lparr>cache_entries :=
       retain (\<lambda>k _. strip_prefix prefix (rpc_address k) = None) (cache_entries s)\<rparr>"

definition cache_stats :: "cache_store \<Rightarrow> nat \<Rightarrow> nat \<times> nat \<times> nat" where
  "cache_stats s now =
     (length (filter (\<lambda>(_, e). now < expires_at e) (cache_entries s)), hits s, misses s)"

section \<open>What the store shows\<close>

definition cache_ok :: "cache_store \<Rightarrow> bool" where
  "cache_ok s \<longleftrightarrow> keys_distinct (cache_entries s) \<and> cache_checks s < sweep_every"

definition response :: "cache_entry \<Rightarrow> nat \<times> string \<times> string" where
  "response e = (status e, body e, content_type e)"

definition cached :: "cache_store \<Rightarrow> nat \<Rightarrow> store_key \<Rightarrow> (nat \<times> string \<times> string) option" where
  "cached s now k =
     (case map_of (cache_entries s) k of
        None \<Rightarrow> None | Some e \<Rightarrow> if now < expires_at e then Some (response e) else None)"

definition set_cached :: "cache_store \<Rightarrow> store_key \<Rightarrow> cache_entry \<Rightarrow> cache_store" where
  "set_cached s k e = s\<lparr>cache_entries := AList.update k e (cache_entries s)\<rparr>"

lemma cache_ok_new [simp]: "cache_ok new_cache"
  by (simp add: cache_ok_def new_cache_def sweep_every_def)

lemma cache_ok_sweep: "cache_ok s \<Longrightarrow> cache_ok (cache_sweep_if_due s now)"
  by (auto simp: cache_ok_def cache_sweep_if_due_def Let_def sweep_every_def)

lemma cached_sweep:
  "cache_ok s \<Longrightarrow> now \<le> later \<Longrightarrow> cached (cache_sweep_if_due s now) later k = cached s later k"
  by (auto simp: cache_ok_def cache_sweep_if_due_def cached_def Let_def store_simps split: option.split)

interpretation cache: expiring_map cache_ok cached cache_sweep_if_due
  "\<lambda>now e. now < expires_at e" response set_cached
proof unfold_locales
  fix s k e k' later
  assume "cache_ok s"
  then show "cache_ok (set_cached s k e)" by (simp add: cache_ok_def set_cached_def)
  show "cached (set_cached s k e) later k' =
      (if k' = k then (if later < expires_at e then Some (response e) else None) else cached s later k')"
    by (simp add: cached_def set_cached_def store_simps)
qed (simp_all add: cache_ok_sweep cached_sweep)

text \<open>\<open>get\<close> answers what is cached and counts it.\<close>

lemma cache_get_answer:
  assumes "cache_ok s"
  shows "cache_get s now k =
    (case cached s now k of
       Some r \<Rightarrow> ((cache_sweep_if_due s now)\<lparr>hits := hits s + 1\<rparr>, Some r)
     | None \<Rightarrow> ((cache_sweep_if_due s now)\<lparr>misses := misses s + 1\<rparr>, None))"
proof -
  have c: "hits (cache_sweep_if_due s now) = hits s" "misses (cache_sweep_if_due s now) = misses s"
    by (simp_all add: cache_sweep_if_due_def Let_def)
  have "cached (cache_sweep_if_due s now) now k = cached s now k"
    by (rule cached_sweep [OF assms order_refl])
  then show ?thesis unfolding cache_get_def Let_def cached_def
    by (auto simp: c response_def split: option.splits if_splits)
qed

lemma cached_counters [simp]:
  "cached (s\<lparr>hits := n\<rparr>) now k = cached s now k"
  "cached (s\<lparr>misses := n\<rparr>) now k = cached s now k"
  "cache_ok (s\<lparr>hits := n\<rparr>) \<longleftrightarrow> cache_ok s"
  "cache_ok (s\<lparr>misses := n\<rparr>) \<longleftrightarrow> cache_ok s"
  by (simp_all add: cached_def cache_ok_def)

lemma cache_get_ok: "cache_ok s \<Longrightarrow> cache_ok (fst (cache_get s now k))"
  by (auto simp: cache_get_answer cache_ok_sweep split: option.split)

lemma cached_get:
  "cache_ok s \<Longrightarrow> now \<le> later \<Longrightarrow> cached (fst (cache_get s now k)) later k' = cached s later k'"
  by (auto simp: cache_get_answer cached_sweep split: option.split)

lemma cache_put_set:
  "cache_put s now k st b ct ttl = Some s' \<longleftrightarrow>
     now + ttl < nanos (2 ^ 63) \<and>
     s' = set_cached s k \<lparr>status = st, body = b, content_type = ct, expires_at = now + ttl\<rparr>"
  by (auto simp: cache_put_def instant_add_def set_cached_def split: option.splits if_splits)

lemma cache_put_ok: "cache_ok s \<Longrightarrow> cache_put s now k st b ct ttl = Some s' \<Longrightarrow> cache_ok s'"
  by (auto simp: cache_put_set cache.inv_store)

lemma cached_put:
  "cache_ok s \<Longrightarrow> cache_put s now k st b ct ttl = Some s' \<Longrightarrow>
     cached s' later k' =
       (if k' = k then if later < now + ttl then Some (st, b, ct) else None else cached s later k')"
  by (auto simp: cache_put_set cache.look_store response_def)

lemma cached_clear_prefix:
  "cache_ok s \<Longrightarrow>
     cached (cache_clear_prefix s prefix) now k =
       (if strip_prefix prefix (rpc_address k) = None then cached s now k else None)"
  by (auto simp: cached_def cache_clear_prefix_def cache_ok_def store_simps split: option.split)

section \<open>Histories\<close>

text \<open>One operation of a client of the store, with the instant of the call.\<close>

datatype cache_op =
    Get nat store_key
  | Put nat store_key nat string string nat
  | Clear
  | ClearPrefix string

fun cache_run1 :: "cache_store option \<Rightarrow> cache_op \<Rightarrow> cache_store option" where
  "cache_run1 None op = None"
| "cache_run1 (Some s) (Get now k) = Some (fst (cache_get s now k))"
| "cache_run1 (Some s) (Put now k st b ct ttl) = cache_put s now k st b ct ttl"
| "cache_run1 (Some s) Clear = Some (cache_clear s)"
| "cache_run1 (Some s) (ClearPrefix prefix) = Some (cache_clear_prefix s prefix)"

definition cache_run :: "cache_op list \<Rightarrow> cache_store option" where
  "cache_run ops = foldl cache_run1 (Some new_cache) ops"

text \<open>The specification: what a history leaves to see at an instant, its last write first.\<close>

fun last_write :: "cache_op list \<Rightarrow> nat \<Rightarrow> store_key \<Rightarrow> (nat \<times> string \<times> string) option" where
  "last_write [] later k = None"
| "last_write (Get _ _ # ops) later k = last_write ops later k"
| "last_write (Put now k' st b ct ttl # ops) later k =
     (if k' = k then if later < now + ttl then Some (st, b, ct) else None
      else last_write ops later k)"
| "last_write (Clear # ops) later k = None"
| "last_write (ClearPrefix prefix # ops) later k =
     (if strip_prefix prefix (rpc_address k) = None then last_write ops later k else None)"

fun op_before :: "nat \<Rightarrow> cache_op \<Rightarrow> bool" where
  "op_before later (Get now _) \<longleftrightarrow> now \<le> later"
| "op_before later _ \<longleftrightarrow> True"

lemma cache_run_snoc: "cache_run (ops @ [op]) = cache_run1 (cache_run ops) op"
  by (simp add: cache_run_def)

lemma cache_run_ok:
  "cache_run ops = Some s \<Longrightarrow> cache_ok s \<and>
     (list_all (op_before later) ops \<longrightarrow> cached s later k = last_write (rev ops) later k)"
proof (induction ops arbitrary: s rule: rev_induct)
  case Nil
  then show ?case
    using cache_ok_new by (auto simp: cache_run_def cached_def new_cache_def)
next
  case (snoc op ops)
  from snoc.prems have r: "cache_run1 (cache_run ops) op = Some s" by (simp add: cache_run_snoc)
  then obtain s0 where s0: "cache_run ops = Some s0" by (cases "cache_run ops") auto
  from snoc.IH [OF s0] have ok: "cache_ok s0"
    and seen: "list_all (op_before later) ops \<Longrightarrow> cached s0 later k = last_write (rev ops) later k"
    by auto
  show ?case
  proof (cases op)
    case (Get now k')
    then have s: "s = fst (cache_get s0 now k')" using r s0 by simp
    have "cache_ok s" unfolding s by (rule cache_get_ok [OF ok])
    with s Get ok seen show ?thesis by (auto simp: cached_get)
  next
    case (Put now k' st b ct ttl)
    with r s0 ok seen show ?thesis by (auto simp: cached_put cache_put_ok)
  next
    case Clear
    with r s0 ok show ?thesis by (auto simp: cache_clear_def cache_ok_def cached_def)
  next
    case (ClearPrefix prefix)
    then have s: "s = cache_clear_prefix s0 prefix" using r s0 by simp
    have "cache_ok s" using ok by (simp add: s cache_clear_prefix_def cache_ok_def)
    with s ClearPrefix seen show ?thesis by (simp add: cached_clear_prefix [OF ok])
  qed
qed

text \<open>
  C16. The cache refines its specification: after any history of reads, writes and clears
  that did not panic, what a read finds at a later instant is the last response written for
  that service, rpc and arguments that is not yet expired nor cleared since; sweeping and the
  counters never show.
\<close>

theorem cache_refines:
  assumes "cache_run ops = Some s" "list_all (op_before now) ops"
  shows "snd (cache_get s now k) = last_write (rev ops) now k"
  using cache_run_ok [OF assms(1), of now k] assms(2)
  by (auto simp: cache_get_answer split: option.split)

theorem cache_refines_witness:
  "snd (cache_get \<lparr>cache_entries = [((''S'', ''r'', ''[]''), \<lparr>status = 200, body = ''ok'', content_type = ''t'', expires_at = 5\<rparr>)],
      cache_checks = 0, hits = 0, misses = 0\<rparr> 3 (''S'', ''r'', ''[]'')) =
   last_write (rev [Put 0 (''S'', ''r'', ''[]'') 200 ''ok'' ''t'' 5, ClearPrefix ''T'']) 3 (''S'', ''r'', ''[]'')"
  by (rule cache_refines)
    (simp_all add: cache_run_def cache_put_def instant_add_def nanos_def new_cache_def
      cache_clear_prefix_def retain_def strip_prefix_def)

text \<open>
  \<open>cache.clear(prefix)\<close> takes the prefix of the text of the address, not of its parts:
  clearing the service \<open>Page\<close> also clears the service \<open>Pages\<close>.
\<close>

theorem clear_prefix_crosses_services:
  "\<exists>s. cache_ok s \<and> cached s 0 (''Pages'', ''home'', ''[]'') \<noteq> None \<and>
       cached (cache_clear_prefix s ''Page'') 0 (''Pages'', ''home'', ''[]'') = None"
proof (intro exI conjI)
  let ?s = "set_cached new_cache (''Pages'', ''home'', ''[]'')
    \<lparr>status = 200, body = ''ok'', content_type = ''t'', expires_at = 60\<rparr>"
  show ok: "cache_ok ?s" by (simp add: cache.inv_store)
  show "cached ?s 0 (''Pages'', ''home'', ''[]'') \<noteq> None" by (simp add: cache.look_store)
  show "cached (cache_clear_prefix ?s ''Page'') 0 (''Pages'', ''home'', ''[]'') = None"
    by (simp add: cached_clear_prefix [OF ok] strip_prefix_def)
qed

end
