(* ===== verification/Requests.thy ===== *)
theory Requests
  imports Idempotency CacheStore
begin

text \<open>
  How the server uses the two stores around the body of an rpc (\<open>runtime/server.rs\<close>, the
  blocks of \<open>@idempotent\<close> and \<open>@cache\<close> in \<open>handle_request\<close>). Bodies run outside the
  locks, so that a request is two steps, \<open>admit\<close> and \<open>finish\<close>, and other requests act in
  between. What the body answers, the hash of the request and the distributed cache of
  PostgreSQL are arguments.
\<close>

section \<open>One request\<close>

record request =
  address :: "string \<times> string" \<comment> \<open>service and rpc\<close>
  idem_key :: "string option" \<comment> \<open>the header, when the rpc is \<open>@idempotent\<close>\<close>
  body_hash :: string
  args_text :: string
  cache_ttl :: "nat list option" \<comment> \<open>the argument of \<open>@cache\<close>\<close>

record stores =
  idem_store :: idempotency_store
  mem_cache :: cache_store

text \<open>\<open>Refuse\<close> is the answer 409 for a conflict or a request in flight.\<close>

datatype admission = Answer nat string string | Refuse lookup | Run

definition slot :: "request \<Rightarrow> store_key option" where
  "slot r =
     (case idem_key r of None \<Rightarrow> None | Some key \<Rightarrow> Some (fst (address r), snd (address r), key))"

definition cache_key :: "request \<Rightarrow> store_key" where
  "cache_key r = (fst (address r), snd (address r), args_text r)"

text \<open>\<open>distributed\<close> is the answer of \<open>cache_get_distributed\<close>, \<open>None\<close> without PostgreSQL.\<close>

definition admit_cache ::
  "(nat \<times> string \<times> string) option option \<Rightarrow> nat \<Rightarrow> request \<Rightarrow> stores \<Rightarrow> stores \<times> admission" where
  "admit_cache distributed now r st =
     (if cache_ttl r = None then (st, Run)
      else let (st, hit) =
             (case distributed of
                Some hit \<Rightarrow> (st, hit)
              | None \<Rightarrow> (let (c, hit) = cache_get (mem_cache st) now (cache_key r)
                        in (st\<lparr>mem_cache := c\<rparr>, hit)))
           in (st, case hit of Some (s, b, ct) \<Rightarrow> Answer s b ct | None \<Rightarrow> Run))"

definition admit ::
  "(nat \<times> string \<times> string) option option \<Rightarrow> nat \<Rightarrow> request \<Rightarrow> stores \<Rightarrow> stores \<times> admission" where
  "admit distributed now r st =
     (case slot r of
        None \<Rightarrow> admit_cache distributed now r st
      | Some k \<Rightarrow>
          (let (i, found) = reserve (idem_store st) now k (body_hash r);
               st = st\<lparr>idem_store := i\<rparr>
           in case found of
                Hit s b ct \<Rightarrow> (st, Answer s b ct)
              | Conflict \<Rightarrow> (st, Refuse Conflict)
              | Busy \<Rightarrow> (st, Refuse Busy)
              | Reserved \<Rightarrow> admit_cache distributed now r st))"

definition is_success :: "nat \<Rightarrow> bool" where
  "is_success s \<longleftrightarrow> 200 \<le> s \<and> s < 300"

definition settle :: "nat \<Rightarrow> request \<Rightarrow> nat \<times> string \<times> string \<Rightarrow> idempotency_store \<Rightarrow> idempotency_store" where
  "settle now r = (\<lambda>(s, b, ct) i.
     case slot r of
       None \<Rightarrow> i
     | Some k \<Rightarrow> if is_success s then complete i now k (body_hash r) s b ct else release i k)"

text \<open>\<open>None\<close> is the panic of a lifetime that does not parse or does not fit an instant.\<close>

definition remember ::
  "bool \<Rightarrow> nat \<Rightarrow> request \<Rightarrow> nat \<times> string \<times> string \<Rightarrow> cache_store \<Rightarrow> cache_store option" where
  "remember wrote_distributed now r = (\<lambda>(s, b, ct) c.
     case cache_ttl r of
       None \<Rightarrow> Some c
     | Some raw \<Rightarrow>
         if is_success s then
           (case parse_ttl raw of
              Inl e \<Rightarrow> None
            | Inr ttl \<Rightarrow>
                if wrote_distributed then Some c
                else cache_put c now (cache_key r) s b ct (nanos ttl))
         else Some c)"

definition finish ::
  "bool \<Rightarrow> nat \<Rightarrow> request \<Rightarrow> nat \<times> string \<times> string \<Rightarrow> stores \<Rightarrow> stores option" where
  "finish wrote_distributed now r result st =
     (case remember wrote_distributed now r result (mem_cache st) of
        None \<Rightarrow> None
      | Some c \<Rightarrow> Some \<lparr>idem_store = settle now r result (idem_store st), mem_cache = c\<rparr>)"

section \<open>The server\<close>

record server =
  held :: stores
  running :: "(request \<times> nat) list" \<comment> \<open>the bodies that run, with their start\<close>
  clock :: nat

definition start :: server where
  "start = \<lparr>held = \<lparr>idem_store = new_store, mem_cache = new_cache\<rparr>, running = [], clock = 0\<rparr>"

text \<open>Every running body is younger than the two minutes after which its mark is reclaimed.\<close>

definition timely :: "nat \<Rightarrow> (request \<times> nat) list \<Rightarrow> bool" where
  "timely now rs \<longleftrightarrow> list_all (\<lambda>(r, t). now - t \<le> in_flight_stale_after) rs"

inductive step :: "server \<Rightarrow> server \<Rightarrow> bool" where
  begins: "clock s \<le> t \<Longrightarrow> timely t (running s) \<Longrightarrow> admit distributed t r (held s) = (st, Run) \<Longrightarrow>
    step s (s\<lparr>held := st, running := (r, t) # running s, clock := t\<rparr>)"
| answered: "clock s \<le> t \<Longrightarrow> timely t (running s) \<Longrightarrow> admit distributed t r (held s) = (st, a) \<Longrightarrow>
    a \<noteq> Run \<Longrightarrow> step s (s\<lparr>held := st, clock := t\<rparr>)"
| ends: "clock s \<le> t \<Longrightarrow> timely t (running s) \<Longrightarrow> (r, t0) \<in> set (running s) \<Longrightarrow>
    finish wrote_distributed t r result (held s) = Some st \<Longrightarrow>
    step s (s\<lparr>held := st, running := remove1 (r, t0) (running s), clock := t\<rparr>)"
| clears: "cache_run1 (Some (mem_cache (held s))) op = Some c \<Longrightarrow>
    step s (s\<lparr>held := (held s)\<lparr>mem_cache := c\<rparr>\<rparr>)"

inductive steps :: "server \<Rightarrow> server \<Rightarrow> bool" where
  none: "steps s s"
| more: "steps s s' \<Longrightarrow> step s' s'' \<Longrightarrow> steps s s''"

section \<open>The entries under the operations\<close>

definition has_entry :: "idempotency_store \<Rightarrow> store_key \<Rightarrow> entry \<Rightarrow> bool" where
  "has_entry i k e \<longleftrightarrow> map_of (entries i) k = Some e"

lemma has_entry_live: "has_entry i k e \<Longrightarrow> keeps now e \<Longrightarrow> live_entry i now k = Some e"
  by (simp add: has_entry_def live_entry_def)

lemma has_entry_fun: "has_entry i k e \<Longrightarrow> has_entry i k e' \<Longrightarrow> e = e'"
  by (simp add: has_entry_def)

lemma has_entry_set: "has_entry (set_entry i k e) k' e' \<longleftrightarrow> (if k' = k then e' = e else has_entry i k' e')"
  by (auto simp: has_entry_def set_entry_def store_simps)

lemma has_entry_release: "has_entry (release i k) k' e \<longleftrightarrow> k' \<noteq> k \<and> has_entry i k' e"
  by (simp add: has_entry_def release_def store_simps)

lemma has_entry_sweep:
  "idem_ok i \<Longrightarrow> has_entry i k e \<Longrightarrow> keeps now e \<Longrightarrow> has_entry (sweep_if_due i now) k e"
  by (auto simp: has_entry_def sweep_if_due_def Let_def idem_ok_def store_simps)

text \<open>A reservation never touches an entry that still counts.\<close>

lemma reserve_keeps:
  assumes "idem_ok i" "has_entry i k e" "keeps now e" "reserve i now k' h = (i', found)"
  shows "has_entry i' k e"
  using assms has_entry_sweep [OF assms(1-3)] has_entry_live [OF assms(2,3)]
  by (cases "k' = k") (auto simp: reserve_answer has_entry_set split: if_splits)

lemma reserve_Reserved:
  assumes "idem_ok i" "reserve i now k h = (i', Reserved)"
  shows "live_entry i now k = None \<and> has_entry i' k (InFlight h now)"
  using assms
  by (auto simp: reserve_answer has_entry_set answer_def split: if_splits entry.splits)

lemma settle_ok: "idem_ok i \<Longrightarrow> idem_ok (settle now r result i)"
  by (auto simp: settle_def idem_ok_complete idem_ok_release split: option.split prod.split)

lemma settle_other:
  "slot r \<noteq> Some k \<Longrightarrow> has_entry (settle now r result i) k e = has_entry i k e"
  by (auto simp: settle_def complete_set has_entry_set has_entry_release
      split: option.split prod.split)

lemma admit_cache_idem: "admit_cache distributed now r st = (st', a) \<Longrightarrow> idem_store st' = idem_store st"
  by (auto simp: admit_cache_def Let_def split: option.splits prod.splits if_splits)

lemma admit_idem:
  assumes "admit distributed now r st = (st', a)" "slot r = Some k"
  obtains found where "reserve (idem_store st) now k (body_hash r) = (idem_store st', found)"
    "a = Run \<Longrightarrow> found = Reserved"
  using assms that
  by (auto simp: admit_def Let_def split: prod.splits lookup.splits dest!: admit_cache_idem)

lemma admit_no_slot: "admit distributed now r st = (st', a) \<Longrightarrow> slot r = None \<Longrightarrow> idem_store st' = idem_store st"
  by (auto simp: admit_def dest: admit_cache_idem)

lemma admit_ok:
  assumes "idem_ok (idem_store st)" "admit distributed now r st = (st', a)"
  shows "idem_ok (idem_store st')"
proof (cases "slot r")
  case None
  with assms admit_no_slot show ?thesis by metis
next
  case (Some k)
  from admit_idem [OF assms(2) Some] idem_ok_reserve [OF assms(1)] show ?thesis by metis
qed

lemma admit_keeps:
  assumes "idem_ok (idem_store st)" "admit distributed now r st = (st', a)"
    and "has_entry (idem_store st) k e" "keeps now e"
  shows "has_entry (idem_store st') k e"
proof (cases "slot r")
  case None
  with assms admit_no_slot show ?thesis by metis
next
  case (Some k')
  from admit_idem [OF assms(2) Some] reserve_keeps [OF assms(1,3,4)] show ?thesis by metis
qed

lemma finish_idem: "finish w now r result st = Some st' \<Longrightarrow> idem_store st' = settle now r result (idem_store st)"
  by (auto simp: finish_def split: option.splits)

section \<open>The invariant\<close>

text \<open>
  Every running body with a key owns the mark of its key, and no two of them share a key.
\<close>

definition owned :: "server \<Rightarrow> bool" where
  "owned s \<longleftrightarrow> idem_ok (idem_store (held s)) \<and>
     (\<forall>(r, t) \<in> set (running s). \<forall>k. slot r = Some k \<longrightarrow>
        has_entry (idem_store (held s)) k (InFlight (body_hash r) t)) \<and>
     distinct (filter (\<lambda>x. x \<noteq> None) (map (slot \<circ> fst) (running s)))"

lemma ownedI:
  assumes "idem_ok (idem_store (held s))"
    and "\<And>r t k. (r, t) \<in> set (running s) \<Longrightarrow> slot r = Some k \<Longrightarrow>
      has_entry (idem_store (held s)) k (InFlight (body_hash r) t)"
    and "distinct (filter (\<lambda>x. x \<noteq> None) (map (slot \<circ> fst) (running s)))"
  shows "owned s"
  using assms by (auto simp: owned_def)

lemma owned_entry:
  "owned s \<Longrightarrow> (r, t) \<in> set (running s) \<Longrightarrow> slot r = Some k \<Longrightarrow>
     has_entry (idem_store (held s)) k (InFlight (body_hash r) t)"
  by (fastforce simp: owned_def simp del: split_paired_All)

lemma timely_keeps: "timely now rs \<Longrightarrow> (r, t) \<in> set rs \<Longrightarrow> keeps now (InFlight h t)"
  by (auto simp: timely_def list_all_iff)

lemma owned_start: "owned start"
  by (simp add: owned_def start_def)

lemma distinct_slots_remove:
  "distinct (filter P (map f rs)) \<Longrightarrow> distinct (filter P (map f (remove1 x rs)))"
  by (induction rs) (auto dest: set_mp [OF set_remove1_subset])

lemma distinct_slots_gone:
  "distinct (filter (\<lambda>x. x \<noteq> None) (map f rs)) \<Longrightarrow> x \<in> set rs \<Longrightarrow> y \<in> set (remove1 x rs) \<Longrightarrow>
     f x = Some k \<Longrightarrow> f y \<noteq> Some k"
proof (induction rs)
  case (Cons z rs)
  have new: "f w \<noteq> Some k" if "f z = Some k" "w \<in> set rs" for w
    using Cons.prems(1) that by (force split: if_splits)
  show ?case
  proof (cases "z = x")
    case True
    with Cons.prems new show ?thesis by simp
  next
    case False
    with Cons.prems have "x \<in> set rs" "y = z \<or> y \<in> set (remove1 x rs)" by auto
    with Cons.IH Cons.prems new show ?thesis by (auto split: if_splits)
  qed
qed simp

lemma distinct_filter_nth:
  assumes "distinct (filter P xs)" "i < j" "j < length xs" "P (xs ! i)" "xs ! i = xs ! j"
  shows False
proof -
  have "xs = take j xs @ xs ! j # drop (Suc j) xs" using assms(3) by (simp add: id_take_nth_drop)
  then have "filter P xs = filter P (take j xs) @ filter P (xs ! j # drop (Suc j) xs)"
    by (metis filter_append)
  moreover have "xs ! i \<in> set (filter P (take j xs))"
    using assms(2-4) by (auto simp: in_set_conv_nth intro!: exI [of _ i])
  ultimately show False using assms(1,4,5) by auto
qed

lemma owned_step:
  assumes "step s s'" "owned s"
  shows "owned s'"
  using assms
proof cases
  case (begins t distributed r st)
  have ok: "idem_ok (idem_store (held s))" using assms(2) by (simp add: owned_def)
  have kept: "has_entry (idem_store st) k (InFlight (body_hash r') t')"
    if "(r', t') \<in> set (running s)" "slot r' = Some k" for r' t' k
    by (rule admit_keeps [OF ok begins(4) owned_entry [OF assms(2) that] timely_keeps [OF begins(3) that(1)]])
  have mine: "has_entry (idem_store st) k (InFlight (body_hash r) t)"
    and alone: "(r', t') \<in> set (running s) \<Longrightarrow> slot r' \<noteq> Some k" if k: "slot r = Some k" for k r' t'
  proof -
    obtain found where f: "reserve (idem_store (held s)) t k (body_hash r) = (idem_store st, found)"
      "found = Reserved" using admit_idem [OF begins(4) k] by blast
    note R = reserve_Reserved [OF ok f(1) [unfolded f(2)]]
    then show "has_entry (idem_store st) k (InFlight (body_hash r) t)" by blast
    assume m: "(r', t') \<in> set (running s)"
    show "slot r' \<noteq> Some k"
    proof
      assume "slot r' = Some k"
      from has_entry_live [OF owned_entry [OF assms(2) m this] timely_keeps [OF begins(3) m]] R
      show False by simp
    qed
  qed
  show ?thesis unfolding begins(1)
  proof (rule ownedI)
    show "distinct (filter (\<lambda>x. x \<noteq> None) (map (slot \<circ> fst)
        (running (s\<lparr>held := st, running := (r, t) # running s, clock := t\<rparr>))))"
      using assms(2) alone by (cases "slot r") (fastforce simp: owned_def)+
  qed (use kept mine admit_ok [OF ok begins(4)] in auto)
next
  case (answered t distributed r st a)
  have ok: "idem_ok (idem_store (held s))" using assms(2) by (simp add: owned_def)
  show ?thesis unfolding answered(1)
  proof (rule ownedI)
    fix r' t' k
    assume "(r', t') \<in> set (running (s\<lparr>held := st, clock := t\<rparr>))" and k: "slot r' = Some k"
    then have m: "(r', t') \<in> set (running s)" by simp
    show "has_entry (idem_store (held (s\<lparr>held := st, clock := t\<rparr>))) k (InFlight (body_hash r') t')"
      using admit_keeps [OF ok answered(4) owned_entry [OF assms(2) m k] timely_keeps [OF answered(3) m]]
      by simp
  qed (use admit_ok [OF ok answered(4)] assms(2) in \<open>auto simp: owned_def\<close>)
next
  case (ends t r t0 wrote_distributed result st)
  have i: "idem_store st = settle t r result (idem_store (held s))" by (rule finish_idem [OF ends(5)])
  let ?s = "s\<lparr>held := st, running := remove1 (r, t0) (running s), clock := t\<rparr>"
  have d: "distinct (filter (\<lambda>x. x \<noteq> None) (map (slot \<circ> fst) (running s)))"
    using assms(2) by (simp add: owned_def)
  show ?thesis unfolding ends(1)
  proof (rule ownedI)
    fix r' t' k
    assume "(r', t') \<in> set (running ?s)" and k: "slot r' = Some k"
    then have m: "(r', t') \<in> set (remove1 (r, t0) (running s))" by simp
    have "slot r \<noteq> Some k" using distinct_slots_gone [OF d ends(4) m, of k] k by auto
    then show "has_entry (idem_store (held ?s)) k (InFlight (body_hash r') t')"
      using owned_entry [OF assms(2) set_mp [OF set_remove1_subset m] k] by (simp add: i settle_other)
  qed (use assms(2) distinct_slots_remove [OF d] in \<open>auto simp: owned_def i settle_ok\<close>)
next
  case (clears op c)
  with assms(2) show ?thesis by (simp add: owned_def)
qed

lemma owned_steps: "steps s s' \<Longrightarrow> owned s \<Longrightarrow> owned s'"
  by (induction rule: steps.induct) (auto intro: owned_step)

text \<open>A recorded success outlives every step of the next day.\<close>

lemma step_clock: "step s s' \<Longrightarrow> clock s \<le> clock s'"
  by (cases rule: step.cases) auto

lemma steps_clock: "steps s s' \<Longrightarrow> clock s \<le> clock s'"
  by (induction rule: steps.induct) (auto dest: step_clock)

lemma keeps_done: "now \<le> t + entry_ttl \<Longrightarrow> keeps now (Done h st b ct t)"
  by simp

lemma done_step:
  assumes "step s s'" "owned s" "clock s' \<le> t1 + entry_ttl"
    and d: "has_entry (idem_store (held s)) k (Done h st b ct t1)"
  shows "has_entry (idem_store (held s')) k (Done h st b ct t1)"
proof -
  have ok: "idem_ok (idem_store (held s))" using assms(2) by (simp add: owned_def)
  show ?thesis using assms(1)
  proof cases
    case (begins t distributed r st')
    with assms(3) have "keeps t (Done h st b ct t1)" by simp
    from admit_keeps [OF ok begins(4) d this] show ?thesis by (simp add: begins(1))
  next
    case (answered t distributed r st' a)
    with assms(3) have "keeps t (Done h st b ct t1)" by simp
    from admit_keeps [OF ok answered(4) d this] show ?thesis by (simp add: answered(1))
  next
    case (ends t r t0 wrote_distributed result st')
    have "slot r \<noteq> Some k"
      using has_entry_fun [OF d owned_entry [OF assms(2) ends(4)]] by auto
    then show ?thesis using d by (simp add: ends(1) finish_idem [OF ends(5)] settle_other)
  next
    case (clears op c)
    with d show ?thesis by simp
  qed
qed

lemma done_steps:
  "steps s s' \<Longrightarrow> owned s \<Longrightarrow> clock s' \<le> t1 + entry_ttl \<Longrightarrow>
     has_entry (idem_store (held s)) k (Done h st b ct t1) \<Longrightarrow>
     has_entry (idem_store (held s')) k (Done h st b ct t1)"
proof (induction rule: steps.induct)
  case (more s s' s'')
  have "clock s' \<le> t1 + entry_ttl" using step_clock [OF more.hyps(2)] more.prems(2) by simp
  with more show ?case by (intro done_step [OF more.hyps(2)]) (auto intro: owned_steps)
qed simp

section \<open>Properties\<close>

text \<open>
  C11. At most one body runs per idempotency key: as long as every body ends within the two
  minutes, no interleaving of arrivals, ends and cache operations has two bodies running
  for the same service, rpc and key.
\<close>

theorem one_body_per_key:
  assumes "steps start s" "i < j" "j < length (running s)"
    and "slot (fst (running s ! i)) = Some k"
  shows "slot (fst (running s ! j)) \<noteq> Some k"
proof -
  have "distinct (filter (\<lambda>x. x \<noteq> None) (map (slot \<circ> fst) (running s)))"
    using owned_steps [OF assms(1) owned_start] by (simp add: owned_def)
  from distinct_filter_nth [OF this] show ?thesis
    using assms(2-4) by (metis (no_types, lifting) comp_apply length_map nth_map option.discI order.strict_trans)
qed


section \<open>Examples\<close>

definition charge :: request where
  "charge = \<lparr>address = (''Pay'', ''charge''), idem_key = Some ''k'', body_hash = ''h'',
     args_text = ''[]'', cache_ttl = None\<rparr>"

definition pay_slot :: store_key where
  "pay_slot = (''Pay'', ''charge'', ''k'')"

lemma slot_charge [simp]: "slot charge = Some pay_slot"
  by (simp add: slot_def charge_def pay_slot_def)

definition browse :: request where
  "browse = charge\<lparr>idem_key := None\<rparr>"

lemma slot_browse [simp]: "slot browse = None"
  by (simp add: slot_def browse_def)

definition browsing :: server where
  "browsing = start\<lparr>running := [(browse, 0)]\<rparr>"

definition charging :: server where
  "charging = \<lparr>held = \<lparr>idem_store = \<lparr>entries = [(pay_slot, InFlight ''h'' 0)], checks_since_sweep = 1\<rparr>,
     mem_cache = new_cache\<rparr>, running = [(charge, 0), (browse, 0)], clock = 0\<rparr>"

definition charged :: stores where
  "charged = \<lparr>idem_store = \<lparr>entries = [(pay_slot, Done ''h'' 200 ''ok'' ''text'' 7)], checks_since_sweep = 1\<rparr>,
     mem_cache = new_cache\<rparr>"

lemmas request_eval = admit_def admit_cache_def reserve_def reclaim_def sweep_if_due_def Let_def
  sweep_every_def finish_def settle_def remember_def is_success_def complete_def release_def
  in_flight_stale_after_def entry_ttl_def nanos_def

lemma charge_sel [simp]: "cache_ttl charge = None" "body_hash charge = ''h''" "cache_ttl browse = None"
  by (simp_all add: charge_def browse_def)

lemma start_charging: "steps start charging"
proof (rule steps.more [OF steps.more [OF steps.none]])
  have "admit None 0 browse (held start) = (held browsing, Run)"
    by (simp add: request_eval start_def browsing_def)
  from step.begins [OF _ _ this] show "step start browsing"
    by (simp add: start_def browsing_def timely_def)
  have "admit None 0 charge (held browsing) = (held charging, Run)"
    by (simp add: request_eval start_def browsing_def charging_def new_store_def)
  from step.begins [OF _ _ this] show "step browsing charging"
    by (simp add: start_def browsing_def charging_def timely_def)
qed

lemma charge_succeeds: "finish False 7 charge (200, ''ok'', ''text'') (held charging) = Some charged"
  by (simp add: request_eval charging_def charged_def)

lemma charge_ends:
  "step charging (charging\<lparr>held := charged, running := remove1 (charge, 0) (running charging), clock := 7\<rparr>)"
  by (rule step.ends [OF _ _ _ charge_succeeds])
    (simp_all add: charging_def timely_def in_flight_stale_after_def nanos_def)

theorem one_body_per_key_witness: "slot (fst (running charging ! 1)) \<noteq> Some pay_slot"
  by (rule one_body_per_key [OF start_charging, where i = 0]) (simp_all add: charging_def)


section \<open>Where the promise ends\<close>

text \<open>
  A request that reserves its key and is then answered from the cache never gives the
  key back: for the next two minutes every request with the same key and body is refused as
  in flight although no body runs.
\<close>

theorem cache_hit_leaks_reservation:
  assumes "idem_ok (idem_store st)" "cache_ok (mem_cache st)"
    and "slot r = Some k" "live_entry (idem_store st) now k = None"
    and "cache_ttl r = Some ttl" "cached (mem_cache st) now (cache_key r) = Some (s, b, ct)"
    and "now \<le> later" "later \<le> now + in_flight_stale_after"
  shows "snd (admit None now r st) = Answer s b ct \<and>
         snd (admit None later r (fst (admit None now r st))) = Refuse Busy"
proof -
  let ?i = "set_entry (sweep_if_due (idem_store st) now) k (InFlight (body_hash r) now)"
  have ok: "idem_ok ?i" by (rule idem.inv_store [OF idem.inv_tick [OF assms(1)]])
  have r: "reserve (idem_store st) now k (body_hash r) = (?i, Reserved)"
    by (simp add: reserve_answer [OF assms(1)] assms(4))
  obtain c where c: "cache_get (mem_cache st) now (cache_key r) = (c, Some (s, b, ct))"
    by (simp add: cache_get_answer [OF assms(2)] assms(6))
  have a: "admit None now r st = (\<lparr>idem_store = ?i, mem_cache = c\<rparr>, Answer s b ct)"
    by (simp add: admit_def assms(3) r admit_cache_def assms(5) c)
  have "live_entry ?i later k = Some (InFlight (body_hash r) now)"
    using assms(8) idem.look_store [OF idem.inv_tick [OF assms(1)]] by simp
  then have "reserve ?i later k (body_hash r) = (sweep_if_due ?i later, Busy)"
    by (simp add: reserve_answer [OF ok] answer_def)
  then show ?thesis by (simp add: a) (simp add: admit_def assms(3))
qed

definition quote_rpc :: request where
  "quote_rpc = charge\<lparr>cache_ttl := Some (cps ''60s'')\<rparr>"

definition quoted :: stores where
  "quoted = \<lparr>idem_store = new_store, mem_cache = set_cached new_cache (cache_key quote_rpc)
     \<lparr>status = 200, body = ''7'', content_type = ''text'', expires_at = 60\<rparr>\<rparr>"

theorem cache_hit_leaks_reservation_witness:
  "snd (admit None 1 quote_rpc quoted) = Answer 200 ''7'' ''text'' \<and>
   snd (admit None 50 quote_rpc (fst (admit None 1 quote_rpc quoted))) = Refuse Busy"
  by (rule cache_hit_leaks_reservation [where k = pay_slot and ttl = "cps ''60s''"])
    (simp_all add: quoted_def cache.inv_store cache.look_store response_def quote_rpc_def slot_def
      charge_def pay_slot_def in_flight_stale_after_def nanos_def)

text \<open>
  Ends are not matched to their reservation: when a body takes longer than the two
  minutes and its key is reserved again, the end of the first body with an error frees the
  key of the second, and a third request runs beside it.
\<close>

theorem stale_end_frees_new_reservation:
  "\<exists>st1 st2 st3 st4.
     admit None 0 charge (held start) = (st1, Run) \<and>
     admit None (nanos 121) charge st1 = (st2, Run) \<and>
     finish False (nanos 122) charge (500, ''no'', ''text'') st2 = Some st3 \<and>
     admit None (nanos 123) charge st3 = (st4, Run)"
  by (simp add: request_eval start_def new_store_def)

end
