(* ===== verification/Routes.thy ===== *)
theory Routes
  imports Prelude
begin

text \<open>
  The patterns of \<open>@route\<close>, \<open>compiler/src/route.rs\<close>: parsing, what a pattern matches and
  when two patterns conflict. The tests of the parser concern ASCII characters only, so that
  texts are bytes.
\<close>

section \<open>Patterns\<close>

datatype segment = Literal string | Param string | CatchAll string

record route_pattern =
  segments :: "segment list"

definition segment_count :: "route_pattern \<Rightarrow> nat" where
  "segment_count p = length (segments p)"

fun segment_name :: "segment \<Rightarrow> string option" where
  "segment_name (Param name) = Some name"
| "segment_name (CatchAll name) = Some name"
| "segment_name (Literal _) = None"

definition param_names :: "route_pattern \<Rightarrow> string list" where
  "param_names p = List.map_filter segment_name (segments p)"

fun is_catchall :: "segment \<Rightarrow> bool" where
  "is_catchall (CatchAll _) \<longleftrightarrow> True"
| "is_catchall _ \<longleftrightarrow> False"

fun is_literal :: "segment \<Rightarrow> bool" where
  "is_literal (Literal _) \<longleftrightarrow> True"
| "is_literal _ \<longleftrightarrow> False"

definition has_catchall :: "route_pattern \<Rightarrow> bool" where
  "has_catchall p \<longleftrightarrow> segments p \<noteq> [] \<and> is_catchall (last (segments p))"

definition catchall_name :: "route_pattern \<Rightarrow> string option" where
  "catchall_name p = (if has_catchall p then segment_name (last (segments p)) else None)"

definition specificity :: "route_pattern \<Rightarrow> nat" where
  "specificity p = length (filter is_literal (segments p))"

definition fixed_len :: "route_pattern \<Rightarrow> nat" where
  "fixed_len p = (if has_catchall p then length (segments p) - 1 else length (segments p))"

definition is_full_catchall :: "route_pattern \<Rightarrow> bool" where
  "is_full_catchall p \<longleftrightarrow> fixed_len p = 0 \<and> has_catchall p"

fun compatible :: "segment \<times> segment \<Rightarrow> bool" where
  "compatible (Literal x, Literal y) \<longleftrightarrow> x = y"
| "compatible _ \<longleftrightarrow> True"

definition overlap_possible :: "route_pattern \<Rightarrow> route_pattern \<Rightarrow> bool" where
  "overlap_possible p q \<longleftrightarrow>
     (if \<not> has_catchall p \<and> \<not> has_catchall q then
        length (segments p) = length (segments q) \<and> list_all compatible (zip (segments p) (segments q))
      else if \<not> has_catchall p \<and> length (segments p) < fixed_len q then False
      else if \<not> has_catchall q \<and> length (segments q) < fixed_len p then False
      else let common = min (fixed_len p) (fixed_len q)
           in list_all compatible (zip (take common (segments p)) (take common (segments q))))"

definition conflicts_with :: "route_pattern \<Rightarrow> route_pattern \<Rightarrow> bool" where
  "conflicts_with p q \<longleftrightarrow> overlap_possible p q \<and> specificity p = specificity q"

section \<open>Matching\<close>

text \<open>\<open>Unreachable\<close> is the panic of a catch-all within the fixed part.\<close>

datatype match_result = NoMatch | Captured "string list" | Unreachable

fun match_fixed :: "(segment \<times> string) list \<Rightarrow> match_result" where
  "match_fixed [] = Captured []"
| "match_fixed ((Literal expected, actual) # rest) =
     (if expected \<noteq> actual then NoMatch else match_fixed rest)"
| "match_fixed ((Param _, actual) # rest) =
     (case match_fixed rest of Captured c \<Rightarrow> Captured (actual # c) | r \<Rightarrow> r)"
| "match_fixed ((CatchAll _, _) # _) = Unreachable"

definition matches :: "route_pattern \<Rightarrow> string list \<Rightarrow> match_result" where
  "matches p path =
     (if (if has_catchall p then length path < fixed_len p else length path \<noteq> fixed_len p)
      then NoMatch
      else case match_fixed (zip (take (fixed_len p) (segments p)) (take (fixed_len p) path)) of
             Captured c \<Rightarrow>
               Captured (if has_catchall p then c @ [join ''/'' (drop (fixed_len p) path)] else c)
           | r \<Rightarrow> r)"

section \<open>Parsing\<close>

datatype route_error =
    NoLeadingSlash
  | OnlySlash
  | EmptySegment
  | CatchAllNotLast string nat
  | BadCatchAllName string
  | BadParamName string
  | RepeatedParam string

definition is_valid_param_name :: "string \<Rightarrow> bool" where
  "is_valid_param_name s =
     (case s of
        [] \<Rightarrow> False
      | c # cs \<Rightarrow> (is_ascii_alphabetic (code c) \<or> c = CHR ''_'') \<and>
                 list_all (\<lambda>c. is_ascii_alphanumeric (code c) \<or> c = CHR ''_'') cs)"

fun parse_segments :: "string list \<Rightarrow> string list \<Rightarrow> route_error + segment list" where
  "parse_segments seen_params [] = Inr []"
| "parse_segments seen_params (part # parts) =
     (case strip_prefix '':'' part of
        Some rest \<Rightarrow>
          (case strip_suffix ''*'' rest of
             Some name \<Rightarrow>
               if parts \<noteq> [] then Inl (CatchAllNotLast name (length parts))
               else if \<not> is_valid_param_name name then Inl (BadCatchAllName name)
               else if name \<in> set seen_params then Inl (RepeatedParam name)
               else rbind (parse_segments (seen_params @ [name]) parts) (\<lambda>ss. Inr (CatchAll name # ss))
           | None \<Rightarrow>
               if \<not> is_valid_param_name rest then Inl (BadParamName rest)
               else if rest \<in> set seen_params then Inl (RepeatedParam rest)
               else rbind (parse_segments (seen_params @ [rest]) parts) (\<lambda>ss. Inr (Param rest # ss)))
      | None \<Rightarrow> rbind (parse_segments seen_params parts) (\<lambda>ss. Inr (Literal part # ss)))"

definition parse_route_pattern :: "string \<Rightarrow> route_error + route_pattern" where
  "parse_route_pattern raw =
     (case strip_prefix ''/'' raw of
        None \<Rightarrow> Inl NoLeadingSlash
      | Some rest \<Rightarrow>
          if rest = [] then Inl OnlySlash
          else let parts = split_on (CHR ''/'') rest
               in if [] \<in> set parts then Inl EmptySegment
                  else rbind (parse_segments [] parts) (\<lambda>ss. Inr \<lparr>segments = ss\<rparr>))"

section \<open>Well-formed patterns\<close>

fun segment_text :: "segment \<Rightarrow> string" where
  "segment_text (Literal s) = s"
| "segment_text (Param name) = '':'' @ name"
| "segment_text (CatchAll name) = '':'' @ name @ ''*''"

fun wf_segments :: "string list \<Rightarrow> segment list \<Rightarrow> bool" where
  "wf_segments seen [] \<longleftrightarrow> True"
| "wf_segments seen (Literal s # ss) \<longleftrightarrow>
     s \<noteq> [] \<and> CHR ''/'' \<notin> set s \<and> hd s \<noteq> CHR '':'' \<and> wf_segments seen ss"
| "wf_segments seen (Param name # ss) \<longleftrightarrow>
     is_valid_param_name name \<and> name \<notin> set seen \<and> wf_segments (seen @ [name]) ss"
| "wf_segments seen (CatchAll name # ss) \<longleftrightarrow>
     is_valid_param_name name \<and> name \<notin> set seen \<and> ss = []"

definition wf_route :: "route_pattern \<Rightarrow> bool" where
  "wf_route p \<longleftrightarrow> segments p \<noteq> [] \<and> wf_segments [] (segments p)"

definition route_text :: "route_pattern \<Rightarrow> string" where
  "route_text p = ''/'' @ join ''/'' (map segment_text (segments p))"

lemma valid_name_chars:
  "is_valid_param_name s \<Longrightarrow> s \<noteq> [] \<and> CHR ''/'' \<notin> set s \<and> CHR ''*'' \<notin> set s"
  by (cases s) (auto simp: is_valid_param_name_def is_ascii_alphabetic_def
      is_ascii_alphanumeric_def is_ascii_digit_def list_all_iff)

lemma strip_prefix_colon: "strip_prefix '':'' s = Some r \<longleftrightarrow> s = '':'' @ r"
  by (cases s) (auto simp: strip_prefix_def)

lemma strip_prefix_colon_None: "strip_prefix '':'' s = None \<longleftrightarrow> s = [] \<or> hd s \<noteq> CHR '':''"
  by (cases s) (auto simp: strip_prefix_def)

lemma strip_suffix_star: "strip_suffix ''*'' s = Some r \<longleftrightarrow> s = r @ ''*''"
  by (cases s rule: rev_cases) (auto simp: strip_suffix_def)

lemma strip_suffix_star_None: "CHR ''*'' \<notin> set s \<Longrightarrow> strip_suffix ''*'' s = None"
  by (cases s rule: rev_cases) (auto simp: strip_suffix_def)

lemma parse_segments_text:
  "wf_segments seen ss \<Longrightarrow> parse_segments seen (map segment_text ss) = Inr ss"
proof (induction seen ss rule: wf_segments.induct)
  case (2 seen s ss)
  then show ?case by (auto simp: strip_prefix_colon_None split: option.split) (auto simp: strip_prefix_colon)
next
  case (3 seen name ss)
  then have "strip_prefix '':'' ('':'' @ name) = Some name" "strip_suffix ''*'' name = None"
    by (simp add: strip_prefix_colon, intro strip_suffix_star_None) (auto dest: valid_name_chars)
  with 3 show ?case by simp
next
  case (4 seen name ss)
  have "strip_prefix '':'' ('':'' @ name @ ''*'') = Some (name @ ''*'')"
    "strip_suffix ''*'' (name @ ''*'') = Some name"
    by (simp_all only: strip_prefix_colon strip_suffix_star)
  with 4 show ?case by simp
qed simp

lemma parse_segments_wf:
  "parse_segments seen parts = Inr ss \<Longrightarrow> list_all (\<lambda>s. s \<noteq> [] \<and> CHR ''/'' \<notin> set s) parts \<Longrightarrow>
     wf_segments seen ss \<and> map segment_text ss = parts"
proof (induction seen parts arbitrary: ss rule: parse_segments.induct)
  case (2 seen part parts)
  show ?case
  proof (cases "strip_prefix '':'' part")
    case None
    with 2 show ?thesis by (auto simp: results strip_prefix_colon_None)
  next
    case (Some rest)
    then have part: "part = '':'' @ rest" by (simp add: strip_prefix_colon)
    show ?thesis
    proof (cases "strip_suffix ''*'' rest")
      case None
      with 2 Some part show ?thesis by (auto simp: results split: if_splits)
    next
      case (Some name)
      then have "rest = name @ ''*''" by (simp add: strip_suffix_star)
      with 2 Some part \<open>strip_prefix '':'' part = Some rest\<close> show ?thesis
        by (auto simp: results split: if_splits)
    qed
  qed
qed simp

lemma wf_segments_texts:
  "wf_segments seen ss \<Longrightarrow> list_all (\<lambda>s. s \<noteq> [] \<and> CHR ''/'' \<notin> set s) (map segment_text ss)"
  by (induction seen ss rule: wf_segments.induct) (auto dest: valid_name_chars)

text \<open>
  C19. The parser of routes is exact: it accepts precisely the texts of well-formed patterns
  (segments without slashes, valid and distinct parameter names, a catch-all only at the end)
  and yields the pattern whose text it was.
\<close>

theorem route_round_trip: "parse_route_pattern raw = Inr p \<longleftrightarrow> wf_route p \<and> raw = route_text p"
proof
  assume "parse_route_pattern raw = Inr p"
  then obtain rest ss where r: "strip_prefix ''/'' raw = Some rest" "rest \<noteq> []"
    "[] \<notin> set (split_on (CHR ''/'') rest)" "parse_segments [] (split_on (CHR ''/'') rest) = Inr ss"
    "p = \<lparr>segments = ss\<rparr>"
    by (auto simp: parse_route_pattern_def Let_def results split: option.splits if_splits)
  have "list_all (\<lambda>s. s \<noteq> [] \<and> CHR ''/'' \<notin> set s) (split_on (CHR ''/'') rest)"
    using r(3) by (auto simp: list_all_iff dest: split_on_pieces)
  from parse_segments_wf [OF r(4) this] have w: "wf_segments [] ss"
    and t: "map segment_text ss = split_on (CHR ''/'') rest" by auto
  have "ss \<noteq> []" using t by (metis list.simps(8) split_on_not_Nil)
  moreover have "raw = ''/'' @ rest" using r(1) by (auto simp: strip_prefix_def split: if_splits)
      (metis append_take_drop_id append_Cons append_Nil)
  ultimately show "wf_route p \<and> raw = route_text p"
    using w by (simp add: wf_route_def route_text_def r(5) t)
next
  assume a: "wf_route p \<and> raw = route_text p"
  define ts where "ts = map segment_text (segments p)"
  from a have w: "wf_segments [] (segments p)" and n: "ts \<noteq> []" and raw: "raw = ''/'' @ join ''/'' ts"
    by (auto simp: wf_route_def route_text_def ts_def)
  have l: "list_all (\<lambda>s. s \<noteq> [] \<and> CHR ''/'' \<notin> set s) ts"
    unfolding ts_def by (rule wf_segments_texts [OF w])
  then have s: "split_on (CHR ''/'') (join ''/'' ts) = ts"
    using n by (intro split_on_join) (auto simp: list_all_iff)
  have "join ''/'' ts \<noteq> []" using l n by (cases ts; cases "tl ts") auto
  moreover have "[] \<notin> set ts" using l by (auto simp: list_all_iff)
  ultimately show "parse_route_pattern raw = Inr p"
    using parse_segments_text [OF w]
    by (simp add: parse_route_pattern_def raw strip_prefix_def s) (simp add: ts_def)
qed

end
