(* ===== verification/RouteProps.thy ===== *)
theory RouteProps
  imports Routes
begin

text \<open>
  What the patterns of routes mean: the paths a pattern admits, the detection of conflicts
  against it, and the lookup of a route in the table of the server.
\<close>

section \<open>The paths of a pattern\<close>

definition admits :: "route_pattern \<Rightarrow> string list \<Rightarrow> bool" where
  "admits p path \<longleftrightarrow> (\<exists>c. matches p path = Captured c)"

abbreviation fixed :: "route_pattern \<Rightarrow> segment list" where
  "fixed p \<equiv> take (fixed_len p) (segments p)"

fun segment_admits :: "segment \<Rightarrow> string \<Rightarrow> bool" where
  "segment_admits (Literal s) t \<longleftrightarrow> s = t"
| "segment_admits (Param _) t \<longleftrightarrow> True"
| "segment_admits (CatchAll _) t \<longleftrightarrow> False"

lemma wf_catchall_last: "wf_segments seen ss \<Longrightarrow> s \<in> set (butlast ss) \<Longrightarrow> \<not> is_catchall s"
  by (induction seen ss rule: wf_segments.induct) (auto split: if_splits)

lemma fixed_no_catchall: "wf_route p \<Longrightarrow> s \<in> set (fixed p) \<Longrightarrow> \<not> is_catchall s"
proof -
  assume w: "wf_route p" and s: "s \<in> set (fixed p)"
  show ?thesis
  proof (cases "has_catchall p")
    case True
    with s have "s \<in> set (butlast (segments p))" by (simp add: fixed_len_def butlast_conv_take)
    with w show ?thesis by (auto simp: wf_route_def dest: wf_catchall_last)
  next
    case False
    with w s have "\<not> is_catchall (last (segments p))" "s \<in> set (segments p)"
      by (auto simp: has_catchall_def wf_route_def fixed_len_def)
    moreover have "set (segments p) = insert (last (segments p)) (set (butlast (segments p)))"
      using w by (metis append_butlast_last_id wf_route_def Un_insert_right list.set(1,2)
          set_append sup_bot.right_neutral)
    ultimately show ?thesis using w by (auto simp: wf_route_def dest: wf_catchall_last)
  qed
qed

lemma length_fixed: "length (fixed p) = fixed_len p"
  by (simp add: fixed_len_def)

lemma match_fixed_admits:
  "\<forall>s \<in> set ss. \<not> is_catchall s \<Longrightarrow> length ss = length path \<Longrightarrow>
     match_fixed (zip ss path) \<noteq> Unreachable \<and>
     ((\<exists>c. match_fixed (zip ss path) = Captured c) \<longleftrightarrow> list_all2 segment_admits ss path)"
proof (induction ss arbitrary: path)
  case (Cons s ss)
  then obtain t ts where p: "path = t # ts" "length ss = length ts" by (cases path) auto
  from Cons.IH [OF _ p(2)] Cons.prems(1) show ?case
    by (cases s) (auto simp: p(1) split: match_result.split)
qed simp

lemma admits_iff:
  assumes "wf_route p"
  shows "admits p path \<longleftrightarrow>
    (if has_catchall p then fixed_len p \<le> length path else length path = fixed_len p) \<and>
    list_all2 segment_admits (fixed p) (take (fixed_len p) path)"
proof (cases "if has_catchall p then fixed_len p \<le> length path else length path = fixed_len p")
  case True
  then have "fixed_len p \<le> length path" by (auto split: if_splits)
  then have l: "length (fixed p) = length (take (fixed_len p) path)" using length_fixed [of p] by simp
  show ?thesis
    using match_fixed_admits [OF _ l] fixed_no_catchall [OF assms] True
    by (auto simp: admits_def matches_def split: match_result.splits if_splits)
next
  case False
  then show ?thesis by (auto simp: admits_def matches_def split: if_splits)
qed

text \<open>A path that two lists of fixed segments share, when they are compatible.\<close>

fun sample :: "segment \<Rightarrow> string" where
  "sample (Literal s) = s"
| "sample _ = ''x''"

fun shared_path :: "segment list \<Rightarrow> segment list \<Rightarrow> string list" where
  "shared_path [] [] = []"
| "shared_path (s # ss) [] = sample s # shared_path ss []"
| "shared_path [] (t # ts) = sample t # shared_path [] ts"
| "shared_path (s # ss) (t # ts) =
     (if is_literal s then sample s else sample t) # shared_path ss ts"

lemma length_shared_path: "length (shared_path ss ts) = max (length ss) (length ts)"
  by (induction ss ts rule: shared_path.induct) auto

lemma sample_admits: "\<not> is_catchall s \<Longrightarrow> segment_admits s (sample s)"
  by (cases s) auto

lemma shared_path_admits:
  "\<forall>s \<in> set ss \<union> set ts. \<not> is_catchall s \<Longrightarrow> list_all compatible (zip ss ts) \<Longrightarrow>
     list_all2 segment_admits ss (take (length ss) (shared_path ss ts)) \<and>
     list_all2 segment_admits ts (take (length ts) (shared_path ss ts))"
proof (induction ss ts rule: shared_path.induct)
  case (4 s ss t ts)
  then have IH: "list_all2 segment_admits ss (take (length ss) (shared_path ss ts))"
    "list_all2 segment_admits ts (take (length ts) (shared_path ss ts))" by simp_all
  show ?case using "4.prems" by (cases s; cases t) (auto simp: IH)
qed (auto simp: sample_admits)

lemma admits_compatible:
  "list_all2 segment_admits ss (take (length ss) path) \<Longrightarrow>
     list_all2 segment_admits ts (take (length ts) path) \<Longrightarrow> list_all compatible (zip ss ts)"
proof (induction ss arbitrary: ts path)
  case (Cons s ss)
  show ?case
  proof (cases ts)
    case (Cons t ts')
    with Cons.prems obtain u us where "path = u # us" by (cases path) auto
    with Cons.prems Cons Cons.IH [of us ts'] show ?thesis by (cases s; cases t) auto
  qed simp
qed simp

lemma zip_take_min: "zip (take (min m n) xs) (take (min m n) ys) = zip (take m xs) (take n ys)"
proof (induction m arbitrary: n xs ys)
  case (Suc m)
  then show ?case by (cases n; cases xs; cases ys) simp_all
qed simp

lemma overlap_iff:
  "overlap_possible p q \<longleftrightarrow>
     (if has_catchall p \<or> has_catchall q
      then (has_catchall p \<or> fixed_len q \<le> fixed_len p) \<and> (has_catchall q \<or> fixed_len p \<le> fixed_len q)
      else fixed_len p = fixed_len q) \<and> list_all compatible (zip (fixed p) (fixed q))"
  by (auto simp: overlap_possible_def Let_def zip_take_min fixed_len_def split: if_splits)

lemma sample_slashfree:
  "wf_segments seen ss \<Longrightarrow> s \<in> set ss \<Longrightarrow> CHR ''/'' \<notin> set (sample s)"
  by (induction seen ss rule: wf_segments.induct) auto

lemma shared_path_slashfree:
  "\<forall>s \<in> set ss \<union> set ts. CHR ''/'' \<notin> set (sample s) \<Longrightarrow>
     list_all (\<lambda>u. CHR ''/'' \<notin> set u) (shared_path ss ts)"
  by (induction ss ts rule: shared_path.induct) auto

text \<open>
  C15. The detection of overlapping routes is exact: two well-formed patterns are reported to
  overlap if and only if some path of a request (at least one segment, no slash inside a
  segment) is admitted by both; there are no false alarms and no missed pair.
\<close>

theorem overlap_exact:
  assumes "wf_route p" "wf_route q"
  shows "overlap_possible p q \<longleftrightarrow>
    (\<exists>path. path \<noteq> [] \<and> list_all (\<lambda>s. CHR ''/'' \<notin> set s) path \<and> admits p path \<and> admits q path)"
proof
  assume o: "overlap_possible p q"
  define m where "m = shared_path (fixed p) (fixed q)"
  have nc: "\<forall>s \<in> set (fixed p) \<union> set (fixed q). \<not> is_catchall s"
    using fixed_no_catchall [OF assms(1)] fixed_no_catchall [OF assms(2)] by auto
  have len: "length m = max (fixed_len p) (fixed_len q)"
    unfolding m_def by (simp only: length_shared_path length_fixed)
  have adm: "list_all2 segment_admits (fixed p) (take (fixed_len p) m)"
    "list_all2 segment_admits (fixed q) (take (fixed_len q) m)"
    using shared_path_admits [OF nc] o unfolding m_def overlap_iff length_fixed by blast+
  have free: "list_all (\<lambda>s. CHR ''/'' \<notin> set s) m" unfolding m_def
    by (rule shared_path_slashfree)
      (use assms sample_slashfree in \<open>auto simp: wf_route_def dest!: in_set_takeD\<close>)
  show "\<exists>path. path \<noteq> [] \<and> list_all (\<lambda>s. CHR ''/'' \<notin> set s) path \<and> admits p path \<and> admits q path"
  proof (cases "m = []")
    case False
    have "admits p m" "admits q m"
      using o adm len by (auto simp: admits_iff assms overlap_iff split: if_splits)
    with False free show ?thesis by blast
  next
    case True
    then have z: "fixed_len p = 0" "fixed_len q = 0" using len by simp_all
    then have c: "has_catchall p" "has_catchall q"
      using assms by (auto simp: fixed_len_def wf_route_def split: if_splits)
    have "admits p [''x'']" "admits q [''x'']" using z c assms by (simp_all add: admits_iff)
    then show ?thesis by (intro exI [of _ "[''x'']"]) simp
  qed
next
  assume "\<exists>path. path \<noteq> [] \<and> list_all (\<lambda>s. CHR ''/'' \<notin> set s) path \<and> admits p path \<and> admits q path"
  then obtain path where a: "admits p path" "admits q path" by blast
  then have "list_all compatible (zip (fixed p) (fixed q))"
    using admits_compatible [of "fixed p" path "fixed q"]
    by (simp only: admits_iff assms length_fixed)
  with a show "overlap_possible p q" by (auto simp: admits_iff assms overlap_iff split: if_splits)
qed

definition blog_slug :: route_pattern where
  "blog_slug = \<lparr>segments = [Literal ''blog'', Param ''slug'']\<rparr>"

definition blog_featured :: route_pattern where
  "blog_featured = \<lparr>segments = [Literal ''blog'', Literal ''featured'']\<rparr>"

definition any_pair :: route_pattern where
  "any_pair = \<lparr>segments = [Param ''a'', Param ''b'']\<rparr>"

lemmas name_eval = is_valid_param_name_def is_ascii_alphabetic_def is_ascii_alphanumeric_def
  is_ascii_digit_def

lemma wf_examples [simp]: "wf_route blog_slug" "wf_route blog_featured" "wf_route any_pair"
  by (simp_all add: wf_route_def blog_slug_def blog_featured_def any_pair_def name_eval)

theorem overlap_exact_witness:
  "overlap_possible blog_slug blog_featured \<longleftrightarrow>
    (\<exists>path. path \<noteq> [] \<and> list_all (\<lambda>s. CHR ''/'' \<notin> set s) path \<and>
      admits blog_slug path \<and> admits blog_featured path)"
  by (rule overlap_exact) simp_all

end
