(* ===== verification/Ast.thy ===== *)
theory Ast
  imports Tokens
begin

text \<open>
  The abstract syntax of \<open>compiler/src/ast.rs\<close>: expressions, statements, patterns, type
  expressions and declarations, with the accessors of annotations and the recognisers of
  bodies that have a special meaning. A float is its 64 bits. \<open>Spanned<Expr>\<close> is \<open>sexpr\<close>;
  types that the syntax of expressions only contains are parameterised by it.
\<close>

section \<open>Types, fields, patterns\<close>

datatype (plugins only: size) on_delete = Cascade | Restrict | SetNull

definition on_delete_sql :: "on_delete \<Rightarrow> string" where
  "on_delete_sql d =
     (case d of Cascade \<Rightarrow> ''CASCADE'' | Restrict \<Rightarrow> ''RESTRICT'' | SetNull \<Rightarrow> ''SET NULL'')"

datatype (plugins only: size) field_check =
    CheckMin "64 word"
  | CheckMax "64 word"
  | CheckRange "64 word" "64 word"
  | CheckMinLength "64 word"
  | CheckMaxLength "64 word"

datatype (plugins only: size) field_validator = Email | Regex string

datatype (plugins only: size) field_annotation =
    FieldDeprecated string
  | Validate field_validator
  | AutoUpdate
  | SoftDelete
  | FieldIndex bool \<comment> \<open>unique\<close>
  | FieldCheck field_check
  | Encrypted
  | Hidden
  | Column string
  | Ref string "on_delete option"
  | Tenant "string option"
  | Searchable
  | NaturalKey

datatype (plugins only: size) 'e type_exp =
    Named string "'e type_exp list" span
  | StructT "'e fld list"
  | MapT "'e type_exp" "'e type_exp"
  | TupleT "'e type_exp list"
  | FunctionT "'e type_exp list" "'e type_exp"
  | OptionalT "'e type_exp"
  | ListT "'e type_exp"
  | UnionT "'e type_exp list"
and 'e fld =
    Field (field_name: string) (field_optional: bool) (field_ty: "'e type_exp")
      (field_name_span: span) (field_annotations: "field_annotation list")
      (field_default: "'e option")

datatype (plugins only: size) literal_pattern =
  LitInt int | LitStr string | LitBool bool | LitNull

datatype (plugins only: size) 'e pattern =
    BindPat string
  | LitPat literal_pattern
  | VariantPat string string "'e field_pattern list option"
  | OrPat "'e pattern list"
  | TypePat string "'e type_exp"
and 'e field_pattern = FieldPattern string "'e pattern"

section \<open>Expressions and statements\<close>

datatype (plugins only: size) binary_op =
    OpAdd | OpSub | OpMul | OpDiv | OpRem | OpEq | OpNotEq | OpLt | OpLtEq | OpGt | OpGtEq
  | OpAnd | OpOr | OpCoalesce

datatype (plugins only: size) unary_op = OpNeg | OpNot

datatype (plugins only: size) 'e closure_param = ClosureParam string "'e type_exp option"

datatype (plugins only: size) 'e ast_html_part = HText string | HExpr 'e

datatype (plugins only: size) 'e for_iter = IterList 'e | IterRange 'e 'e

datatype (plugins only: size) ('e, 'b) match_arm_body = ArmExpr 'e | ArmBlock 'b

datatype (plugins only: size) ('e, 'b) match_arm =
  MatchArm "'e pattern" "'e option" "('e, 'b) match_arm_body" span

datatype (plugins only: size) expr =
    IntLit int
  | FloatLit "64 word"
  | Str string
  | BoolLit bool
  | NullLit
  | Ident string
  | FieldAccess sexpr string
  | Call sexpr "sexpr list"
  | ArrayLit "sexpr list"
  | Index sexpr sexpr
  | TupleLit "sexpr list"
  | TupleIndex sexpr nat
  | StructLit string "string option" "(string \<times> sexpr) list"
  | MapLit "(string \<times> sexpr) list"
  | Match sexpr "(sexpr, block) match_arm list"
  | If sexpr block block
  | Binary binary_op sexpr sexpr
  | Unary unary_op sexpr
  | Paren sexpr
  | Closure "sexpr closure_param list" block
  | Transaction block
  | HtmlLit "sexpr ast_html_part list"
and sexpr = Sp (node: expr) (span_of: span)
and block = Block (stmts: "(stmt \<times> span) list") (tail: "sexpr option") (block_span: span)
and stmt =
    Let string bool "sexpr type_exp option" sexpr
  | Return "sexpr option"
  | ExprStmt sexpr
  | Assign string sexpr
  | While sexpr block
  | For string "sexpr for_iter" block

type_synonym type_expr = "sexpr type_exp"
type_synonym field = "sexpr fld"

section \<open>Declarations\<close>

record ownership_clause =
  collection :: string
  id_param :: string
  owner_field :: string

datatype (plugins only: size) annotation =
    Authenticated
  | Requires string "string list" "ownership_clause option"
  | ContentType string
  | Route string
  | RateLimit string "string option"
  | Deprecated string
  | CacheControl string
  | Example "sexpr option" "sexpr option"
  | Invalidates "string list"
  | Infinite string string
  | Idempotent
  | ReadReplica
  | Background
  | Cache string
  | Cors string
  | Cron string "string option"
  | NotFound
  | Csrf
  | RawSql
  | Startup

record param =
  param_name :: string
  param_ty :: type_expr
  param_default :: "sexpr option"
  param_span :: span

record rpc_decl =
  rpc_name :: string
  params :: "param list"
  return_type :: type_expr
  rpc_body :: block
  annotations :: "annotation list"
  rpc_doc :: "string option"
  rpc_span :: span

datatype (plugins only: size) member = Rpc rpc_decl | Stream rpc_decl

record service_decl =
  service_name :: string
  members :: "member list"
  service_span :: span

datatype (plugins only: size) type_annotation =
    Unique "string list" "sexpr option"
  | TypeIndex "string list" "sexpr option"
  | Check sexpr
  | PrimaryKey "string list"

record type_decl =
  type_name :: string
  type_params :: "string list"
  type_ty :: type_expr
  type_annotations :: "type_annotation list"
  type_span :: span

record enum_variant =
  variant_name :: string
  variant_fields :: "field list option"

record enum_decl =
  enum_name :: string
  enum_params :: "string list"
  variants :: "enum_variant list"
  enum_span :: span

record const_decl =
  const_name :: string
  const_ty :: type_expr
  const_value :: sexpr
  const_span :: span

record fn_decl =
  fn_name :: string
  fn_params :: "param list"
  fn_return :: type_expr
  fn_body :: block
  fn_span :: span

record import_decl =
  import_names :: "string list"
  import_from :: string
  import_span :: span

record db_decl =
  collections :: "field list"
  db_span :: span

record test_decl =
  test_name :: string
  test_name_span :: "span option"
  test_body :: block
  test_span :: span

record ai_model =
  model_alias :: string
  model_spec :: string
  model_span :: span

record ai_decl =
  models :: "ai_model list"
  ai_span :: span

datatype (plugins only: size) item =
    Import import_decl
  | TypeItem type_decl
  | EnumItem enum_decl
  | ServiceItem service_decl
  | Const const_decl
  | Fn fn_decl
  | DbItem db_decl
  | Test test_decl
  | AiItem ai_decl

record program =
  items :: "item list"

section \<open>Annotations of a field\<close>

definition field_has :: "(field_annotation \<Rightarrow> bool) \<Rightarrow> 'e fld \<Rightarrow> bool" where
  "field_has P f = list_ex P (field_annotations f)"

definition fld_deprecated :: "'e fld \<Rightarrow> string option" where
  "fld_deprecated f =
     find_map (\<lambda>a. case a of FieldDeprecated reason \<Rightarrow> Some reason | _ \<Rightarrow> None) (field_annotations f)"

definition validator :: "'e fld \<Rightarrow> field_validator option" where
  "validator f = find_map (\<lambda>a. case a of Validate v \<Rightarrow> Some v | _ \<Rightarrow> None) (field_annotations f)"

definition auto_update :: "'e fld \<Rightarrow> bool" where
  "auto_update = field_has (\<lambda>a. a = AutoUpdate)"

definition soft_delete :: "'e fld \<Rightarrow> bool" where
  "soft_delete = field_has (\<lambda>a. a = SoftDelete)"

definition fld_index :: "'e fld \<Rightarrow> bool option" where
  "fld_index f = find_map (\<lambda>a. case a of FieldIndex u \<Rightarrow> Some u | _ \<Rightarrow> None) (field_annotations f)"

definition fld_check :: "'e fld \<Rightarrow> field_check option" where
  "fld_check f = find_map (\<lambda>a. case a of FieldCheck c \<Rightarrow> Some c | _ \<Rightarrow> None) (field_annotations f)"

definition encrypted :: "'e fld \<Rightarrow> bool" where
  "encrypted = field_has (\<lambda>a. a = Encrypted)"

definition fld_hidden :: "'e fld \<Rightarrow> bool" where
  "fld_hidden = field_has (\<lambda>a. a = Hidden)"

definition column_name :: "'e fld \<Rightarrow> string option" where
  "column_name f = find_map (\<lambda>a. case a of Column c \<Rightarrow> Some c | _ \<Rightarrow> None) (field_annotations f)"

definition ref_target :: "'e fld \<Rightarrow> (string \<times> on_delete option) option" where
  "ref_target f =
     find_map (\<lambda>a. case a of Ref target d \<Rightarrow> Some (target, d) | _ \<Rightarrow> None) (field_annotations f)"

definition tenant_claim_name :: "'e fld \<Rightarrow> string option" where
  "tenant_claim_name f =
     find_map (\<lambda>a. case a of
         Tenant explicit \<Rightarrow> Some (case explicit of Some n \<Rightarrow> n | None \<Rightarrow> field_name f)
       | _ \<Rightarrow> None) (field_annotations f)"

definition searchable :: "'e fld \<Rightarrow> bool" where
  "searchable = field_has (\<lambda>a. a = Searchable)"

definition natural_key :: "'e fld \<Rightarrow> bool" where
  "natural_key = field_has (\<lambda>a. a = NaturalKey)"

section \<open>Annotations of an rpc\<close>

definition rpc_find :: "(annotation \<Rightarrow> 'a option) \<Rightarrow> rpc_decl \<Rightarrow> 'a option" where
  "rpc_find f r = find_map f (annotations r)"

definition rpc_has :: "(annotation \<Rightarrow> bool) \<Rightarrow> rpc_decl \<Rightarrow> bool" where
  "rpc_has P r = list_ex P (annotations r)"

definition rpc_auth :: "rpc_decl \<Rightarrow> annotation option" where
  "rpc_auth r =
     find (\<lambda>a. case a of Authenticated \<Rightarrow> True | Requires _ _ _ \<Rightarrow> True | _ \<Rightarrow> False) (annotations r)"

definition rpc_content_type :: "rpc_decl \<Rightarrow> string option" where
  "rpc_content_type = rpc_find (\<lambda>a. case a of ContentType ct \<Rightarrow> Some ct | _ \<Rightarrow> None)"

definition rpc_route :: "rpc_decl \<Rightarrow> string option" where
  "rpc_route = rpc_find (\<lambda>a. case a of Route pattern \<Rightarrow> Some pattern | _ \<Rightarrow> None)"

definition rpc_rate_limit :: "rpc_decl \<Rightarrow> (string \<times> string option) option" where
  "rpc_rate_limit = rpc_find (\<lambda>a. case a of RateLimit spec key \<Rightarrow> Some (spec, key) | _ \<Rightarrow> None)"

definition rpc_deprecated :: "rpc_decl \<Rightarrow> string option" where
  "rpc_deprecated = rpc_find (\<lambda>a. case a of Deprecated reason \<Rightarrow> Some reason | _ \<Rightarrow> None)"

definition rpc_cache_control :: "rpc_decl \<Rightarrow> string option" where
  "rpc_cache_control = rpc_find (\<lambda>a. case a of CacheControl v \<Rightarrow> Some v | _ \<Rightarrow> None)"

definition rpc_example :: "rpc_decl \<Rightarrow> (sexpr option \<times> sexpr option) option" where
  "rpc_example = rpc_find (\<lambda>a. case a of Example req res \<Rightarrow> Some (req, res) | _ \<Rightarrow> None)"

definition rpc_invalidates :: "rpc_decl \<Rightarrow> string list option" where
  "rpc_invalidates = rpc_find (\<lambda>a. case a of Invalidates names \<Rightarrow> Some names | _ \<Rightarrow> None)"

definition rpc_infinite :: "rpc_decl \<Rightarrow> (string \<times> string) option" where
  "rpc_infinite = rpc_find (\<lambda>a. case a of Infinite c l \<Rightarrow> Some (c, l) | _ \<Rightarrow> None)"

definition rpc_idempotent :: "rpc_decl \<Rightarrow> bool" where
  "rpc_idempotent = rpc_has (\<lambda>a. a = Idempotent)"

definition rpc_read_replica :: "rpc_decl \<Rightarrow> bool" where
  "rpc_read_replica = rpc_has (\<lambda>a. a = ReadReplica)"

definition rpc_background :: "rpc_decl \<Rightarrow> bool" where
  "rpc_background = rpc_has (\<lambda>a. a = Background)"

definition rpc_cache :: "rpc_decl \<Rightarrow> string option" where
  "rpc_cache = rpc_find (\<lambda>a. case a of Cache ttl \<Rightarrow> Some ttl | _ \<Rightarrow> None)"

definition rpc_cors :: "rpc_decl \<Rightarrow> string option" where
  "rpc_cors = rpc_find (\<lambda>a. case a of Cors v \<Rightarrow> Some v | _ \<Rightarrow> None)"

definition rpc_cron :: "rpc_decl \<Rightarrow> string option" where
  "rpc_cron = rpc_find (\<lambda>a. case a of Cron schedule _ \<Rightarrow> Some schedule | _ \<Rightarrow> None)"

definition rpc_cron_initial_delay :: "rpc_decl \<Rightarrow> string option" where
  "rpc_cron_initial_delay = rpc_find (\<lambda>a. case a of Cron _ delay \<Rightarrow> delay | _ \<Rightarrow> None)"

definition rpc_not_found :: "rpc_decl \<Rightarrow> bool" where
  "rpc_not_found = rpc_has (\<lambda>a. a = NotFound)"

definition rpc_csrf :: "rpc_decl \<Rightarrow> bool" where
  "rpc_csrf = rpc_has (\<lambda>a. a = Csrf)"

definition rpc_raw_sql :: "rpc_decl \<Rightarrow> bool" where
  "rpc_raw_sql = rpc_has (\<lambda>a. a = RawSql)"

definition rpc_startup :: "rpc_decl \<Rightarrow> bool" where
  "rpc_startup = rpc_has (\<lambda>a. a = Startup)"

definition looks_like_a_query :: "rpc_decl \<Rightarrow> bool" where
  "looks_like_a_query r \<longleftrightarrow>
     list_ex (\<lambda>p. strip_prefix p (rpc_name r) \<noteq> None)
       [''get'', ''list'', ''find'', ''search'', ''read'', ''fetch''] \<or> params r = []"

section \<open>The shape of a check expression\<close>

text \<open>\<open>validate_check_expr_shape\<close>: the error is the span of the first part that has no SQL form.\<close>

fun check_op :: "binary_op \<Rightarrow> bool" where
  "check_op OpCoalesce \<longleftrightarrow> False"
| "check_op _ \<longleftrightarrow> True"

fun validate_check_expr_shape :: "sexpr \<Rightarrow> span + unit" where
  "validate_check_expr_shape (Sp (IntLit _) _) = Inr ()"
| "validate_check_expr_shape (Sp (FloatLit _) _) = Inr ()"
| "validate_check_expr_shape (Sp (Str _) _) = Inr ()"
| "validate_check_expr_shape (Sp (BoolLit _) _) = Inr ()"
| "validate_check_expr_shape (Sp NullLit _) = Inr ()"
| "validate_check_expr_shape (Sp (Ident _) _) = Inr ()"
| "validate_check_expr_shape (Sp (Paren inner) _) = validate_check_expr_shape inner"
| "validate_check_expr_shape (Sp (Unary _ operand) _) = validate_check_expr_shape operand"
| "validate_check_expr_shape (Sp (Binary op left right) s) =
     (if check_op op
      then rbind (validate_check_expr_shape left) (\<lambda>_. validate_check_expr_shape right)
      else Inl s)"
| "validate_check_expr_shape (Sp _ s) = Inl s"

end
