(* ===== verification/Decimals.thy ===== *)
theory Decimals
  imports Prelude
begin

text \<open>
  The decimals of the runtime (\<open>compiler/src/runtime/mod.rs\<close>): an \<open>i128\<close> scaled by ten
  thousand, its text of exactly four decimals, and the rounded products and quotients.
  \<open>None\<close> is the overflow that the code reports.
\<close>

definition decimal_scale :: int where
  "decimal_scale = 10000"

definition i128_min :: int where "i128_min = - (2 ^ 127)"
definition i128_max :: int where "i128_max = 2 ^ 127 - 1"

definition in_i128 :: "int \<Rightarrow> bool" where
  "in_i128 n \<longleftrightarrow> i128_min \<le> n \<and> n \<le> i128_max"

lemmas i128_defs = i128_min_def i128_max_def in_i128_def

text \<open>The result of a \<open>checked_\<close> operation on \<open>i128\<close>.\<close>

definition checked :: "int \<Rightarrow> int option" where
  "checked n = (if in_i128 n then Some n else None)"

definition checked_div :: "int \<Rightarrow> int \<Rightarrow> int option" where
  "checked_div a b = (if b = 0 then None else checked (tdiv a b))"

definition checked_rem :: "int \<Rightarrow> int \<Rightarrow> int option" where
  "checked_rem a b = (if b = 0 \<or> \<not> in_i128 (tdiv a b) then None else Some (trem a b))"

definition parse_i128 :: "string \<Rightarrow> int option" where
  "parse_i128 = parse_signed i128_min i128_max"

section \<open>Text\<close>

definition format_decimal :: "int \<Rightarrow> string" where
  "format_decimal raw =
     (let abs_raw = nat \<bar>raw\<bar>
      in (if raw < 0 then ''-'' else []) @ show_nat (abs_raw div 10000) @ ''.'' @ pad 4 (abs_raw mod 10000))"

definition parse_decimal :: "string \<Rightarrow> int option" where
  "parse_decimal s =
     (let (negative, s) = (case strip_prefix ''-'' s of Some rest \<Rightarrow> (True, rest) | None \<Rightarrow> (False, s))
      in case split_once (CHR ''.'') s of
           None \<Rightarrow> None
         | Some (int_part, frac_part) \<Rightarrow>
             if int_part = [] \<or> \<not> list_all digit_byte int_part then None
             else if length frac_part \<noteq> 4 \<or> \<not> list_all digit_byte frac_part then None
             else Option.bind (parse_i128 int_part) (\<lambda>int_val.
                  Option.bind (parse_i128 frac_part) (\<lambda>frac_val.
                  Option.bind (checked (int_val * decimal_scale)) (\<lambda>scaled.
                  Option.bind (checked (scaled + frac_val)) (\<lambda>raw.
                    Some (if negative then - raw else raw))))))"

section \<open>Arithmetic\<close>

definition div_round :: "int \<Rightarrow> int \<Rightarrow> int option" where
  "div_round numerator denominator =
     Option.bind (checked_div numerator denominator) (\<lambda>q.
     Option.bind (checked_rem numerator denominator) (\<lambda>r.
       if r = 0 then Some q
       else Option.bind (checked \<bar>r\<bar>) (\<lambda>a.
            Option.bind (checked (a * 2)) (\<lambda>double_r_abs.
            Option.bind (checked \<bar>denominator\<bar>) (\<lambda>denom_abs.
              if double_r_abs < denom_abs then Some q
              else if (numerator < 0) = (denominator < 0) then checked (q + 1)
              else checked (q - 1))))))"

definition decimal_add :: "int \<Rightarrow> int \<Rightarrow> int option" where
  "decimal_add a b = checked (a + b)"

definition decimal_sub :: "int \<Rightarrow> int \<Rightarrow> int option" where
  "decimal_sub a b = checked (a - b)"

definition decimal_mul :: "int \<Rightarrow> int \<Rightarrow> int option" where
  "decimal_mul a b = Option.bind (checked (a * b)) (\<lambda>raw. div_round raw decimal_scale)"

definition decimal_div :: "int \<Rightarrow> int \<Rightarrow> int option" where
  "decimal_div a b =
     (if b = 0 then None
      else Option.bind (checked (a * decimal_scale)) (\<lambda>scaled. div_round scaled b))"

definition decimal_from_int :: "int \<Rightarrow> int option" where
  "decimal_from_int n = checked (n * decimal_scale)"

section \<open>Facts\<close>

lemma checked_Some: "checked n = Some m \<longleftrightarrow> m = n \<and> in_i128 n"
  by (auto simp: checked_def)

lemma bind_Some: "Option.bind x f = Some y \<longleftrightarrow> (\<exists>z. x = Some z \<and> f z = Some y)"
  by (cases x) auto

text \<open>Truncated division in terms of magnitudes.\<close>

lemma tdiv_trem:
  assumes "d \<noteq> 0"
  shows "\<bar>trem n d\<bar> < \<bar>d\<bar>" "n = tdiv n d * d + trem n d" "trem n d = 0 \<or> (trem n d < 0) = (n < 0)"
    "tdiv n d = 0 \<or> (0 < tdiv n d) = ((n < 0) = (d < 0))"
proof -
  let ?q = "\<bar>n\<bar> div \<bar>d\<bar>" and ?r = "\<bar>n\<bar> mod \<bar>d\<bar>"
  have r: "0 \<le> ?r" "?r < \<bar>d\<bar>" and q: "0 \<le> ?q" using assms by (simp_all add: pos_imp_zdiv_nonneg_iff)
  have n: "\<bar>n\<bar> = ?q * \<bar>d\<bar> + ?r" by simp
  have s: "sgn n * \<bar>n\<bar> = n" "sgn d * d = \<bar>d\<bar>" "sgn d * sgn d = 1"
    using assms by (simp_all add: sgn_mult_abs abs_sgn mult.commute sgn_if)
  have td: "tdiv n d * d = sgn n * (?q * \<bar>d\<bar>)"
    unfolding tdiv_def using s(2) by (simp add: algebra_simps)
  have "trem n d = sgn n * (\<bar>n\<bar> - ?q * \<bar>d\<bar>)"
    unfolding trem_def td using s(1) by (simp add: algebra_simps)
  then have t: "trem n d = sgn n * ?r" by (simp add: minus_div_mult_eq_mod)
  show "\<bar>trem n d\<bar> < \<bar>d\<bar>" using r unfolding t by (auto simp: abs_mult sgn_if)
  show "n = tdiv n d * d + trem n d" by (simp add: trem_def)
  show "trem n d = 0 \<or> (trem n d < 0) = (n < 0)" unfolding t using r by (auto simp: sgn_if)
  show "tdiv n d = 0 \<or> (0 < tdiv n d) = ((n < 0) = (d < 0))"
    unfolding tdiv_def using q assms by (auto simp: sgn_if)
qed

lemma parse_digits_i128:
  "s \<noteq> [] \<Longrightarrow> list_all digit_byte s \<Longrightarrow> int (digits_val s) \<le> i128_max \<Longrightarrow>
     parse_i128 s = Some (int (digits_val s))"
proof -
  assume s: "s \<noteq> []" "list_all digit_byte s" "int (digits_val s) \<le> i128_max"
  then have "take 1 s \<noteq> ''-''" "take 1 s \<noteq> ''+''"
    by (cases s; auto simp: digit_byte_def)+
  with s show ?thesis
    by (simp add: parse_i128_def parse_signed_def parse_digits_def Let_def i128_defs)
qed

lemma parse_decimal_range:
  assumes "parse_decimal s = Some raw"
  shows "in_i128 raw \<and> raw \<noteq> i128_min"
proof -
  have pos: "0 \<le> v" if "parse_i128 t = Some v" "list_all digit_byte t" "t \<noteq> []" for t v
  proof -
    have "take 1 t \<noteq> ''-''" using that(2,3) by (cases t) (auto simp: digit_byte_def)
    with that(1) show ?thesis
      by (auto simp: parse_i128_def parse_signed_def Let_def split: option.splits if_splits)
  qed
  from assms obtain int_part frac v w where
    p: "int_part \<noteq> []" "list_all digit_byte int_part" "length frac = 4" "list_all digit_byte frac"
      "parse_i128 int_part = Some v" "parse_i128 frac = Some w"
    and r: "in_i128 (v * decimal_scale + w)"
      "raw = v * decimal_scale + w \<or> raw = - (v * decimal_scale + w)"
    by (fastforce simp: parse_decimal_def bind_Some checked_Some split: option.splits prod.splits if_splits)
  from p(3) have "frac \<noteq> []" by auto
  with p have "0 \<le> v" "0 \<le> w" by (auto intro: pos)
  then have "0 \<le> v * decimal_scale + w" by (simp add: decimal_scale_def)
  with r show ?thesis by (auto simp: i128_defs)
qed

section \<open>Properties\<close>

lemma format_decimal_parses:
  assumes "in_i128 raw" "raw \<noteq> i128_min"
  shows "parse_decimal (format_decimal raw) = Some raw"
proof -
  define a where "a = nat \<bar>raw\<bar>"
  have a: "int a = \<bar>raw\<bar>" "int a \<le> i128_max" using assms by (auto simp: a_def i128_defs)
  let ?i = "show_nat (a div 10000)" and ?f = "pad 4 (a mod 10000)"
  have dig: "CHR ''.'' \<notin> set ?i" using show_nat_digits [of "a div 10000"]
    by (auto simp: list_all_iff digit_byte_def)
  have lf: "length ?f = 4" by (rule length_pad) simp_all
  have "int (a div 10000) \<le> int a" by (simp add: div_le_dividend)
  with a have pi: "parse_i128 ?i = Some (int (a div 10000))"
    using parse_digits_i128 [OF show_nat_not_Nil show_nat_digits] by simp
  have pf: "parse_i128 ?f = Some (int (a mod 10000))"
    using parse_digits_i128 [OF _ pad_digits, of 4 "a mod 10000"] lf by (force simp: i128_defs)
  have c: "checked (int (a div 10000) * decimal_scale) = Some (int (a div 10000) * decimal_scale)"
    "checked (int (a div 10000) * decimal_scale + int (a mod 10000)) = Some (int a)"
  proof -
    have e: "int (a div 10000) * decimal_scale + int (a mod 10000) = int a"
      by (simp add: decimal_scale_def zdiv_int zmod_int)
    show "checked (int (a div 10000) * decimal_scale + int (a mod 10000)) = Some (int a)"
      unfolding e using a by (simp add: checked_def i128_defs)
    have "int (a div 10000) * decimal_scale \<le> int a" using e by linarith
    then show "checked (int (a div 10000) * decimal_scale) = Some (int (a div 10000) * decimal_scale)"
      using a by (simp add: checked_def i128_defs decimal_scale_def)
  qed
  have p: "strip_prefix ''-'' (?i @ ''.'' @ ?f) = None"
    using show_nat_digits [of "a div 10000"] show_nat_not_Nil [of "a div 10000"]
    by (cases ?i) (auto simp: strip_prefix_def digit_byte_def)
  have m: "strip_prefix ''-'' (''-'' @ ?i @ ''.'' @ ?f) = Some (?i @ ''.'' @ ?f)"
    by (simp add: strip_prefix_def)
  have s: "split_once (CHR ''.'') (?i @ ''.'' @ ?f) = Some (?i, ?f)"
    using split_once_at [OF dig] by simp
  show ?thesis
  proof (cases "raw < 0")
    case True
    then show ?thesis
      unfolding format_decimal_def a_def [symmetric] Let_def parse_decimal_def
      using a by (simp only: if_True m s option.case prod.case)
        (simp add: show_nat_digits pad_digits lf pi pf c)
  next
    case False
    then show ?thesis
      unfolding format_decimal_def a_def [symmetric] Let_def parse_decimal_def
      using a by (simp only: if_False append_Nil p s option.case prod.case)
        (simp add: show_nat_digits pad_digits lf pi pf c)
  qed
qed

text \<open>
  The text of a decimal parses back to it, for every \<open>i128\<close> but the least one: no digit
  is lost or invented on the wire.
\<close>

theorem decimal_round_trip:
  assumes "in_i128 raw" "raw \<noteq> i128_min"
  shows "parse_decimal (format_decimal raw) = Some raw"
  by (rule format_decimal_parses [OF assms])

theorem decimal_round_trip_witness: "parse_decimal (format_decimal (- 12345)) = Some (- 12345)"
  by (rule decimal_round_trip) (simp_all add: i128_defs)

text \<open>
  The division of decimals rounds to the nearest value and a tie away from zero, for all
  signs: the result is within half a divisor of the exact quotient, and on a tie its
  magnitude is not below the exact one.
\<close>

theorem div_round_nearest:
  assumes "div_round n d = Some q"
  shows "2 * \<bar>n - q * d\<bar> < \<bar>d\<bar> \<or> (2 * \<bar>n - q * d\<bar> = \<bar>d\<bar> \<and> \<bar>n\<bar> \<le> \<bar>q * d\<bar>)"
proof -
  define t r where "t = tdiv n d" and "r = trem n d"
  have d: "d \<noteq> 0" using assms by (auto simp: div_round_def checked_div_def bind_Some)
  note T = tdiv_trem [OF d, of n, folded t_def r_def]
  have cases3: "(r = 0 \<and> q = t) \<or> (r \<noteq> 0 \<and> 2 * \<bar>r\<bar> < \<bar>d\<bar> \<and> q = t) \<or>
      (r \<noteq> 0 \<and> \<bar>d\<bar> \<le> 2 * \<bar>r\<bar> \<and> q = (if (n < 0) = (d < 0) then t + 1 else t - 1))"
    using assms
    by (auto simp: div_round_def checked_div_def checked_rem_def bind_Some checked_Some t_def r_def
        split: if_splits)
  then consider "q = t" "2 * \<bar>r\<bar> < \<bar>d\<bar>"
    | "r \<noteq> 0" "\<bar>d\<bar> \<le> 2 * \<bar>r\<bar>" "q = (if (n < 0) = (d < 0) then t + 1 else t - 1)"
    using d by force
  then show ?thesis
  proof cases
    case 1
    then have "n - q * d = r" using T(2) by simp
    with 1 show ?thesis by simp
  next
    case 2
    have same: "q * d = t * d + d" if "(n < 0) = (d < 0)"
    proof -
      have "q = t + 1" using 2(3) that by simp
      then show ?thesis by (simp add: algebra_simps)
    qed
    have other: "q * d = t * d - d" if "(n < 0) \<noteq> (d < 0)"
    proof -
      have "t = q + 1" using 2(3) that by simp
      then show ?thesis by (simp add: algebra_simps)
    qed
    have "\<bar>n - q * d\<bar> = \<bar>d\<bar> - \<bar>r\<bar> \<and> \<bar>n\<bar> \<le> \<bar>q * d\<bar>"
    proof (cases "n < 0"; cases "d < 0")
      assume "n < 0" "d < 0"
      with same T 2(1) have "q * d = n - r + d" "r < 0" by auto
      with T(1) \<open>d < 0\<close> \<open>n < 0\<close> show ?thesis by linarith
    next
      assume "n < 0" "\<not> d < 0"
      with other T 2(1) have "q * d = n - r - d" "r < 0" by auto
      with T(1) \<open>n < 0\<close> \<open>\<not> d < 0\<close> show ?thesis by linarith
    next
      assume "\<not> n < 0" "d < 0"
      with other T 2(1) have "q * d = n - r - d" "0 < r" by auto
      with T(1) \<open>\<not> n < 0\<close> \<open>d < 0\<close> show ?thesis by linarith
    next
      assume "\<not> n < 0" "\<not> d < 0"
      with same T 2(1) have "q * d = n - r + d" "0 < r" by auto
      with T(1) \<open>\<not> n < 0\<close> \<open>\<not> d < 0\<close> show ?thesis by linarith
    qed
    then have e: "\<bar>n - q * d\<bar> = \<bar>d\<bar> - \<bar>r\<bar>" and "\<bar>n\<bar> \<le> \<bar>q * d\<bar>" by blast+
    moreover have "2 * \<bar>n - q * d\<bar> \<le> \<bar>d\<bar>" unfolding e using 2(2) by (simp add: algebra_simps)
    ultimately show ?thesis by (simp add: order_le_less)
  qed
qed

theorem div_round_nearest_witness:
  "2 * \<bar>-5 - (-3) * 2\<bar> < \<bar>2 :: int\<bar> \<or> (2 * \<bar>-5 - (-3) * 2\<bar> = \<bar>2 :: int\<bar> \<and> \<bar>-5\<bar> \<le> \<bar>(-3) * 2 :: int\<bar>)"
  by (rule div_round_nearest)
    (simp add: div_round_def checked_div_def checked_rem_def checked_def tdiv_def trem_def i128_defs)

text \<open>
  The least \<open>i128\<close> is the one decimal whose text is rejected when it comes back: the
  sign is applied after the digits were read as a positive number.
\<close>

theorem least_decimal_lost: "parse_decimal (format_decimal i128_min) = None"
proof -
  define i f :: nat where "i = 2 ^ 127 div 10000" and "f = 2 ^ 127 mod 10000"
  have a: "nat \<bar>i128_min\<bar> = 2 ^ 127" by (simp add: i128_min_def)
  have t: "format_decimal i128_min = ''-'' @ show_nat i @ ''.'' @ pad 4 f"
    unfolding format_decimal_def a Let_def i_def f_def by (simp add: i128_min_def)
  have dig: "CHR ''.'' \<notin> set (show_nat i)" using show_nat_digits [of i]
    by (auto simp: list_all_iff digit_byte_def)
  have s: "split_once (CHR ''.'') (show_nat i @ ''.'' @ pad 4 f) = Some (show_nat i, pad 4 f)"
    using split_once_at [OF dig] by simp
  have m: "strip_prefix ''-'' (''-'' @ show_nat i @ ''.'' @ pad 4 f) = Some (show_nat i @ ''.'' @ pad 4 f)"
    by (simp add: strip_prefix_def)
  have lf: "length (pad 4 f) = 4" by (rule length_pad) (simp_all add: f_def)
  then have ne: "pad 4 f \<noteq> []" by auto
  have pi: "parse_i128 (show_nat i) = Some (int i)"
    using parse_digits_i128 [OF show_nat_not_Nil show_nat_digits, of i] by (simp add: i_def i128_defs)
  have pf: "parse_i128 (pad 4 f) = Some (int f)"
    using parse_digits_i128 [OF ne pad_digits] by (simp add: f_def i128_defs)
  have c: "checked (int i * decimal_scale) = Some (int i * decimal_scale)"
    "checked (int i * decimal_scale + int f) = None"
    by (simp_all add: i_def f_def checked_def i128_defs decimal_scale_def)
  show ?thesis
    unfolding t parse_decimal_def Let_def
    by (simp only: m s option.case prod.case) (simp add: show_nat_digits pad_digits lf pi pf c)
qed

end
