(* ===== verification/Values.thy ===== *)
theory Values
  imports Ast Decimals
begin

text \<open>
  The values of the interpreter (\<open>enum Value\<close> of \<open>compiler/src/runtime/mod.rs\<close>), their
  equality and their order, and IEEE 754 comparison on the 64 or 32 bits of a float. An
  environment maps names to the current contents of their cells.
\<close>

section \<open>Floats\<close>

type_synonym f64 = "64 word"
type_synonym f32 = "32 word"

definition f64_nan :: "f64 \<Rightarrow> bool" where
  "f64_nan x \<longleftrightarrow> 2047 * 2 ^ 52 < uint x mod 2 ^ 63"

text \<open>The order of the numbers as integers; both zeros are \<open>0\<close>.\<close>

definition f64_key :: "f64 \<Rightarrow> int" where
  "f64_key x = (let m = uint x mod 2 ^ 63 in if 2 ^ 63 \<le> uint x then - m else m)"

definition f64_eq :: "f64 \<Rightarrow> f64 \<Rightarrow> bool" where
  "f64_eq x y \<longleftrightarrow> \<not> f64_nan x \<and> \<not> f64_nan y \<and> f64_key x = f64_key y"

definition f32_nan :: "f32 \<Rightarrow> bool" where
  "f32_nan x \<longleftrightarrow> 255 * 2 ^ 23 < uint x mod 2 ^ 31"

definition f32_key :: "f32 \<Rightarrow> int" where
  "f32_key x = (let m = uint x mod 2 ^ 31 in if 2 ^ 31 \<le> uint x then - m else m)"

definition f32_eq :: "f32 \<Rightarrow> f32 \<Rightarrow> bool" where
  "f32_eq x y \<longleftrightarrow> \<not> f32_nan x \<and> \<not> f32_nan y \<and> f32_key x = f32_key y"

datatype ordering = Less | Equal | Greater

definition cmp_int :: "int \<Rightarrow> int \<Rightarrow> ordering" where
  "cmp_int a b = (if a < b then Less else if a = b then Equal else Greater)"

definition f64_partial_cmp :: "f64 \<Rightarrow> f64 \<Rightarrow> ordering option" where
  "f64_partial_cmp x y =
     (if f64_nan x \<or> f64_nan y then None else Some (cmp_int (f64_key x) (f64_key y)))"

section \<open>Values\<close>

text \<open>The markers of the modules, values without data.\<close>

datatype marker =
    MDb | MAuth | MMath | MCrypto | MHttp | MJson | MBase64 | MPdf | MExcel | MAi | MMcp | MImage
  | MBackground | MTime | MLog | MCache | MEnv | MRequest | MSmtp | MResponse

text \<open>A key of \<open>orderBy\<close>: field and direction.\<close>

type_synonym order_key = "string \<times> bool"

datatype (plugins only: size) val =
    VInt int
  | VInt64 int
  | VDecimal int
  | VTimestamp int
  | VFloat f64
  | VStr string
  | VUuid string
  | VHtml string
  | VVector "f32 list"
  | VBool bool
  | VNull
  | VStruct "(string \<times> val) list"
  | VVariant string string "(string \<times> val) list"
  | VList "val list"
  | VTuple "val list"
  | VDbCollection string
  | VDbQuery string "order_key list"
  | VService string
  | VMarker marker
  | VBoundMethod val string
  | VFnRef string
  | VClosure "string list" block "(string \<times> val) list"

type_synonym env = "(string \<times> val) list"

definition supports_bound_method_access :: "val \<Rightarrow> bool" where
  "supports_bound_method_access v =
     (case v of
        VStruct _ \<Rightarrow> False | VVariant _ _ _ \<Rightarrow> False | VNull \<Rightarrow> False | VTuple _ \<Rightarrow> False
      | VBoundMethod _ _ \<Rightarrow> False | VFnRef _ \<Rightarrow> False | VVector _ \<Rightarrow> False | VClosure _ _ _ \<Rightarrow> False
      | VMarker m \<Rightarrow> m \<noteq> MDb
      | _ \<Rightarrow> True)"

text \<open>\<open>impl PartialEq for Value\<close>; a closure equals nothing, not even itself.\<close>

fun val_eq :: "val \<Rightarrow> val \<Rightarrow> bool"
  and vals_eq :: "val list \<Rightarrow> val list \<Rightarrow> bool"
  and fields_eq :: "(string \<times> val) list \<Rightarrow> (string \<times> val) list \<Rightarrow> bool" where
  "val_eq (VInt a) w \<longleftrightarrow> (case w of VInt b \<Rightarrow> a = b | _ \<Rightarrow> False)"
| "val_eq (VInt64 a) w \<longleftrightarrow> (case w of VInt64 b \<Rightarrow> a = b | _ \<Rightarrow> False)"
| "val_eq (VDecimal a) w \<longleftrightarrow> (case w of VDecimal b \<Rightarrow> a = b | _ \<Rightarrow> False)"
| "val_eq (VTimestamp a) w \<longleftrightarrow> (case w of VTimestamp b \<Rightarrow> a = b | _ \<Rightarrow> False)"
| "val_eq (VFloat a) w \<longleftrightarrow> (case w of VFloat b \<Rightarrow> f64_eq a b | _ \<Rightarrow> False)"
| "val_eq (VStr a) w \<longleftrightarrow> (case w of VStr b \<Rightarrow> a = b | _ \<Rightarrow> False)"
| "val_eq (VUuid a) w \<longleftrightarrow> (case w of VUuid b \<Rightarrow> a = b | _ \<Rightarrow> False)"
| "val_eq (VHtml a) w \<longleftrightarrow> (case w of VHtml b \<Rightarrow> a = b | _ \<Rightarrow> False)"
| "val_eq (VVector a) w \<longleftrightarrow> (case w of VVector b \<Rightarrow> list_all2 f32_eq a b | _ \<Rightarrow> False)"
| "val_eq (VBool a) w \<longleftrightarrow> (case w of VBool b \<Rightarrow> a = b | _ \<Rightarrow> False)"
| "val_eq VNull w \<longleftrightarrow> (case w of VNull \<Rightarrow> True | _ \<Rightarrow> False)"
| "val_eq (VStruct a) w \<longleftrightarrow> (case w of VStruct b \<Rightarrow> fields_eq a b | _ \<Rightarrow> False)"
| "val_eq (VVariant e1 v1 f1) w \<longleftrightarrow> (case w of VVariant e2 v2 f2 \<Rightarrow> e1 = e2 \<and> v1 = v2 \<and> fields_eq f1 f2 | _ \<Rightarrow> False)"
| "val_eq (VList a) w \<longleftrightarrow> (case w of VList b \<Rightarrow> vals_eq a b | _ \<Rightarrow> False)"
| "val_eq (VTuple a) w \<longleftrightarrow> (case w of VTuple b \<Rightarrow> vals_eq a b | _ \<Rightarrow> False)"
| "val_eq (VDbCollection a) w \<longleftrightarrow> (case w of VDbCollection b \<Rightarrow> a = b | _ \<Rightarrow> False)"
| "val_eq (VDbQuery c1 o1) w \<longleftrightarrow> (case w of VDbQuery c2 o2 \<Rightarrow> c1 = c2 \<and> o1 = o2 | _ \<Rightarrow> False)"
| "val_eq (VService a) w \<longleftrightarrow> (case w of VService b \<Rightarrow> a = b | _ \<Rightarrow> False)"
| "val_eq (VMarker a) w \<longleftrightarrow> (case w of VMarker b \<Rightarrow> a = b | _ \<Rightarrow> False)"
| "val_eq (VBoundMethod a m1) w \<longleftrightarrow> (case w of VBoundMethod b m2 \<Rightarrow> val_eq a b \<and> m1 = m2 | _ \<Rightarrow> False)"
| "val_eq (VFnRef a) w \<longleftrightarrow> (case w of VFnRef b \<Rightarrow> a = b | _ \<Rightarrow> False)"
| "val_eq (VClosure _ _ _) w \<longleftrightarrow> False"
| "vals_eq [] ws \<longleftrightarrow> ws = []"
| "vals_eq (a # as) ws \<longleftrightarrow>
     (case ws of [] \<Rightarrow> False | b # bs \<Rightarrow> val_eq a b \<and> vals_eq as bs)"
| "fields_eq [] gs \<longleftrightarrow> gs = []"
| "fields_eq ((n, a) # as) gs \<longleftrightarrow>
     (case gs of [] \<Rightarrow> False | (m, b) # bs \<Rightarrow> n = m \<and> val_eq a b \<and> fields_eq as bs)"

text \<open>The errors of the evaluator, one per message.\<close>

datatype eval_error =
    NotBool
  | NotComparable
  | NanComparison
  | NoField string
  | Overflow
  | DivideByZero
  | NotArithmetic
  | NotInt
  | BadIndex
  | NotIndexable
  | BadArgument string
  | Other string

definition value_ordering :: "val \<Rightarrow> val \<Rightarrow> eval_error + ordering" where
  "value_ordering l r =
     (case l of
        VInt a \<Rightarrow> (case r of VInt b \<Rightarrow> Inr (cmp_int a b) | _ \<Rightarrow> Inl NotComparable)
      | VInt64 a \<Rightarrow> (case r of VInt64 b \<Rightarrow> Inr (cmp_int a b) | _ \<Rightarrow> Inl NotComparable)
      | VDecimal a \<Rightarrow> (case r of VDecimal b \<Rightarrow> Inr (cmp_int a b) | _ \<Rightarrow> Inl NotComparable)
      | VTimestamp a \<Rightarrow> (case r of VTimestamp b \<Rightarrow> Inr (cmp_int a b) | _ \<Rightarrow> Inl NotComparable)
      | VFloat a \<Rightarrow>
          (case r of
             VFloat b \<Rightarrow> ok_or NanComparison (f64_partial_cmp a b)
           | _ \<Rightarrow> Inl NotComparable)
      | _ \<Rightarrow> Inl NotComparable)"

definition compare :: "val \<Rightarrow> val \<Rightarrow> (ordering \<Rightarrow> bool) \<Rightarrow> eval_error + val" where
  "compare l r accept = rbind (value_ordering l r) (\<lambda>ord. Inr (VBool (accept ord)))"

definition as_bool :: "val \<Rightarrow> eval_error + bool" where
  "as_bool v = (case v of VBool b \<Rightarrow> Inr b | _ \<Rightarrow> Inl NotBool)"

definition as_int :: "val \<Rightarrow> eval_error + int" where
  "as_int v = (case v of VInt n \<Rightarrow> Inr n | _ \<Rightarrow> Inl NotInt)"

lemma as_bool_Inr: "as_bool v = Inr b \<longleftrightarrow> v = VBool b"
  by (cases v) (auto simp: as_bool_def)

lemma f64_eq_sym: "f64_eq a b = f64_eq b a"
  by (auto simp: f64_eq_def)

end
