(* ===== verification/Recognizers.thy ===== *)
theory Recognizers
  imports Ast
begin

text \<open>
  The recognisers of \<open>compiler/src/ast.rs\<close>: closures and bodies whose shape the database
  layer or the streams can run without the interpreter. The destructors \<open>as_...\<close> stand for
  the \<open>let ... else\<close> patterns of the code.
\<close>

section \<open>Destructors\<close>

definition as_ident :: "sexpr \<Rightarrow> string option" where
  "as_ident e = (case node e of Ident n \<Rightarrow> Some n | _ \<Rightarrow> None)"

definition as_field_access :: "sexpr \<Rightarrow> (sexpr \<times> string) option" where
  "as_field_access e = (case node e of FieldAccess base field \<Rightarrow> Some (base, field) | _ \<Rightarrow> None)"

definition as_call :: "sexpr \<Rightarrow> (sexpr \<times> sexpr list) option" where
  "as_call e = (case node e of Call callee args \<Rightarrow> Some (callee, args) | _ \<Rightarrow> None)"

definition as_bool_lit :: "sexpr \<Rightarrow> bool option" where
  "as_bool_lit e = (case node e of BoolLit b \<Rightarrow> Some b | _ \<Rightarrow> None)"

fun strip_parens :: "sexpr \<Rightarrow> sexpr" where
  "strip_parens (Sp (Paren inner) _) = strip_parens inner"
| "strip_parens e = e"

definition is_ident :: "string \<Rightarrow> sexpr \<Rightarrow> bool" where
  "is_ident n e \<longleftrightarrow> as_ident e = Some n"

definition field_of_param :: "string \<Rightarrow> sexpr \<Rightarrow> string option" where
  "field_of_param param e =
     (case as_field_access e of
        Some (base, field) \<Rightarrow> if is_ident param base then Some field else None
      | None \<Rightarrow> None)"

text \<open>A closure of one parameter whose body is one expression.\<close>

definition closure_tail :: "string list \<Rightarrow> block \<Rightarrow> (string \<times> sexpr) option" where
  "closure_tail param_names body =
     (case (param_names, stmts body, tail body) of
        ([param], [], Some e) \<Rightarrow> Some (param, e)
      | _ \<Rightarrow> None)"

section \<open>Streams and simple selectors\<close>

definition recognize_ai_stream :: "block \<Rightarrow> sexpr list option" where
  "recognize_ai_stream body =
     (case (stmts body, tail body) of
        ([], Some e) \<Rightarrow>
          (case as_call e of
             Some (callee, args) \<Rightarrow>
               if length args \<noteq> 3 then None
               else (case as_field_access callee of
                       Some (base, field) \<Rightarrow>
                         if field = ''stream'' \<and> is_ident ''ai'' base then Some args else None
                     | None \<Rightarrow> None)
           | None \<Rightarrow> None)
      | _ \<Rightarrow> None)"

definition as_forever :: "stmt \<Rightarrow> block option" where
  "as_forever s =
     (case s of
        While cond body \<Rightarrow> if as_bool_lit cond = Some True then Some body else None
      | _ \<Rightarrow> None)"

definition recognize_live_subscribe :: "block \<Rightarrow> string option" where
  "recognize_live_subscribe body =
     (case (stmts body, tail body) of
        ([(s, _)], None) \<Rightarrow>
          (case as_forever s of
             Some loop_body \<Rightarrow>
               (case (stmts loop_body, tail loop_body) of
                  ([], Some e) \<Rightarrow>
                    (case as_call e of
                       Some (callee, []) \<Rightarrow>
                         (case as_field_access callee of
                            Some (base, field) \<Rightarrow>
                              if field = ''subscribe'' then field_of_param ''db'' base else None
                          | None \<Rightarrow> None)
                     | _ \<Rightarrow> None)
                | _ \<Rightarrow> None)
           | None \<Rightarrow> None)
      | _ \<Rightarrow> None)"

definition recognize_field_selector :: "string list \<Rightarrow> block \<Rightarrow> string option" where
  "recognize_field_selector param_names body =
     (case closure_tail param_names body of
        Some (param, e) \<Rightarrow> field_of_param param e
      | None \<Rightarrow> None)"

datatype time_granularity = Day | Month | Year

definition granularity_of :: "string \<Rightarrow> time_granularity option" where
  "granularity_of m =
     (if m = ''truncateToDay'' then Some Day
      else if m = ''truncateToMonth'' then Some Month
      else if m = ''truncateToYear'' then Some Year
      else None)"

definition recognize_group_key_selector ::
  "string list \<Rightarrow> block \<Rightarrow> (string \<times> time_granularity option) option" where
  "recognize_group_key_selector param_names body =
     (case closure_tail param_names body of
        None \<Rightarrow> None
      | Some (param, e) \<Rightarrow>
          (case as_field_access e of
             Some (base, field) \<Rightarrow> if is_ident param base then Some (field, None) else None
           | None \<Rightarrow>
               (case as_call e of
                  Some (callee, []) \<Rightarrow>
                    (case as_field_access callee of
                       Some (receiver, m) \<Rightarrow>
                         (case granularity_of m of
                            Some g \<Rightarrow>
                              (case field_of_param param receiver of
                                 Some field \<Rightarrow> Some (field, Some g)
                               | None \<Rightarrow> None)
                          | None \<Rightarrow> None)
                     | None \<Rightarrow> None)
                | _ \<Rightarrow> None)))"

section \<open>Projections\<close>

record projection_field =
  target :: string
  source :: string

datatype projection_plan =
    StructPlan "string option" "projection_field list"
  | ScalarPlan string

definition projection_source :: "string \<Rightarrow> sexpr \<Rightarrow> string option" where
  "projection_source param e =
     (case as_field_access (strip_parens e) of
        Some (base, field) \<Rightarrow> if is_ident param (strip_parens base) then Some field else None
      | None \<Rightarrow> None)"

fun projection_fields :: "string \<Rightarrow> (string \<times> sexpr) list \<Rightarrow> projection_field list option" where
  "projection_fields param [] = Some []"
| "projection_fields param ((t, e) # rest) =
     (case projection_source param e of
        Some s \<Rightarrow>
          (case projection_fields param rest of
             Some fs \<Rightarrow> Some (\<lparr>target = t, source = s\<rparr> # fs)
           | None \<Rightarrow> None)
      | None \<Rightarrow> None)"

definition recognize_projection_selector :: "string list \<Rightarrow> block \<Rightarrow> projection_plan option" where
  "recognize_projection_selector param_names body =
     (case closure_tail param_names body of
        None \<Rightarrow> None
      | Some (param, e) \<Rightarrow>
          (case node (strip_parens e) of
             FieldAccess _ _ \<Rightarrow> map_option ScalarPlan (projection_source param e)
           | StructLit name None inits \<Rightarrow>
               if inits = [] then None
               else map_option (StructPlan (if name = [] then None else Some name))
                      (projection_fields param inits)
           | _ \<Rightarrow> None))"

section \<open>Predicates\<close>

datatype predicate_operand = OperandExpr sexpr | OperandBool bool | OperandField string

datatype string_match_op = Contains | StartsWith | EndsWith

datatype predicate_expr =
    Leaf string binary_op predicate_operand
  | InList string sexpr bool \<comment> \<open>field, list, negated\<close>
  | StringMatch string string_match_op sexpr bool
  | PAnd "predicate_expr list"
  | POr "predicate_expr list"

fun and_items :: "predicate_expr \<Rightarrow> predicate_expr list" where
  "and_items (PAnd v) = v"
| "and_items other = [other]"

fun or_items :: "predicate_expr \<Rightarrow> predicate_expr list" where
  "or_items (POr v) = v"
| "or_items other = [other]"

definition merge_and :: "predicate_expr \<Rightarrow> predicate_expr \<Rightarrow> predicate_expr" where
  "merge_and l r = PAnd (and_items l @ and_items r)"

definition merge_or :: "predicate_expr \<Rightarrow> predicate_expr \<Rightarrow> predicate_expr" where
  "merge_or l r = POr (or_items l @ or_items r)"

fun expr_mentions_param :: "string \<Rightarrow> sexpr \<Rightarrow> bool" where
  "expr_mentions_param param (Sp (Ident name) _) \<longleftrightarrow> name = param"
| "expr_mentions_param param (Sp (FieldAccess base _) _) \<longleftrightarrow> expr_mentions_param param base"
| "expr_mentions_param param (Sp (Call callee args) _) \<longleftrightarrow>
     expr_mentions_param param callee \<or> list_ex (expr_mentions_param param) args"
| "expr_mentions_param param (Sp (ArrayLit es) _) \<longleftrightarrow> list_ex (expr_mentions_param param) es"
| "expr_mentions_param param (Sp (TupleLit es) _) \<longleftrightarrow> list_ex (expr_mentions_param param) es"
| "expr_mentions_param param (Sp (Index base index) _) \<longleftrightarrow>
     expr_mentions_param param base \<or> expr_mentions_param param index"
| "expr_mentions_param param (Sp (TupleIndex base _) _) \<longleftrightarrow> expr_mentions_param param base"
| "expr_mentions_param param (Sp (Binary _ left right) _) \<longleftrightarrow>
     expr_mentions_param param left \<or> expr_mentions_param param right"
| "expr_mentions_param param (Sp (Unary _ operand) _) \<longleftrightarrow> expr_mentions_param param operand"
| "expr_mentions_param param (Sp (Paren operand) _) \<longleftrightarrow> expr_mentions_param param operand"
| "expr_mentions_param param (Sp _ _) \<longleftrightarrow> False"

definition string_match_predicate ::
  "string \<Rightarrow> sexpr \<Rightarrow> sexpr \<Rightarrow> string_match_op \<Rightarrow> bool \<Rightarrow> predicate_expr option" where
  "string_match_predicate param base arg op negated =
     (case field_of_param param base of
        Some field \<Rightarrow>
          if \<not> expr_mentions_param param arg then Some (StringMatch field op arg negated) else None
      | None \<Rightarrow> None)"

definition recognize_call_predicate ::
  "string \<Rightarrow> sexpr \<Rightarrow> sexpr list \<Rightarrow> bool \<Rightarrow> predicate_expr option" where
  "recognize_call_predicate param callee args negated =
     (case (as_field_access (strip_parens callee), args) of
        (Some (base, m), [arg]) \<Rightarrow>
          (let base = strip_parens base; arg = strip_parens arg
           in if m = ''contains'' then
                (case field_of_param param arg of
                   Some field \<Rightarrow>
                     if \<not> expr_mentions_param param base then Some (InList field base negated)
                     else string_match_predicate param base arg Contains negated
                 | None \<Rightarrow> string_match_predicate param base arg Contains negated)
              else if m = ''startsWith'' then string_match_predicate param base arg StartsWith negated
              else if m = ''endsWith'' then string_match_predicate param base arg EndsWith negated
              else None)
      | _ \<Rightarrow> None)"

definition flip_comparison_operator :: "binary_op \<Rightarrow> binary_op" where
  "flip_comparison_operator op =
     (case op of OpLt \<Rightarrow> OpGt | OpLtEq \<Rightarrow> OpGtEq | OpGt \<Rightarrow> OpLt | OpGtEq \<Rightarrow> OpLtEq | other \<Rightarrow> other)"

definition is_relational :: "binary_op \<Rightarrow> bool" where
  "is_relational op \<longleftrightarrow> op \<in> set [OpLt, OpLtEq, OpGt, OpGtEq]"

definition is_equality :: "binary_op \<Rightarrow> bool" where
  "is_equality op \<longleftrightarrow> op \<in> set [OpEq, OpNotEq]"

text \<open>A call compared with a literal \<open>Bool\<close>, on either side.\<close>

definition call_compared :: "string \<Rightarrow> binary_op \<Rightarrow> sexpr \<Rightarrow> sexpr \<Rightarrow> predicate_expr option" where
  "call_compared param op call lit =
     (case (as_bool_lit lit, as_call call) of
        (Some b, Some (callee, args)) \<Rightarrow>
          recognize_call_predicate param callee args (if op = OpEq then \<not> b else b)
      | _ \<Rightarrow> None)"

definition recognize_comparison :: "string \<Rightarrow> binary_op \<Rightarrow> sexpr \<Rightarrow> sexpr \<Rightarrow> predicate_expr option" where
  "recognize_comparison param op left right =
     (case (if is_equality op then call_compared param op left right else None) of
        Some pred \<Rightarrow> Some pred
      | None \<Rightarrow>
     (case (if is_equality op then call_compared param op right left else None) of
        Some pred \<Rightarrow> Some pred
      | None \<Rightarrow>
     (case (field_of_param param left, field_of_param param right) of
        (Some lf, Some rf) \<Rightarrow>
          if is_relational op then Some (Leaf lf op (OperandField rf))
          else Some (Leaf lf op (OperandExpr right))
      | (Some field, None) \<Rightarrow> Some (Leaf field op (OperandExpr right))
      | (None, Some field) \<Rightarrow> Some (Leaf field (flip_comparison_operator op) (OperandExpr left))
      | (None, None) \<Rightarrow> None)))"

definition recognize_leaf :: "string \<Rightarrow> sexpr \<Rightarrow> predicate_expr option" where
  "recognize_leaf param e =
     map_option (\<lambda>field. Leaf field OpEq (OperandBool True)) (field_of_param param e)"

definition recognize_not :: "string \<Rightarrow> sexpr \<Rightarrow> predicate_expr option" where
  "recognize_not param operand =
     (let inner = strip_parens operand;
          otherwise = map_option (\<lambda>field. Leaf field OpEq (OperandBool False)) (field_of_param param inner)
      in case as_call inner of
           Some (callee, args) \<Rightarrow>
             (case recognize_call_predicate param callee args True of
                Some pred \<Rightarrow> Some pred
              | None \<Rightarrow> otherwise)
         | None \<Rightarrow> otherwise)"

lemma size_strip_parens: "size (strip_parens e) \<le> size e"
  by (induction e rule: strip_parens.induct) auto

lemma size_node: "size (node e) < size e"
  by (cases e) simp

lemma size_strip_node: "node (strip_parens e) = x \<Longrightarrow> size x < size e"
  using size_strip_parens [of e] size_node [of "strip_parens e"] by auto

function recognize_predicate_tree :: "string \<Rightarrow> sexpr \<Rightarrow> predicate_expr option" where
  "recognize_predicate_tree param e =
     (case node (strip_parens e) of
        Binary op left right \<Rightarrow>
          if op = OpAnd then
            (case recognize_predicate_tree param left of
               Some l \<Rightarrow> map_option (merge_and l) (recognize_predicate_tree param right)
             | None \<Rightarrow> None)
          else if op = OpOr then
            (case recognize_predicate_tree param left of
               Some l \<Rightarrow> map_option (merge_or l) (recognize_predicate_tree param right)
             | None \<Rightarrow> None)
          else if is_equality op \<or> is_relational op then
            recognize_comparison param op (strip_parens left) (strip_parens right)
          else recognize_leaf param (strip_parens e)
      | Unary op operand \<Rightarrow>
          if op = OpNot then recognize_not param operand
          else recognize_leaf param (strip_parens e)
      | Call callee args \<Rightarrow> recognize_call_predicate param callee args False
      | _ \<Rightarrow> recognize_leaf param (strip_parens e))"
  by pat_completeness auto

termination
  by (relation "measure (size \<circ> snd)") (auto dest!: size_strip_node)

definition recognize_predicate_expr :: "string list \<Rightarrow> block \<Rightarrow> predicate_expr option" where
  "recognize_predicate_expr param_names body =
     (case closure_tail param_names body of
        Some (param, e) \<Rightarrow> recognize_predicate_tree param e
      | None \<Rightarrow> None)"

declare recognize_predicate_tree.simps [simp del]

end
