(* ===== verification/Eval.thy ===== *)
theory Eval
  imports Values Recognizers
begin

text \<open>
  The evaluator of expressions (\<open>eval_expr\<close>, \<open>eval_binary\<close>, \<open>eval_unary\<close> of
  \<open>compiler/src/runtime/mod.rs\<close>) on literals, variables, fields, operators, lists, tuples and
  the calls of methods on strings and lists that predicates use. The other forms (blocks,
  matches, struct literals, transactions, calls of functions, the other methods, names that
  are not variables) and the arithmetic of floats are the fields of \<open>rest\<close>.
\<close>

record rest =
  rest_expr :: "env \<Rightarrow> sexpr \<Rightarrow> eval_error + val"
  rest_method :: "val \<Rightarrow> string \<Rightarrow> val list \<Rightarrow> eval_error + val"
  rest_call :: "val \<Rightarrow> val list \<Rightarrow> eval_error + val"
  rest_float :: "binary_op \<Rightarrow> f64 \<Rightarrow> f64 \<Rightarrow> f64"

section \<open>Operators\<close>

definition decimal_result :: "int option \<Rightarrow> eval_error + val" where
  "decimal_result d = (case d of Some n \<Rightarrow> Inr (VDecimal n) | None \<Rightarrow> Inl Overflow)"

text \<open>\<open>checked_add\<close> and its like on \<open>i64\<close>.\<close>

definition int_op :: "binary_op \<Rightarrow> int \<Rightarrow> int \<Rightarrow> eval_error + int" where
  "int_op op a b =
     (if op \<in> set [OpDiv, OpRem] \<and> b = 0 then Inl DivideByZero
      else let n = (if op = OpAdd then a + b else if op = OpSub then a - b
                    else if op = OpMul then a * b else if op = OpDiv then tdiv a b
                    else if in_i64 (tdiv a b) then trem a b else i64_max + 1)
           in if in_i64 n then Inr n else Inl Overflow)"

definition checked_int_numeric_op :: "rest \<Rightarrow> binary_op \<Rightarrow> val \<Rightarrow> val \<Rightarrow> eval_error + val" where
  "checked_int_numeric_op x op l r =
     (case l of
        VInt a \<Rightarrow> (case r of VInt b \<Rightarrow> rbind (int_op op a b) (\<lambda>n. Inr (VInt n)) | _ \<Rightarrow> Inl NotArithmetic)
      | VInt64 a \<Rightarrow> (case r of VInt64 b \<Rightarrow> rbind (int_op op a b) (\<lambda>n. Inr (VInt64 n)) | _ \<Rightarrow> Inl NotArithmetic)
      | VFloat a \<Rightarrow> (case r of VFloat b \<Rightarrow> Inr (VFloat (rest_float x op a b)) | _ \<Rightarrow> Inl NotArithmetic)
      | _ \<Rightarrow> Inl NotArithmetic)"

text \<open>Decimals take all but the remainder, strings and lists take the sum.\<close>

definition arithmetic :: "rest \<Rightarrow> binary_op \<Rightarrow> val \<Rightarrow> val \<Rightarrow> eval_error + val" where
  "arithmetic x op l r =
     (let other = checked_int_numeric_op x op l r
      in case l of
           VStr a \<Rightarrow> (case r of VStr b \<Rightarrow> if op = OpAdd then Inr (VStr (a @ b)) else other | _ \<Rightarrow> other)
         | VList a \<Rightarrow> (case r of VList b \<Rightarrow> if op = OpAdd then Inr (VList (a @ b)) else other | _ \<Rightarrow> other)
         | VDecimal a \<Rightarrow>
             (case r of
                VDecimal b \<Rightarrow>
                  if op = OpAdd then decimal_result (decimal_add a b)
                  else if op = OpSub then decimal_result (decimal_sub a b)
                  else if op = OpMul then decimal_result (decimal_mul a b)
                  else if op = OpDiv then
                    (if b = 0 then Inl DivideByZero else decimal_result (decimal_div a b))
                  else other
              | _ \<Rightarrow> other)
         | _ \<Rightarrow> other)"

definition binary_value :: "rest \<Rightarrow> binary_op \<Rightarrow> val \<Rightarrow> val \<Rightarrow> eval_error + val" where
  "binary_value x op l r =
     (if op = OpEq then Inr (VBool (val_eq l r))
      else if op = OpNotEq then Inr (VBool (\<not> val_eq l r))
      else if op = OpLt then compare l r (\<lambda>ord. ord = Less)
      else if op = OpLtEq then compare l r (\<lambda>ord. ord \<noteq> Greater)
      else if op = OpGt then compare l r (\<lambda>ord. ord = Greater)
      else if op = OpGtEq then compare l r (\<lambda>ord. ord \<noteq> Less)
      else arithmetic x op l r)"

definition f64_neg :: "f64 \<Rightarrow> f64" where
  "f64_neg v = v + 2 ^ 63" \<comment> \<open>flips the highest bit\<close>

definition unary_value :: "unary_op \<Rightarrow> val \<Rightarrow> eval_error + val" where
  "unary_value op v =
     (case op of
        OpNeg \<Rightarrow>
          (case v of
             VInt n \<Rightarrow> if in_i64 (- n) then Inr (VInt (- n)) else Inl Overflow
           | VInt64 n \<Rightarrow> if in_i64 (- n) then Inr (VInt64 (- n)) else Inl Overflow
           | VDecimal n \<Rightarrow> decimal_result (checked (- n))
           | VFloat n \<Rightarrow> Inr (VFloat (f64_neg n))
           | _ \<Rightarrow> Inl NotArithmetic)
      | OpNot \<Rightarrow> rbind (as_bool v) (\<lambda>b. Inr (VBool (\<not> b))))"

section \<open>Methods\<close>

fun contains_text :: "string \<Rightarrow> string \<Rightarrow> bool" where
  "contains_text needle [] \<longleftrightarrow> needle = []"
| "contains_text needle (c # s) \<longleftrightarrow> strip_prefix needle (c # s) \<noteq> None \<or> contains_text needle s"

definition string_match :: "string_match_op \<Rightarrow> string \<Rightarrow> string \<Rightarrow> bool" where
  "string_match op s needle \<longleftrightarrow>
     (case op of
        Contains \<Rightarrow> contains_text needle s
      | StartsWith \<Rightarrow> strip_prefix needle s \<noteq> None
      | EndsWith \<Rightarrow> strip_suffix needle s \<noteq> None)"

definition string_match_of :: "string \<Rightarrow> string_match_op option" where
  "string_match_of m =
     (if m = ''contains'' then Some Contains else if m = ''startsWith'' then Some StartsWith
      else if m = ''endsWith'' then Some EndsWith else None)"

definition call_method :: "rest \<Rightarrow> val \<Rightarrow> string \<Rightarrow> val list \<Rightarrow> eval_error + val" where
  "call_method x receiver m args =
     (let other = rest_method x receiver m args
      in case receiver of
           VStr s \<Rightarrow>
             (case string_match_of m of
                Some op \<Rightarrow>
                  (case args of
                     VStr needle # _ \<Rightarrow> Inr (VBool (string_match op s needle))
                   | _ \<Rightarrow> Inl (BadArgument m))
              | None \<Rightarrow> other)
         | VList vs \<Rightarrow>
             if m = ''contains'' then
               (case args of
                  [] \<Rightarrow> Inl (BadArgument m)
                | wanted # _ \<Rightarrow> Inr (VBool (list_ex (\<lambda>v. val_eq v wanted) vs)))
             else other
         | _ \<Rightarrow> other)"

definition field_value :: "string \<Rightarrow> (string \<times> val) list \<Rightarrow> val" where
  "field_value field fs = (case map_of fs field of Some v \<Rightarrow> v | None \<Rightarrow> VNull)"

definition access_field :: "val \<Rightarrow> string \<Rightarrow> eval_error + val" where
  "access_field base field =
     (case base of
        VStruct fs \<Rightarrow> Inr (field_value field fs)
      | VVariant _ _ fs \<Rightarrow> Inr (field_value field fs)
      | VMarker MDb \<Rightarrow> Inr (VDbCollection field)
      | v \<Rightarrow> if supports_bound_method_access v then Inr (VBoundMethod v field) else Inl (NoField field))"

text \<open>Method names that \<open>eval_expr\<close> intercepts before it evaluates the callee.\<close>

definition intercepted :: "string list" where
  "intercepted = [''isSome'', ''isNone'', ''get'', ''set'', ''has'', ''remove'', ''keys'', ''values'',
     ''entries'', ''vacuum'', ''tableStats'', ''query'', ''execute'']"

definition index_value :: "val \<Rightarrow> int \<Rightarrow> eval_error + val" where
  "index_value base i =
     (case base of
        VList vs \<Rightarrow> if i < 0 \<or> length vs \<le> nat i then Inl BadIndex else Inr (vs ! nat i)
      | _ \<Rightarrow> Inl NotIndexable)"

definition tuple_index_value :: "val \<Rightarrow> nat \<Rightarrow> eval_error + val" where
  "tuple_index_value base i =
     (case base of
        VTuple vs \<Rightarrow> if i < length vs then Inr (vs ! i) else Inl BadIndex
      | _ \<Rightarrow> Inl NotIndexable)"

section \<open>Evaluation\<close>

text \<open>A name that is no variable may be a module, a constant, a function or an enum.\<close>

definition free_ident :: "env \<Rightarrow> sexpr \<Rightarrow> bool" where
  "free_ident env e \<longleftrightarrow> (case as_ident e of Some n \<Rightarrow> map_of env n = None | None \<Rightarrow> False)"

definition intercepted_callee :: "sexpr \<Rightarrow> bool" where
  "intercepted_callee callee \<longleftrightarrow>
     (case as_field_access callee of Some (_, field) \<Rightarrow> field \<in> set intercepted | None \<Rightarrow> False)"

fun eval :: "rest \<Rightarrow> env \<Rightarrow> sexpr \<Rightarrow> eval_error + val"
  and eval_list :: "rest \<Rightarrow> env \<Rightarrow> sexpr list \<Rightarrow> eval_error + val list" where
  "eval x env (Sp (IntLit n) _) = Inr (VInt n)"
| "eval x env (Sp (FloatLit f) _) = Inr (VFloat f)"
| "eval x env (Sp (Str t) _) = Inr (VStr t)"
| "eval x env (Sp (BoolLit b) _) = Inr (VBool b)"
| "eval x env (Sp NullLit _) = Inr VNull"
| "eval x env (Sp (Paren inner) _) = eval x env inner"
| "eval x env (Sp (Ident n) s) =
     (case map_of env n of Some v \<Rightarrow> Inr v | None \<Rightarrow> rest_expr x env (Sp (Ident n) s))"
| "eval x env (Sp (FieldAccess base field) s) =
     (if free_ident env base then rest_expr x env (Sp (FieldAccess base field) s)
      else rbind (eval x env base) (\<lambda>v. access_field v field))"
| "eval x env (Sp (Call callee args) s) =
     (if free_ident env callee \<or> intercepted_callee callee
      then rest_expr x env (Sp (Call callee args) s)
      else rbind (eval x env callee) (\<lambda>f.
           rbind (eval_list x env args) (\<lambda>vs.
             case f of VBoundMethod receiver m \<Rightarrow> call_method x receiver m vs | _ \<Rightarrow> rest_call x f vs)))"
| "eval x env (Sp (Binary op left right) _) =
     (if op = OpAnd \<or> op = OpOr then
        rbind (eval x env left) (\<lambda>v. rbind (as_bool v) (\<lambda>l.
          if (op = OpAnd) \<noteq> l then Inr (VBool l)
          else rbind (eval x env right) (\<lambda>w. rbind (as_bool w) (\<lambda>r. Inr (VBool r)))))
      else if op = OpCoalesce then
        rbind (eval x env left) (\<lambda>v. if v = VNull then eval x env right else Inr v)
      else rbind (eval x env left) (\<lambda>l. rbind (eval x env right) (\<lambda>r. binary_value x op l r)))"
| "eval x env (Sp (Unary op operand) _) = rbind (eval x env operand) (unary_value op)"
| "eval x env (Sp (ArrayLit es) _) = rbind (eval_list x env es) (\<lambda>vs. Inr (VList vs))"
| "eval x env (Sp (TupleLit es) _) = rbind (eval_list x env es) (\<lambda>vs. Inr (VTuple vs))"
| "eval x env (Sp (Index base index) _) =
     rbind (eval x env base) (\<lambda>v. rbind (eval x env index) (\<lambda>i. rbind (as_int i) (index_value v)))"
| "eval x env (Sp (TupleIndex base i) _) = rbind (eval x env base) (\<lambda>v. tuple_index_value v i)"
| "eval x env e = rest_expr x env e"
| "eval_list x env [] = Inr []"
| "eval_list x env (e # es) =
     rbind (eval x env e) (\<lambda>v. rbind (eval_list x env es) (\<lambda>vs. Inr (v # vs)))"

text \<open>A closure of one parameter on a value: the parameter shadows the captured variables.\<close>

definition call_closure :: "rest \<Rightarrow> string \<Rightarrow> sexpr \<Rightarrow> env \<Rightarrow> val \<Rightarrow> eval_error + val" where
  "call_closure x param e captured v = eval x ((param, v) # captured) e"

lemma eval_strip_parens: "eval x env (strip_parens e) = eval x env e"
  by (induction e rule: strip_parens.induct) simp_all

end
