(* ===== verification/Conditions.thy ===== *)
theory Conditions
  imports Eval
begin

text \<open>
  The predicates that \<open>findWhere\<close>, \<open>countWhere\<close>, \<open>deleteWhere\<close> and \<open>upsert\<close> hand to the
  database: the tree that \<open>recognize_pushable_predicate\<close> of
  \<open>compiler/src/runtime/mod.rs\<close> evaluates against the captured variables, what it means on a
  row, and the proof that the interpreter, where it answers, answers the same.
\<close>

section \<open>Evaluated predicates\<close>

datatype condition_expr =
    CLeaf string binary_op val
  | CFieldPair string binary_op string
  | CInList string "val list" bool
  | CStringMatch string string_match_op string bool
  | CAnd "condition_expr list"
  | COr "condition_expr list"

fun eval_simple_expr :: "env \<Rightarrow> sexpr \<Rightarrow> val option"
  and eval_simple_list :: "env \<Rightarrow> sexpr list \<Rightarrow> val list option" where
  "eval_simple_expr env (Sp (IntLit n) _) = Some (VInt n)"
| "eval_simple_expr env (Sp (FloatLit f) _) = Some (VFloat f)"
| "eval_simple_expr env (Sp (Str t) _) = Some (VStr t)"
| "eval_simple_expr env (Sp (BoolLit b) _) = Some (VBool b)"
| "eval_simple_expr env (Sp (Ident n) _) = map_of env n"
| "eval_simple_expr env (Sp (ArrayLit es) _) = map_option VList (eval_simple_list env es)"
| "eval_simple_expr env (Sp (Paren inner) _) = eval_simple_expr env inner"
| "eval_simple_expr env (Sp _ _) = None"
| "eval_simple_list env [] = Some []"
| "eval_simple_list env (e # es) =
     (case eval_simple_expr env e of
        Some v \<Rightarrow> map_option ((#) v) (eval_simple_list env es)
      | None \<Rightarrow> None)"

fun evaluate_predicate_tree :: "env \<Rightarrow> predicate_expr \<Rightarrow> condition_expr option" where
  "evaluate_predicate_tree env (Leaf field op operand) =
     (case operand of
        OperandField other \<Rightarrow> Some (CFieldPair field op other)
      | OperandBool b \<Rightarrow> Some (CLeaf field op (VBool b))
      | OperandExpr e \<Rightarrow> map_option (CLeaf field op) (eval_simple_expr env e))"
| "evaluate_predicate_tree env (InList field e negated) =
     (case eval_simple_expr env e of
        Some (VList vs) \<Rightarrow> Some (CInList field vs negated)
      | _ \<Rightarrow> None)"
| "evaluate_predicate_tree env (StringMatch field op e negated) =
     (case eval_simple_expr env e of
        Some (VStr p) \<Rightarrow> Some (CStringMatch field op p negated)
      | _ \<Rightarrow> None)"
| "evaluate_predicate_tree env (PAnd ps) =
     map_option CAnd (those (map (evaluate_predicate_tree env) ps))"
| "evaluate_predicate_tree env (POr ps) =
     map_option COr (those (map (evaluate_predicate_tree env) ps))"

definition recognize_pushable_predicate :: "val \<Rightarrow> condition_expr option" where
  "recognize_pushable_predicate f =
     (case f of
        VClosure param_names body captured \<Rightarrow>
          Option.bind (recognize_predicate_expr param_names body) (evaluate_predicate_tree captured)
      | _ \<Rightarrow> None)"

section \<open>What a condition means on a row\<close>

text \<open>The row is given by the value of each field.\<close>

definition accepts :: "binary_op \<Rightarrow> ordering \<Rightarrow> bool" where
  "accepts op ord =
     (if op = OpLt then ord = Less else if op = OpLtEq then ord \<noteq> Greater
      else if op = OpGt then ord = Greater else ord \<noteq> Less)"

definition compares :: "binary_op \<Rightarrow> val \<Rightarrow> val \<Rightarrow> bool" where
  "compares op l r =
     (if op = OpEq then val_eq l r
      else if op = OpNotEq then \<not> val_eq l r
      else (case value_ordering l r of Inr ord \<Rightarrow> accepts op ord | Inl _ \<Rightarrow> False))"

fun cond_true :: "(string \<Rightarrow> val) \<Rightarrow> condition_expr \<Rightarrow> bool" where
  "cond_true fv (CLeaf field op v) = compares op (fv field) v"
| "cond_true fv (CFieldPair field op other) = compares op (fv field) (fv other)"
| "cond_true fv (CInList field vs negated) =
     (list_ex (\<lambda>v. val_eq v (fv field)) vs \<noteq> negated)"
| "cond_true fv (CStringMatch field op p negated) =
     (case fv field of VStr s \<Rightarrow> string_match op s p \<noteq> negated | _ \<Rightarrow> False)"
| "cond_true fv (CAnd cs) = list_all (cond_true fv) cs"
| "cond_true fv (COr cs) = list_ex (cond_true fv) cs"

text \<open>Text is matched on strings only; a field without a value makes the interpreter fail.\<close>

fun matches_strings :: "(string \<Rightarrow> val) \<Rightarrow> condition_expr \<Rightarrow> bool" where
  "matches_strings fv (CStringMatch field _ _ _) = (case fv field of VStr _ \<Rightarrow> True | VNull \<Rightarrow> True | _ \<Rightarrow> False)"
| "matches_strings fv (CAnd cs) = list_all (matches_strings fv) cs"
| "matches_strings fv (COr cs) = list_all (matches_strings fv) cs"
| "matches_strings fv _ = True"

section \<open>Equality and order are symmetric\<close>

lemma f32_eq_sym: "f32_eq a b = f32_eq b a"
  by (auto simp: f32_eq_def)

lemma list_f32_eq_sym: "list_all2 f32_eq a b = list_all2 f32_eq b a"
  by (metis f32_eq_sym list_all2_conv_all_nth)

lemma val_eq_closure [simp]: "\<not> val_eq w (VClosure ps b env)"
  by (cases w) simp_all

lemma vals_eq_Nil [simp]: "vals_eq ws [] \<longleftrightarrow> ws = []"
  by (cases ws) simp_all

lemma fields_eq_Nil [simp]: "fields_eq gs [] \<longleftrightarrow> gs = []"
  by (cases gs) auto

lemma val_eq_sym:
  "val_eq v w = val_eq w v" "vals_eq vs ws = vals_eq ws vs" "fields_eq fs gs = fields_eq gs fs"
proof (induction v w and vs ws and fs gs rule: val_eq_vals_eq_fields_eq.induct)
qed (auto split: val.splits list.splits simp: f64_eq_sym list_f32_eq_sym)

definition swap :: "ordering \<Rightarrow> ordering" where
  "swap ord = (case ord of Less \<Rightarrow> Greater | Equal \<Rightarrow> Equal | Greater \<Rightarrow> Less)"

lemma value_ordering_swap:
  "value_ordering r l = rbind (value_ordering l r) (\<lambda>ord. Inr (swap ord))"
  by (cases l; cases r)
    (auto simp: value_ordering_def f64_partial_cmp_def cmp_int_def swap_def)

lemma accepts_flip:
  "is_relational op \<Longrightarrow> accepts (flip_comparison_operator op) (swap ord) = accepts op ord"
  by (cases ord) (auto simp: accepts_def swap_def is_relational_def flip_comparison_operator_def)

lemma compares_flip:
  assumes "is_equality op \<or> is_relational op"
  shows "compares (flip_comparison_operator op) r l = compares op l r"
proof (cases "is_equality op")
  case True
  then show ?thesis
    by (auto simp: is_equality_def flip_comparison_operator_def compares_def val_eq_sym)
next
  case False
  with assms have op: "is_relational op" by simp
  then have ne: "op \<noteq> OpEq" "op \<noteq> OpNotEq" "flip_comparison_operator op \<noteq> OpEq"
    "flip_comparison_operator op \<noteq> OpNotEq"
    by (auto simp: is_relational_def flip_comparison_operator_def)
  with accepts_flip [OF op] show ?thesis
    by (cases "value_ordering l r") (simp_all add: compares_def value_ordering_swap [of r l])
qed

section \<open>The interpreter agrees\<close>

lemma binary_value_compares:
  assumes "is_equality op \<or> is_relational op" and "binary_value x op l r = Inr (VBool b)"
  shows "b = compares op l r"
  using assms
  by (auto simp: binary_value_def compares_def compare_def is_equality_def is_relational_def
      accepts_def results)

lemma eval_simple_sound:
  "eval_simple_expr env e = Some v \<Longrightarrow> map_of env p = None \<Longrightarrow> eval x ((p, w) # env) e = Inr v"
  "eval_simple_list env es = Some vs \<Longrightarrow> map_of env p = None \<Longrightarrow>
     eval_list x ((p, w) # env) es = Inr vs"
  by (induction env e and env es arbitrary: v and vs rule: eval_simple_expr_eval_simple_list.induct)
    (auto split: option.splits)

lemma eval_simple_not_free:
  assumes "eval_simple_expr env e = Some v" "map_of env p = None"
  shows "\<not> free_ident ((p, w) # env) e"
  using assms by (cases "(env, e)" rule: eval_simple_expr.cases)
    (auto simp: free_ident_def as_ident_def)

lemma field_of_param_form:
  assumes "field_of_param p e = Some f"
  obtains s t where "e = Sp (FieldAccess (Sp (Ident p) s) f) t"
  using assms
  by (cases e; cases "node e"; simp add: field_of_param_def as_field_access_def is_ident_def
      as_ident_def split: if_splits expr.splits)
    (metis sexpr.exhaust_sel)

lemma eval_param_field:
  assumes "field_of_param p e = Some f"
  shows "eval x ((p, VStruct fs) # env) e = Inr (field_value f fs)"
  using assms
  by (elim field_of_param_form) (simp add: free_ident_def as_ident_def access_field_def)


lemma those_append:
  "those (xs @ ys) = (case those xs of None \<Rightarrow> None | Some us \<Rightarrow> map_option ((@) us) (those ys))"
  by (cases "those ys"; induction xs) (auto split: option.splits)

lemma evaluate_and_items:
  assumes "those (map (evaluate_predicate_tree env) (and_items t)) = Some cs"
  obtains c where "evaluate_predicate_tree env t = Some c"
    "list_all (cond_true fv) cs = cond_true fv c"
    "list_all (matches_strings fv) cs = matches_strings fv c"
  using assms by (cases t) (auto split: option.splits)

lemma evaluate_or_items:
  assumes "those (map (evaluate_predicate_tree env) (or_items t)) = Some cs"
  obtains c where "evaluate_predicate_tree env t = Some c"
    "list_ex (cond_true fv) cs = cond_true fv c"
    "list_all (matches_strings fv) cs = matches_strings fv c"
  using assms by (cases t) (auto split: option.splits)

lemma evaluate_merge_and:
  assumes "evaluate_predicate_tree env (merge_and t u) = Some c"
  obtains c1 c2 where "evaluate_predicate_tree env t = Some c1" "evaluate_predicate_tree env u = Some c2"
    "cond_true fv c = (cond_true fv c1 \<and> cond_true fv c2)"
    "matches_strings fv c = (matches_strings fv c1 \<and> matches_strings fv c2)"
proof -
  from assms obtain cs ds where
    cs: "those (map (evaluate_predicate_tree env) (and_items t)) = Some cs" and
    ds: "those (map (evaluate_predicate_tree env) (and_items u)) = Some ds" and
    c: "c = CAnd (cs @ ds)"
    by (auto simp: merge_and_def those_append split: option.splits)
  from cs ds show thesis
    by (elim evaluate_and_items [of _ _ _ fv]) (rule that, auto simp: c)
qed

lemma evaluate_merge_or:
  assumes "evaluate_predicate_tree env (merge_or t u) = Some c"
  obtains c1 c2 where "evaluate_predicate_tree env t = Some c1" "evaluate_predicate_tree env u = Some c2"
    "cond_true fv c = (cond_true fv c1 \<or> cond_true fv c2)"
    "matches_strings fv c = (matches_strings fv c1 \<and> matches_strings fv c2)"
proof -
  from assms obtain cs ds where
    cs: "those (map (evaluate_predicate_tree env) (or_items t)) = Some cs" and
    ds: "those (map (evaluate_predicate_tree env) (or_items u)) = Some ds" and
    c: "c = COr (cs @ ds)"
    by (auto simp: merge_or_def those_append split: option.splits)
  from cs ds show thesis
    by (elim evaluate_or_items [of _ _ _ fv]) (rule that, auto simp: c)
qed

lemma eval_member:
  assumes "eval x env (strip_parens base) = Inr v" "\<not> free_ident env (strip_parens base)"
    "supports_bound_method_access v" "m \<notin> set intercepted" "v \<noteq> VMarker MDb"
    "strip_parens callee = Sp (FieldAccess base m) s"
  shows "eval x env (Sp (Call callee args) t) =
     rbind (eval_list x env args) (call_method x v m)"
proof -
  have base: "\<not> free_ident env base" "eval x env base = Inr v"
    using assms(1,2) by (cases base rule: strip_parens.cases; simp add: free_ident_def as_ident_def eval_strip_parens)+
  have "access_field v m = Inr (VBoundMethod v m)"
    using assms(3,5) by (cases v) (auto simp: access_field_def supports_bound_method_access_def split: marker.splits)
  with base have callee: "eval x env callee = Inr (VBoundMethod v m)"
    using eval_strip_parens [of x env callee] by (simp add: assms(6))
  have "\<not> free_ident env callee" "\<not> intercepted_callee callee"
    using assms(4,6) by (cases callee rule: strip_parens.cases;
      auto simp: free_ident_def as_ident_def intercepted_callee_def as_field_access_def)+
  with callee show ?thesis by simp
qed

lemma not_free_field_of_param:
  "field_of_param p e = Some f \<Longrightarrow> \<not> free_ident env e"
  by (elim field_of_param_form) (simp add: free_ident_def as_ident_def)

lemma in_list_sound:
  assumes base: "eval_simple_expr env (strip_parens base) = Some (VList vs)" and fresh: "map_of env p = None"
    and arg: "field_of_param p (strip_parens arg) = Some f"
    and callee: "strip_parens callee = Sp (FieldAccess base ''contains'') s"
  shows "eval x ((p, VStruct fs) # env) (Sp (Call callee [arg]) t) =
     Inr (VBool (list_ex (\<lambda>v. val_eq v (field_value f fs)) vs))"
proof -
  let ?env = "(p, VStruct fs) # env"
  have "eval x ?env arg = Inr (field_value f fs)"
    using eval_param_field [OF arg] by (simp add: eval_strip_parens)
  moreover have "eval x ?env (Sp (Call callee [arg]) t) =
      rbind (eval_list x ?env [arg]) (call_method x (VList vs) ''contains'')"
    by (rule eval_member [OF _ _ _ _ _ callee])
      (simp_all add: eval_simple_sound(1) [OF base fresh] eval_simple_not_free [OF base fresh]
        supports_bound_method_access_def intercepted_def)
  ultimately show ?thesis by (simp add: call_method_def)
qed

lemma string_match_sound:
  assumes base: "field_of_param p (strip_parens base) = Some f"
    and arg: "eval_simple_expr env (strip_parens arg) = Some (VStr pat)" and fresh: "map_of env p = None"
    and callee: "strip_parens callee = Sp (FieldAccess base m) s" and m: "string_match_of m = Some op"
    and str: "field_value f fs = VStr u"
  shows "eval x ((p, VStruct fs) # env) (Sp (Call callee [arg]) t) = Inr (VBool (string_match op u pat))"
proof -
  let ?env = "(p, VStruct fs) # env"
  have "eval x ?env arg = Inr (VStr pat)"
    using eval_simple_sound(1) [OF arg fresh] by (simp add: eval_strip_parens)
  moreover have "m \<notin> set intercepted"
    using m by (auto simp: string_match_of_def intercepted_def split: if_splits)
  then have "eval x ?env (Sp (Call callee [arg]) t) =
      rbind (eval_list x ?env [arg]) (call_method x (VStr u) m)"
    by (intro eval_member [OF _ _ _ _ _ callee])
      (simp_all add: eval_param_field [OF base] not_free_field_of_param [OF base] str
        supports_bound_method_access_def)
  ultimately show ?thesis by (simp add: call_method_def m)
qed

lemma string_match_null:
  assumes base: "field_of_param p (strip_parens base) = Some f"
    and callee: "strip_parens callee = Sp (FieldAccess base m) s" and m: "string_match_of m = Some op"
    and null: "field_value f fs = VNull"
  shows "eval x ((p, VStruct fs) # env) (Sp (Call callee args) t) = Inl (NoField m)"
proof -
  let ?env = "(p, VStruct fs) # env"
  have m: "m \<notin> set intercepted"
    using m by (auto simp: string_match_of_def intercepted_def split: if_splits)
  have base': "eval x ?env base = Inr VNull" "\<not> free_ident ?env base"
    using eval_param_field [OF base, of x fs env] not_free_field_of_param [OF base, of ?env] null
    by (cases base rule: strip_parens.cases; simp add: free_ident_def as_ident_def eval_strip_parens)+
  then have "eval x ?env callee = Inl (NoField m)"
    using eval_strip_parens [of x ?env callee]
    by (simp add: callee access_field_def supports_bound_method_access_def)
  moreover have "\<not> free_ident ?env callee" "\<not> intercepted_callee callee"
    using m callee by (cases callee rule: strip_parens.cases;
      auto simp: free_ident_def as_ident_def intercepted_callee_def as_field_access_def)+
  ultimately show ?thesis by simp
qed

lemma recognize_call_predicate_form:
  assumes "recognize_call_predicate p callee args negated = Some t"
  obtains
    (in_list) base s arg f where "strip_parens callee = Sp (FieldAccess base ''contains'') s"
      "args = [arg]" "field_of_param p (strip_parens arg) = Some f"
      "t = InList f (strip_parens base) negated"
  | (string_match) base m s arg f op where "strip_parens callee = Sp (FieldAccess base m) s"
      "args = [arg]" "field_of_param p (strip_parens base) = Some f"
      "t = StringMatch f op (strip_parens arg) negated" "string_match_of m = Some op"
proof -
  from assms obtain base m arg s where callee: "strip_parens callee = Sp (FieldAccess base m) s"
    and args: "args = [arg]"
    by (cases "strip_parens callee"; cases "node (strip_parens callee)")
      (auto simp: recognize_call_predicate_def as_field_access_def split: list.splits)
  show thesis
    using assms
    by (auto simp: callee args recognize_call_predicate_def as_field_access_def Let_def
        string_match_predicate_def string_match_of_def
        intro: in_list string_match split: if_splits option.splits)
qed

lemma call_predicate_sound:
  assumes rec: "recognize_call_predicate p callee args negated = Some t"
    and ev: "evaluate_predicate_tree env t = Some c" and fresh: "map_of env p = None"
    and strings: "matches_strings (\<lambda>f. field_value f fs) c"
    and run: "eval x ((p, VStruct fs) # env) (Sp (Call callee args) s) = Inr v"
  shows "v = VBool (cond_true (\<lambda>f. field_value f fs) c \<noteq> negated)"
  using rec
proof (cases rule: recognize_call_predicate_form)
  case (in_list base s' arg f)
  then obtain vs where vs: "eval_simple_expr env (strip_parens base) = Some (VList vs)"
    and c: "c = CInList f vs negated"
    using ev by (auto split: option.splits val.splits)
  show ?thesis
    using run in_list_sound [OF vs fresh in_list(3,1)] by (auto simp: c in_list(2))
next
  case (string_match base m s' arg f op)
  then obtain pat where pat: "eval_simple_expr env (strip_parens arg) = Some (VStr pat)"
    and c: "c = CStringMatch f op pat negated"
    using ev by (auto split: option.splits val.splits)
  from strings c consider u where "field_value f fs = VStr u" | "field_value f fs = VNull"
    by (auto split: val.splits)
  then show ?thesis
  proof cases
    case 1
    with run string_match_sound [OF string_match(3) pat fresh string_match(1,5) 1] show ?thesis
      by (auto simp: c string_match(2))
  next
    case 2
    with run string_match_null [OF string_match(3,1,5) 2] show ?thesis by simp
  qed
qed

lemma call_compared_sound:
  assumes rec: "call_compared p op call lit = Some t" and op: "is_equality op"
    and ev: "evaluate_predicate_tree env t = Some c" and fresh: "map_of env p = None"
    and strings: "matches_strings (\<lambda>f. field_value f fs) c"
    and call: "eval x ((p, VStruct fs) # env) call = Inr v"
    and lit: "eval x ((p, VStruct fs) # env) lit = Inr w"
  shows "compares op v w = cond_true (\<lambda>f. field_value f fs) c"
proof -
  from rec obtain b callee args s s' where call_eq: "call = Sp (Call callee args) s"
    and lit_eq: "lit = Sp (BoolLit b) s'"
    and t: "recognize_call_predicate p callee args (if op = OpEq then \<not> b else b) = Some t"
    by (cases call; cases lit) (auto simp: call_compared_def as_bool_lit_def as_call_def
        split: option.splits expr.splits prod.splits)
  have "w = VBool b" using lit by (simp add: lit_eq)
  then show ?thesis
    using call_predicate_sound [OF t ev fresh strings call [unfolded call_eq]] op
    by (auto simp: compares_def is_equality_def)
qed

lemma comparison_sound:
  assumes rec: "recognize_comparison p op left right = Some t"
    and op: "is_equality op \<or> is_relational op"
    and ev: "evaluate_predicate_tree env t = Some c" and fresh: "map_of env p = None"
    and strings: "matches_strings (\<lambda>f. field_value f fs) c"
    and left: "eval x ((p, VStruct fs) # env) left = Inr v"
    and right: "eval x ((p, VStruct fs) # env) right = Inr w"
  shows "compares op v w = cond_true (\<lambda>f. field_value f fs) c"
proof -
  let ?fv = "\<lambda>f. field_value f fs"
  note field = eval_param_field [of p _ _ x fs env]
  from rec consider
      (l) "is_equality op" "call_compared p op left right = Some t"
    | (r) "is_equality op" "call_compared p op right left = Some t"
    | (pair) lf rf where "field_of_param p left = Some lf" "field_of_param p right = Some rf"
        "t = Leaf lf op (OperandField rf)"
    | (field) f where "field_of_param p left = Some f" "t = Leaf f op (OperandExpr right)"
    | (flipped) f where "field_of_param p right = Some f"
        "t = Leaf f (flip_comparison_operator op) (OperandExpr left)"
    by (auto simp: recognize_comparison_def split: option.splits if_splits)
  then show ?thesis
  proof cases
    case l
    show ?thesis by (rule call_compared_sound [OF l(2,1) ev fresh strings left right])
  next
    case r
    have "compares op v w = compares op w v" using r(1) by (auto simp: compares_def is_equality_def val_eq_sym)
    then show ?thesis by (simp add: call_compared_sound [OF r(2,1) ev fresh strings right left])
  next
    case pair
    then show ?thesis using ev left right field [OF pair(1)] field [OF pair(2)] by auto
  next
    case (field f)
    then obtain u where u: "eval_simple_expr env right = Some u" and c: "c = CLeaf f op u"
      using ev by auto
    have "w = u" using right eval_simple_sound(1) [OF u fresh] by simp
    then show ?thesis using left field eval_param_field [OF field(1)] by (simp add: c)
  next
    case (flipped f)
    then obtain u where u: "eval_simple_expr env left = Some u"
      and c: "c = CLeaf f (flip_comparison_operator op) u"
      using ev by auto
    have "v = u" using left eval_simple_sound(1) [OF u fresh] by simp
    then show ?thesis using right eval_param_field [OF flipped(1)] compares_flip [OF op] by (simp add: c)
  qed
qed

lemma bool_leaf_sound:
  assumes "field_of_param p e = Some f" and "eval x ((p, VStruct fs) # env) e = Inr (VBool b)"
  shows "compares OpEq (field_value f fs) (VBool d) = (b = d)"
  using assms(2) eval_param_field [OF assms(1), of x fs env] by (simp add: compares_def)

lemma not_sound:
  assumes rec: "recognize_not p operand = Some t"
    and ev: "evaluate_predicate_tree env t = Some c" and fresh: "map_of env p = None"
    and strings: "matches_strings (\<lambda>f. field_value f fs) c"
    and run: "eval x ((p, VStruct fs) # env) operand = Inr (VBool b)"
  shows "cond_true (\<lambda>f. field_value f fs) c = (\<not> b)"
proof -
  have inner: "eval x ((p, VStruct fs) # env) (strip_parens operand) = Inr (VBool b)"
    using run by (simp add: eval_strip_parens)
  from rec consider
      (call) callee args s where "strip_parens operand = Sp (Call callee args) s"
        "recognize_call_predicate p callee args True = Some t"
    | (field) f where "field_of_param p (strip_parens operand) = Some f"
        "t = Leaf f OpEq (OperandBool False)"
    by (cases "strip_parens operand"; cases "node (strip_parens operand)")
      (auto simp: recognize_not_def as_call_def field_of_param_def as_field_access_def
        split: option.splits)
  then show ?thesis
  proof cases
    case call
    then show ?thesis
      using call_predicate_sound [OF call(2) ev fresh strings inner [unfolded call(1)]] by simp
  next
    case field
    then have "c = CLeaf f OpEq (VBool False)" using ev by simp
    then show ?thesis by (simp add: bool_leaf_sound [OF field(1) inner, where d = False])
  qed
qed

text \<open>
  Where the closure answers, the condition means the answer. Both sides of a conjunction are
  covered although the interpreter runs the second only if the first holds.
\<close>

lemma recognize_tree_sound:
  assumes "recognize_predicate_tree p e = Some t" and "evaluate_predicate_tree env t = Some c"
    and "map_of env p = None" and "matches_strings (\<lambda>f. field_value f fs) c"
    and "eval x ((p, VStruct fs) # env) e = Inr (VBool b)"
  shows "cond_true (\<lambda>f. field_value f fs) c = b"
  using assms
proof (induction p e arbitrary: t c b rule: recognize_predicate_tree.induct)
  case (1 p e)
  let ?fv = "\<lambda>f. field_value f fs" and ?env = "(p, VStruct fs) # env"
  note rec = "1.prems"(1) [unfolded recognize_predicate_tree.simps [of p e]]
  note ev = "1.prems"(2) and fresh = "1.prems"(3) and strings = "1.prems"(4)
  have run: "eval x ?env (strip_parens e) = Inr (VBool b)"
    using "1.prems"(5) by (simp add: eval_strip_parens)
  obtain n s where e: "strip_parens e = Sp n s" by (cases "strip_parens e")
  have leaf: ?case if rec_leaf: "recognize_leaf p (strip_parens e) = Some t"
  proof -
    from rec_leaf obtain f where f: "field_of_param p (strip_parens e) = Some f"
      and "t = Leaf f OpEq (OperandBool True)"
      by (auto simp: recognize_leaf_def)
    then have "c = CLeaf f OpEq (VBool True)" using ev by simp
    then show ?thesis by (simp add: bool_leaf_sound [OF f run, where d = True])
  qed
  show ?case
  proof (cases n)
    case (Binary op left right)
    note form = e [unfolded Binary]
    have node: "node (strip_parens e) = Binary op left right" by (simp add: form)
    consider (conj) "op = OpAnd" | (disj) "op = OpOr" | (cmp) "is_equality op \<or> is_relational op"
      | (other) "op \<noteq> OpAnd" "op \<noteq> OpOr" "\<not> (is_equality op \<or> is_relational op)" by blast
    then show ?thesis
    proof cases
      case conj
      from rec conj obtain tl tr where tl: "recognize_predicate_tree p left = Some tl"
        and tr: "recognize_predicate_tree p right = Some tr" and t: "t = merge_and tl tr"
        by (auto simp: form split: option.splits)
      from ev [unfolded t] obtain cl cr where cl: "evaluate_predicate_tree env tl = Some cl"
        and cr: "evaluate_predicate_tree env tr = Some cr"
        and c: "cond_true ?fv c = (cond_true ?fv cl \<and> cond_true ?fv cr)"
        and ms: "matches_strings ?fv c = (matches_strings ?fv cl \<and> matches_strings ?fv cr)"
        by (rule evaluate_merge_and)
      from run obtain bl where l: "eval x ?env left = Inr (VBool bl)"
        and b: "bl \<Longrightarrow> eval x ?env right = Inr (VBool b)" "\<not> bl \<Longrightarrow> \<not> b"
        by (auto simp: form conj results as_bool_Inr split: if_splits)
      from strings have "matches_strings ?fv cl" "matches_strings ?fv cr" by (simp_all add: ms)
      note cond_l = "1.IH"(1) [OF node conj tl cl fresh this(1) l]
        and cond_r = "1.IH"(2) [OF node conj tl tr cr fresh this(2) b(1)]
      show ?thesis
        using b(2) cond_r by (cases bl) (simp_all add: c cond_l)
    next
      case disj
      from rec disj obtain tl tr where tl: "recognize_predicate_tree p left = Some tl"
        and tr: "recognize_predicate_tree p right = Some tr" and t: "t = merge_or tl tr"
        by (auto simp: form split: option.splits)
      from ev [unfolded t] obtain cl cr where cl: "evaluate_predicate_tree env tl = Some cl"
        and cr: "evaluate_predicate_tree env tr = Some cr"
        and c: "cond_true ?fv c = (cond_true ?fv cl \<or> cond_true ?fv cr)"
        and ms: "matches_strings ?fv c = (matches_strings ?fv cl \<and> matches_strings ?fv cr)"
        by (rule evaluate_merge_or)
      from run obtain bl where l: "eval x ?env left = Inr (VBool bl)"
        and b: "\<not> bl \<Longrightarrow> eval x ?env right = Inr (VBool b)" "bl \<Longrightarrow> b"
        by (auto simp: form disj results as_bool_Inr split: if_splits)
      have op: "op \<noteq> OpAnd" using disj by simp
      from strings have "matches_strings ?fv cl" "matches_strings ?fv cr" by (simp_all add: ms)
      note cond_l = "1.IH"(3) [OF node op disj tl cl fresh this(1) l]
        and cond_r = "1.IH"(4) [OF node op disj tl tr cr fresh this(2) b(1)]
      show ?thesis
        using b(2) cond_r by (cases bl) (simp_all add: c cond_l)
    next
      case cmp
      then have ne: "op \<noteq> OpAnd" "op \<noteq> OpOr" "op \<noteq> OpCoalesce"
        by (auto simp: is_equality_def is_relational_def)
      then have rec': "recognize_comparison p op (strip_parens left) (strip_parens right) = Some t"
        using rec cmp by (simp add: form)
      from run ne obtain v w where v: "eval x ?env (strip_parens left) = Inr v"
        and w: "eval x ?env (strip_parens right) = Inr w"
        and b: "binary_value x op v w = Inr (VBool b)"
        by (auto simp: form results eval_strip_parens)
      show ?thesis
        using comparison_sound [OF rec' cmp ev fresh strings v w] binary_value_compares [OF cmp b] by simp
    next
      case other
      then show ?thesis using rec leaf by (simp add: form)
    qed
  next
    case (Unary op operand)
    show ?thesis
    proof (cases "op = OpNot")
      case True
      with run obtain d where "eval x ?env operand = Inr (VBool d)" "b = (\<not> d)"
        by (auto simp: e Unary results unary_value_def as_bool_Inr)
      then show ?thesis
        using not_sound [OF _ ev fresh strings] rec by (simp add: e Unary True)
    next
      case False
      then show ?thesis using rec leaf by (simp add: e Unary)
    qed
  next
    case (Call callee args)
    then show ?thesis
      using call_predicate_sound [OF _ ev fresh strings run [unfolded e Call]] rec by (simp add: e)
  qed (use rec leaf in \<open>simp_all add: e\<close>)
qed

end
