(* ===== verification/Resolve.thy ===== *)
theory Resolve
  imports Ast Types
begin

text \<open>
  From written types to resolved ones: \<open>resolve_type\<close> of \<open>compiler/src/checker.rs\<close> with the
  substitution of type parameters, and what depends on it alone (\<open>expand_generic_struct\<close>,
  \<open>variant_field_types\<close>, \<open>enum_variant_names\<close>). The code unfolds the declaration of every
  name it meets and has no guard against a cycle: the first number bounds the nesting of
  declarations and \<open>None\<close> is a stack that ran out.
\<close>

section \<open>The symbols\<close>

datatype check_error =
    TypeParamArgs string
  | VectorArgs
  | VectorNumber
  | VectorZero
  | ResultArgs
  | PatchArgs
  | PatchOfNoStruct ty
  | MapArgs
  | MapKey ty
  | MapSyntax
  | NotGeneric string
  | ArgCount string nat nat
  | UnknownType string
  | NotAStruct string
  | UnknownEnum string
  | NoVariant string string

record checker =
  chk_types :: "string \<Rightarrow> type_decl option"
  chk_enums :: "string \<Rightarrow> enum_decl option"
  chk_hidden :: "string \<Rightarrow> string list option"

type_synonym subst = "string \<Rightarrow> ty option"

section \<open>Steps that may fail or not return\<close>

definition seq :: "('e + 'a) option \<Rightarrow> ('a \<Rightarrow> ('e + 'b) option) \<Rightarrow> ('e + 'b) option" where
  "seq m f = (case m of None \<Rightarrow> None | Some (Inl e) \<Rightarrow> Some (Inl e) | Some (Inr x) \<Rightarrow> f x)"

lemma seq_simps [simp]:
  "seq None f = None" "seq (Some (Inl e)) f = Some (Inl e)" "seq (Some (Inr x)) f = f x"
  by (simp_all add: seq_def)

lemma seq_cong [fundef_cong]:
  "m = m' \<Longrightarrow> (\<And>x. m' = Some (Inr x) \<Longrightarrow> f x = f' x) \<Longrightarrow> seq m f = seq m' f'"
  by (auto simp: seq_def split: option.split sum.split)

lemma seq_eq_Inr: "seq m f = Some (Inr y) \<longleftrightarrow> (\<exists>x. m = Some (Inr x) \<and> f x = Some (Inr y))"
  by (auto simp: seq_def split: option.split sum.split)

lemma seq_eq_None: "seq m f = None \<longleftrightarrow> m = None \<or> (\<exists>x. m = Some (Inr x) \<and> f x = None)"
  by (auto simp: seq_def split: option.split sum.split)

definition fail :: "'e \<Rightarrow> ('e + 'a) option" where "fail e = Some (Inl e)"
definition done_with :: "'a \<Rightarrow> ('e + 'a) option" where "done_with x = Some (Inr x)"

lemmas seq_defs = fail_def done_with_def

section \<open>Names\<close>

text \<open>The built-in names without arguments; the code ignores arguments it is given.\<close>

definition prim_named :: "string \<Rightarrow> prim option" where
  "prim_named name = map_of
     [(''Int'', IntTy), (''Int64'', Int64), (''Decimal'', Decimal), (''Timestamp'', Timestamp),
      (''Float'', Float), (''String'', String), (''Uuid'', Uuid), (''Html'', Html),
      (''Bool'', Bool), (''Void'', Void)] name"

definition resolve_vector :: "'e type_exp list \<Rightarrow> check_error + ty" where
  "resolve_vector args =
     (case args of
        [Named digits dim_args _] \<Rightarrow>
          if dim_args \<noteq> [] then Inl VectorNumber
          else (case parse_u32 digits of
                  None \<Rightarrow> Inl VectorNumber
                | Some n \<Rightarrow> if n = 0 then Inl VectorZero else Inr (Prim (Vector n)))
      | _ \<Rightarrow> Inl VectorArgs)"

definition with_name :: "string \<Rightarrow> ty \<Rightarrow> ty" where
  "with_name name t = (case t of Struct _ fs \<Rightarrow> Struct (Some name) fs | _ \<Rightarrow> t)"

definition map_key :: "ty \<Rightarrow> bool" where
  "map_key t \<longleftrightarrow> t = Prim String \<or> t = Prim IntTy"

definition is_struct :: "ty \<Rightarrow> bool" where
  "is_struct t = (case t of Struct _ _ \<Rightarrow> True | _ \<Rightarrow> False)"

text \<open>Why resolution ends: the fuel counts the declarations entered; otherwise the type shrinks.\<close>

definition fuel_of :: "(checker \<times> nat \<times> subst \<times> type_expr
    + checker \<times> nat \<times> subst \<times> string \<times> type_expr list)
    + (checker \<times> nat \<times> subst \<times> type_expr list + checker \<times> nat \<times> subst \<times> field list) \<Rightarrow> nat" where
  "fuel_of = (\<lambda>x. case x of
     Inl (Inl (_, n, _)) \<Rightarrow> n | Inl (Inr (_, n, _)) \<Rightarrow> n
   | Inr (Inl (_, n, _)) \<Rightarrow> n | Inr (Inr (_, n, _)) \<Rightarrow> n)"

definition extent_of :: "(checker \<times> nat \<times> subst \<times> type_expr
    + checker \<times> nat \<times> subst \<times> string \<times> type_expr list)
    + (checker \<times> nat \<times> subst \<times> type_expr list + checker \<times> nat \<times> subst \<times> field list) \<Rightarrow> nat" where
  "extent_of = (\<lambda>x. case x of
     Inl (Inl (_, _, _, t)) \<Rightarrow> 2 * size t | Inl (Inr (_, _, _, _, ts)) \<Rightarrow> 2 * size_list size ts + 1
   | Inr (Inl (_, _, _, ts)) \<Rightarrow> 2 * size_list size ts | Inr (Inr (_, _, _, fs)) \<Rightarrow> 2 * size_list size fs)"

lemma size_field_ty: "2 * size (field_ty f) < Suc (Suc (2 * size f + k))"
  by (cases f) simp

function (sequential)
  resolve :: "checker \<Rightarrow> nat \<Rightarrow> subst \<Rightarrow> type_expr \<Rightarrow> (check_error + ty) option"
  and resolve_named :: "checker \<Rightarrow> nat \<Rightarrow> subst \<Rightarrow> string \<Rightarrow> type_expr list \<Rightarrow> (check_error + ty) option"
  and resolve_list :: "checker \<Rightarrow> nat \<Rightarrow> subst \<Rightarrow> type_expr list \<Rightarrow> (check_error + ty list) option"
  and resolve_fields :: "checker \<Rightarrow> nat \<Rightarrow> subst \<Rightarrow> field list \<Rightarrow> (check_error + field_type list) option"
where
  "resolve c n \<sigma> (Named name args _) = resolve_named c n \<sigma> name args"
| "resolve c n \<sigma> (StructT fs) = seq (resolve_fields c n \<sigma> fs) (\<lambda>gs. done_with (Struct None gs))"
| "resolve c n \<sigma> (OptionalT t) = seq (resolve c n \<sigma> t) (\<lambda>u. done_with (Optional u))"
| "resolve c n \<sigma> (ListT t) = seq (resolve c n \<sigma> t) (\<lambda>u. done_with (List u))"
| "resolve c n \<sigma> (TupleT ts) = seq (resolve_list c n \<sigma> ts) (\<lambda>us. done_with (Tuple us))"
| "resolve c n \<sigma> (FunctionT ts t) =
     seq (resolve_list c n \<sigma> ts) (\<lambda>us. seq (resolve c n \<sigma> t) (\<lambda>u. done_with (Function us u)))"
| "resolve c n \<sigma> (MapT _ _) = fail MapSyntax"
| "resolve c n \<sigma> (UnionT ts) = seq (resolve_list c n \<sigma> ts) (\<lambda>us. done_with (Union us))"
| "resolve_named c n \<sigma> name args =
     (case \<sigma> name of
        Some bound \<Rightarrow> if args \<noteq> [] then fail (TypeParamArgs name) else done_with bound
      | None \<Rightarrow>
     (case prim_named name of
        Some p \<Rightarrow> done_with (Prim p)
      | None \<Rightarrow>
     if name = ''Vector'' then Some (resolve_vector args)
     else if name = ''Result'' then
       (case args of
          [a, b] \<Rightarrow>
            seq (resolve c n \<sigma> a) (\<lambda>t. seq (resolve c n \<sigma> b) (\<lambda>e. done_with (ResultOf t e)))
        | _ \<Rightarrow> fail ResultArgs)
     else if name = ''Patch'' then
       (case args of
          [a] \<Rightarrow> seq (resolve c n \<sigma> a)
                  (\<lambda>t. if is_struct t then done_with (PatchOf t) else fail (PatchOfNoStruct t))
        | _ \<Rightarrow> fail PatchArgs)
     else if name = ''Map'' then
       (case args of
          [k, v] \<Rightarrow>
            seq (resolve c n \<sigma> k) (\<lambda>kt.
              if map_key kt then seq (resolve c n \<sigma> v) (\<lambda>vt. done_with (MapOf kt vt))
              else fail (MapKey kt))
        | _ \<Rightarrow> fail MapArgs)
     else
       (case chk_types c name of
          Some decl \<Rightarrow>
            if type_params decl = [] then
              if args \<noteq> [] then fail (NotGeneric name)
              else (case n of
                      0 \<Rightarrow> None
                    | Suc m \<Rightarrow> seq (resolve c m \<sigma> (type_ty decl)) (\<lambda>t. done_with (with_name name t)))
            else if length args \<noteq> length (type_params decl) then
              fail (ArgCount name (length (type_params decl)) (length args))
            else seq (resolve_list c n \<sigma> args) (\<lambda>ts. done_with (Generic name ts))
        | None \<Rightarrow>
       (case chk_enums c name of
          Some decl \<Rightarrow>
            if enum_params decl = [] then
              if args \<noteq> [] then fail (NotGeneric name) else done_with (Prim (Enum name))
            else if length args \<noteq> length (enum_params decl) then
              fail (ArgCount name (length (enum_params decl)) (length args))
            else seq (resolve_list c n \<sigma> args) (\<lambda>ts. done_with (Generic name ts))
        | None \<Rightarrow> fail (UnknownType name)))))"
| "resolve_list c n \<sigma> [] = done_with []"
| "resolve_list c n \<sigma> (t # ts) =
     seq (resolve c n \<sigma> t) (\<lambda>u. seq (resolve_list c n \<sigma> ts) (\<lambda>us. done_with (u # us)))"
| "resolve_fields c n \<sigma> [] = done_with []"
| "resolve_fields c n \<sigma> (f # fs) =
     seq (resolve c n \<sigma> (field_ty f)) (\<lambda>u. seq (resolve_fields c n \<sigma> fs)
       (\<lambda>us. done_with (FieldType (field_name f) (field_optional f) u # us)))"
  by pat_completeness auto

termination
  by (relation "measures [fuel_of, extent_of]")
    (auto simp: fuel_of_def extent_of_def size_field_ty)

declare resolve_named.simps [simp del]

text \<open>No name of a type parameter is bound.\<close>

definition resolve_type :: "checker \<Rightarrow> nat \<Rightarrow> type_expr \<Rightarrow> (check_error + ty) option" where
  "resolve_type c n t = resolve c n Map.empty t"

definition resolve_type_abstract ::
  "checker \<Rightarrow> nat \<Rightarrow> string list \<Rightarrow> type_expr \<Rightarrow> (check_error + ty) option" where
  "resolve_type_abstract c n ps t =
     resolve c n (\<lambda>p. if p \<in> set ps then Some (Prim (TypeParam p)) else None) t"

section \<open>Generic declarations and variants\<close>

text \<open>\<open>collect\<close> into a map: the last of equal keys wins.\<close>

definition bind_params :: "string list \<Rightarrow> ty list \<Rightarrow> subst" where
  "bind_params ps ts = map_of (rev (zip ps ts))"

definition struct_fields :: "type_expr \<Rightarrow> field list option" where
  "struct_fields t = (case t of StructT fs \<Rightarrow> Some fs | _ \<Rightarrow> None)"

definition expand_generic_struct ::
  "checker \<Rightarrow> nat \<Rightarrow> string \<Rightarrow> ty list \<Rightarrow> (check_error + field_type list) option" where
  "expand_generic_struct c n name args =
     (case chk_types c name of
        None \<Rightarrow> fail (UnknownType name)
      | Some decl \<Rightarrow>
          (case struct_fields (type_ty decl) of
             None \<Rightarrow> fail (NotAStruct name)
           | Some fs \<Rightarrow> resolve_fields c n (bind_params (type_params decl) args) fs))"

definition enum_variant_names :: "checker \<Rightarrow> string \<Rightarrow> check_error + string list" where
  "enum_variant_names c name =
     (case chk_enums c name of
        Some e \<Rightarrow> Inr (map variant_name (variants e))
      | None \<Rightarrow> Inl (UnknownEnum name))"

definition declared_variant :: "checker \<Rightarrow> string \<Rightarrow> string \<Rightarrow> check_error + enum_decl \<times> enum_variant" where
  "declared_variant c enum variant =
     (case chk_enums c enum of
        None \<Rightarrow> Inl (UnknownEnum enum)
      | Some e \<Rightarrow>
          (case find (\<lambda>v. variant_name v = variant) (variants e) of
             None \<Rightarrow> Inl (NoVariant enum variant)
           | Some v \<Rightarrow> Inr (e, v)))"

definition variant_types :: "checker \<Rightarrow> nat \<Rightarrow> subst \<Rightarrow> enum_variant \<Rightarrow> (check_error + (string \<times> ty) list) option" where
  "variant_types c n \<sigma> v =
     (case variant_fields v of
        None \<Rightarrow> done_with []
      | Some fs \<Rightarrow> seq (resolve_fields c n \<sigma> fs) (\<lambda>gs. done_with (map (\<lambda>g. (ft_name g, ft_ty g)) gs)))"

definition variant_field_types ::
  "checker \<Rightarrow> nat \<Rightarrow> ty \<Rightarrow> string \<Rightarrow> string \<Rightarrow> (check_error + (string \<times> ty) list) option" where
  "variant_field_types c n scrutinee enum variant =
     (case scrutinee of
        ResultOf t e \<Rightarrow>
          if variant = ''Ok'' then done_with [(''value'', t)]
          else if variant = ''Err'' then done_with [(''error'', e)]
          else fail (NoVariant ''Result'' variant)
      | Generic base args \<Rightarrow>
          (case declared_variant c base variant of
             Inl err \<Rightarrow> fail err
           | Inr (e, v) \<Rightarrow> variant_types c n (bind_params (enum_params e) args) v)
      | _ \<Rightarrow>
          (case declared_variant c enum variant of
             Inl err \<Rightarrow> fail err
           | Inr (_, v) \<Rightarrow> variant_types c n Map.empty v))"

end
