(* ===== verification/CheckExpr.thy ===== *)
theory CheckExpr
  imports Eval
begin

text \<open>
  The conditions of \<open>@check(...)\<close> on a type: the small evaluator of
  \<open>compiler/src/runtime/mod.rs\<close> (\<open>eval_check_expr\<close>, \<open>check_expr_fields_present\<close>) and its
  relation to the interpreter that runs the same operators everywhere else.
\<close>

section \<open>The evaluator\<close>

fun check_expr_fields_present :: "sexpr \<Rightarrow> (string \<times> val) list \<Rightarrow> bool" where
  "check_expr_fields_present (Sp (Ident n) _) es \<longleftrightarrow> list_ex (\<lambda>(k, _). k = n) es"
| "check_expr_fields_present (Sp (IntLit _) _) es \<longleftrightarrow> True"
| "check_expr_fields_present (Sp (FloatLit _) _) es \<longleftrightarrow> True"
| "check_expr_fields_present (Sp (Str _) _) es \<longleftrightarrow> True"
| "check_expr_fields_present (Sp (BoolLit _) _) es \<longleftrightarrow> True"
| "check_expr_fields_present (Sp NullLit _) es \<longleftrightarrow> True"
| "check_expr_fields_present (Sp (Paren inner) _) es \<longleftrightarrow> check_expr_fields_present inner es"
| "check_expr_fields_present (Sp (Unary _ operand) _) es \<longleftrightarrow> check_expr_fields_present operand es"
| "check_expr_fields_present (Sp (Binary _ left right) _) es \<longleftrightarrow>
     check_expr_fields_present left es \<and> check_expr_fields_present right es"
| "check_expr_fields_present (Sp _ _) es \<longleftrightarrow> False"

text \<open>\<open>None\<close> is the panic of \<open>unreachable!\<close>.\<close>

definition check_binary :: "rest \<Rightarrow> binary_op \<Rightarrow> val \<Rightarrow> val \<Rightarrow> (eval_error + val) option" where
  "check_binary x op l r =
     (if op = OpAnd then
        Some (rbind (as_bool l) (\<lambda>a. if a then rbind (as_bool r) (\<lambda>b. Inr (VBool b)) else Inr (VBool False)))
      else if op = OpOr then
        Some (rbind (as_bool l) (\<lambda>a. if a then Inr (VBool True) else rbind (as_bool r) (\<lambda>b. Inr (VBool b))))
      else if op = OpCoalesce then None
      else Some (binary_value x op l r))"

fun eval_check_expr :: "rest \<Rightarrow> (string \<times> val) list \<Rightarrow> sexpr \<Rightarrow> (eval_error + val) option" where
  "eval_check_expr x es (Sp (Ident n) _) = Some (ok_or (NoField n) (map_of es n))"
| "eval_check_expr x es (Sp (IntLit n) _) = Some (Inr (VInt n))"
| "eval_check_expr x es (Sp (FloatLit f) _) = Some (Inr (VFloat f))"
| "eval_check_expr x es (Sp (Str t) _) = Some (Inr (VStr t))"
| "eval_check_expr x es (Sp (BoolLit b) _) = Some (Inr (VBool b))"
| "eval_check_expr x es (Sp NullLit _) = Some (Inr VNull)"
| "eval_check_expr x es (Sp (Paren inner) _) = eval_check_expr x es inner"
| "eval_check_expr x es (Sp (Unary op operand) _) =
     map_option (\<lambda>m. rbind m (unary_value op)) (eval_check_expr x es operand)"
| "eval_check_expr x es (Sp (Binary op left right) _) =
     (case eval_check_expr x es left of
        None \<Rightarrow> None
      | Some (Inl e) \<Rightarrow> Some (Inl e)
      | Some (Inr l) \<Rightarrow>
          (case eval_check_expr x es right of
             None \<Rightarrow> None
           | Some (Inl e) \<Rightarrow> Some (Inl e)
           | Some (Inr r) \<Rightarrow> check_binary x op l r))"
| "eval_check_expr x es (Sp _ _) = None"

section \<open>Against the interpreter\<close>

lemma map_of_present: "list_ex (\<lambda>(k, _). k = n) es \<Longrightarrow> \<exists>v. map_of es n = Some v"
  by (induction es) auto

lemma binary_value_run:
  assumes "op \<noteq> OpAnd" "op \<noteq> OpOr" "op \<noteq> OpCoalesce" "eval x es left = Inr l" "eval x es right = Inr r"
  shows "eval x es (Sp (Binary op left right) s) = binary_value x op l r"
  using assms by simp

lemma logic_run:
  assumes "op = OpAnd \<or> op = OpOr" and "check_binary x op l r = Some (Inr v)"
    and "eval x es left = Inr l" "eval x es right = Inr r"
  shows "eval x es (Sp (Binary op left right) s) = Inr v"
  using assms by (auto simp: check_binary_def as_bool_def split: val.splits if_splits)

lemma check_op_coalesce: "check_op op \<longleftrightarrow> op \<noteq> OpCoalesce"
  by (cases op) simp_all

lemma check_expr_is_eval:
  assumes "validate_check_expr_shape e = Inr ()" and "eval_check_expr x es e = Some (Inr v)"
  shows "eval x es e = Inr v"
  using assms
proof (induction x es e arbitrary: v rule: eval_check_expr.induct)
  case (1 x es n s)
  then show ?case by (auto simp: results)
next
  case (9 x es op left right s)
  from "9.prems" obtain l r where l: "eval_check_expr x es left = Some (Inr l)"
    and r: "eval_check_expr x es right = Some (Inr r)" and v: "check_binary x op l r = Some (Inr v)"
    by (auto split: option.splits sum.splits)
  from "9.prems"(1) have shapes: "validate_check_expr_shape left = Inr ()" "validate_check_expr_shape right = Inr ()"
    and op: "op \<noteq> OpCoalesce"
    by (auto simp: results check_op_coalesce split: if_splits)
  note runs = "9.IH"(1) [OF shapes(1) l] "9.IH"(2) [OF l refl shapes(2) r]
  show ?case
  proof (cases "op = OpAnd \<or> op = OpOr")
    case True
    show ?thesis by (rule logic_run [OF True v runs])
  next
    case False
    with op v have "binary_value x op l r = Inr v" by (auto simp: check_binary_def)
    with False op binary_value_run [OF _ _ op runs, of s] show ?thesis by auto
  qed
qed (auto simp: results)

lemma check_expr_defined:
  "validate_check_expr_shape e = Inr () \<Longrightarrow> eval_check_expr x es e \<noteq> None"
proof (induction x es e rule: eval_check_expr.induct)
  case (9 x es op left right s)
  then show ?case
    by (auto simp: results check_op_coalesce check_binary_def split: option.splits sum.splits if_splits)
qed (auto simp: results)

definition field_error :: "eval_error \<Rightarrow> bool" where
  "field_error e = (case e of NoField _ \<Rightarrow> True | _ \<Rightarrow> False)"

lemma operators_name_no_field:
  "binary_value x op l r = Inl e \<Longrightarrow> \<not> field_error e"
  "unary_value uop v = Inl e \<Longrightarrow> \<not> field_error e"
  "as_bool v = Inl e \<Longrightarrow> \<not> field_error e"
  by (auto simp: binary_value_def compare_def value_ordering_def arithmetic_def Let_def
      checked_int_numeric_op_def int_op_def decimal_result_def unary_value_def as_bool_def field_error_def results
      ok_or_def split: val.splits if_splits option.splits unary_op.splits)

lemma check_expr_names_field:
  "check_expr_fields_present e es \<Longrightarrow> eval_check_expr x es e = Some (Inl err) \<Longrightarrow> \<not> field_error err"
proof (induction x es e arbitrary: err rule: eval_check_expr.induct)
  case (1 x es n s)
  then show ?case by (auto dest: map_of_present)
next
  case (8 x es op operand s)
  then show ?case by (auto simp: results dest: operators_name_no_field)
next
  case (9 x es op left right s)
  then show ?case
    by (auto simp: check_binary_def results dest: operators_name_no_field
        split: option.splits sum.splits if_splits)
qed auto

definition check_agrees :: "rest \<Rightarrow> (string \<times> val) list \<Rightarrow> sexpr \<Rightarrow> bool" where
  "check_agrees x es e =
     (case eval_check_expr x es e of
        None \<Rightarrow> False
      | Some (Inl err) \<Rightarrow> \<not> field_error err
      | Some (Inr v) \<Rightarrow> eval x es e = Inr v)"

section \<open>Properties\<close>


definition sp :: "expr \<Rightarrow> sexpr" where "sp n = Sp n (mk_span 0 0 1 1)"

definition bin :: "binary_op \<Rightarrow> sexpr \<Rightarrow> sexpr \<Rightarrow> sexpr" where "bin op l r = sp (Binary op l r)"



end
