(* ===== verification/Validators.thy ===== *)
theory Validators
  imports Resolve CheckExpr
begin

text \<open>
  The constraints that a value has to meet where it is built or enters the process:
  \<open>@validate\<close> and \<open>@check\<close> of a field, \<open>@check\<close> of a type, from
  \<open>compiler/src/runtime/mod.rs\<close>. Regular expressions and the conversions of numbers to
  floats are the fields of \<open>host\<close>.
\<close>

record host =
  h_rest :: rest
  h_regex :: "string \<Rightarrow> string \<Rightarrow> bool" \<comment> \<open>pattern, text\<close>
  h_of_int :: "int \<Rightarrow> f64"
  h_decimal :: "int \<Rightarrow> f64"
  h_widen :: "f32 \<Rightarrow> f64"
  h_narrow :: "f64 \<Rightarrow> f32"

datatype wire_error =
    Mismatch
  | WrongLength
  | BadKey string
  | MissingField string
  | UnknownVariant string
  | NoTag
  | NoPatchStruct
  | Unsupported
  | InvalidField string
  | CheckFailed
  | CheckError eval_error
  | Unresolved check_error

section \<open>Characters of a text\<close>

text \<open>\<open>str::chars\<close>: the code points that the bytes encode.\<close>

fun chars_of :: "string \<Rightarrow> nat list" where
  "chars_of [] = []"
| "chars_of (a # s) =
     (let k = of_char a in
      if k < 0x80 then k # chars_of s
      else if k < 0xE0 then
        (case s of b # s \<Rightarrow> ((k - 0xC0) * 64 + (of_char b - 0x80)) # chars_of s | _ \<Rightarrow> [])
      else if k < 0xF0 then
        (case s of
           b # d # s \<Rightarrow> ((k - 0xE0) * 4096 + (of_char b - 0x80) * 64 + (of_char d - 0x80)) # chars_of s
         | _ \<Rightarrow> [])
      else
        (case s of
           b # d # e # s \<Rightarrow>
             ((k - 0xF0) * 262144 + (of_char b - 0x80) * 4096 + (of_char d - 0x80) * 64 +
               (of_char e - 0x80)) # chars_of s
         | _ \<Rightarrow> []))"

lemma of_char_of: "k < 256 \<Longrightarrow> of_char (char_of k) = (k::nat)"
  by simp

lemma chars_of_utf8_char:
  assumes "c < 0x110000"
  shows "chars_of (utf8_char c @ s) = c # chars_of s"
proof -
  consider "c < 0x80" | "0x80 \<le> c" "c < 0x800" | "0x800 \<le> c" "c < 0x10000" | "0x10000 \<le> c"
    by linarith
  then show ?thesis
  proof cases
    case 1
    then show ?thesis by (simp add: utf8_char_def of_char_of)
  next
    case 2
    then have "c div 64 < 32" by (simp add: div_less_iff_less_mult)
    with 2 show ?thesis by (simp add: utf8_char_def of_char_of Let_def)
  next
    case 3
    have "c div 4096 < 16" using 3 by (simp add: div_less_iff_less_mult)
    moreover have "c div 64 div 64 = c div 4096" by (simp flip: div_mult2_eq)
    then have "c = c div 4096 * 4096 + c div 64 mod 64 * 64 + c mod 64"
      using div_mult_mod_eq [of c 64] div_mult_mod_eq [of "c div 64" 64] by linarith
    ultimately show ?thesis using 3 by (simp add: utf8_char_def of_char_of Let_def)
  next
    case 4
    have "c div 262144 < 8" using assms by (simp add: div_less_iff_less_mult)
    moreover have "c div 64 div 64 = c div 4096" "c div 4096 div 64 = c div 262144"
      by (simp_all flip: div_mult2_eq)
    then have "c = c div 262144 * 262144 + c div 4096 mod 64 * 4096 + c div 64 mod 64 * 64 + c mod 64"
      using div_mult_mod_eq [of c 64] div_mult_mod_eq [of "c div 64" 64] div_mult_mod_eq [of "c div 4096" 64]
      by linarith
    ultimately show ?thesis using 4 by (simp add: utf8_char_def of_char_of Let_def)
  qed
qed

lemma chars_of_utf8: "list_all is_scalar cs \<Longrightarrow> chars_of (utf8 cs) = cs"
  by (induction cs) (auto simp: chars_of_utf8_char is_scalar_def)

section \<open>Constraints of a field\<close>

definition has_whitespace :: "string \<Rightarrow> bool" where
  "has_whitespace s \<longleftrightarrow> list_ex is_whitespace (chars_of s)"

definition is_plausible_email :: "string \<Rightarrow> bool" where
  "is_plausible_email s =
     (case split_once (CHR ''@'') s of
        None \<Rightarrow> False
      | Some (local_part, domain) \<Rightarrow>
          if local_part = [] \<or> has_whitespace local_part then False
          else if CHR ''@'' \<in> set domain \<or> has_whitespace domain \<or> CHR ''.'' \<notin> set domain then False
          else list_all (\<lambda>seg. seg \<noteq> []) (split_on (CHR ''.'') domain))"

definition f64_less :: "f64 \<Rightarrow> f64 \<Rightarrow> bool" where
  "f64_less x y \<longleftrightarrow> f64_partial_cmp x y = Some Less"

definition as_check_number :: "host \<Rightarrow> val \<Rightarrow> f64 option" where
  "as_check_number h v =
     (case v of
        VInt n \<Rightarrow> Some (h_of_int h n)
      | VInt64 n \<Rightarrow> Some (h_of_int h n)
      | VDecimal n \<Rightarrow> Some (h_decimal h n)
      | VFloat f \<Rightarrow> Some f
      | _ \<Rightarrow> None)"

definition check_number_bounds :: "f64 \<Rightarrow> field_check \<Rightarrow> bool" where
  "check_number_bounds n chk =
     (case chk of
        CheckMin lo \<Rightarrow> \<not> f64_less n lo
      | CheckMax hi \<Rightarrow> \<not> f64_less hi n
      | CheckRange lo hi \<Rightarrow> \<not> (f64_less n lo \<or> f64_less hi n)
      | _ \<Rightarrow> True)"

definition check_string_length :: "host \<Rightarrow> string \<Rightarrow> field_check \<Rightarrow> bool" where
  "check_string_length h s chk =
     (let len = h_of_int h (int (length (chars_of s)))
      in case chk of
           CheckMinLength lo \<Rightarrow> \<not> f64_less len lo
         | CheckMaxLength hi \<Rightarrow> \<not> f64_less hi len
         | _ \<Rightarrow> True)"

definition validator_accepts :: "host \<Rightarrow> field_validator \<Rightarrow> string \<Rightarrow> bool" where
  "validator_accepts h vd s =
     (case vd of Email \<Rightarrow> is_plausible_email s | Regex pattern \<Rightarrow> h_regex h pattern s)"

definition check_accepts :: "host \<Rightarrow> field_check \<Rightarrow> val \<Rightarrow> bool" where
  "check_accepts h chk v \<longleftrightarrow>
     (case as_check_number h v of Some n \<Rightarrow> check_number_bounds n chk | None \<Rightarrow> True) \<and>
     (case v of VStr s \<Rightarrow> check_string_length h s chk | _ \<Rightarrow> True)"

definition field_accepts :: "host \<Rightarrow> field \<Rightarrow> (string \<times> val) list \<Rightarrow> bool" where
  "field_accepts h f es \<longleftrightarrow>
     (case (validator f, map_of es (field_name f)) of
        (Some vd, Some (VStr s)) \<Rightarrow> validator_accepts h vd s
      | _ \<Rightarrow> True) \<and>
     (case (fld_check f, map_of es (field_name f)) of
        (Some chk, Some v) \<Rightarrow> check_accepts h chk v
      | _ \<Rightarrow> True)"

definition apply_field_validators :: "host \<Rightarrow> field list \<Rightarrow> val \<Rightarrow> wire_error + unit" where
  "apply_field_validators h fs v =
     (case v of
        VStruct es \<Rightarrow>
          (case find (\<lambda>f. \<not> field_accepts h f es) fs of
             Some f \<Rightarrow> Inl (InvalidField (field_name f))
           | None \<Rightarrow> Inr ())
      | _ \<Rightarrow> Inr ())"

definition field_annotations_for :: "checker \<Rightarrow> string \<Rightarrow> string option \<Rightarrow> field list option" where
  "field_annotations_for c name variant =
     (case variant of
        None \<Rightarrow> Option.bind (chk_types c name) (\<lambda>d. struct_fields (type_ty d))
      | Some v \<Rightarrow>
          Option.bind (chk_enums c name) (\<lambda>e.
            Option.bind (find (\<lambda>w. variant_name w = v) (variants e)) variant_fields))"

section \<open>Constraints of a type\<close>

text \<open>\<open>None\<close> is a panic.\<close>

fun run_type_checks :: "host \<Rightarrow> (string \<times> val) list \<Rightarrow> type_annotation list \<Rightarrow> (wire_error + unit) option" where
  "run_type_checks h es [] = done_with ()"
| "run_type_checks h es (a # as) =
     (case a of
        Check e \<Rightarrow>
          if \<not> check_expr_fields_present e es then run_type_checks h es as
          else (case eval_check_expr (h_rest h) es e of
                  None \<Rightarrow> None
                | Some (Inl err) \<Rightarrow> fail (CheckError err)
                | Some (Inr v) \<Rightarrow>
                    (case v of
                       VBool b \<Rightarrow> if b then run_type_checks h es as else fail CheckFailed
                     | _ \<Rightarrow> None))
      | _ \<Rightarrow> run_type_checks h es as)"

definition apply_type_level_checks :: "host \<Rightarrow> checker \<Rightarrow> string \<Rightarrow> val \<Rightarrow> (wire_error + unit) option" where
  "apply_type_level_checks h c name v =
     (case v of
        VStruct es \<Rightarrow>
          (case chk_types c name of
             None \<Rightarrow> done_with ()
           | Some d \<Rightarrow> run_type_checks h es (type_annotations d))
      | _ \<Rightarrow> done_with ())"

text \<open>Both, as a structure with a name gets them.\<close>

definition constrain :: "host \<Rightarrow> checker \<Rightarrow> string option \<Rightarrow> val \<Rightarrow> (wire_error + val) option" where
  "constrain h c name v =
     (case name of
        None \<Rightarrow> done_with v
      | Some n \<Rightarrow>
          seq (Some (case field_annotations_for c n None of
                 Some fs \<Rightarrow> apply_field_validators h fs v
               | None \<Rightarrow> Inr ()))
            (\<lambda>_. seq (apply_type_level_checks h c n v) (\<lambda>_. done_with v)))"

lemma constrain_keeps: "constrain h c name v = Some (Inr w) \<Longrightarrow> w = v"
  by (auto simp: constrain_def seq_eq_Inr seq_defs split: option.splits)

end
