(* ===== verification/Wire.thy ===== *)
theory Wire
  imports Validators IsoTime "HOL-Library.List_Lexorder"
begin

text \<open>
  The border of the process: how a value becomes JSON (\<open>value_to_json\<close>) and how JSON becomes
  a value of a declared type (\<open>json_to_typed_value\<close>, \<open>struct_from_json\<close>,
  \<open>variant_from_json\<close>, \<open>json_to_value\<close> of \<open>compiler/src/runtime/mod.rs\<close>). An object of
  \<open>serde_json\<close> is a \<open>BTreeMap\<close>: an association list with its keys in increasing order. The
  paths and texts of the messages are not modelled.
\<close>

section \<open>JSON\<close>

datatype json_number = PosInt nat | NegInt int | FloatNum f64

datatype json =
    JNull
  | JBool bool
  | JNumber json_number
  | JString string
  | JArray "json list"
  | JObject "(string \<times> json) list"

definition as_i64 :: "json \<Rightarrow> int option" where
  "as_i64 j =
     (case j of
        JNumber (PosInt n) \<Rightarrow> if int n \<le> i64_max then Some (int n) else None
      | JNumber (NegInt n) \<Rightarrow> Some n
      | _ \<Rightarrow> None)"

definition as_f64 :: "host \<Rightarrow> json \<Rightarrow> f64 option" where
  "as_f64 h j =
     (case j of
        JNumber (PosInt n) \<Rightarrow> Some (h_of_int h (int n))
      | JNumber (NegInt n) \<Rightarrow> Some (h_of_int h n)
      | JNumber (FloatNum f) \<Rightarrow> Some f
      | _ \<Rightarrow> None)"

definition as_str :: "json \<Rightarrow> string option" where
  "as_str j = (case j of JString s \<Rightarrow> Some s | _ \<Rightarrow> None)"

definition as_json_bool :: "json \<Rightarrow> bool option" where
  "as_json_bool j = (case j of JBool b \<Rightarrow> Some b | _ \<Rightarrow> None)"

definition as_array :: "json \<Rightarrow> json list option" where
  "as_array j = (case j of JArray js \<Rightarrow> Some js | _ \<Rightarrow> None)"

definition as_object :: "json \<Rightarrow> (string \<times> json) list option" where
  "as_object j = (case j of JObject m \<Rightarrow> Some m | _ \<Rightarrow> None)"

fun obj_insert :: "string \<Rightarrow> 'a \<Rightarrow> (string \<times> 'a) list \<Rightarrow> (string \<times> 'a) list" where
  "obj_insert k v [] = [(k, v)]"
| "obj_insert k v ((l, w) # m) =
     (if k = l then (k, v) # m else if k < l then (k, v) # (l, w) # m else (l, w) # obj_insert k v m)"

definition to_object :: "(string \<times> 'a) list \<Rightarrow> (string \<times> 'a) list" where
  "to_object kvs = fold (\<lambda>(k, v). obj_insert k v) kvs []"

definition json_int :: "int \<Rightarrow> json" where
  "json_int n = JNumber (if n < 0 then NegInt n else PosInt (nat n))"

definition f64_finite :: "f64 \<Rightarrow> bool" where
  "f64_finite f \<longleftrightarrow> uint f mod 2 ^ 63 < 2047 * 2 ^ 52"

text \<open>JSON has no infinities and no NaN.\<close>

definition json_float :: "f64 \<Rightarrow> json" where
  "json_float f = (if f64_finite f then JNumber (FloatNum f) else JNull)"

section \<open>From values\<close>

text \<open>The first argument tells the enums without data, which are written as plain strings.\<close>

fun value_to_json :: "host \<Rightarrow> (string \<Rightarrow> bool) \<Rightarrow> val \<Rightarrow> json" where
  "value_to_json h simple (VInt n) = json_int n"
| "value_to_json h simple (VInt64 n) = JString (show_int n)"
| "value_to_json h simple (VDecimal n) = JString (format_decimal n)"
| "value_to_json h simple (VTimestamp n) = JString (format_iso8601_millis n)"
| "value_to_json h simple (VFloat f) = json_float f"
| "value_to_json h simple (VStr s) = JString s"
| "value_to_json h simple (VUuid s) = JString s"
| "value_to_json h simple (VHtml s) = JString s"
| "value_to_json h simple (VVector v) = JArray (map (\<lambda>x. json_float (h_widen h x)) v)"
| "value_to_json h simple (VBool b) = JBool b"
| "value_to_json h simple VNull = JNull"
| "value_to_json h simple (VStruct fs) =
     JObject (to_object (map (\<lambda>(k, v). (k, value_to_json h simple v)) fs))"
| "value_to_json h simple (VVariant enum variant fs) =
     (if simple enum then JString variant
      else JObject (to_object ((''type'', JString variant) #
             map (\<lambda>(k, v). (k, value_to_json h simple v)) fs)))"
| "value_to_json h simple (VList vs) = JArray (map (value_to_json h simple) vs)"
| "value_to_json h simple (VTuple vs) = JArray (map (value_to_json h simple) vs)"
| "value_to_json h simple _ = JNull"

fun json_to_value :: "host \<Rightarrow> json \<Rightarrow> val" where
  "json_to_value h JNull = VNull"
| "json_to_value h (JBool b) = VBool b"
| "json_to_value h (JNumber n) =
     (case as_i64 (JNumber n) of
        Some i \<Rightarrow> VInt i
      | None \<Rightarrow> VFloat (case as_f64 h (JNumber n) of Some f \<Rightarrow> f | None \<Rightarrow> 0))"
| "json_to_value h (JString s) = VStr s"
| "json_to_value h (JArray js) = VList (map (json_to_value h) js)"
| "json_to_value h (JObject m) = VStruct (map (\<lambda>(k, j). (k, json_to_value h j)) m)"

section \<open>To values of a type\<close>

definition is_canonical_uuid :: "string \<Rightarrow> bool" where
  "is_canonical_uuid s \<longleftrightarrow> length s = 36 \<and>
     list_all (\<lambda>(i, b). if i \<in> set [8, 13, 18, 23] then b = CHR ''-'' else is_ascii_hexdigit (of_char b))
       (enumerate 0 s)"

definition or_mismatch :: "('a \<Rightarrow> val) \<Rightarrow> 'a option \<Rightarrow> (wire_error + val) option" where
  "or_mismatch f x = Some (map_sum id f (ok_or Mismatch x))"

definition prim_from_json :: "host \<Rightarrow> prim \<Rightarrow> json \<Rightarrow> (wire_error + val) option" where
  "prim_from_json h p j =
     (case p of
        IntTy \<Rightarrow> or_mismatch VInt (as_i64 j)
      | Int64 \<Rightarrow> or_mismatch VInt64 (Option.bind (as_str j) parse_i64)
      | Decimal \<Rightarrow> or_mismatch VDecimal (Option.bind (as_str j) parse_decimal)
      | Timestamp \<Rightarrow> or_mismatch VTimestamp (Option.bind (as_str j) parse_iso8601_millis)
      | Float \<Rightarrow> or_mismatch VFloat (as_f64 h j)
      | String \<Rightarrow> or_mismatch VStr (as_str j)
      | Uuid \<Rightarrow>
          or_mismatch VUuid
            (case as_str j of Some s \<Rightarrow> if is_canonical_uuid s then Some s else None | None \<Rightarrow> None)
      | Vector n \<Rightarrow>
          (case as_array j of
             None \<Rightarrow> fail Mismatch
           | Some js \<Rightarrow>
               if length js \<noteq> n then fail WrongLength
               else or_mismatch (\<lambda>fs. VVector (map (h_narrow h) fs)) (those (map (as_f64 h) js)))
      | Bool \<Rightarrow> or_mismatch VBool (as_json_bool j)
      | Void \<Rightarrow> done_with VNull
      | _ \<Rightarrow> fail Unsupported)"

definition all_unit :: "checker \<Rightarrow> string \<Rightarrow> bool" where
  "all_unit c enum \<longleftrightarrow>
     (case chk_enums c enum of
        Some e \<Rightarrow> list_all (\<lambda>v. variant_fields v = None) (variants e)
      | None \<Rightarrow> False)"

definition unit_variant_from_json :: "checker \<Rightarrow> string \<Rightarrow> json \<Rightarrow> (wire_error + val) option" where
  "unit_variant_from_json c enum j =
     (case as_str j of
        None \<Rightarrow> fail Mismatch
      | Some s \<Rightarrow>
          (case enum_variant_names c enum of
             Inl e \<Rightarrow> fail (Unresolved e)
           | Inr names \<Rightarrow>
               if s \<in> set names then done_with (VVariant enum s []) else fail (UnknownVariant s)))"

text \<open>Resolution on the way, with its errors as errors of the wire.\<close>

definition resolving :: "(check_error + 'a) option \<Rightarrow> ('a \<Rightarrow> (wire_error + 'b) option) \<Rightarrow> (wire_error + 'b) option" where
  "resolving m f = (case m of None \<Rightarrow> None | Some (Inl e) \<Rightarrow> fail (Unresolved e) | Some (Inr x) \<Rightarrow> f x)"

lemma resolving_cong [fundef_cong]:
  "m = m' \<Longrightarrow> (\<And>x. m' = Some (Inr x) \<Longrightarrow> f x = f' x) \<Longrightarrow> resolving m f = resolving m' f'"
  by (auto simp: resolving_def split: option.split sum.split)

text \<open>All elements in turn, up to the first that fails.\<close>

fun map_seq :: "('a \<Rightarrow> ('e + 'b) option) \<Rightarrow> 'a list \<Rightarrow> ('e + 'b list) option" where
  "map_seq f [] = done_with []"
| "map_seq f (x # xs) = seq (f x) (\<lambda>y. seq (map_seq f xs) (\<lambda>ys. done_with (y # ys)))"

lemma map_seq_cong [fundef_cong]:
  "xs = ys \<Longrightarrow> (\<And>x. x \<in> set ys \<Longrightarrow> f x = g x) \<Longrightarrow> map_seq f xs = map_seq g ys"
  by (induction xs arbitrary: ys) auto

text \<open>The first member that takes it.\<close>

fun first_ok :: "('a \<Rightarrow> ('e + 'b) option) \<Rightarrow> 'e \<Rightarrow> 'a list \<Rightarrow> ('e + 'b) option" where
  "first_ok f e [] = fail e"
| "first_ok f e (x # xs) =
     (case f x of
        None \<Rightarrow> None
      | Some (Inr y) \<Rightarrow> done_with y
      | Some (Inl _) \<Rightarrow> first_ok f e xs)"

lemma first_ok_cong [fundef_cong]:
  "xs = ys \<Longrightarrow> e = e' \<Longrightarrow> (\<And>x. x \<in> set ys \<Longrightarrow> f x = g x) \<Longrightarrow> first_ok f e xs = first_ok g e' ys"
  by (induction xs arbitrary: ys) (auto split: option.split sum.split)

end
