(* ===== verification/Decode.thy ===== *)
theory Decode
  imports Wire
begin

text \<open>
  From JSON to a value of a declared type: \<open>json_to_typed_value\<close>, \<open>struct_from_json\<close> and
  \<open>variant_from_json\<close> of \<open>compiler/src/runtime/mod.rs\<close>. Each step goes to a part of the JSON
  or, on the same JSON, to a part of the type, so that decoding always ends; the number is
  the stack that is left for the resolution of declarations on the way, and \<open>None\<close> is that
  stack running out (or the panic of \<open>run_type_checks\<close>).
\<close>

lemma size_map_of: "map_of m k = Some (j::json) \<Longrightarrow> size j < Suc (size_list (size_prod (\<lambda>_. 0) size) m)"
  by (induction m) (auto split: if_splits)

lemma size_entry: "(k, j::json) \<in> set m \<Longrightarrow> size j < Suc (size_list (size_prod (\<lambda>_. 0) size) m)"
  by (induction m) auto

lemma size_item: "(j::json) \<in> set js \<Longrightarrow> size j < Suc (size_list size js)"
  by (induction js) auto

lemma size_zipped: "(j, t) \<in> set (zip js (ts::ty list)) \<Longrightarrow> size (j::json) < Suc (size_list size js)"
  by (rule size_item, rule set_zip_leftD)

lemma as_array_Some: "as_array j = Some js \<longleftrightarrow> j = JArray js"
  by (cases j) (auto simp: as_array_def)

lemma as_object_Some: "as_object j = Some m \<longleftrightarrow> j = JObject m"
  by (cases j) (auto simp: as_object_def)

definition wire_extent :: "(host \<times> checker \<times> nat \<times> json \<times> ty
    + host \<times> checker \<times> nat \<times> json \<times> field_type list
    + host \<times> checker \<times> nat \<times> json \<times> ty \<times> string) \<Rightarrow> nat" where
  "wire_extent = (\<lambda>x. case x of
     Inl (_, _, _, j, _) \<Rightarrow> Suc (2 * size j)
   | Inr (Inl (_, _, _, j, _)) \<Rightarrow> 2 * size j
   | Inr (Inr (_, _, _, j, _)) \<Rightarrow> 2 * size j)"

definition wire_type :: "(host \<times> checker \<times> nat \<times> json \<times> ty
    + host \<times> checker \<times> nat \<times> json \<times> field_type list
    + host \<times> checker \<times> nat \<times> json \<times> ty \<times> string) \<Rightarrow> nat" where
  "wire_type = (\<lambda>x. case x of Inl (_, _, _, _, t) \<Rightarrow> size t | _ \<Rightarrow> 0)"

text \<open>
  \<open>decode\<close> is \<open>json_to_typed_value\<close>. A field of a structure gives no entry or one; a patch
  keeps the entries that its structure declares.
\<close>

function (sequential)
  decode :: "host \<Rightarrow> checker \<Rightarrow> nat \<Rightarrow> json \<Rightarrow> ty \<Rightarrow> (wire_error + val) option"
  and struct_from_json :: "host \<Rightarrow> checker \<Rightarrow> nat \<Rightarrow> json \<Rightarrow> field_type list
    \<Rightarrow> (wire_error + (string \<times> val) list) option"
  and variant_from_json :: "host \<Rightarrow> checker \<Rightarrow> nat \<Rightarrow> json \<Rightarrow> ty \<Rightarrow> string \<Rightarrow> (wire_error + val) option"
where
  "decode h c n j (Prim p) =
     (case p of Enum enum \<Rightarrow> variant_from_json h c n j (Prim p) enum | _ \<Rightarrow> prim_from_json h p j)"
| "decode h c n j (Optional t) = (if j = JNull then done_with VNull else decode h c n j t)"
| "decode h c n j (List t) =
     (case as_array j of
        None \<Rightarrow> fail Mismatch
      | Some js \<Rightarrow> seq (map_seq (\<lambda>i. decode h c n i t) js) (\<lambda>vs. done_with (VList vs)))"
| "decode h c n j (Tuple ts) =
     (case as_array j of
        None \<Rightarrow> fail Mismatch
      | Some js \<Rightarrow>
          if length js \<noteq> length ts then fail WrongLength
          else seq (map_seq (\<lambda>(i, t). decode h c n i t) (zip js ts)) (\<lambda>vs. done_with (VTuple vs)))"
| "decode h c n j (MapOf kt t) =
     (case as_object j of
        None \<Rightarrow> fail Mismatch
      | Some m \<Rightarrow>
          seq (map_seq (\<lambda>(k, i).
                 if kt = Prim IntTy \<and> parse_i64 k = None then fail (BadKey k)
                 else seq (decode h c n i t) (\<lambda>v. done_with (k, v))) m)
            (\<lambda>es. done_with (VStruct es)))"
| "decode h c n j (Struct name fs) =
     seq (struct_from_json h c n j fs) (\<lambda>es. constrain h c name (VStruct es))"
| "decode h c n j (Generic name args) =
     (case expand_generic_struct c n name args of
        None \<Rightarrow> None
      | Some (Inr fs) \<Rightarrow> seq (struct_from_json h c n j fs) (\<lambda>es. done_with (VStruct es))
      | Some (Inl _) \<Rightarrow> variant_from_json h c n j (Generic name args) name)"
| "decode h c n j (ResultOf t e) = variant_from_json h c n j (ResultOf t e) ''Result''"
| "decode h c n j (PatchOf t) =
     (case t of
        Struct name fs \<Rightarrow>
          (case as_object j of
             None \<Rightarrow> fail Mismatch
           | Some m \<Rightarrow>
               seq (map_seq (\<lambda>(k, i).
                      case find (\<lambda>f. ft_name f = k) fs of
                        None \<Rightarrow> done_with []
                      | Some f \<Rightarrow> seq (decode h c n i (ft_ty f)) (\<lambda>v. done_with [(k, v)])) m)
                 (\<lambda>ess. constrain h c name (VStruct (concat ess))))
      | _ \<Rightarrow> fail NoPatchStruct)"
| "decode h c n j (Union ts) = first_ok (\<lambda>t. decode h c n j t) Mismatch ts"
| "decode h c n j Null = done_with VNull"
| "decode h c n j Dynamic = done_with (json_to_value h j)"
| "decode h c n j _ = fail Unsupported"
| "struct_from_json h c n j fs =
     (case as_object j of
        None \<Rightarrow> fail Mismatch
      | Some m \<Rightarrow>
          seq (map_seq (\<lambda>f.
                 case map_of m (ft_name f) of
                   Some i \<Rightarrow> seq (decode h c n i (ft_ty f)) (\<lambda>v. done_with [(ft_name f, v)])
                 | None \<Rightarrow> if ft_optional f then done_with [] else fail (MissingField (ft_name f))) fs)
            (\<lambda>ess. done_with (concat ess)))"
| "variant_from_json h c n j t enum =
     (if all_unit c enum then unit_variant_from_json c enum j
      else case as_object j of
        None \<Rightarrow> fail Mismatch
      | Some m \<Rightarrow>
          (case Option.bind (map_of m ''type'') as_str of
             None \<Rightarrow> fail NoTag
           | Some variant \<Rightarrow>
               resolving (variant_field_types c n t enum variant) (\<lambda>declared.
                 seq (map_seq (\<lambda>(k, u).
                        case map_of m k of
                          None \<Rightarrow> fail (MissingField k)
                        | Some i \<Rightarrow> seq (decode h c n i u) (\<lambda>v. done_with (k, v))) declared)
                   (\<lambda>es. done_with (VVariant enum variant es)))))"
  by pat_completeness auto

termination
  by (relation "measures [wire_extent, wire_type]")
    (auto simp: wire_extent_def wire_type_def as_array_Some as_object_Some
      dest!: size_zipped size_map_of size_entry size_item size_member [where 'a = ty])

declare struct_from_json.simps [simp del] variant_from_json.simps [simp del]

end
