(* ===== verification/WireProps.thy ===== *)
theory WireProps
  imports Decode
begin

text \<open>
  What the border promises. \<open>on_wire\<close> is the specification: the values that may cross as a
  type, with the constraints of its declarations met. What decoding lets in is on the wire
  (\<open>decode_typed\<close>), and a value that is on the wire in the strict sense, without unions and
  \<open>Dynamic\<close>, survives the way out and back in (\<open>wire_round_trip\<close>).
\<close>

section \<open>Well-formed JSON\<close>

text \<open>
  What \<open>serde_json\<close> builds: an integer below zero is an \<open>i64\<close>, any other a \<open>u64\<close>, floats are
  finite and the keys of an object increase.
\<close>

definition sorted_keys :: "(string \<times> 'a) list \<Rightarrow> bool" where
  "sorted_keys m \<longleftrightarrow> sorted_wrt (<) (map fst m)"

fun wf_json :: "json \<Rightarrow> bool" where
  "wf_json (JNumber (PosInt n)) \<longleftrightarrow> n < 2 ^ 64"
| "wf_json (JNumber (NegInt n)) \<longleftrightarrow> i64_min \<le> n \<and> n < 0"
| "wf_json (JNumber (FloatNum f)) \<longleftrightarrow> f64_finite f"
| "wf_json (JArray js) \<longleftrightarrow> list_all wf_json js"
| "wf_json (JObject m) \<longleftrightarrow> sorted_keys m \<and> list_all (\<lambda>(k, j). wf_json j) m"
| "wf_json _ \<longleftrightarrow> True"

text \<open>
  What the conversions of Rust guarantee: an integer of 65 bits becomes a finite float, and
  a 32-bit float that is widened and narrowed is the same.
\<close>

definition host_ok :: "host \<Rightarrow> bool" where
  "host_ok h \<longleftrightarrow>
     (\<forall>n. \<bar>n\<bar> < 2 ^ 64 \<longrightarrow> f64_finite (h_of_int h n)) \<and>
     (\<forall>x. f64_finite (h_widen h x) \<longrightarrow> h_narrow h (h_widen h x) = x)"

section \<open>Objects\<close>

lemma obj_insert_keys [simp]: "set (map fst (obj_insert k v m)) = insert k (set (map fst m))"
  by (induction m rule: obj_insert.induct) auto

lemma obj_insert_set: "set (obj_insert k v m) \<subseteq> insert (k, v) (set m)"
  by (induction m rule: obj_insert.induct) auto

lemma obj_insert_sorted: "sorted_keys m \<Longrightarrow> sorted_keys (obj_insert k v m)"
proof (induction m rule: obj_insert.induct)
  case (2 k v l w m)
  then have s: "sorted_wrt (<) (map fst m)" "\<forall>x \<in> set (map fst m). l < x"
    by (simp_all add: sorted_keys_def)
  show ?case
    using 2 s obj_insert_keys [of k v m]
    by (auto simp: sorted_keys_def simp del: obj_insert_keys set_map intro: less_trans)
qed (simp add: sorted_keys_def)

lemma map_of_obj_insert: "sorted_keys m \<Longrightarrow> map_of (obj_insert k v m) = (map_of m) (k \<mapsto> v)"
proof (induction m rule: obj_insert.induct)
  case (2 k v l w m)
  then have "map_of ((l, w) # m) k = None" if "k < l"
    using that by (auto simp: sorted_keys_def map_of_eq_None_iff dest: less_trans)
  with 2 show ?case by (auto simp: sorted_keys_def fun_upd_twist)
qed simp

lemma to_object_snoc: "to_object (kvs @ [(k, v)]) = obj_insert k v (to_object kvs)"
  by (simp add: to_object_def)

lemma to_object_sorted: "sorted_keys (to_object kvs)"
  by (induction kvs rule: rev_induct)
    (auto simp: to_object_snoc obj_insert_sorted, simp add: to_object_def sorted_keys_def)

lemma map_of_to_object: "map_of (to_object kvs) = map_of (rev kvs)"
  by (induction kvs rule: rev_induct)
    (auto simp: to_object_snoc map_of_obj_insert to_object_sorted, simp add: to_object_def)

lemma map_of_to_object_distinct: "distinct (map fst kvs) \<Longrightarrow> map_of (to_object kvs) = map_of kvs"
  by (simp add: map_of_to_object map_of_inject_set flip: rev_map)

lemma obj_insert_last: "list_all (\<lambda>(l, _). l < k) m \<Longrightarrow> obj_insert k v m = m @ [(k, v)]"
proof (induction m)
  case (Cons e m)
  obtain l w where e: "e = (l, w)" by (cases e)
  with Cons.prems have "l < k" by simp
  then have "k \<noteq> l" "\<not> k < l" by auto
  with Cons e show ?case by simp
qed simp

lemma to_object_sorted_id: "sorted_keys kvs \<Longrightarrow> to_object kvs = kvs"
proof (induction kvs rule: rev_induct)
  case (snoc e m)
  obtain k v where e: "e = (k, v)" by (cases e)
  with snoc.prems have m: "sorted_keys m" "\<forall>l \<in> set (map fst m). l < k"
    by (simp_all add: sorted_keys_def sorted_wrt_append)
  then have "list_all (\<lambda>(l, _). l < k) m" by (auto simp: list_all_iff)
  with snoc.IH [OF m(1)] e show ?case by (simp add: to_object_snoc obj_insert_last)
qed (simp add: to_object_def)

section \<open>Sequences\<close>

lemma map_seq_Inr: "map_seq f xs = Some (Inr ys) \<longleftrightarrow> list_all2 (\<lambda>x y. f x = Some (Inr y)) xs ys"
  by (induction xs arbitrary: ys) (auto simp: seq_eq_Inr done_with_def list_all2_Cons1)

lemma first_ok_Inr: "first_ok f e xs = Some (Inr y) \<Longrightarrow> \<exists>x \<in> set xs. f x = Some (Inr y)"
  by (induction xs) (auto simp: seq_defs split: option.splits sum.splits)

section \<open>Values on the wire\<close>

definition prim_value :: "host \<Rightarrow> bool \<Rightarrow> prim \<Rightarrow> val \<Rightarrow> bool" where
  "prim_value h strict p v =
     (case v of
        VInt n \<Rightarrow> p = IntTy \<and> in_i64 n
      | VInt64 n \<Rightarrow> p = Int64 \<and> in_i64 n
      | VDecimal n \<Rightarrow> p = Decimal \<and> in_i128 n \<and> n \<noteq> i128_min
      | VTimestamp t \<Rightarrow> p = Timestamp \<and> - 62167219200000 \<le> t \<and> t \<le> 253402300799999
      | VFloat f \<Rightarrow> p = Float \<and> f64_finite f
      | VStr s \<Rightarrow> p = String
      | VUuid s \<Rightarrow> p = Uuid \<and> is_canonical_uuid s
      | VVector xs \<Rightarrow>
          p = Vector (length xs) \<and> (strict \<longrightarrow> list_all (\<lambda>x. f64_finite (h_widen h x)) xs)
      | VBool b \<Rightarrow> p = Bool
      | VNull \<Rightarrow> p = Void
      | _ \<Rightarrow> False)"

text \<open>The enum that a type is an instance of.\<close>

definition enum_of :: "checker \<Rightarrow> nat \<Rightarrow> ty \<Rightarrow> string option" where
  "enum_of c n t =
     (case t of
        Prim (Enum enum) \<Rightarrow> Some enum
      | ResultOf _ _ \<Rightarrow> Some ''Result''
      | Generic name args \<Rightarrow>
          (case expand_generic_struct c n name args of Some (Inl _) \<Rightarrow> Some name | _ \<Rightarrow> None)
      | _ \<Rightarrow> None)"

inductive on_wire :: "host \<Rightarrow> checker \<Rightarrow> nat \<Rightarrow> bool \<Rightarrow> ty \<Rightarrow> val \<Rightarrow> bool"
  and has_fields :: "host \<Rightarrow> checker \<Rightarrow> nat \<Rightarrow> bool \<Rightarrow> field_type list \<Rightarrow> (string \<times> val) list \<Rightarrow> bool"
  for h c n strict
where
  prim: "prim_value h strict p v \<Longrightarrow> on_wire h c n strict (Prim p) v"
| null: "on_wire h c n strict Null VNull"
| absent: "on_wire h c n strict (Optional t) VNull"
| present: "on_wire h c n strict t v \<Longrightarrow> on_wire h c n strict (Optional t) v"
| list: "list_all (on_wire h c n strict t) vs \<Longrightarrow> on_wire h c n strict (List t) (VList vs)"
| tuple: "list_all2 (on_wire h c n strict) ts vs \<Longrightarrow> on_wire h c n strict (Tuple ts) (VTuple vs)"
| map: "sorted_keys es \<Longrightarrow> kt = Prim IntTy \<longrightarrow> list_all (\<lambda>(k, _). parse_i64 k \<noteq> None) es \<Longrightarrow>
    list_all (\<lambda>(_, v). on_wire h c n strict t v) es \<Longrightarrow>
    on_wire h c n strict (MapOf kt t) (VStruct es)"
| struct: "has_fields h c n strict fs es \<Longrightarrow>
    constrain h c name (VStruct es) = done_with (VStruct es) \<Longrightarrow>
    strict \<longrightarrow> distinct (map ft_name fs) \<Longrightarrow>
    on_wire h c n strict (Struct name fs) (VStruct es)"
| generic: "expand_generic_struct c n name args = done_with fs \<Longrightarrow>
    has_fields h c n strict fs es \<Longrightarrow> strict \<longrightarrow> distinct (map ft_name fs) \<Longrightarrow>
    on_wire h c n strict (Generic name args) (VStruct es)"
| patch: "list_all (\<lambda>(k, v). \<exists>f. find (\<lambda>f. ft_name f = k) fs = Some f \<and>
      on_wire h c n strict (ft_ty f) v) es \<Longrightarrow> sorted_keys es \<Longrightarrow>
    constrain h c name (VStruct es) = done_with (VStruct es) \<Longrightarrow>
    on_wire h c n strict (PatchOf (Struct name fs)) (VStruct es)"
| unit_variant: "enum_of c n t = Some enum \<Longrightarrow> all_unit c enum \<Longrightarrow>
    enum_variant_names c enum = Inr names \<Longrightarrow> variant \<in> set names \<Longrightarrow>
    on_wire h c n strict t (VVariant enum variant [])"
| variant: "enum_of c n t = Some enum \<Longrightarrow> \<not> all_unit c enum \<Longrightarrow>
    variant_field_types c n t enum variant = done_with declared \<Longrightarrow>
    map fst es = map fst declared \<Longrightarrow>
    list_all2 (on_wire h c n strict) (map snd declared) (map snd es) \<Longrightarrow>
    strict \<longrightarrow> distinct (''type'' # map fst declared) \<Longrightarrow>
    on_wire h c n strict t (VVariant enum variant es)"
| union: "t \<in> set ts \<Longrightarrow> on_wire h c n strict t v \<Longrightarrow> \<not> strict \<Longrightarrow> on_wire h c n strict (Union ts) v"
| dynamic: "\<not> strict \<Longrightarrow> on_wire h c n strict Dynamic v"
| no_fields: "has_fields h c n strict [] []"
| field: "on_wire h c n strict (ft_ty f) v \<Longrightarrow> has_fields h c n strict fs es \<Longrightarrow>
    has_fields h c n strict (f # fs) ((ft_name f, v) # es)"
| no_field: "ft_optional f \<Longrightarrow> has_fields h c n strict fs es \<Longrightarrow> has_fields h c n strict (f # fs) es"
monos list.pred_mono_strong

inductive_cases on_wire_Optional: "on_wire h c n strict (Optional t) v"

section \<open>What comes in\<close>

lemma as_i64_range: "as_i64 j = Some n \<Longrightarrow> wf_json j \<Longrightarrow> in_i64 n"
  by (cases j; cases "case j of JNumber x \<Rightarrow> x")
    (auto simp: as_i64_def in_i64_def i64_min_def i64_max_def split: if_splits)

lemma as_f64_finite: "as_f64 h j = Some f \<Longrightarrow> wf_json j \<Longrightarrow> host_ok h \<Longrightarrow> f64_finite f"
  by (cases j; cases "case j of JNumber x \<Rightarrow> x")
    (auto simp: as_f64_def host_ok_def i64_min_def split: if_splits)

lemma or_mismatch_Inr: "or_mismatch f x = Some (Inr v) \<longleftrightarrow> (\<exists>a. x = Some a \<and> v = f a)"
  by (cases x) (auto simp: or_mismatch_def)

lemma those_length: "those xs = Some ys \<Longrightarrow> length ys = length xs"
  by (induction xs arbitrary: ys) (auto split: option.splits)

lemma prim_from_json_typed:
  assumes "prim_from_json h p j = Some (Inr v)" "wf_json j" "host_ok h"
  shows "prim_value h False p v"
  using assms(1)
  by (cases p)
    (auto simp: prim_from_json_def prim_value_def or_mismatch_Inr bind_Some seq_defs
      dest: as_i64_range [OF _ assms(2)] as_f64_finite [OF _ assms(2,3)] parse_i64_in_i64
        parse_decimal_range parse_iso_range those_length
      split: option.splits if_splits)

lemma json_part:
  "wf_json (JArray js) \<Longrightarrow> i \<in> set js \<Longrightarrow> wf_json i"
  "wf_json (JObject m) \<Longrightarrow> (k, i) \<in> set m \<Longrightarrow> wf_json i"
  by (auto simp: list_all_iff)

lemma list_all_all2: "list_all2 R xs ys \<Longrightarrow> (\<And>x y. x \<in> set xs \<Longrightarrow> R x y \<Longrightarrow> P y) \<Longrightarrow> list_all P ys"
  by (induction rule: list_all2_induct) auto

lemma map_fst_all2: "list_all2 R xs ys \<Longrightarrow> (\<And>x y. R x y \<Longrightarrow> fst y = fst x) \<Longrightarrow> map fst ys = map fst xs"
  by (induction rule: list_all2_induct) auto

lemma has_fields_all2:
  "list_all2 (\<lambda>f es. (\<exists>v. es = [(ft_name f, v)] \<and> on_wire h c n strict (ft_ty f) v) \<or> (es = [] \<and> ft_optional f)) fs ess \<Longrightarrow>
     has_fields h c n strict fs (concat ess)"
  by (induction rule: list_all2_induct) (auto intro: on_wire_has_fields.intros)

text \<open>What an answer of the decoder comes from, arm by arm.\<close>

lemma fail_Inr [simp]: "fail e \<noteq> Some (Inr y)"
  by (simp add: fail_def)

lemma done_with_Inr [simp]: "done_with x = Some (Inr y) \<longleftrightarrow> x = y"
  by (simp add: done_with_def)

lemma done_with_inject [simp]: "done_with x = done_with y \<longleftrightarrow> x = y"
  by (simp add: done_with_def)

lemma if_fail_Inr: "(if b then fail e else m) = Some (Inr y) \<longleftrightarrow> \<not> b \<and> m = Some (Inr y)"
  by simp

lemma case_fail_Inr:
  "(case x of None \<Rightarrow> fail e | Some i \<Rightarrow> f i) = Some (Inr y) \<longleftrightarrow> (\<exists>i. x = Some i \<and> f i = Some (Inr y))"
  by (cases x) simp_all

lemma entry_Inr: "seq m (\<lambda>v. done_with (k, v)) = Some (Inr e) \<longleftrightarrow> fst e = k \<and> m = Some (Inr (snd e))"
  by (cases e) (auto simp: seq_eq_Inr)

lemma single_Inr: "seq m (\<lambda>v. done_with [(k, v)]) = Some (Inr es) \<longleftrightarrow> (\<exists>v. es = [(k, v)] \<and> m = Some (Inr v))"
  by (auto simp: seq_eq_Inr)

lemma constrain_Inr: "constrain h c name v = Some (Inr w) \<longleftrightarrow> w = v \<and> constrain h c name v = done_with v"
  by (auto simp: done_with_def dest: constrain_keeps)

lemmas answers = case_fail_Inr if_fail_Inr entry_Inr single_Inr seq_eq_Inr map_seq_Inr as_array_Some
  as_object_Some case_prod_beta

lemma decode_List:
  "decode h c n j (List t) = Some (Inr v) \<longleftrightarrow>
     (\<exists>js vs. j = JArray js \<and> v = VList vs \<and> list_all2 (\<lambda>i u. decode h c n i t = Some (Inr u)) js vs)"
  by (auto simp: answers)

lemma decode_Tuple:
  "decode h c n j (Tuple ts) = Some (Inr v) \<longleftrightarrow>
     (\<exists>js vs. j = JArray js \<and> v = VTuple vs \<and> length js = length ts \<and>
        list_all2 (\<lambda>x u. decode h c n (fst x) (snd x) = Some (Inr u)) (zip js ts) vs)"
  by (auto simp: answers)

lemma decode_MapOf:
  "decode h c n j (MapOf kt t) = Some (Inr v) \<longleftrightarrow>
     (\<exists>m es. j = JObject m \<and> v = VStruct es \<and>
        list_all2 (\<lambda>x e. \<not> (kt = Prim IntTy \<and> parse_i64 (fst x) = None) \<and> fst e = fst x \<and>
          decode h c n (snd x) t = Some (Inr (snd e))) m es)"
  by (simp add: answers cong: conj_cong) blast

lemma decode_Struct:
  "decode h c n j (Struct name fs) = Some (Inr v) \<longleftrightarrow>
     (\<exists>es. struct_from_json h c n j fs = Some (Inr es) \<and> v = VStruct es \<and>
        constrain h c name (VStruct es) = done_with (VStruct es))"
  by (simp add: seq_eq_Inr constrain_Inr [where w = v])

definition field_answer :: "host \<Rightarrow> checker \<Rightarrow> nat \<Rightarrow> (string \<times> json) list \<Rightarrow> field_type \<Rightarrow> (string \<times> val) list \<Rightarrow> bool" where
  "field_answer h c n m f es \<longleftrightarrow>
     (case map_of m (ft_name f) of
        Some i \<Rightarrow> (\<exists>v. es = [(ft_name f, v)] \<and> decode h c n i (ft_ty f) = Some (Inr v))
      | None \<Rightarrow> es = [] \<and> ft_optional f)"

lemma struct_from_json_answer:
  "struct_from_json h c n j fs = Some (Inr es) \<longleftrightarrow>
     (\<exists>m ess. j = JObject m \<and> es = concat ess \<and> list_all2 (field_answer h c n m) fs ess)"
proof -
  have "(\<lambda>f es. (case map_of m (ft_name f) of
       Some i \<Rightarrow> seq (decode h c n i (ft_ty f)) (\<lambda>v. done_with [(ft_name f, v)])
     | None \<Rightarrow> if ft_optional f then done_with [] else fail (MissingField (ft_name f))) = Some (Inr es))
     = field_answer h c n m" for m
    by (intro ext) (auto simp: field_answer_def single_Inr split: option.split)
  then show ?thesis by (auto simp: answers struct_from_json.simps)
qed

lemma variant_from_json_answer:
  "variant_from_json h c n j t enum = Some (Inr v) \<longleftrightarrow>
     (if all_unit c enum then unit_variant_from_json c enum j = Some (Inr v)
      else \<exists>m variant declared es. j = JObject m \<and> map_of m ''type'' = Some (JString variant) \<and>
        variant_field_types c n t enum variant = done_with declared \<and> v = VVariant enum variant es \<and>
        list_all2 (\<lambda>x e. \<exists>i. map_of m (fst x) = Some i \<and> fst e = fst x \<and>
          decode h c n i (snd x) = Some (Inr (snd e))) declared es)"
proof -
  have "as_str i = Some s \<longleftrightarrow> i = JString s" for i s
    by (cases i) (auto simp: as_str_def)
  then have "Option.bind x as_str = Some s \<longleftrightarrow> x = Some (JString s)" for x s
    by (simp add: bind_Some)
  moreover have "resolving x f = Some (Inr v) \<longleftrightarrow> (\<exists>y. x = done_with y \<and> f y = Some (Inr v))"
    for x :: "(check_error + (string \<times> ty) list) option" and f
    by (auto simp: resolving_def done_with_def split: option.split sum.split)
  ultimately show ?thesis
    by (auto simp: answers variant_from_json.simps)
qed

lemma unit_variant_answer:
  "unit_variant_from_json c enum j = Some (Inr v) \<longleftrightarrow>
     (\<exists>s names. j = JString s \<and> enum_variant_names c enum = Inr names \<and> s \<in> set names \<and>
        v = VVariant enum s [])"
  by (cases j) (auto simp: unit_variant_from_json_def as_str_def split: sum.split)

lemma decode_Generic:
  "decode h c n j (Generic name args) = Some (Inr v) \<longleftrightarrow>
     (\<exists>fs es. expand_generic_struct c n name args = done_with fs \<and> v = VStruct es \<and>
        struct_from_json h c n j fs = Some (Inr es)) \<or>
     enum_of c n (Generic name args) = Some name \<and>
       variant_from_json h c n j (Generic name args) name = Some (Inr v)"
  by (auto simp: enum_of_def seq_eq_Inr done_with_def split: option.split sum.split)

lemmas wire_intros = on_wire_has_fields.intros

text \<open>An entry of a patch for each declared key.\<close>

definition patch_answer :: "field_type list \<Rightarrow> (string \<times> 'a \<Rightarrow> field_type \<Rightarrow> val \<Rightarrow> bool) \<Rightarrow> string \<times> 'a
    \<Rightarrow> (string \<times> val) list \<Rightarrow> bool" where
  "patch_answer fs P x es \<longleftrightarrow>
     (case find (\<lambda>f. ft_name f = fst x) fs of
        None \<Rightarrow> es = []
      | Some f \<Rightarrow> (\<exists>u. es = [(fst x, u)] \<and> P x f u))"

lemma patch_answer_cases:
  assumes "patch_answer fs P x es"
  obtains "es = []" "find (\<lambda>f. ft_name f = fst x) fs = None"
  | f u where "es = [(fst x, u)]" "find (\<lambda>f. ft_name f = fst x) fs = Some f" "P x f u"
  using assms by (auto simp: patch_answer_def split: option.splits)

lemma patch_keys:
  assumes "list_all2 (patch_answer fs P) m ess"
  shows "set (map fst (concat ess)) \<subseteq> set (map fst m)"
  using assms
proof (induction rule: list_all2_induct)
  case (Cons x m es ess)
  from Cons.hyps(1) show ?case by (cases rule: patch_answer_cases) (use Cons.IH in auto)
qed simp

lemma patch_sorted:
  assumes "list_all2 (patch_answer fs P) m ess"
  shows "sorted_keys m \<Longrightarrow> sorted_keys (concat ess)"
  using assms
proof (induction rule: list_all2_induct)
  case (Cons x m es ess)
  then have s: "sorted_keys (concat ess)" by (simp add: sorted_keys_def)
  from Cons.hyps(1) show ?case
  proof (cases rule: patch_answer_cases)
    case (2 f u)
    have "\<forall>k \<in> set (map fst m). fst x < k" using Cons.prems by (simp add: sorted_keys_def)
    then have "\<forall>k \<in> set (map fst (concat ess)). fst x < k" using patch_keys [OF Cons.hyps(2)] by blast
    with 2 s show ?thesis by (simp add: sorted_keys_def)
  qed (use s in simp)
qed (simp add: sorted_keys_def)

lemma patch_entry:
  assumes "list_all2 (patch_answer fs P) m ess" "(k, v) \<in> set (concat ess)"
  shows "\<exists>f i. find (\<lambda>f. ft_name f = k) fs = Some f \<and> (k, i) \<in> set m \<and> P (k, i) f v"
  using assms
proof (induction rule: list_all2_induct)
  case (Cons x m es ess)
  from Cons.hyps(1) show ?case
    by (cases rule: patch_answer_cases; cases x) (use Cons in auto)
qed simp

lemma decode_PatchOf:
  "decode h c n j (PatchOf t) = Some (Inr v) \<longleftrightarrow>
     (\<exists>name fs m ess. t = Struct name fs \<and> j = JObject m \<and> v = VStruct (concat ess) \<and>
        constrain h c name v = done_with v \<and>
        list_all2 (patch_answer fs (\<lambda>x f u. decode h c n (snd x) (ft_ty f) = Some (Inr u))) m ess)"
proof -
  have "(\<lambda>x es. (case find (\<lambda>f. ft_name f = fst x) fs of
       None \<Rightarrow> done_with []
     | Some f \<Rightarrow> seq (decode h c n (snd x) (ft_ty f)) (\<lambda>v. done_with [(fst x, v)])) = Some (Inr es))
     = patch_answer fs (\<lambda>x f u. decode h c n (snd x) (ft_ty f) = Some (Inr u))" for fs
    by (intro ext) (auto simp: patch_answer_def single_Inr split: option.split)
  then show ?thesis
    by (cases t) (auto simp: answers constrain_Inr [where w = v])
qed

lemma decode_on_wire:
  shows "host_ok h \<Longrightarrow> wf_json j \<Longrightarrow> decode h c n j t = Some (Inr v) \<Longrightarrow> on_wire h c n False t v"
    and "host_ok h \<Longrightarrow> wf_json j \<Longrightarrow> struct_from_json h c n j fs = Some (Inr es) \<Longrightarrow>
      has_fields h c n False fs es"
    and "host_ok h \<Longrightarrow> wf_json j \<Longrightarrow> variant_from_json h c n j t enum = Some (Inr v) \<Longrightarrow>
      enum_of c n t = Some enum \<Longrightarrow> on_wire h c n False t v"
proof (induction h c n j t and h c n j fs and h c n j t enum arbitrary: v and es and v
    rule: decode_struct_from_json_variant_from_json.induct)
  case (1 h c n j p)
  then show ?case
    by (cases p) (auto intro: wire_intros prim_from_json_typed simp: enum_of_def)
next
  case (2 h c n j t)
  then show ?case by (auto intro: wire_intros split: if_splits)
next
  case (3 h c n j t)
  then obtain js vs where v: "j = JArray js" "v = VList vs"
    "list_all2 (\<lambda>i u. decode h c n i t = Some (Inr u)) js vs"
    by (auto simp only: decode_List)
  have "list_all (on_wire h c n False t) vs"
    by (rule list_all_all2 [OF v(3)]) (use 3 v(1) json_part in \<open>auto simp: as_array_Some\<close>)
  with v show ?case by (auto intro: wire_intros)
next
  case (4 h c n j ts)
  then obtain js vs where v: "j = JArray js" "v = VTuple vs" "length js = length ts"
    "list_all2 (\<lambda>x u. decode h c n (fst x) (snd x) = Some (Inr u)) (zip js ts) vs"
    by (auto simp only: decode_Tuple)
  have "on_wire h c n False (ts ! i) (vs ! i)" if "i < length ts" for i
  proof -
    have "(js ! i, ts ! i) \<in> set (zip js ts)" using that v(3) by (auto simp: in_set_zip)
    moreover have "decode h c n (js ! i) (ts ! i) = Some (Inr (vs ! i))"
      using list_all2_nthD [OF v(4), of i] that v(3) by simp
    moreover have "wf_json (js ! i)" using 4 v that by (auto simp: list_all_iff)
    ultimately show ?thesis using 4 v by (auto simp: as_array_Some)
  qed
  with v show ?case
    by (auto intro!: wire_intros simp: list_all2_conv_all_nth)
next
  case (5 h c n j kt t)
  then obtain m es where v: "j = JObject m" "v = VStruct es"
    "list_all2 (\<lambda>x e. \<not> (kt = Prim IntTy \<and> parse_i64 (fst x) = None) \<and> fst e = fst x \<and>
          decode h c n (snd x) t = Some (Inr (snd e))) m es"
    by (auto simp only: decode_MapOf)
  have "map fst es = map fst m"
    using v(3) by (rule map_fst_all2) simp
  then have "sorted_keys es" using 5 v(1) by (simp add: sorted_keys_def)
  moreover have "list_all (\<lambda>e. (kt = Prim IntTy \<longrightarrow> parse_i64 (fst e) \<noteq> None) \<and> on_wire h c n False t (snd e)) es"
    by (rule list_all_all2 [OF v(3)]) (use 5 v(1) json_part(2) in \<open>fastforce simp: as_object_Some\<close>)
  ultimately show ?case
    unfolding v by (intro on_wire_has_fields.map) (auto simp: list_all_iff)
next
  case (6 h c n j name fs)
  then show ?case by (auto simp only: decode_Struct intro!: wire_intros)
next
  case (7 h c n j name args)
  then show ?case
    by (auto simp only: decode_Generic intro: wire_intros) (auto simp: done_with_def enum_of_def intro: wire_intros split: option.splits sum.splits)
next
  case (8 h c n j t e)
  then show ?case by (simp add: enum_of_def)
next
  case (9 h c n j t)
  then obtain name fs m ess where v: "t = Struct name fs" "j = JObject m" "v = VStruct (concat ess)"
    "constrain h c name v = done_with v"
    "list_all2 (patch_answer fs (\<lambda>x f u. decode h c n (snd x) (ft_ty f) = Some (Inr u))) m ess"
    by (auto simp only: decode_PatchOf)
  have "\<exists>f. find (\<lambda>f. ft_name f = k) fs = Some f \<and> on_wire h c n False (ft_ty f) u"
    if e: "(k, u) \<in> set (concat ess)" for k u
  proof -
    from patch_entry [OF v(5) e] obtain f i where f: "find (\<lambda>f. ft_name f = k) fs = Some f" "(k, i) \<in> set m"
      "decode h c n i (ft_ty f) = Some (Inr u)" by auto
    then have "wf_json i" using 9 v(2) json_part(2) by blast
    with f v 9 show ?thesis by (auto simp: as_object_Some)
  qed
  then have "list_all (\<lambda>(k, u). \<exists>f. find (\<lambda>f. ft_name f = k) fs = Some f \<and>
      on_wire h c n False (ft_ty f) u) (concat ess)"
    by (auto simp: list_all_iff simp del: set_concat)
  with v patch_sorted [OF v(5)] 9 show ?case by (auto intro!: wire_intros)
next
  case (10 h c n j ts)
  then show ?case by (auto dest!: first_ok_Inr intro: wire_intros)
next
  case (14 h c n j fs)
  then obtain m ess where v: "j = JObject m" "es = concat ess" "list_all2 (field_answer h c n m) fs ess"
    by (auto simp only: struct_from_json_answer)
  have "on_wire h c n False (ft_ty f) u"
    if "f \<in> set fs" "map_of m (ft_name f) = Some i" "decode h c n i (ft_ty f) = Some (Inr u)" for f i u
    using that 14 v(1) json_part(2) [OF _ map_of_SomeD [OF that(2)]] by (auto simp: as_object_Some)
  then show ?case
    unfolding v(2)
    by (intro has_fields_all2 list.rel_mono_strong [OF v(3)])
      (auto simp: field_answer_def split: option.splits)
next
  case (15 h c n j t enum)
  show ?case
  proof (cases "all_unit c enum")
    case True
    with 15 show ?thesis by (auto simp: variant_from_json_answer unit_variant_answer intro: wire_intros)
  next
    case False
    with 15 obtain m variant declared es where v: "j = JObject m" "map_of m ''type'' = Some (JString variant)"
      "variant_field_types c n t enum variant = done_with declared" "v = VVariant enum variant es"
      "list_all2 (\<lambda>x e. \<exists>i. map_of m (fst x) = Some i \<and> fst e = fst x \<and>
          decode h c n i (snd x) = Some (Inr (snd e))) declared es"
      by (auto simp: variant_from_json_answer)
    have "map fst es = map fst declared"
      using v(5) by (rule map_fst_all2) auto
    moreover have "list_all2 (on_wire h c n False) (map snd declared) (map snd es)"
      unfolding list_all2_map1 list_all2_map2
      by (rule list.rel_mono_strong [OF v(5)])
        (use False 15 v json_part(2) [OF _ map_of_SomeD] in \<open>fastforce simp: as_object_Some as_str_def done_with_def\<close>)
    ultimately show ?thesis
      using False 15 v by (auto intro: wire_intros)
  qed
qed (auto intro: wire_intros)

section \<open>What goes out and comes back\<close>

lemma has_fields_keys:
  "on_wire h c n strict t v \<Longrightarrow> True"
  "has_fields h c n strict fs es \<Longrightarrow> set (map fst es) \<subseteq> set (map ft_name fs) \<and>
     (distinct (map ft_name fs) \<longrightarrow> distinct (map fst es))"
  by (induction rule: on_wire_has_fields.inducts) auto

lemma null_json:
  "on_wire h c n strict t v \<Longrightarrow> strict \<Longrightarrow> value_to_json h simple v = JNull \<Longrightarrow> v = VNull"
  "has_fields h c n strict fs es \<Longrightarrow> True"
  by (induction rule: on_wire_has_fields.inducts)
    (auto simp: prim_value_def json_int_def json_float_def split: val.splits if_splits)

lemma enum_of_decode: "enum_of c n t = Some enum \<Longrightarrow> decode h c n j t = variant_from_json h c n j t enum"
  by (auto simp: enum_of_def split: ty.splits prim.splits option.splits sum.splits)

lemma those_map_Some: "(\<And>x. x \<in> set xs \<Longrightarrow> f x = Some (g x)) \<Longrightarrow> those (map f xs) = Some (map g xs)"
  by (induction xs) auto

lemma prim_out_and_in:
  assumes "prim_value h True p v" "host_ok h"
  shows "decode h c n (value_to_json h simple v) (Prim p) = Some (Inr v)"
proof (cases v)
  case (VVector xs)
  with assms have "list_all (\<lambda>x. f64_finite (h_widen h x) \<and> h_narrow h (h_widen h x) = x) xs"
    by (auto simp: prim_value_def list_all_iff host_ok_def)
  then have "those (map (as_f64 h) (map (\<lambda>x. json_float (h_widen h x)) xs)) = Some (map (h_widen h) xs)"
    "map (h_narrow h) (map (h_widen h) xs) = xs"
    by (auto simp: list_all_iff as_f64_def json_float_def intro!: those_map_Some map_idI)
  with VVector assms show ?thesis
    by (simp add: prim_value_def prim_from_json_def as_array_def or_mismatch_def del: map_map)
qed (use assms in \<open>auto simp: prim_value_def prim_from_json_def or_mismatch_def as_i64_def json_int_def
   json_float_def as_str_def as_f64_def as_json_bool_def parse_show_int format_decimal_parses format_parses
   in_i64_def done_with_def\<close>)

lemma head_name: "distinct (map ft_name (f # fs)) \<Longrightarrow> g \<in> set fs \<Longrightarrow> ft_name g \<noteq> ft_name f"
  by (metis distinct.simps(2) image_eqI list.map(2) list.set_map)

lemma field_answers:
  assumes "has_fields h c n strict fs es" "distinct (map ft_name fs)"
    and "\<And>f v. f \<in> set fs \<Longrightarrow> map_of es (ft_name f) = Some v \<Longrightarrow>
      \<exists>i. map_of m (ft_name f) = Some i \<and> decode h c n i (ft_ty f) = Some (Inr v)"
    and "\<And>f. f \<in> set fs \<Longrightarrow> map_of es (ft_name f) = None \<Longrightarrow> map_of m (ft_name f) = None"
  shows "\<exists>ess. es = concat ess \<and> list_all2 (field_answer h c n m) fs ess"
  using assms
proof (induction fs arbitrary: es)
  case Nil
  then show ?case by (auto elim: has_fields.cases)
next
  case (Cons f fs)
  from Cons.prems(1) show ?case
  proof (cases rule: has_fields.cases)
    case (field v es')
    note other = head_name [OF Cons.prems(2)]
    obtain ess where "es' = concat ess" "list_all2 (field_answer h c n m) fs ess"
      using Cons.IH [of es'] field Cons.prems(2-4) other by fastforce
    moreover have "field_answer h c n m f [(ft_name f, v)]"
      using Cons.prems(3) [of f v] field by (auto simp: field_answer_def)
    ultimately show ?thesis using field by (intro exI [of _ "[(ft_name f, v)] # ess"]) simp
  next
    case no_field
    then have "map_of es (ft_name f) = None"
      using has_fields_keys(2) [OF no_field(2)] Cons.prems(2) by (auto simp: map_of_eq_None_iff)
    with Cons.prems(4) [of f] no_field have "field_answer h c n m f []" by (simp add: field_answer_def)
    moreover obtain ess where "es = concat ess" "list_all2 (field_answer h c n m) fs ess"
      using Cons.IH [of es] no_field Cons.prems(2-4) by fastforce
    ultimately show ?thesis by (intro exI [of _ "[] # ess"]) simp
  qed
qed

text \<open>The JSON of the entries of a structure.\<close>

abbreviation out_entries :: "host \<Rightarrow> (string \<Rightarrow> bool) \<Rightarrow> (string \<times> val) list \<Rightarrow> (string \<times> json) list" where
  "out_entries h simple es \<equiv> map (\<lambda>(k, v). (k, value_to_json h simple v)) es"

lemma map_fst_out [simp]: "map fst (out_entries h simple es) = map fst es"
  by (simp add: case_prod_beta)

lemma map_of_out: "map_of (out_entries h simple es) k = map_option (value_to_json h simple) (map_of es k)"
  by (induction es) auto

lemma map_of_to_object_out:
  "distinct (map fst es) \<Longrightarrow>
     map_of (to_object (out_entries h simple es)) k = map_option (value_to_json h simple) (map_of es k)"
  by (subst map_of_to_object_distinct) (simp_all only: map_fst_out map_of_out)

lemma struct_out_and_in:
  assumes "has_fields h c n strict fs es" "distinct (map ft_name fs)"
    and "\<forall>f v. f \<in> set fs \<and> map_of es (ft_name f) = Some v \<longrightarrow>
         decode h c n (value_to_json h simple v) (ft_ty f) = Some (Inr v)"
  shows "struct_from_json h c n (JObject (to_object (out_entries h simple es))) fs = Some (Inr es)"
proof -
  have "map_of (to_object (out_entries h simple es)) k = map_option (value_to_json h simple) (map_of es k)" for k
    using has_fields_keys(2) [OF assms(1)] assms(2) by (simp only: map_of_to_object_out)
  then show ?thesis
    unfolding struct_from_json_answer using field_answers [OF assms(1,2)] assms(3) by simp
qed

lemma out_and_in:
  assumes "host_ok h"
  shows "on_wire h c n strict t v \<Longrightarrow> strict \<Longrightarrow> decode h c n (value_to_json h (all_unit c) v) t = Some (Inr v)"
    and "has_fields h c n strict fs es \<Longrightarrow> strict \<Longrightarrow> distinct (map ft_name fs) \<Longrightarrow>
      (\<forall>f v. f \<in> set fs \<and> map_of es (ft_name f) = Some v \<longrightarrow>
         decode h c n (value_to_json h (all_unit c) v) (ft_ty f) = Some (Inr v))"
proof (induction rule: on_wire_has_fields.inducts)
  case (prim p v)
  then show ?case using prim_out_and_in [OF _ assms] by (simp del: decode.simps)
next
  case (present t v)
  then show ?case
    using null_json(1) [OF present(1)] by auto
next
  case (list t vs)
  then show ?case
    by (auto simp: decode_List list_all2_conv_all_nth list_all_length simp del: decode.simps)
next
  case (tuple ts vs)
  then show ?case
    by (auto simp: decode_Tuple list_all2_conv_all_nth simp del: decode.simps)
next
  case (map es kt t)
  then have "to_object (out_entries h (all_unit c) es) = out_entries h (all_unit c) es"
    by (intro to_object_sorted_id) (simp add: sorted_keys_def case_prod_beta comp_def)
  with map show ?case
    by (force simp: decode_MapOf list_all_length list_all2_conv_all_nth case_prod_beta simp del: decode.simps)
next
  case (struct fs es name)
  then show ?case
    using struct_out_and_in [of h c n strict fs es] by (simp add: decode_Struct del: decode.simps)
next
  case (generic name args fs es)
  then show ?case
    using struct_out_and_in [of h c n strict fs es] by (simp add: decode_Generic del: decode.simps)
next
  case (patch fs es name)
  then have id: "to_object (out_entries h (all_unit c) es) = out_entries h (all_unit c) es"
    by (intro to_object_sorted_id) (simp add: sorted_keys_def case_prod_beta comp_def)
  have "list_all2 (patch_answer fs (\<lambda>x f u. decode h c n (snd x) (ft_ty f) = Some (Inr u)))
      (out_entries h (all_unit c) es) (map (\<lambda>e. [e]) es)"
    using patch
    by (auto simp: list_all2_conv_all_nth list_all_length patch_answer_def case_prod_beta simp del: decode.simps)
  moreover have "concat (map (\<lambda>e. [e]) es) = es" by (induction es) auto
  ultimately show ?case
    unfolding decode_PatchOf
    by (intro exI [of _ name] exI [of _ fs] exI [of _ "out_entries h (all_unit c) es"] exI [of _ "map (\<lambda>e. [e]) es"])
      (simp add: patch(2-) id)
next
  case (unit_variant t enum names variant)
  then show ?case
    by (simp add: enum_of_decode [OF unit_variant(1)] variant_from_json_answer unit_variant_answer
        del: decode.simps)
next
  case (variant t enum variant declared es)
  let ?m = "to_object ((''type'', JString variant) # out_entries h (all_unit c) es)"
  have d: "distinct (''type'' # map fst es)" using variant(5-7) by simp
  have m: "map_of ?m = map_of ((''type'', JString variant) # out_entries h (all_unit c) es)"
    by (rule map_of_to_object_distinct) (use d in \<open>simp only: list.map fst_conv map_fst_out\<close>)
  have "list_all2 (\<lambda>x e. \<exists>i. map_of ?m (fst x) = Some i \<and> fst e = fst x \<and>
      decode h c n i (snd x) = Some (Inr (snd e))) declared es"
    unfolding list_all2_conv_all_nth
  proof (intro conjI allI impI)
    show l: "length declared = length es" using variant(6) by (metis length_map)
    fix i assume i: "i < length declared"
    then have e: "fst (es ! i) = fst (declared ! i)" using variant(6) l by (metis nth_map)
    have mem: "es ! i \<in> set es" using i l by simp
    then have "fst (es ! i) \<noteq> ''type''"
      using d by (metis distinct.simps(2) image_eqI list.set_map)
    moreover have "map_of es (fst (es ! i)) = Some (snd (es ! i))"
      using d mem by (intro map_of_is_SomeI) simp_all
    moreover have "decode h c n (value_to_json h (all_unit c) (snd (es ! i))) (snd (declared ! i)) = Some (Inr (snd (es ! i)))"
      using variant(4,7) i l by (simp add: list_all2_conv_all_nth)
    ultimately show "\<exists>j. map_of ?m (fst (declared ! i)) = Some j \<and> fst (es ! i) = fst (declared ! i) \<and>
        decode h c n j (snd (declared ! i)) = Some (Inr (snd (es ! i)))"
      by (simp add: m e map_of_out)
  qed
  then show ?case
    using variant(2,3) m
    by (simp add: enum_of_decode [OF variant(1)] variant_from_json_answer del: decode.simps)
next
  case (field f v fs es)
  then show ?case
    by (auto simp del: decode.simps split: if_splits dest: head_name [OF field(6)])
next
  case (no_field f fs es)
  then show ?case
    using has_fields_keys(2) [OF no_field(2)]
    by (auto simp del: decode.simps dest!: map_of_SomeD)
qed (auto simp: done_with_def)

end
