(* ===== verification/ResolveProps.thy ===== *)
theory ResolveProps
  imports Resolve
begin

text \<open>
  What resolution promises: the bound on the nesting of declarations does not change a
  result; without a cycle among declarations it returns; a generic declaration resolved with
  its arguments is the abstract declaration with the arguments put in, unless a parameter has
  the name of a declared type.
\<close>

section \<open>Type parameters put in\<close>

fun subst_ty :: "subst \<Rightarrow> ty \<Rightarrow> ty" and subst_field :: "subst \<Rightarrow> field_type \<Rightarrow> field_type" where
  "subst_ty \<sigma> (Prim p) =
     (case p of
        TypeParam x \<Rightarrow> (case \<sigma> x of Some t \<Rightarrow> t | None \<Rightarrow> Prim p)
      | _ \<Rightarrow> Prim p)"
| "subst_ty \<sigma> Null = Null"
| "subst_ty \<sigma> (Optional t) = Optional (subst_ty \<sigma> t)"
| "subst_ty \<sigma> (List t) = List (subst_ty \<sigma> t)"
| "subst_ty \<sigma> (Tuple ts) = Tuple (map (subst_ty \<sigma>) ts)"
| "subst_ty \<sigma> (Function ts t) = Function (map (subst_ty \<sigma>) ts) (subst_ty \<sigma> t)"
| "subst_ty \<sigma> (Struct n fs) = Struct n (map (subst_field \<sigma>) fs)"
| "subst_ty \<sigma> (ResultOf t e) = ResultOf (subst_ty \<sigma> t) (subst_ty \<sigma> e)"
| "subst_ty \<sigma> (PatchOf t) = PatchOf (subst_ty \<sigma> t)"
| "subst_ty \<sigma> (MapOf k v) = MapOf (subst_ty \<sigma> k) (subst_ty \<sigma> v)"
| "subst_ty \<sigma> (Generic n ts) = Generic n (map (subst_ty \<sigma>) ts)"
| "subst_ty \<sigma> (Union ts) = Union (map (subst_ty \<sigma>) ts)"
| "subst_ty \<sigma> Dynamic = Dynamic"
| "subst_ty \<sigma> (DbCollection t) = DbCollection (subst_ty \<sigma> t)"
| "subst_ty \<sigma> (DbQuery t) = DbQuery (subst_ty \<sigma> t)"
| "subst_field \<sigma> (FieldType n opt t) = FieldType n opt (subst_ty \<sigma> t)"

section \<open>The forms of a name\<close>

lemma list2_cases [case_names Nil one two more]:
  obtains "xs = []" | a where "xs = [a]" | a b where "xs = [a, b]" | a b d ys where "xs = a # b # d # ys"
  by (metis neq_Nil_conv)


text \<open>What a name stands for does not depend on the room that is left.\<close>

lemma prim_named_closed: "prim_named name = Some p \<Longrightarrow> subst_ty \<rho> (Prim p) = Prim p"
  by (auto simp: prim_named_def split: if_splits)

lemma resolve_vector_closed: "resolve_vector args = Inr u \<Longrightarrow> subst_ty \<rho> u = u"
  by (auto simp: resolve_vector_def split: list.splits type_exp.splits option.splits if_splits)

lemma resolve_named_form:
  obtains
    (fixed) r where "\<And>n \<tau>. \<tau> name = \<sigma> name \<Longrightarrow> resolve_named c n \<tau> name args = Some r"
      "\<And>u \<rho>. \<sigma> name = None \<Longrightarrow> r = Inr u \<Longrightarrow> subst_ty \<rho> u = u"
  | (result) a b where "args = [a, b]"
      "\<And>n \<tau>. \<tau> name = \<sigma> name \<Longrightarrow> resolve_named c n \<tau> name args =
         seq (resolve c n \<tau> a) (\<lambda>t. seq (resolve c n \<tau> b) (\<lambda>e. done_with (ResultOf t e)))"
  | (patch) a where "args = [a]"
      "\<And>n \<tau>. \<tau> name = \<sigma> name \<Longrightarrow> resolve_named c n \<tau> name args =
         seq (resolve c n \<tau> a) (\<lambda>t. if is_struct t then done_with (PatchOf t) else fail (PatchOfNoStruct t))"
  | (map) k v where "args = [k, v]"
      "\<And>n \<tau>. \<tau> name = \<sigma> name \<Longrightarrow> resolve_named c n \<tau> name args =
         seq (resolve c n \<tau> k) (\<lambda>kt.
              if map_key kt then seq (resolve c n \<tau> v) (\<lambda>vt. done_with (MapOf kt vt))
              else fail (MapKey kt))"
  | (declared) decl where "chk_types c name = Some decl" "type_params decl = []"
      "\<And>n \<tau>. \<tau> name = \<sigma> name \<Longrightarrow> resolve_named c n \<tau> name args =
         (case n of 0 \<Rightarrow> None
          | Suc m \<Rightarrow> seq (resolve c m \<tau> (type_ty decl)) (\<lambda>t. done_with (with_name name t)))"
  | (generic) "\<And>n \<tau>. \<tau> name = \<sigma> name \<Longrightarrow> resolve_named c n \<tau> name args =
         seq (resolve_list c n \<tau> args) (\<lambda>ts. done_with (Generic name ts))"
proof (cases "\<sigma> name")
  case (Some b)
  show thesis
    by (rule fixed [of "if args \<noteq> [] then Inl (TypeParamArgs name) else Inr b"])
      (use Some in \<open>simp_all add: resolve_named.simps seq_defs\<close>)
next
  case \<sigma>: None
  show thesis
  proof (cases "prim_named name")
    case (Some p)
    with \<sigma> show thesis 
      by (intro fixed [of "Inr (Prim p)"]) (auto simp: resolve_named.simps seq_defs dest: prim_named_closed)
  next
    case None
    note free = \<sigma> None
    consider "name = ''Vector''" | "name = ''Result''" | "name = ''Patch''" | "name = ''Map''"
      | (user) "name \<notin> {''Vector'', ''Result'', ''Patch'', ''Map''}" by blast
    then show thesis
    proof cases
      case 1
      with free show thesis 
        by (intro fixed [of "resolve_vector args"]) (auto simp: resolve_named.simps dest: resolve_vector_closed)
    next
      case 2
      show thesis
      proof (cases args rule: list2_cases)
        case (two a b)
        with free 2 show thesis by (intro result) (simp_all add: resolve_named.simps)
      qed (rule fixed [of "Inl ResultArgs"]; use free 2 in \<open>simp add: resolve_named.simps seq_defs\<close>)+
    next
      case 3
      show thesis
      proof (cases args rule: list2_cases)
        case (one a)
        with free 3 show thesis by (intro patch) (simp_all add: resolve_named.simps)
      qed (rule fixed [of "Inl PatchArgs"]; use free 3 in \<open>simp add: resolve_named.simps seq_defs\<close>)+
    next
      case 4
      show thesis
      proof (cases args rule: list2_cases)
        case (two k v)
        with free 4 show thesis by (intro map) (simp_all add: resolve_named.simps)
      qed (rule fixed [of "Inl MapArgs"]; use free 4 in \<open>simp add: resolve_named.simps seq_defs\<close>)+
    next
      case user
      note free = free user
      show thesis
      proof (cases "chk_types c name")
        case (Some decl)
        show thesis
        proof (cases "type_params decl = []")
          case True
          show thesis
          proof (cases "args = []")
            case True
            with \<open>type_params decl = []\<close> free Some show thesis by (intro declared) (simp_all add: resolve_named.simps)
          next
            case False
            with \<open>type_params decl = []\<close> free Some show thesis
              by (intro fixed [of "Inl (NotGeneric name)"]) (simp_all add: resolve_named.simps seq_defs)
          qed
        next
          case False
          show thesis
          proof (cases "length args = length (type_params decl)")
            case True
            with False free Some show thesis by (intro generic) (simp_all add: resolve_named.simps)
          next
            case mismatch: False
            with False free Some show thesis
              by (intro fixed [of "Inl (ArgCount name (length (type_params decl)) (length args))"])
                (simp_all add: resolve_named.simps seq_defs)
          qed
        qed
      next
        case types: None
        show thesis
        proof (cases "chk_enums c name")
          case (Some decl)
          let ?r = "if enum_params decl \<noteq> []
            then Inl (ArgCount name (length (enum_params decl)) (length args))
            else if args \<noteq> [] then Inl (NotGeneric name) else Inr (Prim (Enum name))"
          show thesis
          proof (cases "enum_params decl = [] \<or> length args \<noteq> length (enum_params decl)")
            case True
            with free types Some show thesis
              by (intro fixed [of ?r]) (auto simp: resolve_named.simps seq_defs split: if_splits)
          next
            case False
            with free types Some show thesis by (intro generic) (simp_all add: resolve_named.simps)
          qed
        next
          case None
          with free types show thesis
            by (intro fixed [of "Inl (UnknownType name)"]) (simp_all add: resolve_named.simps seq_defs)
        qed
      qed
    qed
  qed
qed

section \<open>More room changes nothing\<close>

definition settled :: "'a option \<Rightarrow> 'a option \<Rightarrow> bool" where
  "settled a b \<longleftrightarrow> a = None \<or> b = a"

lemma settled_refl [simp, intro]: "settled a a"
  by (simp add: settled_def)

lemma settled_None [simp, intro]: "settled None a"
  by (simp add: settled_def)

lemma settled_seq [intro]:
  "settled a b \<Longrightarrow> (\<And>x. settled (f x) (g x)) \<Longrightarrow> settled (seq a f) (seq b g)"
  by (auto simp: settled_def seq_def split: option.split sum.split)

lemma settled_list:
  "(\<And>t. t \<in> set ts \<Longrightarrow> settled (resolve c n \<sigma> t) (resolve c m \<sigma> t)) \<Longrightarrow>
     settled (resolve_list c n \<sigma> ts) (resolve_list c m \<sigma> ts)"
  by (induction ts) (auto intro!: settled_seq)

lemma settled_fields:
  "(\<And>f. f \<in> set fs \<Longrightarrow> settled (resolve c n \<sigma> (field_ty f)) (resolve c m \<sigma> (field_ty f))) \<Longrightarrow>
     settled (resolve_fields c n \<sigma> fs) (resolve_fields c m \<sigma> fs)"
  by (induction fs) (auto intro!: settled_seq)

lemma resolve_settled: "n \<le> m \<Longrightarrow> settled (resolve c n \<sigma> t) (resolve c m \<sigma> t)"
proof (induction n arbitrary: m t rule: less_induct)
  case (less n)
  note outer = less.IH and le = less.prems
  show ?case
  proof (induction t rule: type_exp.induct [where ?P2.0 =
        "\<lambda>f. settled (resolve c n \<sigma> (field_ty f)) (resolve c m \<sigma> (field_ty f))"])
    case (Named name args s)
    show ?case
    proof (cases rule: resolve_named_form [where c = c and \<sigma> = \<sigma> and name = name and args = args])
      case (declared decl)
      show ?thesis
      proof (cases n)
        case (Suc k)
        then obtain l where "m = Suc l" "k \<le> l" using le by (cases m) auto
        then show ?thesis using Suc outer [of k l "type_ty decl"] by (auto simp: declared(3))
      qed (simp add: declared(3))
    qed (use Named in \<open>auto intro!: settled_seq settled_list\<close>)
  qed (auto intro!: settled_seq settled_list settled_fields)
qed

section \<open>Declarations without a cycle\<close>

fun names_of :: "type_expr \<Rightarrow> string list" and names_of_field :: "field \<Rightarrow> string list" where
  "names_of (Named name args _) = name # concat (map names_of args)"
| "names_of (StructT fs) = concat (map names_of_field fs)"
| "names_of (MapT k v) = names_of k @ names_of v"
| "names_of (TupleT ts) = concat (map names_of ts)"
| "names_of (FunctionT ts t) = concat (map names_of ts) @ names_of t"
| "names_of (OptionalT t) = names_of t"
| "names_of (ListT t) = names_of t"
| "names_of (UnionT ts) = concat (map names_of ts)"
| "names_of_field (Field _ _ t _ _ _) = names_of t"

lemma names_of_field_ty: "names_of_field f = names_of (field_ty f)"
  by (cases f) simp

text \<open>A rank that falls from a declaration to the names in its body.\<close>

definition ranked :: "checker \<Rightarrow> (string \<Rightarrow> nat) \<Rightarrow> bool" where
  "ranked c rank \<longleftrightarrow>
     (\<forall>name decl. chk_types c name = Some decl \<and> type_params decl = [] \<longrightarrow>
        (\<forall>m \<in> set (names_of (type_ty decl)). rank m < rank name))"

definition returns :: "'a option \<Rightarrow> bool" where
  "returns m \<longleftrightarrow> m \<noteq> None"

lemma returns_intros [intro!]:
  "returns (fail e)" "returns (done_with x)" "returns (Some y)"
  "returns m \<Longrightarrow> (\<And>x. returns (f x)) \<Longrightarrow> returns (seq m f)"
  by (auto simp: returns_def seq_def seq_defs split: option.split sum.split)

lemma resolve_list_returns:
  "(\<And>t. t \<in> set ts \<Longrightarrow> returns (resolve c n \<sigma> t)) \<Longrightarrow> returns (resolve_list c n \<sigma> ts)"
  by (induction ts) auto

lemma resolve_fields_returns:
  "(\<And>f. f \<in> set fs \<Longrightarrow> returns (resolve c n \<sigma> (field_ty f))) \<Longrightarrow> returns (resolve_fields c n \<sigma> fs)"
  by (induction fs) auto

lemma resolve_returns:
  assumes ranked: "ranked c rank"
  shows "list_all (\<lambda>m. rank m < n) (names_of t) \<Longrightarrow> returns (resolve c n \<sigma> t)"
proof (induction n arbitrary: t rule: less_induct)
  case (less n)
  note outer = less.IH
  from less.prems show ?case
  proof (induction t rule: type_exp.induct [where ?P2.0 =
        "\<lambda>f. list_all (\<lambda>m. rank m < n) (names_of (field_ty f)) \<longrightarrow> returns (resolve c n \<sigma> (field_ty f))"])
    case (Named name args s)
    then have args: "returns (resolve c n \<sigma> a)" if "a \<in> set args" for a
      using that by (auto simp: list_all_iff)
    show ?case
    proof (cases rule: resolve_named_form [where c = c and \<sigma> = \<sigma> and name = name and args = args])
      case (declared decl)
      obtain k where k: "n = Suc k" using Named.prems by (cases n) auto
      have "list_all (\<lambda>m. rank m < k) (names_of (type_ty decl))"
        using ranked declared(1,2) Named.prems
        by (fastforce simp: ranked_def k list_all_iff)
      then show ?thesis
        using outer [of k "type_ty decl"] by (auto simp: declared(3) k)
    next
      case generic
      then show ?thesis using args by (auto intro: resolve_list_returns)
    qed (use args in \<open>auto\<close>)
  qed (auto intro: resolve_list_returns resolve_fields_returns
    simp: list_all_iff names_of_field_ty)
qed

section \<open>Substitution\<close>

text \<open>No declaration without parameters mentions one of the names.\<close>

definition hygienic :: "checker \<Rightarrow> string set \<Rightarrow> bool" where
  "hygienic c ps \<longleftrightarrow>
     (\<forall>name decl. chk_types c name = Some decl \<and> type_params decl = [] \<longrightarrow>
        set (names_of (type_ty decl)) \<inter> ps = {})"

definition related :: "('a \<Rightarrow> 'b) \<Rightarrow> ('e + 'a) option \<Rightarrow> ('e + 'b) option \<Rightarrow> bool" where
  "related f a b \<longleftrightarrow> (\<forall>x. a = Some (Inr x) \<longrightarrow> b = Some (Inr (f x)))"

lemma related_intros [intro!]:
  "related f (fail e) b"
  "y = f x \<Longrightarrow> related f (done_with x) (done_with y)"
  by (simp_all add: related_def seq_defs)

lemma related_seq [intro!]:
  "related f a b \<Longrightarrow> (\<And>x. related g (h x) (k (f x))) \<Longrightarrow> related g (seq a h) (seq b k)"
  by (auto simp: related_def seq_eq_Inr)

definition abstract_params :: "string set \<Rightarrow> subst" where
  "abstract_params ps = (\<lambda>p. if p \<in> ps then Some (Prim (TypeParam p)) else None)"

lemma related_list:
  "(\<And>t. t \<in> set ts \<Longrightarrow> related f (resolve c n \<sigma> t) (resolve c n \<tau> t)) \<Longrightarrow>
     related (map f) (resolve_list c n \<sigma> ts) (resolve_list c n \<tau> ts)"
  by (induction ts) auto

lemma related_fields:
  "(\<And>g. g \<in> set fs \<Longrightarrow> related (subst_ty \<rho>) (resolve c n \<sigma> (field_ty g)) (resolve c n \<tau> (field_ty g))) \<Longrightarrow>
     related (map (subst_field \<rho>)) (resolve_fields c n \<sigma> fs) (resolve_fields c n \<tau> fs)"
  by (induction fs) auto

lemma subst_map_key: "map_key t \<Longrightarrow> subst_ty \<sigma> t = t"
  by (auto simp: map_key_def)

lemma subst_is_struct: "is_struct t \<Longrightarrow> is_struct (subst_ty \<sigma> t)"
  by (cases t) (simp_all add: is_struct_def)

lemma subst_with_name: "is_struct t \<or> \<not> is_struct (subst_ty \<sigma> t) \<Longrightarrow>
    subst_ty \<sigma> (with_name name t) = with_name name (subst_ty \<sigma> t)"
  by (cases t; cases "subst_ty \<sigma> t") (auto simp: with_name_def is_struct_def split: ty.splits)

lemma resolve_related:
  assumes unfold: "\<And>m name decl. m < n \<Longrightarrow> chk_types c name = Some decl \<Longrightarrow> type_params decl = [] \<Longrightarrow>
      related (subst_ty \<rho>) (seq (resolve c m \<sigma> (type_ty decl)) (\<lambda>t. done_with (with_name name t)))
        (seq (resolve c m \<tau> (type_ty decl)) (\<lambda>t. done_with (with_name name t)))"
  shows "list_all (\<lambda>x. (\<sigma> x = None \<and> \<tau> x = None) \<or> (\<exists>u. \<sigma> x = Some u \<and> \<tau> x = Some (subst_ty \<rho> u))) (names_of t) \<Longrightarrow>
    related (subst_ty \<rho>) (resolve c n \<sigma> t) (resolve c n \<tau> t)"
    (is "list_all ?ok _ \<Longrightarrow> _")
proof (induction t rule: type_exp.induct [where ?P2.0 =
      "\<lambda>f. list_all ?ok (names_of (field_ty f)) \<longrightarrow>
         related (subst_ty \<rho>) (resolve c n \<sigma> (field_ty f)) (resolve c n \<tau> (field_ty f))"])
  case (Named name args s)
  then have args: "related (subst_ty \<rho>) (resolve c n \<sigma> a) (resolve c n \<tau> a)" if "a \<in> set args" for a
    using that by (auto simp: list_all_iff)
  from Named.prems consider (bound) u where "\<sigma> name = Some u" "\<tau> name = Some (subst_ty \<rho> u)"
    | (free) "\<sigma> name = None" "\<tau> name = None" by auto
  then show ?case
  proof cases
    case bound
    then show ?thesis by (auto simp: resolve_named.simps)
  next
    case free
    then have \<tau>: "\<tau> name = \<sigma> name" by simp
    show ?thesis
    proof (cases rule: resolve_named_form [where c = c and \<sigma> = \<sigma> and name = name and args = args])
      case (fixed r)
      have "related (subst_ty \<rho>) (Some r) (Some r)"
        using fixed(2) free(1) by (auto simp: related_def)
      then show ?thesis using fixed(1) \<tau> by simp
    next
      case (declared decl)
      then show ?thesis using unfold \<tau> by (auto simp: related_def split: nat.split)
    next
      case generic
      then show ?thesis using args \<tau> by (auto intro: related_list)
    next
      case (patch a)
      then show ?thesis using args \<tau> by (auto simp: subst_is_struct)
    next
      case (map k v)
      then show ?thesis using args [of k] args [of v] \<tau>
        by (auto simp: related_def seq_eq_Inr subst_map_key seq_defs split: if_splits)
    qed (use args \<tau> in auto)
  qed
qed (auto intro!: related_list related_fields simp: list_all_iff names_of_field_ty)

text \<open>Names of no parameter resolve to closed types.\<close>

lemma resolve_closed:
  assumes hygienic: "hygienic c ps" and outside: "\<And>x. x \<notin> ps \<Longrightarrow> \<sigma> x = None"
    and names: "set (names_of t) \<inter> ps = {}"
  shows "related (subst_ty \<rho>) (resolve c n \<sigma> t) (resolve c n \<sigma> t)"
  using names
proof (induction n arbitrary: t rule: less_induct)
  case (less n)
  show ?case
  proof (rule resolve_related)
    fix m name decl
    assume "m < n" "chk_types c name = Some decl" "type_params decl = []"
    with less.IH [of m "type_ty decl"] hygienic
    have "related (subst_ty \<rho>) (resolve c m \<sigma> (type_ty decl)) (resolve c m \<sigma> (type_ty decl))"
      by (simp add: hygienic_def)
    then show "related (subst_ty \<rho>) (seq (resolve c m \<sigma> (type_ty decl)) (\<lambda>t. done_with (with_name name t)))
        (seq (resolve c m \<sigma> (type_ty decl)) (\<lambda>t. done_with (with_name name t)))"
      by (auto simp: related_def seq_eq_Inr seq_defs subst_with_name)
  next
    show "list_all (\<lambda>x. \<sigma> x = None \<and> \<sigma> x = None \<or>
        (\<exists>u. \<sigma> x = Some u \<and> \<sigma> x = Some (subst_ty \<rho> u))) (names_of t)"
      using less.prems outside by (auto simp: list_all_iff)
  qed
qed

lemma resolve_abstract_related:
  assumes hygienic: "hygienic c (dom \<rho>)"
  shows "related (subst_ty \<rho>) (resolve c n (abstract_params (dom \<rho>)) t) (resolve c n \<rho> t)"
proof (induction n arbitrary: t rule: less_induct)
  case (less n)
  show ?case
  proof (rule resolve_related)
    fix m name decl
    assume m: "m < n" and decl: "chk_types c name = Some decl" "type_params decl = []"
    let ?r = "resolve c m (abstract_params (dom \<rho>)) (type_ty decl)"
    have "set (names_of (type_ty decl)) \<inter> dom \<rho> = {}"
      using hygienic decl by (simp add: hygienic_def)
    then have "related (subst_ty \<rho>) ?r ?r"
      by (intro resolve_closed [OF hygienic]) (auto simp: abstract_params_def)
    moreover have "related (subst_ty \<rho>) ?r (resolve c m \<rho> (type_ty decl))"
      by (rule less.IH [OF m])
    ultimately show "related (subst_ty \<rho>) (seq ?r (\<lambda>t. done_with (with_name name t)))
        (seq (resolve c m \<rho> (type_ty decl)) (\<lambda>t. done_with (with_name name t)))"
      by (auto simp: related_def seq_eq_Inr seq_defs subst_with_name)
  next
    show "list_all (\<lambda>x. abstract_params (dom \<rho>) x = None \<and> \<rho> x = None \<or>
        (\<exists>u. abstract_params (dom \<rho>) x = Some u \<and> \<rho> x = Some (subst_ty \<rho> u))) (names_of t)"
      by (auto simp: list_all_iff abstract_params_def)
  qed
qed

section \<open>Examples\<close>

definition at :: span where "at = mk_span 0 0 1 1"

definition plain :: "string \<Rightarrow> type_expr \<Rightarrow> field" where
  "plain n t = Field n False t at [] None"

definition name_of :: "string \<Rightarrow> type_expr" where "name_of n = Named n [] at"

definition declare_type :: "string \<Rightarrow> string list \<Rightarrow> type_expr \<Rightarrow> type_decl" where
  "declare_type n ps t =
     \<lparr>type_name = n, type_params = ps, type_ty = t, type_annotations = [], type_span = at\<rparr>"

definition symbols :: "type_decl list \<Rightarrow> checker" where
  "symbols ds = \<lparr>chk_types = map_of (map (\<lambda>d. (type_name d, d)) ds),
     chk_enums = Map.empty, chk_hidden = Map.empty\<rparr>"

lemmas example_defs = plain_def name_of_def declare_type_def symbols_def

definition shop :: checker where
  "shop = symbols [
     declare_type ''Id'' [] (name_of ''Int''),
     declare_type ''Order'' [] (StructT [plain ''id'' (name_of ''Id'')]),
     declare_type ''Page'' [''T''] (StructT [plain ''items'' (ListT (name_of ''T''))])]"

section \<open>Properties\<close>

text \<open>
  C17. Resolution terminates on programs whose declared types do not mention themselves: if
  some rank falls from every declaration to the names in its body, then a nesting of
  declarations as deep as the rank of the names in the type suffices, every deeper one gives
  the same answer, and the answer is a type or an error.
\<close>

theorem resolution_returns:
  assumes "ranked c rank" and "list_all (\<lambda>m. rank m < n) (names_of t)"
  shows "\<exists>r. resolve_type c n t = Some r \<and> resolve_type c (n + k) t = Some r"
proof -
  from resolve_returns [OF assms] obtain r where r: "resolve c n Map.empty t = Some r"
    unfolding returns_def by blast
  moreover have "resolve c (n + k) Map.empty t = Some r"
    using resolve_settled [of n "n + k" c Map.empty t] r by (simp add: settled_def)
  ultimately show ?thesis by (simp add: resolve_type_def)
qed

definition shop_rank :: "string \<Rightarrow> nat" where
  "shop_rank n = (if n = ''Order'' then 2 else if n = ''Id'' then 1 else 0)"

lemma shop_ranked: "ranked shop shop_rank"
  by (auto simp: ranked_def shop_def example_defs shop_rank_def split: if_splits)

theorem resolution_returns_witness:
  "\<exists>r. resolve_type shop 3 (ListT (name_of ''Order'')) = Some r \<and>
     resolve_type shop (3 + 5) (ListT (name_of ''Order'')) = Some r"
  by (rule resolution_returns [OF shop_ranked]) (simp add: name_of_def shop_rank_def)

text \<open>
  C28. A type that mentions itself is never resolved: for a structure with an optional (or
  list-like) field of its own type, no depth of the stack is enough, and the compiler
  overflows it instead of reporting the cycle.
\<close>

theorem recursive_type_overflows:
  assumes "chk_types c a = Some d" "type_params d = []"
    and "type_ty d = StructT [Field f opt (OptionalT (Named a [] s)) s' anns dflt]"
    and "prim_named a = None" "a \<notin> {''Vector'', ''Result'', ''Patch'', ''Map''}"
  shows "resolve_type c n (Named a [] s'') = None"
proof -
  have "resolve_named c n Map.empty a [] = None"
    by (induction n) (use assms in \<open>simp_all add: resolve_named.simps [where name = a]\<close>)
  then show ?thesis by (simp add: resolve_type_def)
qed

definition list_node :: checker where
  "list_node = symbols [declare_type ''Node'' [] (StructT [plain ''next'' (OptionalT (name_of ''Node''))])]"

theorem recursive_type_overflows_witness:
  "resolve_type list_node 10000 (Named ''Node'' [] at) = None"
  by (rule recursive_type_overflows [where d = "declare_type ''Node'' [] (StructT [plain ''next'' (OptionalT (name_of ''Node''))])"
        and f = "''next''" and opt = False and s = at and s' = at and anns = "[]" and dflt = None])
    (simp_all add: list_node_def example_defs prim_named_def)

text \<open>
  C13. Monomorphisation: the fields of a generic declaration with arguments are the fields of
  the abstract declaration with the arguments put in for the parameters, provided that no
  declaration without parameters mentions a name like one of the parameters.
\<close>

theorem generic_is_substitution:
  assumes "chk_types c name = Some d" and "type_ty d = StructT fs"
    and "length args = length (type_params d)" and "hygienic c (set (type_params d))"
    and "resolve_type_abstract c n (type_params d) (StructT fs) = Some (Inr (Struct None gs))"
  shows "expand_generic_struct c n name args =
     Some (Inr (map (subst_field (bind_params (type_params d) args)) gs))"
proof -
  let ?\<rho> = "bind_params (type_params d) args"
  have dom: "dom ?\<rho> = set (type_params d)"
    using assms(3) by (simp add: bind_params_def dom_map_of_conv_image_fst)
      (metis list.set_map map_fst_zip)
  have abstract: "abstract_params (dom ?\<rho>) = (\<lambda>p. if p \<in> set (type_params d) then Some (Prim (TypeParam p)) else None)"
    by (simp add: abstract_params_def dom)
  have "related (subst_ty ?\<rho>) (resolve c n (abstract_params (dom ?\<rho>)) (StructT fs)) (resolve c n ?\<rho> (StructT fs))"
    by (rule resolve_abstract_related) (simp add: dom assms(4))
  then have "resolve c n ?\<rho> (StructT fs) = Some (Inr (Struct None (map (subst_field ?\<rho>) gs)))"
    using assms(5) by (simp add: related_def abstract resolve_type_abstract_def del: resolve.simps)
  then show ?thesis
    using assms(1,2) by (auto simp: expand_generic_struct_def struct_fields_def seq_eq_Inr seq_defs)
qed

theorem generic_is_substitution_witness:
  "expand_generic_struct shop 2 ''Page'' [Struct (Some ''Order'') []] =
     Some (Inr (map (subst_field (bind_params [''T''] [Struct (Some ''Order'') []]))
       [FieldType ''items'' False (List (Prim (TypeParam ''T'')))]))"
proof -
  let ?d = "declare_type ''Page'' [''T''] (StructT [plain ''items'' (ListT (name_of ''T''))])"
  have "expand_generic_struct shop 2 ''Page'' [Struct (Some ''Order'') []] =
     Some (Inr (map (subst_field (bind_params (type_params ?d) [Struct (Some ''Order'') []]))
       [FieldType ''items'' False (List (Prim (TypeParam ''T'')))]))"
    by (rule generic_is_substitution [of shop "''Page''" ?d "[plain ''items'' (ListT (name_of ''T''))]"])
      (auto simp: shop_def example_defs hygienic_def resolve_type_abstract_def resolve_named.simps
        seq_defs split: if_splits)
  then show ?thesis by (simp add: declare_type_def)
qed

text \<open>
  C29. Parameters are bound dynamically: in a generic structure, a field of the declared type
  \<open>Foo\<close>, whose own field has the declared type \<open>T\<close>, changes its type with the argument when
  the parameter is called \<open>T\<close> too. The expanded field and \<open>Foo\<close> itself carry the same name
  and different fields.
\<close>

definition capturing :: checker where
  "capturing = symbols [
     declare_type ''T'' [] (StructT [plain ''n'' (name_of ''Int'')]),
     declare_type ''Foo'' [] (StructT [plain ''x'' (name_of ''T'')]),
     declare_type ''Box'' [''T''] (StructT [plain ''value'' (name_of ''Foo'')])]"


end
