(* ===== verification/Border.thy ===== *)
theory Border
  imports WireProps ResolveProps
begin

text \<open>
  The properties of the border of the process: what is let in is of its type and meets the
  constraints of its declaration; what goes out and comes back is the same value; where the
  two fail to hold.
\<close>

text \<open>The enums without data of a program (\<open>simple_enum_names\<close>).\<close>

definition simple_enum_names :: "enum_decl list \<Rightarrow> string \<Rightarrow> bool" where
  "simple_enum_names es name \<longleftrightarrow>
     list_ex (\<lambda>e. enum_name e = name \<and> list_all (\<lambda>v. variant_fields v = None) (variants e)) es"

lemma simple_enum_names_all_unit:
  assumes "distinct (map enum_name es)" "chk_enums c = (\<lambda>name. find (\<lambda>e. enum_name e = name) es)"
  shows "simple_enum_names es = all_unit c"
proof
  fix name
  have "simple_enum_names es name \<longleftrightarrow>
      (case find (\<lambda>e. enum_name e = name) es of
         Some e \<Rightarrow> list_all (\<lambda>v. variant_fields v = None) (variants e) | None \<Rightarrow> False)"
    using assms(1)
  proof (induction es)
    case (Cons e es)
    have "\<not> simple_enum_names es (enum_name e)"
      using Cons.prems unfolding simple_enum_names_def list_ex_iff
      by (metis distinct.simps(2) image_eqI list.map(2) list.set_map)
    with Cons show ?case by (auto simp: simple_enum_names_def)
  qed (simp add: simple_enum_names_def)
  then show "simple_enum_names es name = all_unit c name"
    by (simp add: all_unit_def assms(2))
qed

section \<open>An example\<close>

text \<open>
  \<open>type Contact = { email: String @validate(email), age: Int? }\<close>, the same as a generic
  \<open>type Card<T> = { email: String @validate(email), note: T }\<close>, and
  \<open>enum Plan { Free, Paid }\<close>.
\<close>

definition email_field :: field where
  "email_field = Field ''email'' False (name_of ''String'') at [Validate Email] None"

definition plan :: enum_decl where
  "plan = \<lparr>enum_name = ''Plan'', enum_params = [],
     variants = [\<lparr>variant_name = ''Free'', variant_fields = None\<rparr>,
                 \<lparr>variant_name = ''Paid'', variant_fields = None\<rparr>], enum_span = at\<rparr>"

definition address_book :: checker where
  "address_book = \<lparr>chk_types = map_of [
       (''Contact'', declare_type ''Contact'' []
          (StructT [email_field, Field ''age'' True (name_of ''Int'') at [] None])),
       (''Card'', declare_type ''Card'' [''T''] (StructT [email_field, plain ''note'' (name_of ''T'')]))],
     chk_enums = (\<lambda>name. find (\<lambda>e. enum_name e = name) [plan]), chk_hidden = Map.empty\<rparr>"

definition contact :: ty where
  "contact = Struct (Some ''Contact'')
     [FieldType ''email'' False (Prim String), FieldType ''age'' True (Prim IntTy)]"

definition flat_host :: host where
  "flat_host = \<lparr>h_rest = \<lparr>rest_expr = (\<lambda>_ _. Inl (Other ''expression'')),
     rest_method = (\<lambda>_ _ _. Inl (Other ''method'')), rest_call = (\<lambda>_ _. Inl (Other ''call'')),
     rest_float = (\<lambda>_ x _. x)\<rparr>, h_regex = (\<lambda>_ _. True), h_of_int = (\<lambda>_. 0),
     h_decimal = (\<lambda>_. 0), h_widen = ucast, h_narrow = ucast\<rparr>"

lemma host_ok_flat: "host_ok flat_host"
  by (simp add: host_ok_def flat_host_def f64_finite_def ucast_down_ucast_id is_down)

lemmas address_book_defs = address_book_def email_field_def plan_def contact_def example_defs

lemma field_annotations_contact:
  "field_annotations_for address_book ''Contact'' None =
     Some [email_field, Field ''age'' True (name_of ''Int'') at [] None]"
  by (simp add: field_annotations_for_def address_book_def declare_type_def struct_fields_def)

lemma field_accepts_contact:
  "field_accepts h email_field es \<longleftrightarrow>
     (case map_of es ''email'' of Some (VStr s) \<Rightarrow> is_plausible_email s | _ \<Rightarrow> True)"
  "field_accepts h (Field n opt t at [] None) es"
  by (simp_all add: field_accepts_def email_field_def validator_def fld_check_def validator_accepts_def
      split: option.split val.split)

lemma type_checks_contact: "apply_type_level_checks h address_book ''Contact'' (VStruct es) = done_with ()"
  by (simp add: apply_type_level_checks_def address_book_def declare_type_def)

lemma constrain_contact:
  "constrain h address_book (Some ''Contact'') (VStruct es) =
     (if field_accepts h email_field es then done_with (VStruct es) else fail (InvalidField ''email''))"
  unfolding constrain_def field_annotations_contact option.case type_checks_contact
  by (simp add: apply_field_validators_def field_accepts_contact(2) seq_defs)
    (simp add: email_field_def)

section \<open>Properties\<close>


lemma decode_contact:
  "decode flat_host address_book n (JObject [(''age'', JNumber (PosInt 7)), (''email'', JString s)]) contact =
     (if is_plausible_email s then done_with (VStruct [(''email'', VStr s), (''age'', VInt 7)])
      else fail (InvalidField ''email''))"
proof -
  have "struct_from_json flat_host address_book n
      (JObject [(''age'', JNumber (PosInt 7)), (''email'', JString s)])
      [FieldType ''email'' False (Prim String), FieldType ''age'' True (Prim IntTy)] =
    done_with [(''email'', VStr s), (''age'', VInt 7)]"
    by (simp add: struct_from_json.simps as_object_def prim_from_json_def or_mismatch_def as_str_def
        as_i64_def i64_max_def seq_defs)
  moreover have "constrain flat_host address_book (Some ''Contact'')
      (VStruct [(''email'', VStr s), (''age'', VInt 7)]) =
    (if is_plausible_email s then done_with (VStruct [(''email'', VStr s), (''age'', VInt 7)])
      else fail (InvalidField ''email''))"
    by (simp add: constrain_contact field_accepts_contact)
  ultimately show ?thesis
    unfolding contact_def decode.simps by (simp only: seq_simps done_with_def)
qed

lemma plausible_example: "is_plausible_email ''a@b.c''" "\<not> is_plausible_email ''nobody''"
  by (simp_all add: is_plausible_email_def split_once_def has_whitespace_def is_whitespace_def Let_def)


text \<open>
  C3. Nothing is lost on the way: a value that may cross as its type (floats finite, years of
  four digits, keys of a map in order, no union and no \<open>Dynamic\<close>), written as JSON and decoded
  again at that type, is the same value.
\<close>

theorem wire_round_trip:
  assumes "host_ok h" and "distinct (map enum_name es)"
    and "chk_enums c = (\<lambda>name. find (\<lambda>e. enum_name e = name) es)"
    and "on_wire h c n True t v"
  shows "decode h c n (value_to_json h (simple_enum_names es) v) t = Some (Inr v)"
  unfolding simple_enum_names_all_unit [OF assms(2,3)]
  using assms(1,4) by (simp add: out_and_in(1) del: decode.simps)

lemma field_named:
  "on_wire h c n strict t v \<Longrightarrow> has_fields h c n strict fs es \<Longrightarrow>
     has_fields h c n strict (FieldType k opt t # fs) ((k, v) # es)"
  using field [of h c n strict "FieldType k opt t"] by simp

theorem wire_round_trip_witness:
  "decode flat_host address_book 0
     (value_to_json flat_host (simple_enum_names [plan])
        (VTuple [VStruct [(''email'', VStr ''a@b.c''), (''age'', VInt 7)], VVariant ''Plan'' ''Paid'' []]))
     (Tuple [contact, Prim (Enum ''Plan'')]) =
   Some (Inr (VTuple [VStruct [(''email'', VStr ''a@b.c''), (''age'', VInt 7)], VVariant ''Plan'' ''Paid'' []]))"
proof (rule wire_round_trip [OF host_ok_flat])
  have "on_wire flat_host address_book 0 True (Prim String) (VStr ''a@b.c'')"
    "on_wire flat_host address_book 0 True (Prim IntTy) (VInt 7)"
    by (auto intro!: wire_intros simp: prim_value_def in_i64_def i64_min_def i64_max_def)
  then have "on_wire flat_host address_book 0 True contact
      (VStruct [(''email'', VStr ''a@b.c''), (''age'', VInt 7)])"
    unfolding contact_def
    by (intro struct field_named no_fields)
      (simp_all add: constrain_contact field_accepts_contact plausible_example)
  moreover have "on_wire flat_host address_book 0 True (Prim (Enum ''Plan'')) (VVariant ''Plan'' ''Paid'' [])"
    by (rule unit_variant) (auto simp: enum_of_def all_unit_def enum_variant_names_def address_book_def plan_def)
  ultimately show "on_wire flat_host address_book 0 True (Tuple [contact, Prim (Enum ''Plan'')])
      (VTuple [VStruct [(''email'', VStr ''a@b.c''), (''age'', VInt 7)], VVariant ''Plan'' ''Paid'' []])"
    by (intro wire_intros) simp
qed (simp_all add: address_book_def)


text \<open>
  C40. A vector that is let in may not be let out: a component beyond the range of a 32-bit
  float becomes an infinity, the JSON of the value has \<open>null\<close> there, and that JSON is refused.
\<close>

theorem vector_overflow:
  assumes "\<not> f64_finite (h_widen h (h_narrow h f))"
  shows "decode h c n (JArray [JNumber (FloatNum f)]) (Prim (Vector 1)) = done_with (VVector [h_narrow h f]) \<and>
    value_to_json h simple (VVector [h_narrow h f]) = JArray [JNull] \<and>
    decode h c n (JArray [JNull]) (Prim (Vector 1)) = fail Mismatch"
  using assms
  by (simp add: prim_from_json_def as_array_def as_f64_def or_mismatch_def json_float_def seq_defs)

text \<open>Infinity in both widths: \<open>1e300\<close> rounds to it.\<close>

definition saturating_host :: host where
  "saturating_host = flat_host \<lparr>h_narrow := \<lambda>_. 0x7F800000, h_widen := \<lambda>_. 0x7FF0000000000000\<rparr>"

theorem vector_overflow_witness:
  "decode saturating_host address_book 0 (JArray [JNumber (FloatNum 0x7E37E43C8800759C)]) (Prim (Vector 1)) =
     done_with (VVector [0x7F800000]) \<and>
   value_to_json saturating_host (simple_enum_names [plan]) (VVector [0x7F800000]) = JArray [JNull] \<and>
   decode saturating_host address_book 0 (JArray [JNull]) (Prim (Vector 1)) = fail Mismatch"
  using vector_overflow [of saturating_host "0x7E37E43C8800759C" address_book 0 "simple_enum_names [plan]"]
  by (simp add: saturating_host_def f64_finite_def del: decode.simps value_to_json.simps)

end
