(* ===== verification/Hidden.thy ===== *)
theory Hidden
  imports Border
begin

text \<open>
  \<open>@hidden\<close>: what is taken out of the JSON of a result before it leaves the process
  (\<open>strip_hidden_json\<close>, \<open>strip_hidden_struct\<close>, \<open>field_is_hidden\<close> of
  \<open>compiler/src/runtime/mod.rs\<close>). The value does not know its type, so the declared type of
  the result guides the way. A structure has one field of each name; \<open>None\<close> is the stack that
  runs out while a generic structure is resolved.
\<close>

section \<open>The code\<close>

definition field_is_hidden :: "checker \<Rightarrow> string option \<Rightarrow> string \<Rightarrow> bool" where
  "field_is_hidden c name k \<longleftrightarrow>
     (case Option.bind name (chk_hidden c) of Some ks \<Rightarrow> k \<in> set ks | None \<Rightarrow> False)"

text \<open>The first structure all of whose required visible fields are there.\<close>

definition visible_member :: "checker \<Rightarrow> (string \<times> 'a) list \<Rightarrow> ty \<Rightarrow> bool" where
  "visible_member c m t =
     (case t of
        Struct name fs \<Rightarrow>
          list_all (\<lambda>f. ft_optional f \<or> field_is_hidden c name (ft_name f) \<or> ft_name f \<in> fst ` set m) fs
      | _ \<Rightarrow> False)"

definition optional_inner :: "ty \<Rightarrow> ty option" where
  "optional_inner t = (case t of Optional u \<Rightarrow> Some u | _ \<Rightarrow> None)"

text \<open>The types of the items of an array: a tuple that is too short goes on with \<open>Dynamic\<close>.\<close>

definition item_types :: "ty \<Rightarrow> nat \<Rightarrow> ty list" where
  "item_types t n =
     (case t of
        List u \<Rightarrow> replicate n u
      | Tuple ts \<Rightarrow> ts @ replicate n Dynamic
      | _ \<Rightarrow> replicate n t)"

lemma optional_inner_size: "optional_inner t = Some u \<Longrightarrow> size u < size t"
  by (cases t) (auto simp: optional_inner_def)

definition strip_extent :: "(checker \<times> nat \<times> json \<times> ty
    + checker \<times> nat \<times> (string \<times> json) list \<times> string option \<times> field_type list) \<Rightarrow> nat" where
  "strip_extent = (\<lambda>x. case x of
     Inl (_, _, j, _) \<Rightarrow> Suc (2 * size j)
   | Inr (_, _, m, _) \<Rightarrow> 2 * Suc (size_list (size_prod (\<lambda>_. 0) size) m))"

definition strip_type :: "(checker \<times> nat \<times> json \<times> ty
    + checker \<times> nat \<times> (string \<times> json) list \<times> string option \<times> field_type list) \<Rightarrow> nat" where
  "strip_type = (\<lambda>x. case x of Inl (_, _, _, t) \<Rightarrow> size t | Inr _ \<Rightarrow> 0)"

lemma find_in_set: "find P xs = Some x \<Longrightarrow> x \<in> set xs"
  by (auto simp: find_Some_iff)

function strip_hidden_json :: "checker \<Rightarrow> nat \<Rightarrow> json \<Rightarrow> ty \<Rightarrow> json option"
  and strip_hidden_struct :: "checker \<Rightarrow> nat \<Rightarrow> (string \<times> json) list \<Rightarrow> string option \<Rightarrow> field_type list \<Rightarrow> json option"
where
  "strip_hidden_json c n j t =
     (if j = JNull then Some JNull
      else case optional_inner t of
        Some u \<Rightarrow> strip_hidden_json c n j u
      | None \<Rightarrow>
     (case as_array j of
        Some js \<Rightarrow>
          map_option JArray
            (those (map (\<lambda>(i, u). strip_hidden_json c n i u) (zip js (item_types t (length js)))))
      | None \<Rightarrow>
     (case as_object j of
        None \<Rightarrow> Some j
      | Some m \<Rightarrow>
          (case t of
             Struct name fs \<Rightarrow> strip_hidden_struct c n m name fs
           | Generic name args \<Rightarrow>
               (case expand_generic_struct c n name args of
                  None \<Rightarrow> None
                | Some (Inr fs) \<Rightarrow> strip_hidden_struct c n m (Some name) fs
                | Some (Inl _) \<Rightarrow> Some j)
           | MapOf _ u \<Rightarrow>
               map_option JObject
                 (those (map (\<lambda>(k, i). map_option (Pair k) (strip_hidden_json c n i u)) m))
           | Union ms \<Rightarrow>
               (case find (visible_member c m) ms of
                  Some u \<Rightarrow> strip_hidden_json c n j u
                | None \<Rightarrow> Some j)
           | _ \<Rightarrow> Some j))))"
| "strip_hidden_struct c n m name fs =
     map_option JObject
       (those (map (\<lambda>(k, i).
           case find (\<lambda>f. ft_name f = k) fs of
             None \<Rightarrow> Some (k, i)
           | Some f \<Rightarrow> map_option (Pair k) (strip_hidden_json c n i (ft_ty f)))
         (filter (\<lambda>(k, _). \<not> field_is_hidden c name k) m)))"
  by pat_completeness auto

termination
  by (relation "measures [strip_extent, strip_type]")
    (auto simp: strip_extent_def strip_type_def
as_array_Some as_object_Some
      dest!: optional_inner_size size_zipped size_entry find_in_set size_member [where 'a = ty])

declare strip_hidden_json.simps [simp del] strip_hidden_struct.simps [simp del]

section \<open>Values that agree but for what is hidden\<close>

definition visible :: "checker \<Rightarrow> string option \<Rightarrow> (string \<times> 'a) list \<Rightarrow> (string \<times> 'a) list" where
  "visible c name es = filter (\<lambda>(k, _). \<not> field_is_hidden c name k) es"

inductive alike :: "checker \<Rightarrow> nat \<Rightarrow> ty \<Rightarrow> val \<Rightarrow> val \<Rightarrow> bool"
  and fields_alike :: "checker \<Rightarrow> nat \<Rightarrow> string option \<Rightarrow> field_type list \<Rightarrow> (string \<times> val) list
    \<Rightarrow> (string \<times> val) list \<Rightarrow> bool"
  for c n
where
  same: "alike c n t v v"
| optional: "alike c n t v w \<Longrightarrow> alike c n (Optional t) v w"
| list: "list_all2 (alike c n t) vs ws \<Longrightarrow> alike c n (List t) (VList vs) (VList ws)"
| tuple: "list_all2 (\<lambda>x w. alike c n (fst x) (snd x) w) (zip ts vs) ws \<Longrightarrow> length vs = length ts \<Longrightarrow>
    alike c n (Tuple ts) (VTuple vs) (VTuple ws)"
| map: "map fst es = map fst es' \<Longrightarrow> list_all2 (alike c n t) (map snd es) (map snd es') \<Longrightarrow>
    alike c n (MapOf kt t) (VStruct es) (VStruct es')"
| struct: "fields_alike c n name fs es es' \<Longrightarrow> alike c n (Struct name fs) (VStruct es) (VStruct es')"
| generic: "expand_generic_struct c n name args = done_with fs \<Longrightarrow>
    fields_alike c n (Some name) fs es es' \<Longrightarrow> alike c n (Generic name args) (VStruct es) (VStruct es')"
| union: "find (visible_member c es) ms = Some (Struct name fs) \<Longrightarrow> fst ` set es = fst ` set es' \<Longrightarrow>
    fields_alike c n name fs es es' \<Longrightarrow> alike c n (Union ms) (VStruct es) (VStruct es')"
| fields: "list_all2 (\<lambda>x y. fst x = fst y \<and> (snd x = snd y \<or>
      (\<exists>f. find (\<lambda>f. ft_name f = fst x) fs = Some f \<and> alike c n (ft_ty f) (snd x) (snd y))))
      (visible c name es) (visible c name es') \<Longrightarrow>
    fields_alike c n name fs es es'"

section \<open>Objects\<close>

lemma filter_obj_insert:
  "sorted_keys m \<Longrightarrow> filter (\<lambda>(l, _). P l) (obj_insert k v m) =
     (if P k then obj_insert k v (filter (\<lambda>(l, _). P l) m) else filter (\<lambda>(l, _). P l) m)"
proof (induction m rule: obj_insert.induct)
  case (2 k v l w m)
  have "obj_insert k v (filter (\<lambda>(l, _). P l) m) = (k, v) # filter (\<lambda>(l, _). P l) m" if "k < l"
  proof -
    have "\<forall>e \<in> set (filter (\<lambda>(l, _). P l) m). k < fst e"
      using 2(2) that by (auto simp: sorted_keys_def dest: less_trans)
    then show ?thesis by (cases "filter (\<lambda>(l, _). P l) m") auto
  qed
  with 2 show ?case by (auto simp: sorted_keys_def)
qed simp

lemma filter_to_object:
  "filter (\<lambda>(l, _). P l) (to_object kvs) = to_object (filter (\<lambda>(l, _). P l) kvs)"
proof (induction kvs rule: rev_induct)
  case (snoc e kvs)
  then show ?case by (cases e) (simp add: to_object_snoc filter_obj_insert to_object_sorted)
qed (simp add: to_object_def)

lemma obj_insert_rel:
  "list_all2 (\<lambda>x y. fst x = fst y \<and> R (fst x) (snd x) (snd y)) m m' \<Longrightarrow> R k v v' \<Longrightarrow>
     list_all2 (\<lambda>x y. fst x = fst y \<and> R (fst x) (snd x) (snd y)) (obj_insert k v m) (obj_insert k v' m')"
proof (induction rule: list_all2_induct)
  case (Cons x xs y ys)
  then show ?case by (cases x; cases y) auto
qed simp

lemma to_object_rel:
  "list_all2 (\<lambda>x y. fst x = fst y \<and> R (fst x) (snd x) (snd y)) kvs kvs' \<Longrightarrow>
     list_all2 (\<lambda>x y. fst x = fst y \<and> R (fst x) (snd x) (snd y)) (to_object kvs) (to_object kvs')"
proof (induction kvs arbitrary: kvs' rule: rev_induct)
  case (snoc e kvs)
  then show ?case
    by (cases e) (auto simp: list_all2_append1 list_all2_Cons1 to_object_snoc intro!: obj_insert_rel)
qed (simp add: to_object_def)

section \<open>Only the visible counts\<close>

lemma map_eq_all2: "list_all2 (\<lambda>x y. f x = g y) xs ys \<Longrightarrow> map f xs = map g ys"
  by (induction rule: list_all2_induct) auto

lemma strip_Null [simp]: "strip_hidden_json c n JNull t = Some JNull"
  by (simp add: strip_hidden_json.simps)

lemma strip_Optional: "strip_hidden_json c n j (Optional t) = strip_hidden_json c n j t"
  by (cases "j = JNull") (simp_all add: strip_hidden_json.simps [of c n j "Optional t"] optional_inner_def)

lemma strip_struct_alike:
  assumes "list_all2 (\<lambda>x y. fst x = fst y \<and> (snd x = snd y \<or>
      (\<exists>f. find (\<lambda>f. ft_name f = fst x) fs = Some f \<and>
         strip_hidden_json c n (J (snd x)) (ft_ty f) = strip_hidden_json c n (J (snd y)) (ft_ty f))))
      (visible c name es) (visible c name es')"
  shows "strip_hidden_struct c n (to_object (map (\<lambda>(k, v). (k, J v)) es)) name fs =
     strip_hidden_struct c n (to_object (map (\<lambda>(k, v). (k, J v)) es')) name fs"
proof -
  define g where "g = (\<lambda>k i. case find (\<lambda>f. ft_name f = k) fs of
      None \<Rightarrow> Some (k, i) | Some f \<Rightarrow> map_option (Pair k) (strip_hidden_json c n i (ft_ty f)))"
  have shape: "strip_hidden_struct c n (to_object (map (\<lambda>(k, v). (k, J v)) es)) name fs =
      map_option JObject (those (map (\<lambda>(k, i). g k i)
        (to_object (map (\<lambda>(k, v). (k, J v)) (visible c name es)))))" for es
  proof -
    have "filter (\<lambda>(k, _). \<not> field_is_hidden c name k) (map (\<lambda>(k, v). (k, J v)) es) =
        map (\<lambda>(k, v). (k, J v)) (visible c name es)"
      by (induction es) (auto simp: visible_def)
    then show ?thesis
      by (simp add: strip_hidden_struct.simps filter_to_object g_def)
  qed
  have "list_all2 (\<lambda>x y. fst x = fst y \<and> g (fst x) (snd x) = g (fst x) (snd y))
      (map (\<lambda>(k, v). (k, J v)) (visible c name es)) (map (\<lambda>(k, v). (k, J v)) (visible c name es'))"
    unfolding list_all2_map1 list_all2_map2
    by (rule list.rel_mono_strong [OF assms]) (auto simp: g_def)
  then have "list_all2 (\<lambda>x y. (case x of (k, i) \<Rightarrow> g k i) = (case y of (k, i) \<Rightarrow> g k i))
      (to_object (map (\<lambda>(k, v). (k, J v)) (visible c name es)))
      (to_object (map (\<lambda>(k, v). (k, J v)) (visible c name es')))"
    by (rule list.rel_mono_strong [OF to_object_rel]) auto
  from map_eq_all2 [OF this] show ?thesis unfolding shape by (simp only:)
qed

lemma keys_to_object: "fst ` set (to_object kvs) = fst ` set kvs"
proof (induction kvs rule: rev_induct)
  case (snoc e kvs)
  then show ?case using obj_insert_keys by (cases e) (simp add: to_object_snoc flip: set_map)
qed (simp add: to_object_def)

lemma strip_array:
  assumes "optional_inner t = None"
    and "list_all2 (\<lambda>x y. strip_hidden_json c n (fst x) (snd x) = strip_hidden_json c n (fst y) (snd y))
      (zip js (item_types t (length js))) (zip js' (item_types t (length js')))"
  shows "strip_hidden_json c n (JArray js) t = strip_hidden_json c n (JArray js') t"
proof -
  have "map (\<lambda>(i, u). strip_hidden_json c n i u) (zip js (item_types t (length js))) =
      map (\<lambda>(i, u). strip_hidden_json c n i u) (zip js' (item_types t (length js')))"
    by (rule map_eq_all2) (use assms(2) in \<open>simp add: case_prod_beta\<close>)
  then show ?thesis
    using assms(1) by (simp add: strip_hidden_json.simps [of c n "JArray _"] as_array_def)
qed

lemma strip_Struct: "strip_hidden_json c n (JObject m) (Struct name fs) = strip_hidden_struct c n m name fs"
  by (simp add: strip_hidden_json.simps [of c n "JObject _"] optional_inner_def as_array_def as_object_def)

lemma strip_alike:
  "alike c n t v w \<Longrightarrow> strip_hidden_json c n (value_to_json h simple v) t =
     strip_hidden_json c n (value_to_json h simple w) t"
  "fields_alike c n name fs es es' \<Longrightarrow>
     strip_hidden_struct c n (to_object (out_entries h simple es)) name fs =
     strip_hidden_struct c n (to_object (out_entries h simple es')) name fs"
proof (induction rule: alike_fields_alike.inducts)
  case (optional t v w)
  then show ?case by (simp add: strip_Optional)
next
  case (list t vs ws)
  then show ?case
    by (auto simp: item_types_def optional_inner_def list_all2_conv_all_nth intro!: strip_array)
next
  case (tuple ts vs ws)
  then show ?case
    by (auto simp: item_types_def optional_inner_def list_all2_conv_all_nth nth_append intro!: strip_array)
next
  case (map es es' t kt)
  have "list_all2 (\<lambda>x y. fst x = fst y \<and> strip_hidden_json c n (snd x) t = strip_hidden_json c n (snd y) t)
      (to_object (out_entries h simple es)) (to_object (out_entries h simple es'))"
  proof (rule to_object_rel [where R = "\<lambda>_ i j. strip_hidden_json c n i t = strip_hidden_json c n j t"])
    show "list_all2 (\<lambda>x y. fst x = fst y \<and> strip_hidden_json c n (snd x) t = strip_hidden_json c n (snd y) t)
        (out_entries h simple es) (out_entries h simple es')"
      using map by (auto simp: list_all2_conv_all_nth case_prod_beta) (metis length_map nth_map)+
  qed
  then have "List.map (\<lambda>(k, i). map_option (Pair k) (strip_hidden_json c n i t)) (to_object (out_entries h simple es)) =
      List.map (\<lambda>(k, i). map_option (Pair k) (strip_hidden_json c n i t)) (to_object (out_entries h simple es'))"
    by (intro map_eq_all2) (auto elim!: list.rel_mono_strong)
  then show ?case
    by (simp add: strip_hidden_json.simps [of c n "JObject _"] optional_inner_def as_array_def as_object_def)
next
  case (generic name args fs es es')
  then show ?case
    by (simp add: strip_hidden_json.simps [of c n "JObject _"] optional_inner_def as_array_def as_object_def done_with_def)
next
  case (union es ms name fs es')
  have keys: "visible_member c (to_object (out_entries h simple xs)) = visible_member c xs" for xs
    by (intro ext) (simp add: visible_member_def keys_to_object image_image case_prod_beta cong: ty.case_cong)
  have "visible_member c es' = visible_member c es"
    by (intro ext) (simp add: visible_member_def union cong: ty.case_cong)
  with union show ?case
    by (simp add: strip_hidden_json.simps [of c n "JObject _" "Union ms"] optional_inner_def as_array_def
        as_object_def keys strip_Struct)
next
  case (fields fs name es es')
  show ?case
    by (rule strip_struct_alike) (rule list.rel_mono_strong [OF fields], auto)
qed (simp_all add: strip_Struct)

section \<open>Properties\<close>


text \<open>\<open>type Account = { name: String, @hidden secret: String }\<close> and \<open>type Public = { name: String }\<close>.\<close>

definition accounts :: checker where
  "accounts = address_book \<lparr>chk_hidden := [''Account'' \<mapsto> [''secret'']]\<rparr>"

definition account :: ty where
  "account = Struct (Some ''Account'')
     [FieldType ''name'' False (Prim String), FieldType ''secret'' False (Prim String)]"

definition public :: ty where
  "public = Struct (Some ''Public'') [FieldType ''name'' False (Prim String)]"

definition ann :: "string \<Rightarrow> val" where
  "ann secret = VStruct [(''name'', VStr ''Ann''), (''secret'', VStr secret)]"

lemma hidden_account:
  "field_is_hidden accounts (Some ''Account'') k \<longleftrightarrow> k = ''secret''"
  "\<not> field_is_hidden accounts (Some ''Public'') k"
  by (simp_all add: field_is_hidden_def accounts_def address_book_def)



end
