(* ===== verification/Columns.thy ===== *)
theory Columns
  imports Border
begin

text \<open>
  The columns of a collection: how a field is stored and read back. \<open>Cell\<close> and
  \<open>ColumnKind\<close> are from \<open>compiler/src/runtime/store.rs\<close>, \<open>ColumnPlan\<close>, \<open>write_param\<close>,
  \<open>decode_column_cell\<close> and \<open>decode_row\<close> from \<open>runtime/db.rs\<close>, the encryption of a field from
  \<open>runtime/encryption.rs\<close> and the check of \<open>@encrypted\<close> from \<open>checker.rs\<close>. The AEAD cipher,
  base64 and the random bytes of the system are the fields of \<open>vault\<close>.
\<close>

section \<open>Cells\<close>

datatype cell =
    CNull
  | CInt int
  | CDecimal int
  | CFloat f64
  | CText string
  | CBool bool
  | CJson json
  | CVector "f32 list"

datatype column_kind = KInt | KTimestamp | KFloat | KText | KUuid | KBool | KJson | KDecimal | KVector

datatype db_error =
    NullButRequired string
  | StoredJson string wire_error
  | NotJson string
  | NoKey string
  | BadCipher string
  | NotCipher string
  | WrongCell string
  | NoRandom
  | CannotEncrypt
  | UnknownCollection string
  | BadTenant string
  | NoTenant string
  | NoColumn string
  | NoOrder string
  | BadId
  | BadPatch
  | NoKeyField string

section \<open>Encryption of a field\<close>

text \<open>The 32 bytes of the key, the next bytes of the random generator, and the libraries.\<close>

record vault =
  v_key :: "string option"
  v_random :: "nat \<Rightarrow> string option"
  v_encrypt :: "string \<Rightarrow> string \<Rightarrow> string \<Rightarrow> string option" \<comment> \<open>key, nonce, plain\<close>
  v_decrypt :: "string \<Rightarrow> string \<Rightarrow> string \<Rightarrow> string option" \<comment> \<open>key, nonce, cipher\<close>
  v_encode :: "string \<Rightarrow> string"
  v_decode :: "string \<Rightarrow> string option"

definition nonce_len :: nat where "nonce_len = 12"

text \<open>\<open>String::from_utf8\<close>: bytes that are the encoding of their own code points.\<close>

definition valid_utf8 :: "string \<Rightarrow> bool" where
  "valid_utf8 s \<longleftrightarrow> list_all is_scalar (chars_of s) \<and> utf8 (chars_of s) = s"

definition encrypt_field :: "vault \<Rightarrow> string \<Rightarrow> string \<Rightarrow> db_error + string" where
  "encrypt_field w plaintext key =
     (case v_random w nonce_len of
        None \<Rightarrow> Inl NoRandom
      | Some nonce \<Rightarrow>
          (case v_encrypt w key nonce plaintext of
             None \<Rightarrow> Inl CannotEncrypt
           | Some ciphertext \<Rightarrow> Inr (v_encode w (nonce @ ciphertext))))"

definition decrypt_field :: "vault \<Rightarrow> string \<Rightarrow> string \<Rightarrow> string option" where
  "decrypt_field w stored key =
     (case v_decode w stored of
        None \<Rightarrow> None
      | Some raw \<Rightarrow>
          if length raw < nonce_len then None
          else (case v_decrypt w key (take nonce_len raw) (drop nonce_len raw) of
                  None \<Rightarrow> None
                | Some plaintext \<Rightarrow> if valid_utf8 plaintext then Some plaintext else None))"

section \<open>Plans\<close>

record column_plan =
  cp_field :: field_type
  cp_sql_type :: string
  cp_json :: bool
  cp_encrypted :: bool
  cp_sql_name :: string

definition native_sql_type :: "(string \<Rightarrow> bool) \<Rightarrow> ty \<Rightarrow> string option" where
  "native_sql_type simple t =
     (case t of
        Prim p \<Rightarrow>
          (case p of
             IntTy \<Rightarrow> Some ''INTEGER''
           | Int64 \<Rightarrow> Some ''INTEGER''
           | Timestamp \<Rightarrow> Some ''INTEGER''
           | Decimal \<Rightarrow> Some ''INTEGER''
           | Float \<Rightarrow> Some ''REAL''
           | String \<Rightarrow> Some ''TEXT''
           | Uuid \<Rightarrow> Some ''TEXT''
           | Bool \<Rightarrow> Some ''INTEGER''
           | Enum name \<Rightarrow> if simple name then Some ''TEXT'' else None
           | Vector _ \<Rightarrow> Some ''BLOB''
           | _ \<Rightarrow> None)
      | _ \<Rightarrow> None)"

definition effective_ty :: "ty \<Rightarrow> ty" where
  "effective_ty t = (case t of Optional u \<Rightarrow> u | _ \<Rightarrow> t)"

definition for_field :: "(string \<Rightarrow> bool) \<Rightarrow> field_type \<Rightarrow> bool \<Rightarrow> string option \<Rightarrow> column_plan" where
  "for_field simple f enc sql_name =
     (let name = (case sql_name of Some s \<Rightarrow> s | None \<Rightarrow> ft_name f);
          double_optional = ft_optional f \<and> is_optional (ft_ty f)
      in case (if double_optional then None else native_sql_type simple (effective_ty (ft_ty f))) of
           Some t \<Rightarrow> \<lparr>cp_field = f, cp_sql_type = t, cp_json = False, cp_encrypted = enc, cp_sql_name = name\<rparr>
         | None \<Rightarrow> \<lparr>cp_field = f, cp_sql_type = ''TEXT'', cp_json = True, cp_encrypted = enc, cp_sql_name = name\<rparr>)"

definition not_null :: "column_plan \<Rightarrow> bool" where
  "not_null col \<longleftrightarrow> \<not> ft_optional (cp_field col) \<and> \<not> is_optional (ft_ty (cp_field col))"

text \<open>\<open>None\<close> is the panic of \<open>unreachable!\<close>.\<close>

definition column_kind_of :: "column_plan \<Rightarrow> column_kind option" where
  "column_kind_of col =
     (if cp_json col then Some KJson
      else case effective_ty (ft_ty (cp_field col)) of
        Prim p \<Rightarrow>
          (case p of
             IntTy \<Rightarrow> Some KInt
           | Int64 \<Rightarrow> Some KInt
           | Timestamp \<Rightarrow> Some KTimestamp
           | Decimal \<Rightarrow> Some KDecimal
           | Float \<Rightarrow> Some KFloat
           | Bool \<Rightarrow> Some KBool
           | String \<Rightarrow> Some KText
           | Uuid \<Rightarrow> Some KText
           | Enum _ \<Rightarrow> Some KText
           | Vector _ \<Rightarrow> Some KVector
           | _ \<Rightarrow> None)
      | _ \<Rightarrow> None)"

datatype id_kind = IdInt | IdUuid | IdString

definition id_kind_of :: "ty \<Rightarrow> id_kind" where
  "id_kind_of t = (case t of Prim p \<Rightarrow> (case p of Uuid \<Rightarrow> IdUuid | String \<Rightarrow> IdString | _ \<Rightarrow> IdInt) | _ \<Rightarrow> IdInt)"

definition id_column_kind_for :: "id_kind \<Rightarrow> column_kind" where
  "id_column_kind_for k = (case k of IdInt \<Rightarrow> KInt | IdUuid \<Rightarrow> KUuid | IdString \<Rightarrow> KText)"

section \<open>Writing and reading a cell\<close>

text \<open>\<open>None\<close> is a panic: a value that no native column can hold.\<close>

definition native_cell :: "val \<Rightarrow> cell option" where
  "native_cell v =
     (case v of
        VNull \<Rightarrow> Some CNull
      | VInt n \<Rightarrow> Some (CInt n)
      | VInt64 n \<Rightarrow> Some (CInt n)
      | VDecimal n \<Rightarrow> Some (CDecimal n)
      | VTimestamp n \<Rightarrow> Some (CInt n)
      | VFloat f \<Rightarrow> Some (CFloat f)
      | VStr s \<Rightarrow> Some (CText s)
      | VUuid s \<Rightarrow> Some (CText s)
      | VVector x \<Rightarrow> Some (CVector x)
      | VBool b \<Rightarrow> Some (CBool b)
      | VVariant _ variant _ \<Rightarrow> Some (CText variant)
      | _ \<Rightarrow> None)"

definition write_param :: "host \<Rightarrow> vault \<Rightarrow> (string \<Rightarrow> bool) \<Rightarrow> column_plan \<Rightarrow> val option \<Rightarrow> (db_error + cell) option" where
  "write_param h w simple col slot =
     (case slot of
        None \<Rightarrow> done_with CNull
      | Some v \<Rightarrow>
          if cp_json col then done_with (CJson (value_to_json h simple v))
          else if cp_encrypted col then
            (case v of
               VNull \<Rightarrow> done_with CNull
             | VStr s \<Rightarrow>
                 (case v_key w of
                    None \<Rightarrow> fail (NoKey (ft_name (cp_field col)))
                  | Some key \<Rightarrow> Some (map_sum id CText (encrypt_field w s key)))
             | _ \<Rightarrow> None)
          else map_option Inr (native_cell v))"

text \<open>A NULL in the column of a field.\<close>

definition null_slot :: "field_type \<Rightarrow> (db_error + val option) option" where
  "null_slot f =
     (if ft_optional f then done_with None
      else if is_optional (ft_ty f) then done_with (Some VNull)
      else fail (NullButRequired (ft_name f)))"

definition native_value :: "ty \<Rightarrow> cell \<Rightarrow> val option" where
  "native_value t c =
     (case t of
        Prim p \<Rightarrow>
          (case (p, c) of
             (IntTy, CInt n) \<Rightarrow> Some (VInt n)
           | (Int64, CInt n) \<Rightarrow> Some (VInt64 n)
           | (Decimal, CDecimal n) \<Rightarrow> Some (VDecimal n)
           | (Timestamp, CInt n) \<Rightarrow> Some (VTimestamp n)
           | (Float, CFloat f) \<Rightarrow> Some (VFloat f)
           | (String, CText s) \<Rightarrow> Some (VStr s)
           | (Uuid, CText s) \<Rightarrow> Some (VUuid s)
           | (Vector _, CVector x) \<Rightarrow> Some (VVector x)
           | (Bool, CBool b) \<Rightarrow> Some (VBool b)
           | (Enum name, CText s) \<Rightarrow> Some (VVariant name s [])
           | _ \<Rightarrow> None)
      | _ \<Rightarrow> None)"

definition decode_column_cell ::
  "host \<Rightarrow> checker \<Rightarrow> nat \<Rightarrow> vault \<Rightarrow> column_plan \<Rightarrow> cell \<Rightarrow> (db_error + val option) option" where
  "decode_column_cell h c n w col cell =
     (let f = cp_field col; name = ft_name f
      in if cp_json col then
           (case cell of
              CNull \<Rightarrow> if ft_optional f then done_with None else fail (NullButRequired name)
            | CJson j \<Rightarrow>
                (case decode h c n j (ft_ty f) of
                   None \<Rightarrow> None
                 | Some (Inl e) \<Rightarrow> fail (StoredJson name e)
                 | Some (Inr v) \<Rightarrow> done_with (Some v))
            | _ \<Rightarrow> fail (NotJson name))
         else if cp_encrypted col then
           (case cell of
              CNull \<Rightarrow> null_slot f
            | CText t \<Rightarrow>
                (case v_key w of
                   None \<Rightarrow> fail (NoKey name)
                 | Some key \<Rightarrow>
                     (case decrypt_field w t key of
                        None \<Rightarrow> fail (BadCipher name)
                      | Some s \<Rightarrow> done_with (Some (VStr s))))
            | _ \<Rightarrow> fail (NotCipher name))
         else if cell = CNull then null_slot f
         else (case native_value (effective_ty (ft_ty f)) cell of
                 Some v \<Rightarrow> done_with (Some v)
               | None \<Rightarrow> fail (WrongCell name)))"

section \<open>Rows\<close>

text \<open>The cells that an insert binds, in the order of the columns.\<close>

definition row_params ::
  "host \<Rightarrow> vault \<Rightarrow> (string \<Rightarrow> bool) \<Rightarrow> column_plan list \<Rightarrow> (string \<times> val) list \<Rightarrow> (db_error + cell list) option" where
  "row_params h w simple cols es =
     map_seq (\<lambda>col. write_param h w simple col (map_of es (ft_name (cp_field col)))) cols"

definition id_value :: "id_kind \<Rightarrow> cell \<Rightarrow> val option" where
  "id_value k c =
     (case (k, c) of
        (IdInt, CInt n) \<Rightarrow> Some (VInt n)
      | (IdUuid, CText s) \<Rightarrow> Some (VUuid s)
      | (IdString, CText s) \<Rightarrow> Some (VStr s)
      | _ \<Rightarrow> None)"

definition decode_row :: "host \<Rightarrow> checker \<Rightarrow> nat \<Rightarrow> vault \<Rightarrow> id_kind \<Rightarrow> column_plan list \<Rightarrow> cell list
    \<Rightarrow> (db_error + (string \<times> val) list) option" where
  "decode_row h c n w k cols cells =
     (case cells of
        [] \<Rightarrow> None
      | id_cell # rest \<Rightarrow>
          (case id_value k id_cell of
             None \<Rightarrow> None
           | Some v \<Rightarrow>
               seq (map_seq (\<lambda>(col, cell).
                      seq (decode_column_cell h c n w col cell) (\<lambda>slot.
                        done_with (case slot of Some u \<Rightarrow> [(ft_name (cp_field col), u)] | None \<Rightarrow> [])))
                     (zip cols rest))
                 (\<lambda>ess. done_with ((''id'', v) # concat ess))))"

section \<open>The check of \<open>@encrypted\<close>\<close>

datatype field_error =
    EncryptedIndex string
  | EncryptedDouble string
  | EncryptedType string ty
  | EncryptedResolve check_error

definition is_string_type :: "ty \<Rightarrow> bool" where
  "is_string_type t = (case t of Prim String \<Rightarrow> True | Optional (Prim String) \<Rightarrow> True | _ \<Rightarrow> False)"

text \<open>The errors of one field, in the order they are pushed; \<open>None\<close> if a type does not resolve in \<open>n\<close> levels.\<close>

definition encrypted_errors :: "checker \<Rightarrow> nat \<Rightarrow> string list \<Rightarrow> field \<Rightarrow> field_error list option" where
  "encrypted_errors c n ps f =
     (if \<not> encrypted f then Some []
      else
        (case (if ps = [] then resolve_type c n (field_ty f) else resolve_type_abstract c n ps (field_ty f)) of
           None \<Rightarrow> None
         | Some r \<Rightarrow> Some (
             (if fld_index f \<noteq> None then [EncryptedIndex (field_name f)] else []) @
             (if field_optional f \<and> (case field_ty f of OptionalT _ \<Rightarrow> True | _ \<Rightarrow> False)
              then [EncryptedDouble (field_name f)] else []) @
             (case r of
                Inl e \<Rightarrow> [EncryptedResolve e]
              | Inr t \<Rightarrow> if is_string_type t then [] else [EncryptedType (field_name f) t]))))"

definition check_field_encrypted :: "checker \<Rightarrow> nat \<Rightarrow> field list \<Rightarrow> string list \<Rightarrow> field_error list option" where
  "check_field_encrypted c n fs ps = map_option concat (those (map (encrypted_errors c n ps) fs))"

end
