(* ===== verification/ColumnProps.thy ===== *)
theory ColumnProps
  imports Columns
begin

text \<open>
  What the columns promise: the row that an insert binds is read back as the value that was
  inserted, without a panic, for every type of field; and how a field marked \<open>@encrypted\<close> can
  still be stored in the clear.
\<close>

section \<open>Assumptions\<close>

text \<open>An AEAD cipher opens what it sealed, base64 decodes what it encoded, the generator fills the buffer.\<close>

definition vault_ok :: "vault \<Rightarrow> bool" where
  "vault_ok w \<longleftrightarrow>
     (\<forall>key nonce p x. v_encrypt w key nonce p = Some x \<longrightarrow> v_decrypt w key nonce x = Some p) \<and>
     (\<forall>s. v_decode w (v_encode w s) = Some s) \<and>
     (\<forall>n s. v_random w n = Some s \<longrightarrow> length s = n)"

text \<open>What the checker asks of an \<open>@encrypted\<close> field, on the resolved type.\<close>

definition encryptable :: "field_type \<Rightarrow> bool" where
  "encryptable f \<longleftrightarrow> effective_ty (ft_ty f) = Prim String \<and> \<not> (ft_optional f \<and> is_optional (ft_ty f))"

definition slot_fits :: "host \<Rightarrow> checker \<Rightarrow> nat \<Rightarrow> field_type \<Rightarrow> val option \<Rightarrow> bool" where
  "slot_fits h c n f slot \<longleftrightarrow>
     (case slot of None \<Rightarrow> ft_optional f | Some v \<Rightarrow> on_wire h c n True (ft_ty f) v)"

section \<open>One cell\<close>

lemma decrypt_encrypt:
  assumes "vault_ok w" "encrypt_field w s key = Inr t" "valid_utf8 s"
  shows "decrypt_field w t key = Some s"
  using assms
  by (auto simp: encrypt_field_def decrypt_field_def vault_ok_def nonce_len_def split: option.splits)

lemma native_prim:
  "native_sql_type simple t = Some s \<Longrightarrow> \<exists>p. t = Prim p"
  by (cases t) (auto simp: native_sql_type_def)

lemma native_value_cell:
  assumes "on_wire h c n strict (Prim p) v" "native_sql_type (all_unit c) (Prim p) = Some s"
  shows "\<exists>cell. native_cell v = Some cell \<and> cell \<noteq> CNull \<and> native_value (Prim p) cell = Some v"
  using assms(1)
proof (cases rule: on_wire.cases)
  case prim
  then show ?thesis
    using assms(2) by (cases v) (auto simp: prim_value_def native_cell_def native_value_def native_sql_type_def)
next
  case (unit_variant enum names variant)
  then show ?thesis
    by (cases p) (auto simp: enum_of_def native_cell_def native_value_def)
next
  case (variant enum variant declared es)
  then show ?thesis
    using assms(2) by (cases p) (auto simp: enum_of_def native_sql_type_def)
qed

lemma optional_slot:
  assumes "on_wire h c n strict t v" "effective_ty t = Prim p"
  obtains "v = VNull" "is_optional t" | "on_wire h c n strict (Prim p) v"
  using assms(1)
proof (cases rule: on_wire.cases)
  case (absent u)
  with that(1) show ?thesis by (simp add: is_optional_def)
next
  case (present u)
  with that(2) assms(2) show ?thesis by (simp add: effective_ty_def)
qed (use that(2) assms in \<open>auto simp: effective_ty_def enum_of_def split: ty.splits prim.splits\<close>)

lemma null_slot_optional: "is_optional t \<Longrightarrow> \<not> (opt \<and> is_optional t) \<Longrightarrow>
    null_slot (FieldType k opt t) = done_with (Some VNull)"
  by (simp add: null_slot_def)

text \<open>The plan of a field, by the three ways that it is stored.\<close>

lemma for_field_cases:
  obtains (json) "cp_json (for_field simple f enc name)"
  | (sealed) p where "\<not> cp_json (for_field simple f enc name)" "enc" "effective_ty (ft_ty f) = Prim p"
      "\<not> (ft_optional f \<and> is_optional (ft_ty f))"
  | (native) p s where "\<not> cp_json (for_field simple f enc name)" "\<not> enc" "effective_ty (ft_ty f) = Prim p"
      "native_sql_type simple (Prim p) = Some s" "\<not> (ft_optional f \<and> is_optional (ft_ty f))"
proof (cases "ft_optional f \<and> is_optional (ft_ty f)")
  case True
  then show thesis using json by (simp add: for_field_def)
next
  case one: False
  show thesis
  proof (cases "native_sql_type simple (effective_ty (ft_ty f))")
    case None
    with one show thesis using json by (auto simp: for_field_def Let_def)
  next
    case (Some s)
    then obtain p where "effective_ty (ft_ty f) = Prim p" using native_prim by blast
    with one Some show thesis
      using sealed [of p] native [of p s] by (cases enc) (auto simp: for_field_def Let_def)
  qed
qed

lemma for_field_sel [simp]:
  "cp_field (for_field simple f enc name) = f" "cp_encrypted (for_field simple f enc name) = enc"
  by (auto simp: for_field_def Let_def split: option.split)

text \<open>What a column takes in, it gives back.\<close>

definition returns_slot :: "host \<Rightarrow> checker \<Rightarrow> nat \<Rightarrow> vault \<Rightarrow> column_plan \<Rightarrow> val option
    \<Rightarrow> (db_error + cell) option \<Rightarrow> bool" where
  "returns_slot h c n w col slot r \<longleftrightarrow>
     (case r of
        None \<Rightarrow> False
      | Some (Inl _) \<Rightarrow> cp_encrypted col
      | Some (Inr cell) \<Rightarrow> decode_column_cell h c n w col cell = Some (Inr slot))"

lemma json_column:
  assumes "host_ok h" "cp_json (for_field simple f enc name)" "simple = all_unit c" "slot_fits h c n f slot"
  shows "returns_slot h c n w (for_field simple f enc name) slot
    (write_param h w simple (for_field simple f enc name) slot)"
proof (cases slot)
  case None
  with assms show ?thesis
    by (simp add: returns_slot_def write_param_def decode_column_cell_def slot_fits_def done_with_def)
next
  case (Some v)
  then have "decode h c n (value_to_json h simple v) (ft_ty f) = Some (Inr v)"
    using out_and_in(1) [OF assms(1)] assms(3,4) by (simp add: slot_fits_def)
  with assms(2) Some show ?thesis
    by (simp add: returns_slot_def write_param_def decode_column_cell_def done_with_def Let_def del: decode.simps)
qed

lemma null_column:
  assumes "slot_fits h c n f slot" "slot = None \<or> slot = Some VNull \<and> is_optional (ft_ty f)"
    and "\<not> (ft_optional f \<and> is_optional (ft_ty f))" "\<not> cp_json (for_field simple f enc name)"
  shows "returns_slot h c n w (for_field simple f enc name) slot
    (write_param h w simple (for_field simple f enc name) slot)"
  using assms
  by (cases enc) (auto simp: returns_slot_def write_param_def decode_column_cell_def null_slot_def
      slot_fits_def native_cell_def done_with_def Let_def)

lemma column_returns:
  assumes "host_ok h" "vault_ok w" "simple = all_unit c" "slot_fits h c n f slot"
    and "enc \<longrightarrow> encryptable f \<and> (\<forall>s. slot = Some (VStr s) \<longrightarrow> valid_utf8 s)"
  shows "returns_slot h c n w (for_field simple f enc name) slot
    (write_param h w simple (for_field simple f enc name) slot)"
proof (cases rule: for_field_cases [of simple f enc name])
  case json
  with assms show ?thesis by (intro json_column)
next
  case (sealed p)
  show ?thesis
  proof (cases "slot = None \<or> slot = Some VNull \<and> is_optional (ft_ty f)")
    case True
    with sealed assms(4) show ?thesis by (intro null_column)
  next
    case False
    then obtain v where v: "slot = Some v" "on_wire h c n True (ft_ty f) v" using assms(4)
      by (cases slot) (auto simp: slot_fits_def)
    have "on_wire h c n True (Prim String) v"
      using optional_slot [OF v(2)] sealed(2) assms(5) False v(1) by (auto simp: encryptable_def)
    then obtain s where "v = VStr s"
      by (cases rule: on_wire.cases) (auto simp: prim_value_def enum_of_def split: val.splits)
    then have "valid_utf8 s" using v(1) sealed assms(5) by simp
    then have "decrypt_field w t key = Some s" if "encrypt_field w s key = Inr t" for key t
      using decrypt_encrypt [OF assms(2) that] by simp
    moreover have "slot = Some (VStr s)" using v(1) \<open>v = VStr s\<close> by simp
    ultimately show ?thesis
      using sealed
      by (cases "v_key w"; cases "encrypt_field w s (the (v_key w))")
        (auto simp: returns_slot_def write_param_def decode_column_cell_def done_with_def fail_def Let_def)
  qed
next
  case (native p s)
  show ?thesis
  proof (cases "slot = None \<or> slot = Some VNull \<and> is_optional (ft_ty f)")
    case True
    with native assms(4) show ?thesis by (intro null_column)
  next
    case False
    then obtain v where v: "slot = Some v" "on_wire h c n True (ft_ty f) v" using assms(4)
      by (cases slot) (auto simp: slot_fits_def)
    have "on_wire h c n True (Prim p) v"
      using optional_slot [OF v(2) native(3)] False v(1) by auto
    from native_value_cell [OF this] native(4) assms(3) obtain cell where
      "native_cell v = Some cell" "cell \<noteq> CNull" "native_value (Prim p) cell = Some v" by auto
    with v(1) native show ?thesis
      by (simp add: returns_slot_def write_param_def decode_column_cell_def done_with_def Let_def)
  qed
qed

section \<open>A row\<close>

definition entry_of :: "(string \<times> val) list \<Rightarrow> field_type \<Rightarrow> (string \<times> val) list" where
  "entry_of es f = (case map_of es (ft_name f) of Some u \<Rightarrow> [(ft_name f, u)] | None \<Rightarrow> [])"

lemma fields_by_name:
  "on_wire h c n strict t v \<Longrightarrow> True"
  "has_fields h c n strict fs es \<Longrightarrow> strict \<Longrightarrow> distinct (map ft_name fs) \<Longrightarrow>
     list_all (\<lambda>f. slot_fits h c n f (map_of es (ft_name f))) fs \<and> es = concat (map (entry_of es) fs)"
proof (induction rule: on_wire_has_fields.inducts)
  case (field f v fs es)
  have other: "map_of ((ft_name f, v) # es) (ft_name g) = map_of es (ft_name g)" if "g \<in> set fs" for g
    using head_name [OF field(6) that] by simp
  then have "map (entry_of ((ft_name f, v) # es)) fs = map (entry_of es) fs"
    "list_all (\<lambda>g. slot_fits h c n g (map_of ((ft_name f, v) # es) (ft_name g))) fs =
       list_all (\<lambda>g. slot_fits h c n g (map_of es (ft_name g))) fs"
    by (auto simp: list_all_iff entry_of_def simp del: map_of.simps)
  note same = this
  have here: "entry_of ((ft_name f, v) # es) f = [(ft_name f, v)]"
    "slot_fits h c n f (map_of ((ft_name f, v) # es) (ft_name f))"
    using field by (simp_all add: entry_of_def slot_fits_def)
  have ih: "list_all (\<lambda>g. slot_fits h c n g (map_of es (ft_name g))) fs \<and> es = concat (map (entry_of es) fs)"
    using field by simp
  have "(ft_name f, v) # es = concat (map (entry_of ((ft_name f, v) # es)) (f # fs))"
    by (simp only: list.map concat.simps here same append.simps ih [THEN conjunct2, symmetric])
  moreover have "list_all (\<lambda>g. slot_fits h c n g (map_of ((ft_name f, v) # es) (ft_name g))) (f # fs)"
    using here same ih by (simp only: list.pred_inject)
  ultimately show ?case by blast
next
  case (no_field f fs es)
  have "map_of es (ft_name f) = None"
    using has_fields_keys(2) [OF no_field(2)] no_field(5) by (auto simp: map_of_eq_None_iff)
  with no_field show ?case by (simp add: slot_fits_def entry_of_def)
qed simp_all

lemma decode_cells:
  assumes "list_all2 (\<lambda>col cell. decode_column_cell h c n w col cell =
      Some (Inr (map_of es (ft_name (cp_field col))))) cols cells"
  shows "map_seq (\<lambda>(col, cell).
      seq (decode_column_cell h c n w col cell) (\<lambda>slot.
        done_with (case slot of Some u \<Rightarrow> [(ft_name (cp_field col), u)] | None \<Rightarrow> []))) (zip cols cells) =
    Some (Inr (map (\<lambda>col. entry_of es (cp_field col)) cols))"
  using assms by (induction rule: list_all2_induct) (auto simp: done_with_def entry_of_def)

lemma map_seq_None: "map_seq f xs = None \<Longrightarrow> \<exists>x \<in> set xs. f x = None"
  by (induction xs) (auto simp: seq_eq_None done_with_def)

lemma map_seq_Inl: "map_seq f xs = Some (Inl e) \<Longrightarrow> \<exists>x \<in> set xs. f x = Some (Inl e)"
  by (induction xs) (auto simp: seq_def done_with_def split: option.splits sum.splits)

section \<open>Properties\<close>

text \<open>The plans of a collection.\<close>

definition plans :: "(string \<Rightarrow> bool) \<Rightarrow> (field_type \<Rightarrow> bool) \<Rightarrow> (field_type \<Rightarrow> string option) \<Rightarrow> field_type list
    \<Rightarrow> column_plan list" where
  "plans simple enc sqln fs = map (\<lambda>f. for_field simple f (enc f) (sqln f)) fs"

text \<open>
  C7. What is inserted is what is read back: for a structure of any fields, native, JSON or
  encrypted, required or optional in either way, binding its columns never panics and fails
  only if encryption fails; the cells it binds, read behind the id, decode to the id and
  exactly the fields of the value, the absent ones absent and the null ones null.
\<close>

theorem row_round_trip:
  assumes "host_ok h" "vault_ok w" and "distinct (map enum_name enums)"
    and "chk_enums c = (\<lambda>name. find (\<lambda>e. enum_name e = name) enums)"
    and "has_fields h c n True fs es" "distinct (map ft_name fs)"
    and "list_all (\<lambda>f. enc f \<longrightarrow> encryptable f \<and> (\<forall>s. map_of es (ft_name f) = Some (VStr s) \<longrightarrow> valid_utf8 s)) fs"
    and "id_value k id_cell = Some key"
  shows "case row_params h w (simple_enum_names enums) (plans (simple_enum_names enums) enc sqln fs) es of
      None \<Rightarrow> False
    | Some (Inl _) \<Rightarrow> list_ex enc fs
    | Some (Inr cells) \<Rightarrow>
        decode_row h c n w k (plans (simple_enum_names enums) enc sqln fs) (id_cell # cells) =
          Some (Inr ((''id'', key) # es))"
proof -
  let ?s = "simple_enum_names enums" and ?cols = "plans (simple_enum_names enums) enc sqln fs"
  note unit = simple_enum_names_all_unit [OF assms(3,4)]
  note by_name = fields_by_name(2) [OF assms(5) _ assms(6)]
  have col: "returns_slot h c n w (for_field ?s f (enc f) (sqln f)) (map_of es (ft_name f))
      (write_param h w ?s (for_field ?s f (enc f) (sqln f)) (map_of es (ft_name f)))" if "f \<in> set fs" for f
    using by_name that assms(7)
    by (intro column_returns [OF assms(1,2) unit]) (auto simp: list_all_iff)
  have reads: "decode_column_cell h c n w (for_field ?s f (enc f) (sqln f)) cell =
      Some (Inr (map_of es (ft_name f)))"
    if "write_param h w ?s (for_field ?s f (enc f) (sqln f)) (map_of es (ft_name f)) = Some (Inr cell)"
      and "f \<in> set fs" for f cell
    using col [OF that(2)] unfolding that(1) by (simp add: returns_slot_def)
  show ?thesis
  proof (cases "row_params h w ?s ?cols es")
    case None
    then obtain f where "f \<in> set fs"
      "write_param h w ?s (for_field ?s f (enc f) (sqln f)) (map_of es (ft_name f)) = None"
      by (auto simp: row_params_def plans_def dest!: map_seq_None)
    with col [of f] show ?thesis by (simp add: returns_slot_def)
  next
    case (Some r)
    show ?thesis
    proof (cases r)
      case (Inl e)
      then obtain f where "f \<in> set fs"
        "write_param h w ?s (for_field ?s f (enc f) (sqln f)) (map_of es (ft_name f)) = Some (Inl e)"
        using Some by (auto simp: row_params_def plans_def dest!: map_seq_Inl)
      with col [of f] Some Inl show ?thesis by (auto simp: returns_slot_def list_ex_iff)
    next
      case (Inr cells)
      with Some have "list_all2 (\<lambda>col cell. write_param h w ?s col (map_of es (ft_name (cp_field col))) =
          Some (Inr cell)) ?cols cells"
        by (simp add: row_params_def map_seq_Inr)
      then have "list_all2 (\<lambda>col cell. decode_column_cell h c n w col cell =
          Some (Inr (map_of es (ft_name (cp_field col))))) ?cols cells"
        by (rule list.rel_mono_strong) (auto simp: plans_def dest!: reads)
      from decode_cells [OF this] have "decode_row h c n w k ?cols (id_cell # cells) =
          Some (Inr ((''id'', key) # concat (map (\<lambda>col. entry_of es (cp_field col)) ?cols)))"
        by (simp add: decode_row_def assms(8) done_with_def)
      moreover have "concat (map (\<lambda>col. entry_of es (cp_field col)) ?cols) = es"
        using by_name by (simp add: plans_def comp_def)
      ultimately show ?thesis using Some Inr by simp
    qed
  qed
qed

text \<open>A vault that encrypts by reversing, with a fixed nonce and a key.\<close>

definition toy_vault :: vault where
  "toy_vault = \<lparr>v_key = Some ''key'', v_random = (\<lambda>n. Some (replicate n (CHR ''0''))),
     v_encrypt = (\<lambda>_ _ s. Some (rev s)), v_decrypt = (\<lambda>_ _ s. Some (rev s)),
     v_encode = (\<lambda>s. s), v_decode = Some\<rparr>"

lemma vault_ok_toy: "vault_ok toy_vault"
  by (auto simp: vault_ok_def toy_vault_def)

lemma valid_utf8_example: "valid_utf8 ''123-45''"
  by (simp add: valid_utf8_def is_scalar_def utf8_char_def) code_simp

text \<open>\<open>{ @encrypted ssn: String?, plan: Plan, age?: Int }\<close>\<close>

definition patient :: "field_type list" where
  "patient = [FieldType ''ssn'' False (Optional (Prim String)), FieldType ''plan'' False (Prim (Enum ''Plan'')),
     FieldType ''age'' True (Prim IntTy)]"

definition patient_row :: "(string \<times> val) list" where
  "patient_row = [(''ssn'', VStr ''123-45''), (''plan'', VVariant ''Plan'' ''Paid'' [])]"

lemma patient_fits: "has_fields flat_host address_book 0 True patient patient_row"
proof -
  have "has_fields flat_host address_book 0 True [FieldType ''age'' True (Prim IntTy)] []"
    by (intro on_wire_has_fields.no_field on_wire_has_fields.no_fields) simp
  moreover have "on_wire flat_host address_book 0 True (Optional (Prim String)) (VStr ''123-45'')"
    by (intro on_wire_has_fields.present on_wire_has_fields.prim) (simp add: prim_value_def)
  moreover have "on_wire flat_host address_book 0 True (Prim (Enum ''Plan'')) (VVariant ''Plan'' ''Paid'' [])"
    by (rule on_wire_has_fields.unit_variant [where names = "[''Free'', ''Paid'']"])
      (simp_all add: enum_of_def all_unit_def enum_variant_names_def address_book_def plan_def)
  ultimately show ?thesis
    unfolding patient_def patient_row_def
    using on_wire_has_fields.field [of flat_host address_book 0 True "FieldType ''plan'' False (Prim (Enum ''Plan''))"]
      on_wire_has_fields.field [of flat_host address_book 0 True "FieldType ''ssn'' False (Optional (Prim String))"]
    by simp
qed

theorem row_round_trip_witness:
  "case row_params flat_host toy_vault (simple_enum_names [plan])
      (plans (simple_enum_names [plan]) (\<lambda>f. ft_name f = ''ssn'') (\<lambda>_. None) patient) patient_row of
      None \<Rightarrow> False
    | Some (Inl _) \<Rightarrow> list_ex (\<lambda>f. ft_name f = ''ssn'') patient
    | Some (Inr cells) \<Rightarrow>
        decode_row flat_host address_book 0 toy_vault IdInt
          (plans (simple_enum_names [plan]) (\<lambda>f. ft_name f = ''ssn'') (\<lambda>_. None) patient) (CInt 9 # cells) =
          Some (Inr ((''id'', VInt 9) # patient_row))"
proof (rule row_round_trip [OF host_ok_flat vault_ok_toy _ _ patient_fits])
qed (auto simp: address_book_def patient_def patient_row_def encryptable_def effective_ty_def valid_utf8_example
    id_value_def)

text \<open>
  C10. What \<open>@encrypted\<close> promises: of a field that the checker accepts, a string reaches the
  database only as the text that the cipher returned for it, with the key of the process ---
  unless the field is optional and its type, under the aliases, is \<open>String?\<close>: then, and only
  then, it is stored as JSON, in the clear.
\<close>

theorem encrypted_at_rest:
  assumes "check_field_encrypted c n [f] [] = Some []" "encrypted f"
    and "resolve_type c n (field_ty f) = Some (Inr t)"
  shows "(\<forall>h w simple sqln s cell.
      write_param h w simple (for_field simple (FieldType (field_name f) (field_optional f) t) True sqln)
        (Some (VStr s)) = Some (Inr cell) \<longrightarrow>
      (\<exists>key cipher. v_key w = Some key \<and> encrypt_field w s key = Inr cipher \<and> cell = CText cipher)) \<longleftrightarrow>
    \<not> (field_optional f \<and> t = Optional (Prim String))"
proof -
  have "is_string_type t"
    using assms by (auto simp: check_field_encrypted_def encrypted_errors_def split: if_splits)
  then have t: "t = Prim String \<or> t = Optional (Prim String)"
    by (auto simp: is_string_type_def split: ty.splits prim.splits)
  show ?thesis
  proof (cases "field_optional f \<and> t = Optional (Prim String)")
    case True
    then have "write_param flat_host toy_vault simple
        (for_field simple (FieldType (field_name f) (field_optional f) t) True sqln) (Some (VStr s)) =
      Some (Inr (CJson (JString s)))" for simple sqln s
      by (simp add: write_param_def for_field_def is_optional_def done_with_def)
    with True show ?thesis by blast
  next
    case False
    with t have "write_param h w simple
        (for_field simple (FieldType (field_name f) (field_optional f) t) True sqln) (Some (VStr s)) =
      (case v_key w of
         None \<Rightarrow> fail (NoKey (field_name f))
       | Some key \<Rightarrow> Some (map_sum id CText (encrypt_field w s key)))" for h w simple sqln s
      by (cases "v_key w") (auto simp: write_param_def for_field_def is_optional_def effective_ty_def native_sql_type_def Let_def)
    moreover have "(\<exists>key cipher. v_key w = Some key \<and> encrypt_field w s key = Inr cipher \<and> cell = CText cipher)"
      if "(case v_key w of
         None \<Rightarrow> fail (NoKey (field_name f))
       | Some key \<Rightarrow> Some (map_sum id CText (encrypt_field w s key))) = Some (Inr cell)" for w s cell
      using that by (cases "v_key w"; cases "encrypt_field w s (the (v_key w))") auto
    ultimately show ?thesis using False by simp
  qed
qed

text \<open>\<open>type MaybeSsn = String?\<close> and the field \<open>@encrypted ssn?: MaybeSsn\<close>.\<close>

definition clinic :: checker where
  "clinic = \<lparr>chk_types = map_of [(''MaybeSsn'', declare_type ''MaybeSsn'' [] (OptionalT (name_of ''String'')))],
     chk_enums = Map.empty, chk_hidden = Map.empty\<rparr>"

definition ssn_field :: field where
  "ssn_field = Field ''ssn'' True (name_of ''MaybeSsn'') at [Encrypted] None"

lemma clinic_accepts:
  "resolve_type clinic 1 (field_ty ssn_field) = Some (Inr (Optional (Prim String)))"
  "check_field_encrypted clinic 1 [ssn_field] [] = Some []"
  "encrypted ssn_field" "field_optional ssn_field"
  by (simp_all add: resolve_type_def clinic_def ssn_field_def example_defs seq_defs resolve_named.simps
      prim_named_def check_field_encrypted_def encrypted_errors_def is_string_type_def encrypted_def
      field_has_def fld_index_def with_name_def)

theorem encrypted_at_rest_witness:
  "check_field_encrypted clinic 1 [ssn_field] [] = Some [] \<and>
   \<not> (\<forall>h w simple sqln s cell.
      write_param h w simple (for_field simple (FieldType ''ssn'' True (Optional (Prim String))) True sqln)
        (Some (VStr s)) = Some (Inr cell) \<longrightarrow>
      (\<exists>key cipher. v_key w = Some key \<and> encrypt_field w s key = Inr cipher \<and> cell = CText cipher))"
  using encrypted_at_rest [OF clinic_accepts(2,3,1)] clinic_accepts
  by (simp add: ssn_field_def)


end
