(* ===== verification/Pushdown.thy ===== *)
theory Pushdown
  imports Columns Conditions
begin

text \<open>
  Conditions pushed to the database: from a \<open>condition_expr\<close> to the text of a WHERE clause and
  the cells bound to its placeholders, with the soft delete and the tenant of the collection
  (\<open>condition_expr_sql\<close>, \<open>condition_sql_with_params\<close>, \<open>tenant_condition\<close> and \<open>base_where\<close> of
  \<open>compiler/src/runtime/db.rs\<close>). The text is kept as the list of its atoms, connectives and
  parentheses; \<open>where_text\<close> writes it as the code does.
\<close>

section \<open>The state of the database handle\<close>

datatype backend = Sqlite | Postgres

record tenant_field =
  tf_sql_col :: string
  tf_claim_name :: string

text \<open>
  What the handle knows of the program, and of the request it serves: \<open>db_sessions\<close> is the
  claim of a token, \<open>None\<close> outside of a server, \<open>db_token\<close> the token of the request.
\<close>

record db =
  db_host :: host
  db_vault :: vault
  db_simple_enums :: "string \<Rightarrow> bool"
  db_backend :: backend
  db_columns :: "string \<Rightarrow> column_plan list option"
  db_id_columns :: "string \<Rightarrow> string option"
  db_id_kinds :: "string \<Rightarrow> id_kind option"
  db_soft_delete :: "string \<Rightarrow> string option"
  db_tenants :: "string \<Rightarrow> tenant_field option"
  db_sessions :: "(string \<Rightarrow> string \<Rightarrow> string option) option"
  db_token :: "string option"

section \<open>SQL conditions\<close>

text \<open>A number is that of a placeholder, from one.\<close>

datatype sql_atom =
    Cmp string binary_op nat
  | NullTest string bool
  | ColumnPair string binary_op string
  | Among string bool "nat list"
  | Like string bool nat
  | Always bool

datatype sql = Atom sql_atom | AndT | OrT | OpenT | CloseT

definition placeholder :: "backend \<Rightarrow> nat \<Rightarrow> string" where
  "placeholder b n = (case b of Sqlite \<Rightarrow> ''?'' | Postgres \<Rightarrow> ''$'' @ show_nat n)"

definition quoted :: "string \<Rightarrow> string" where
  "quoted col = CHR 0x22 # col @ [CHR 0x22]"

definition sql_op :: "binary_op \<Rightarrow> string option" where
  "sql_op op = map_of
     [(OpEq, ''=''), (OpNotEq, ''!=''), (OpLt, ''<''), (OpLtEq, ''<=''), (OpGt, ''>''), (OpGtEq, ''>='')] op"

definition op_text :: "binary_op \<Rightarrow> string" where
  "op_text op = (case sql_op op of Some s \<Rightarrow> s | None \<Rightarrow> [])"

fun atom_text :: "backend \<Rightarrow> sql_atom \<Rightarrow> string" where
  "atom_text b (Cmp col op n) = quoted col @ '' '' @ op_text op @ '' '' @ placeholder b n"
| "atom_text b (NullTest col is_null) = quoted col @ (if is_null then '' IS NULL'' else '' IS NOT NULL'')"
| "atom_text b (ColumnPair left op right) = quoted left @ '' '' @ op_text op @ '' '' @ quoted right"
| "atom_text b (Among col negated ns) =
     quoted col @ '' '' @ (if negated then ''NOT '' else []) @ ''IN ('' @
       join '', '' (map (placeholder b) ns) @ '')''"
| "atom_text b (Like col negated n) =
     quoted col @ '' '' @ (if negated then ''NOT '' else []) @ ''LIKE '' @ placeholder b n @
       '' ESCAPE '' @ [CHR 0x27, CHR 0x5C, CHR 0x27]"
| "atom_text b (Always t) = (if t then ''1=1'' else ''1=0'')"

fun sql_text :: "backend \<Rightarrow> sql \<Rightarrow> string" where
  "sql_text b (Atom a) = atom_text b a"
| "sql_text b AndT = '' AND ''"
| "sql_text b OrT = '' OR ''"
| "sql_text b OpenT = ''(''"
| "sql_text b CloseT = '')''"

definition where_text :: "backend \<Rightarrow> sql list \<Rightarrow> string" where
  "where_text b ts = concat (map (sql_text b) ts)"

section \<open>Leaves\<close>

text \<open>
  A leaf that cannot be pushed is \<open>fail ()\<close>: the caller runs the closure on every row. The list
  of cells is threaded through, and a placeholder gets the number of the cell it adds.
\<close>

definition id_col :: "db \<Rightarrow> string \<Rightarrow> string" where
  "id_col d coll = (case db_id_columns d coll of Some s \<Rightarrow> s | None \<Rightarrow> ''id'')"

definition find_column :: "column_plan list \<Rightarrow> string \<Rightarrow> column_plan option" where
  "find_column cols field = find (\<lambda>c. ft_name (cp_field c) = field) cols"

definition column_ref :: "db \<Rightarrow> string \<Rightarrow> column_plan list \<Rightarrow> string \<Rightarrow> (string \<times> column_plan option) option" where
  "column_ref d coll cols field =
     (if field = ''id'' then Some (id_col d coll, None)
      else map_option (\<lambda>c. (cp_sql_name c, Some c)) (find_column cols field))"

text \<open>\<open>.ok()?\<close>\<close>

definition ok_or_not :: "('e + 'a) option \<Rightarrow> (unit + 'a) option" where
  "ok_or_not m = (case m of None \<Rightarrow> None | Some (Inl _) \<Rightarrow> fail () | Some (Inr x) \<Rightarrow> done_with x)"

definition column_cell :: "db \<Rightarrow> column_plan option \<Rightarrow> val \<Rightarrow> (unit + cell) option" where
  "column_cell d col v =
     (case col of
        None \<Rightarrow> fail ()
      | Some c \<Rightarrow>
          if cp_json c \<or> cp_encrypted c then fail ()
          else ok_or_not (write_param (db_host d) (db_vault d) (db_simple_enums d) c (Some v)))"

definition leaf_condition_sql ::
  "db \<Rightarrow> string \<Rightarrow> column_plan list \<Rightarrow> string \<Rightarrow> binary_op \<Rightarrow> val \<Rightarrow> cell list
    \<Rightarrow> (unit + sql_atom \<times> cell list) option" where
  "leaf_condition_sql d coll cols field op v cells =
     (case column_ref d coll cols field of
        None \<Rightarrow> fail ()
      | Some (sql_col, col) \<Rightarrow>
          if v = VNull then
            (if op \<noteq> OpEq \<and> op \<noteq> OpNotEq then fail ()
             else if field \<noteq> ''id'' \<and> (case col of None \<Rightarrow> True | Some c \<Rightarrow> cp_json c) then fail ()
             else done_with (NullTest sql_col (op = OpEq), cells))
          else if sql_op op = None then fail ()
          else
            seq (if field = ''id'' then (case v of VInt i \<Rightarrow> done_with (CInt i) | _ \<Rightarrow> fail ())
                 else column_cell d col v)
              (\<lambda>cell. done_with (Cmp sql_col op (length cells + 1), cells @ [cell])))"

definition native_column :: "db \<Rightarrow> string \<Rightarrow> column_plan list \<Rightarrow> string \<Rightarrow> string option" where
  "native_column d coll cols f =
     (if f = ''id'' then Some (id_col d coll)
      else map_option cp_sql_name (find (\<lambda>c. ft_name (cp_field c) = f \<and> \<not> cp_json c) cols))"

definition field_pair_condition_sql ::
  "db \<Rightarrow> string \<Rightarrow> column_plan list \<Rightarrow> string \<Rightarrow> binary_op \<Rightarrow> string \<Rightarrow> sql_atom option" where
  "field_pair_condition_sql d coll cols left op right =
     (if op \<notin> {OpLt, OpLtEq, OpGt, OpGtEq} then None
      else case native_column d coll cols left of
        None \<Rightarrow> None
      | Some l \<Rightarrow> map_option (ColumnPair l op) (native_column d coll cols right))"

definition id_cell_of :: "val \<Rightarrow> (unit + cell) option" where
  "id_cell_of v =
     (case v of
        VInt i \<Rightarrow> done_with (CInt i)
      | VUuid u \<Rightarrow> done_with (CText u)
      | VStr s \<Rightarrow> done_with (CText s)
      | _ \<Rightarrow> fail ())"

fun in_list_cells :: "db \<Rightarrow> string \<Rightarrow> column_plan option \<Rightarrow> val list \<Rightarrow> cell list
    \<Rightarrow> (unit + nat list \<times> cell list) option" where
  "in_list_cells d field col [] cells = done_with ([], cells)"
| "in_list_cells d field col (v # vs) cells =
     seq (if field = ''id'' then id_cell_of v else column_cell d col v) (\<lambda>cell.
       seq (in_list_cells d field col vs (cells @ [cell])) (\<lambda>(ns, cells').
         done_with ((length cells + 1) # ns, cells')))"

definition in_list_condition_sql ::
  "db \<Rightarrow> string \<Rightarrow> column_plan list \<Rightarrow> string \<Rightarrow> val list \<Rightarrow> bool \<Rightarrow> cell list
    \<Rightarrow> (unit + sql_atom \<times> cell list) option" where
  "in_list_condition_sql d coll cols field vs negated cells =
     (if vs = [] then done_with (Always negated, cells)
      else case column_ref d coll cols field of
        None \<Rightarrow> fail ()
      | Some (sql_col, col) \<Rightarrow>
          seq (in_list_cells d field col vs cells) (\<lambda>(ns, cells').
            done_with (Among sql_col negated ns, cells')))"

definition escape_like_wildcards :: "string \<Rightarrow> string" where
  "escape_like_wildcards s = concat (map (\<lambda>c.
     if c = CHR 0x5C then [CHR 0x5C, CHR 0x5C]
     else if c = CHR ''%'' then [CHR 0x5C, CHR ''%'']
     else if c = CHR ''_'' then [CHR 0x5C, CHR ''_'']
     else [c]) s)"

definition like_val :: "string_match_op \<Rightarrow> string \<Rightarrow> string" where
  "like_val op pattern =
     (case op of
        Contains \<Rightarrow> ''%'' @ escape_like_wildcards pattern @ ''%''
      | StartsWith \<Rightarrow> escape_like_wildcards pattern @ ''%''
      | EndsWith \<Rightarrow> ''%'' @ escape_like_wildcards pattern)"

definition string_match_condition_sql ::
  "db \<Rightarrow> string \<Rightarrow> column_plan list \<Rightarrow> string \<Rightarrow> string_match_op \<Rightarrow> string \<Rightarrow> bool \<Rightarrow> cell list
    \<Rightarrow> (unit + sql_atom \<times> cell list) option" where
  "string_match_condition_sql d coll cols field op pattern negated cells =
     (case column_ref d coll cols field of
        None \<Rightarrow> fail ()
      | Some (sql_col, col) \<Rightarrow>
          (let pushed = done_with (Like sql_col negated (length cells + 1), cells @ [CText (like_val op pattern)])
           in case col of
                None \<Rightarrow> pushed
              | Some c \<Rightarrow>
                  if cp_json c \<or> cp_encrypted c then fail ()
                  else (case column_kind_of c of
                          None \<Rightarrow> None
                        | Some k \<Rightarrow> if k = KText then pushed else fail ())))"

section \<open>Trees\<close>

definition is_and :: "condition_expr \<Rightarrow> bool" where
  "is_and c = (case c of CAnd _ \<Rightarrow> True | _ \<Rightarrow> False)"

definition is_or :: "condition_expr \<Rightarrow> bool" where
  "is_or c = (case c of COr _ \<Rightarrow> True | _ \<Rightarrow> False)"

definition in_parens :: "sql list \<Rightarrow> sql list" where
  "in_parens ts = OpenT # ts @ [CloseT]"

definition one_atom :: "(unit + sql_atom \<times> cell list) option \<Rightarrow> (unit + sql list \<times> cell list) option" where
  "one_atom m = seq m (\<lambda>(a, cells). done_with ([Atom a], cells))"

fun condition_expr_sql ::
    "db \<Rightarrow> string \<Rightarrow> column_plan list \<Rightarrow> condition_expr \<Rightarrow> cell list \<Rightarrow> (unit + sql list \<times> cell list) option"
  and condition_clauses ::
    "db \<Rightarrow> string \<Rightarrow> column_plan list \<Rightarrow> (condition_expr \<Rightarrow> bool) \<Rightarrow> condition_expr list \<Rightarrow> cell list
      \<Rightarrow> (unit + sql list list \<times> cell list) option" where
  "condition_expr_sql d coll cols (CLeaf field op v) cells =
     one_atom (leaf_condition_sql d coll cols field op v cells)"
| "condition_expr_sql d coll cols (CFieldPair left op right) cells =
     (case field_pair_condition_sql d coll cols left op right of
        None \<Rightarrow> fail ()
      | Some a \<Rightarrow> done_with ([Atom a], cells))"
| "condition_expr_sql d coll cols (CInList field vs negated) cells =
     one_atom (in_list_condition_sql d coll cols field vs negated cells)"
| "condition_expr_sql d coll cols (CStringMatch field op pattern negated) cells =
     one_atom (string_match_condition_sql d coll cols field op pattern negated cells)"
| "condition_expr_sql d coll cols (CAnd cs) cells =
     seq (condition_clauses d coll cols is_or cs cells) (\<lambda>(clauses, cells').
       done_with (join [AndT] clauses, cells'))"
| "condition_expr_sql d coll cols (COr cs) cells =
     seq (condition_clauses d coll cols is_and cs cells) (\<lambda>(clauses, cells').
       done_with (join [OrT] clauses, cells'))"
| "condition_clauses d coll cols wrap [] cells = done_with ([], cells)"
| "condition_clauses d coll cols wrap (c # cs) cells =
     seq (condition_expr_sql d coll cols c cells) (\<lambda>(clause, cells').
       seq (condition_clauses d coll cols wrap cs cells') (\<lambda>(clauses, cells'').
         done_with ((if wrap c then in_parens clause else clause) # clauses, cells'')))"

section \<open>Soft delete and tenant\<close>

definition soft_delete_where :: "db \<Rightarrow> string \<Rightarrow> sql list option" where
  "soft_delete_where d coll =
     (case db_soft_delete d coll of
        None \<Rightarrow> None
      | Some field \<Rightarrow>
          (let col_name = (case Option.bind (db_columns d coll) (\<lambda>cols. find_column cols field) of
                             Some c \<Rightarrow> cp_sql_name c
                           | None \<Rightarrow> field)
           in Some [Atom (NullTest col_name True)]))"

definition tenant_claim_value :: "db \<Rightarrow> string \<Rightarrow> db_error + string" where
  "tenant_claim_value d claim =
     (case db_sessions d of
        None \<Rightarrow> Inl (NoTenant claim)
      | Some sessions \<Rightarrow>
          (case db_token d of
             None \<Rightarrow> Inl (NoTenant claim)
           | Some token \<Rightarrow> (case sessions token claim of None \<Rightarrow> Inl (NoTenant claim) | Some v \<Rightarrow> Inr v)))"

definition tenant_cell :: "db \<Rightarrow> string \<Rightarrow> tenant_field \<Rightarrow> (db_error + cell) option" where
  "tenant_cell d coll t =
     (case tenant_claim_value d (tf_claim_name t) of
        Inl e \<Rightarrow> fail e
      | Inr raw \<Rightarrow>
          (let col = Option.bind (db_columns d coll) (find (\<lambda>c. cp_sql_name c = tf_sql_col t));
               kind = (case col of None \<Rightarrow> Some KText | Some c \<Rightarrow> column_kind_of c)
           in case kind of
                None \<Rightarrow> None
              | Some k \<Rightarrow>
                  if k = KInt then
                    (case parse_i64 raw of
                       Some n \<Rightarrow> done_with (CInt n)
                     | None \<Rightarrow> fail (BadTenant (tf_claim_name t)))
                  else done_with (CText raw)))"

definition tenant_condition :: "db \<Rightarrow> string \<Rightarrow> cell list \<Rightarrow> (db_error + sql list option \<times> cell list) option" where
  "tenant_condition d coll binds =
     (case db_tenants d coll of
        None \<Rightarrow> done_with (None, binds)
      | Some t \<Rightarrow>
          seq (tenant_cell d coll t) (\<lambda>cell.
            let binds' = binds @ [cell]
            in done_with (Some [Atom (Cmp (tf_sql_col t) OpEq (length binds'))], binds')))"

definition opt_list :: "'a option \<Rightarrow> 'a list" where
  "opt_list x = (case x of None \<Rightarrow> [] | Some y \<Rightarrow> [y])"

text \<open>The conditions of \<open>base_where\<close>; none is the empty text.\<close>

definition base_where :: "db \<Rightarrow> string \<Rightarrow> cell list \<Rightarrow> (db_error + sql list \<times> cell list) option" where
  "base_where d coll binds =
     seq (tenant_condition d coll binds) (\<lambda>(tenant, binds').
       done_with (join [AndT] (opt_list (soft_delete_where d coll) @ opt_list tenant), binds'))"

definition condition_sql_with_params ::
  "db \<Rightarrow> string \<Rightarrow> column_plan list \<Rightarrow> condition_expr \<Rightarrow> cell list
    \<Rightarrow> (db_error + (sql list \<times> cell list) option) option" where
  "condition_sql_with_params d coll cols expr cells =
     (case condition_expr_sql d coll cols expr cells of
        None \<Rightarrow> None
      | Some (Inl _) \<Rightarrow> done_with None
      | Some (Inr (cond, cells')) \<Rightarrow>
          seq (tenant_condition d coll cells') (\<lambda>(tenant, cells'').
            let extra = opt_list (soft_delete_where d coll) @ opt_list tenant
            in if extra = [] then done_with (Some (cond, cells''))
               else done_with (Some (join [AndT] ((if is_or expr then in_parens cond else cond) # extra), cells''))))"

definition condition_sql ::
  "db \<Rightarrow> string \<Rightarrow> column_plan list \<Rightarrow> condition_expr \<Rightarrow> (db_error + (sql list \<times> cell list) option) option" where
  "condition_sql d coll cols expr = condition_sql_with_params d coll cols expr []"

end
