(* ===== verification/Statements.thy ===== *)
theory Statements
  imports Pushdown
begin

text \<open>
  The SQL statements of the operations of a collection, with the cells bound to their
  placeholders (\<open>Db::call\<close>, \<open>composite_call\<close> and the functions they use, in
  \<open>compiler/src/runtime/db.rs\<close>). A statement is a list of pieces: text, placeholders with the
  number that the code gives them, and conditions.
\<close>

section \<open>Statements\<close>

datatype piece = Raw string | Hole nat | Cond "sql list"

fun piece_text :: "backend \<Rightarrow> piece \<Rightarrow> string" where
  "piece_text b (Raw s) = s"
| "piece_text b (Hole n) = placeholder b n"
| "piece_text b (Cond ts) = where_text b ts"

definition statement_text :: "backend \<Rightarrow> piece list \<Rightarrow> string" where
  "statement_text b ps = concat (map (piece_text b) ps)"

definition comma :: string where "comma = '', ''"

definition select_list :: "db \<Rightarrow> string \<Rightarrow> column_plan list \<Rightarrow> string" where
  "select_list d coll cols = join comma (quoted (id_col d coll) # map (\<lambda>c. quoted (cp_sql_name c)) cols)"

definition select_from :: "db \<Rightarrow> string \<Rightarrow> column_plan list \<Rightarrow> string" where
  "select_from d coll cols = ''SELECT '' @ select_list d coll cols @ '' FROM '' @ quoted coll @ '' ''"

definition order_by_id :: "db \<Rightarrow> string \<Rightarrow> string" where
  "order_by_id d coll = ''ORDER BY '' @ quoted (id_col d coll)"

text \<open>The text of \<open>base_where\<close>.\<close>

definition where_piece :: "sql list \<Rightarrow> piece list" where
  "where_piece conds = (if conds = [] then [] else [Raw ''WHERE '', Cond conds, Raw '' ''])"

definition id_equals :: "db \<Rightarrow> string \<Rightarrow> nat \<Rightarrow> sql list" where
  "id_equals d coll n = [Atom (Cmp (id_col d coll) OpEq n)]"

section \<open>Reads\<close>

definition select_rows ::
  "db \<Rightarrow> string \<Rightarrow> column_plan list \<Rightarrow> cell option \<Rightarrow> (db_error + piece list \<times> cell list) option" where
  "select_rows d coll cols key =
     (case key of
        Some id_cell \<Rightarrow>
          seq (tenant_condition d coll [id_cell]) (\<lambda>(tenant, cells).
            done_with ([Raw (select_from d coll cols @ ''WHERE ''),
              Cond (join [AndT] (id_equals d coll 1 # opt_list tenant))], cells))
      | None \<Rightarrow>
          seq (base_where d coll []) (\<lambda>(conds, cells).
            done_with ([Raw (select_from d coll cols)] @ where_piece conds @ [Raw (order_by_id d coll)], cells)))"

text \<open>No statement for no ids.\<close>

definition select_rows_by_ids ::
  "db \<Rightarrow> string \<Rightarrow> column_plan list \<Rightarrow> cell list \<Rightarrow> (db_error + (piece list \<times> cell list) option) option" where
  "select_rows_by_ids d coll cols ids =
     (if ids = [] then done_with None
      else
        seq (tenant_condition d coll ids) (\<lambda>(tenant, cells).
          done_with (Some ([Raw (select_from d coll cols @ ''WHERE ''),
            Cond (join [AndT] ([Atom (Among (id_col d coll) False [1..<length ids + 1])] # opt_list tenant))], cells))))"

definition count_rows :: "db \<Rightarrow> string \<Rightarrow> (db_error + piece list \<times> cell list) option" where
  "count_rows d coll =
     seq (base_where d coll []) (\<lambda>(conds, cells).
       done_with ([Raw (''SELECT COUNT(*) FROM '' @ quoted coll @ '' '')] @ where_piece conds, cells))"

definition select_rows_page ::
  "db \<Rightarrow> string \<Rightarrow> column_plan list \<Rightarrow> int \<Rightarrow> int \<Rightarrow> (db_error + piece list \<times> cell list) option" where
  "select_rows_page d coll cols limit offset =
     seq (base_where d coll [CInt limit, CInt offset]) (\<lambda>(conds, cells).
       done_with ([Raw (select_from d coll cols)] @ where_piece conds @
         [Raw (order_by_id d coll @ '' LIMIT ''), Hole 1, Raw '' OFFSET '', Hole 2], cells))"

definition select_rows_after ::
  "db \<Rightarrow> string \<Rightarrow> column_plan list \<Rightarrow> int option \<Rightarrow> int \<Rightarrow> (db_error + piece list \<times> cell list) option" where
  "select_rows_after d coll cols after limit =
     (let (cells, conds) = (case after of
             Some k \<Rightarrow> ([CInt k], [[Atom (Cmp (id_col d coll) OpGt 1)]])
           | None \<Rightarrow> ([], []))
      in seq (tenant_condition d coll cells) (\<lambda>(tenant, cells').
           let conds' = conds @ opt_list (soft_delete_where d coll) @ opt_list tenant;
               cells'' = cells' @ [CInt limit]
           in done_with ([Raw (select_from d coll cols)] @ where_piece (join [AndT] conds') @
                [Raw (order_by_id d coll @ '' LIMIT ''), Hole (length cells'')], cells'')))"

definition top_row ::
  "db \<Rightarrow> string \<Rightarrow> column_plan list \<Rightarrow> string \<Rightarrow> bool \<Rightarrow> (db_error + piece list \<times> cell list) option" where
  "top_row d coll cols field largest =
     (case find_column cols field of
        None \<Rightarrow> fail (NoColumn field)
      | Some c \<Rightarrow>
          seq (base_where d coll []) (\<lambda>(conds, cells).
            done_with ([Raw (select_from d coll cols)] @ where_piece conds @
              [Raw (''ORDER BY '' @ quoted (cp_sql_name c) @ '' '' @ (if largest then ''DESC'' else ''ASC'') @
                 '' LIMIT 1'')], cells)))"

text \<open>Reads in a given order; the keys are a field and whether it descends.\<close>

definition order_part :: "column_plan list \<Rightarrow> string \<times> bool \<Rightarrow> (db_error + string) option" where
  "order_part cols = (\<lambda>(field, descending).
     case find_column cols field of
       None \<Rightarrow> fail (NoColumn field)
     | Some c \<Rightarrow>
         if cp_json c then fail (NoOrder field)
         else if cp_encrypted c then fail (NoOrder field)
         else done_with (quoted (cp_sql_name c) @ '' '' @ (if descending then ''DESC'' else ''ASC'') @ '' NULLS LAST''))"

definition order_by_sql :: "db \<Rightarrow> string \<Rightarrow> column_plan list \<Rightarrow> (string \<times> bool) list \<Rightarrow> (db_error + string) option" where
  "order_by_sql d coll cols order =
     seq (map_seq (order_part cols) order) (\<lambda>parts.
       done_with (''ORDER BY '' @ join comma (parts @ [quoted (id_col d coll)])))"

definition select_all_ordered ::
  "db \<Rightarrow> string \<Rightarrow> column_plan list \<Rightarrow> (string \<times> bool) list \<Rightarrow> (db_error + piece list \<times> cell list) option" where
  "select_all_ordered d coll cols order =
     seq (base_where d coll []) (\<lambda>(conds, cells).
       seq (order_by_sql d coll cols order) (\<lambda>order_by.
         done_with ([Raw (select_from d coll cols)] @ where_piece conds @ [Raw order_by], cells)))"

definition select_page_ordered ::
  "db \<Rightarrow> string \<Rightarrow> column_plan list \<Rightarrow> (string \<times> bool) list \<Rightarrow> int \<Rightarrow> int
    \<Rightarrow> (db_error + piece list \<times> cell list) option" where
  "select_page_ordered d coll cols order limit offset =
     seq (base_where d coll [CInt limit, CInt offset]) (\<lambda>(conds, cells).
       seq (order_by_sql d coll cols order) (\<lambda>order_by.
         done_with ([Raw (select_from d coll cols)] @ where_piece conds @
           [Raw (order_by @ '' LIMIT ''), Hole 1, Raw '' OFFSET '', Hole 2], cells)))"

text \<open>Reads under a pushed condition; no statement if it cannot be pushed.\<close>

definition count_where_conjunction ::
  "db \<Rightarrow> string \<Rightarrow> column_plan list \<Rightarrow> condition_expr \<Rightarrow> (db_error + (piece list \<times> cell list) option) option" where
  "count_where_conjunction d coll cols c =
     seq (condition_sql d coll cols c) (\<lambda>r. done_with (map_option (\<lambda>(ts, cells).
       ([Raw (''SELECT COUNT(*) FROM '' @ quoted coll @ '' WHERE ''), Cond ts], cells)) r))"

definition find_where_conjunction ::
  "db \<Rightarrow> string \<Rightarrow> column_plan list \<Rightarrow> condition_expr \<Rightarrow> (db_error + (piece list \<times> cell list) option) option" where
  "find_where_conjunction d coll cols c =
     seq (condition_sql d coll cols c) (\<lambda>r. done_with (map_option (\<lambda>(ts, cells).
       ([Raw (select_from d coll cols @ ''WHERE ''), Cond ts, Raw ('' '' @ order_by_id d coll)], cells)) r))"

definition find_where_conjunction_ordered ::
  "db \<Rightarrow> string \<Rightarrow> column_plan list \<Rightarrow> condition_expr \<Rightarrow> (string \<times> bool) list
    \<Rightarrow> (db_error + (piece list \<times> cell list) option) option" where
  "find_where_conjunction_ordered d coll cols c order =
     seq (condition_sql d coll cols c) (\<lambda>r.
       case r of
         None \<Rightarrow> done_with None
       | Some (ts, cells) \<Rightarrow>
           seq (order_by_sql d coll cols order) (\<lambda>order_by.
             done_with (Some ([Raw (select_from d coll cols @ ''WHERE ''), Cond ts, Raw ('' '' @ order_by)], cells))))"

section \<open>Writes\<close>

definition id_cell_and_display :: "val \<Rightarrow> db_error + cell" where
  "id_cell_and_display v =
     (case v of
        VInt n \<Rightarrow> Inr (CInt n)
      | VUuid s \<Rightarrow> Inr (CText s)
      | VStr s \<Rightarrow> Inr (CText s)
      | _ \<Rightarrow> Inl BadId)"

definition write_cell :: "db \<Rightarrow> column_plan \<Rightarrow> val option \<Rightarrow> (db_error + cell) option" where
  "write_cell d col slot = write_param (db_host d) (db_vault d) (db_simple_enums d) col slot"

definition is_tenant_col :: "db \<Rightarrow> string \<Rightarrow> column_plan \<Rightarrow> bool" where
  "is_tenant_col d coll c \<longleftrightarrow>
     (case db_tenants d coll of None \<Rightarrow> False | Some t \<Rightarrow> tf_sql_col t = cp_sql_name c)"

text \<open>The cell of a column of an inserted row; the one of the tenant is the claim, whatever the row has.\<close>

definition inserted_cell :: "db \<Rightarrow> string \<Rightarrow> (string \<times> val) list \<Rightarrow> column_plan \<Rightarrow> (db_error + cell) option" where
  "inserted_cell d coll fs c =
     (case db_tenants d coll of
        Some t \<Rightarrow>
          if tf_sql_col t = cp_sql_name c then tenant_cell d coll t
          else write_cell d c (map_of fs (ft_name (cp_field c)))
      | None \<Rightarrow> write_cell d c (map_of fs (ft_name (cp_field c))))"

definition holes_of :: "nat list \<Rightarrow> piece list" where
  "holes_of ns = join [Raw comma] (map (\<lambda>n. [Hole n]) ns)"

text \<open>\<open>given_id\<close> is the id that the process has generated or the row of a natural key brings.\<close>

definition insert_row ::
  "db \<Rightarrow> string \<Rightarrow> column_plan list \<Rightarrow> string option \<Rightarrow> (string \<times> val) list
    \<Rightarrow> (db_error + piece list \<times> cell list) option" where
  "insert_row d coll cols given_id fs =
     seq (map_seq (inserted_cell d coll fs) cols) (\<lambda>cells.
       let names = map quoted ((case given_id of Some _ \<Rightarrow> [id_col d coll] | None \<Rightarrow> []) @ map cp_sql_name cols);
           cells' = (case given_id of Some u \<Rightarrow> [CText u] | None \<Rightarrow> []) @ cells
       in done_with
         (if names = [] then ([Raw (''INSERT INTO '' @ quoted coll @ '' DEFAULT VALUES'')], cells')
          else ([Raw (''INSERT INTO '' @ quoted coll @ '' ('' @ join comma names @ '') VALUES ('')] @
            holes_of [1..<length names + 1] @ [Raw '')''], cells')))"

text \<open>The assignments of a patch, but for the columns that \<open>skip\<close> names.\<close>

fun set_clauses :: "db \<Rightarrow> (string \<Rightarrow> column_plan \<Rightarrow> bool) \<Rightarrow> column_plan list \<Rightarrow> (string \<times> val) list \<Rightarrow> cell list
    \<Rightarrow> (db_error + piece list list \<times> cell list) option" where
  "set_clauses d skip cols [] cells = done_with ([], cells)"
| "set_clauses d skip cols ((name, v) # patch) cells =
     (case find_column cols name of
        None \<Rightarrow> set_clauses d skip cols patch cells
      | Some c \<Rightarrow>
          if skip name c then set_clauses d skip cols patch cells
          else
            seq (write_cell d c (Some v)) (\<lambda>cell.
              seq (set_clauses d skip cols patch (cells @ [cell])) (\<lambda>(sets, cells').
                done_with ([Raw (quoted (cp_sql_name c) @ '' = ''), Hole (length cells + 1)] # sets, cells'))))"

definition update_statement :: "string \<Rightarrow> piece list list \<Rightarrow> sql list \<Rightarrow> piece list" where
  "update_statement coll sets conds =
     [Raw (''UPDATE '' @ quoted coll @ '' SET '')] @ join [Raw comma] sets @ [Raw '' WHERE '', Cond conds]"

text \<open>No statement if the patch writes no column.\<close>

definition apply_patch ::
  "db \<Rightarrow> string \<Rightarrow> column_plan list \<Rightarrow> cell \<Rightarrow> (string \<times> val) list
    \<Rightarrow> (db_error + (piece list \<times> cell list) option) option" where
  "apply_patch d coll cols id_cell patch =
     seq (set_clauses d (\<lambda>_ c. is_tenant_col d coll c) cols patch []) (\<lambda>(sets, cells).
       if sets = [] then done_with None
       else
         (let cells' = cells @ [id_cell]
          in seq (tenant_condition d coll cells') (\<lambda>(tenant, cells'').
               done_with (Some (update_statement coll sets
                 (join [AndT] (id_equals d coll (length cells') # opt_list tenant)), cells'')))))"

definition soft_column :: "column_plan list \<Rightarrow> string \<Rightarrow> string" where
  "soft_column cols field = (case find_column cols field of Some c \<Rightarrow> cp_sql_name c | None \<Rightarrow> field)"

definition delete_row ::
  "db \<Rightarrow> string \<Rightarrow> column_plan list \<Rightarrow> cell \<Rightarrow> int \<Rightarrow> (db_error + piece list \<times> cell list) option" where
  "delete_row d coll cols id_cell now_ms =
     (case db_soft_delete d coll of
        Some field \<Rightarrow>
          (let soft_col = soft_column cols field
           in seq (tenant_condition d coll [CInt now_ms, id_cell]) (\<lambda>(tenant, cells).
                done_with ([Raw (''UPDATE '' @ quoted coll @ '' SET '' @ quoted soft_col @ '' = ''), Hole 1,
                  Raw '' WHERE '',
                  Cond (join [AndT] ([id_equals d coll 2, [Atom (NullTest soft_col True)]] @ opt_list tenant))], cells)))
      | None \<Rightarrow>
          seq (tenant_condition d coll [id_cell]) (\<lambda>(tenant, cells).
            done_with ([Raw (''DELETE FROM '' @ quoted coll @ '' WHERE ''),
              Cond (join [AndT] (id_equals d coll 1 # opt_list tenant))], cells)))"

definition increment ::
  "db \<Rightarrow> string \<Rightarrow> column_plan list \<Rightarrow> cell \<Rightarrow> string \<Rightarrow> int \<Rightarrow> (db_error + piece list \<times> cell list) option" where
  "increment d coll cols id_cell field delta =
     (case find_column cols field of
        None \<Rightarrow> fail (NoColumn field)
      | Some c \<Rightarrow>
          seq (tenant_condition d coll [CInt delta, id_cell]) (\<lambda>(tenant, cells).
            done_with ([Raw (''UPDATE '' @ quoted coll @ '' SET '' @ quoted (cp_sql_name c) @ '' = '' @
                quoted (cp_sql_name c) @ '' + ''), Hole 1, Raw '' WHERE '',
              Cond (join [AndT] (id_equals d coll 2 # opt_list tenant))], cells)))"

text \<open>The assignments of \<open>updateWhere\<close>; \<open>None\<close> if one of them cannot be pushed.\<close>

fun update_clauses :: "db \<Rightarrow> string \<Rightarrow> column_plan list \<Rightarrow> (string \<times> val) list \<Rightarrow> cell list
    \<Rightarrow> (db_error + (piece list list \<times> cell list) option) option" where
  "update_clauses d coll cols [] cells = done_with (Some ([], cells))"
| "update_clauses d coll cols ((name, v) # patch) cells =
     (if name = ''id'' then update_clauses d coll cols patch cells
      else case find_column cols name of
        None \<Rightarrow> update_clauses d coll cols patch cells
      | Some c \<Rightarrow>
          if is_tenant_col d coll c then update_clauses d coll cols patch cells
          else if cp_json c \<or> cp_encrypted c then done_with None
          else
            seq (write_cell d c (Some v)) (\<lambda>cell.
              seq (update_clauses d coll cols patch (cells @ [cell])) (\<lambda>r.
                done_with (map_option (\<lambda>(sets, cells').
                  ([Raw (quoted (cp_sql_name c) @ '' = ''), Hole (length cells + 1)] # sets, cells')) r))))"

datatype update_plan = NoUpdate | NotPushed | Update "piece list" "cell list"

definition update_where_conjunction ::
  "db \<Rightarrow> string \<Rightarrow> column_plan list \<Rightarrow> condition_expr \<Rightarrow> val \<Rightarrow> (db_error + update_plan) option" where
  "update_where_conjunction d coll cols c patch =
     (case patch of
        VStruct patch_fields \<Rightarrow>
          seq (update_clauses d coll cols patch_fields []) (\<lambda>r.
            case r of
              None \<Rightarrow> done_with NotPushed
            | Some (sets, cells) \<Rightarrow>
                if sets = [] then done_with NoUpdate
                else
                  seq (condition_sql_with_params d coll cols c cells) (\<lambda>w.
                    done_with (case w of
                      None \<Rightarrow> NotPushed
                    | Some (ts, cells') \<Rightarrow> Update (update_statement coll sets ts) cells')))
      | _ \<Rightarrow> fail BadPatch)"

section \<open>Collections with a composite key\<close>

record pk_component =
  pk_field :: string
  pk_sql_col :: string

definition composite_pk_cells ::
  "db \<Rightarrow> column_plan list \<Rightarrow> pk_component list \<Rightarrow> val \<Rightarrow> (db_error + (string \<times> cell) list) option" where
  "composite_pk_cells d cols pk given =
     (case given of
        VStruct fs \<Rightarrow>
          map_seq (\<lambda>c.
            case map_of fs (pk_field c) of
              None \<Rightarrow> fail (NoKeyField (pk_field c))
            | Some v \<Rightarrow>
                (case find_column cols (pk_field c) of
                   None \<Rightarrow> fail (NoColumn (pk_field c))
                 | Some col \<Rightarrow> seq (write_cell d col (Some v)) (\<lambda>cell. done_with (pk_sql_col c, cell)))) pk
      | _ \<Rightarrow> fail BadId)"

text \<open>The equalities of the key, whose cells follow \<open>cells\<close>.\<close>

fun pk_conds :: "(string \<times> cell) list \<Rightarrow> cell list \<Rightarrow> sql list list \<times> cell list" where
  "pk_conds [] cells = ([], cells)"
| "pk_conds ((col, cell) # pks) cells =
     (let (conds, cells') = pk_conds pks (cells @ [cell])
      in ([Atom (Cmp col OpEq (length cells + 1))] # conds, cells'))"

definition composite_select ::
  "db \<Rightarrow> string \<Rightarrow> column_plan list \<Rightarrow> (string \<times> cell) list \<Rightarrow> (db_error + piece list \<times> cell list) option" where
  "composite_select d coll cols pks =
     (let (conds, cells) = pk_conds pks []
      in seq (tenant_condition d coll cells) (\<lambda>(tenant, cells').
           done_with ([Raw (''SELECT '' @ join comma (map (\<lambda>c. quoted (cp_sql_name c)) cols) @ '' FROM '' @
             quoted coll @ '' WHERE ''), Cond (join [AndT] (conds @ opt_list tenant))], cells')))"

definition composite_select_all ::
  "db \<Rightarrow> string \<Rightarrow> column_plan list \<Rightarrow> pk_component list \<Rightarrow> (db_error + piece list \<times> cell list) option" where
  "composite_select_all d coll cols pk =
     seq (base_where d coll []) (\<lambda>(conds, cells).
       done_with ([Raw (''SELECT '' @ join comma (map (\<lambda>c. quoted (cp_sql_name c)) cols) @ '' FROM '' @
           quoted coll @ '' '')] @ where_piece conds @
         [Raw (''ORDER BY '' @ join comma (map (\<lambda>c. quoted (pk_sql_col c)) pk))], cells))"

definition composite_insert ::
  "db \<Rightarrow> string \<Rightarrow> column_plan list \<Rightarrow> (string \<times> val) list \<Rightarrow> (db_error + piece list \<times> cell list) option" where
  "composite_insert d coll cols fs =
     seq (map_seq (inserted_cell d coll fs) cols) (\<lambda>cells.
       done_with ([Raw (''INSERT INTO '' @ quoted coll @ '' ('' @
           join comma (map (\<lambda>c. quoted (cp_sql_name c)) cols) @ '') VALUES ('')] @
         holes_of [1..<length cols + 1] @ [Raw '')''], cells))"

definition composite_delete ::
  "db \<Rightarrow> string \<Rightarrow> column_plan list \<Rightarrow> (string \<times> cell) list \<Rightarrow> int \<Rightarrow> (db_error + piece list \<times> cell list) option" where
  "composite_delete d coll cols pks now_ms =
     (case db_soft_delete d coll of
        Some field \<Rightarrow>
          (let soft_col = soft_column cols field; (conds, cells) = pk_conds pks [CInt now_ms]
           in seq (tenant_condition d coll cells) (\<lambda>(tenant, cells').
                done_with ([Raw (''UPDATE '' @ quoted coll @ '' SET '' @ quoted soft_col @ '' = ''), Hole 1,
                  Raw '' WHERE '',
                  Cond (join [AndT] ([Atom (NullTest soft_col True)] # conds @ opt_list tenant))], cells')))
      | None \<Rightarrow>
          (let (conds, cells) = pk_conds pks []
           in seq (tenant_condition d coll cells) (\<lambda>(tenant, cells').
                done_with ([Raw (''DELETE FROM '' @ quoted coll @ '' WHERE ''),
                  Cond (join [AndT] (conds @ opt_list tenant))], cells'))))"

definition composite_apply_patch ::
  "db \<Rightarrow> string \<Rightarrow> column_plan list \<Rightarrow> pk_component list \<Rightarrow> (string \<times> cell) list \<Rightarrow> (string \<times> val) list
    \<Rightarrow> (db_error + (piece list \<times> cell list) option) option" where
  "composite_apply_patch d coll cols pk pks patch =
     seq (set_clauses d (\<lambda>name _. list_ex (\<lambda>c. pk_field c = name) pk) cols patch []) (\<lambda>(sets, cells).
       if sets = [] then done_with None
       else
         (let (conds, cells') = pk_conds pks cells
          in seq (tenant_condition d coll cells') (\<lambda>(tenant, cells'').
               done_with (Some (update_statement coll sets (join [AndT] (conds @ opt_list tenant)), cells'')))))"

end
