(* ===== verification/SqlMeaning.thy ===== *)
theory SqlMeaning
  imports Pushdown
begin

text \<open>
  What a WHERE clause means: three-valued logic with \<open>None\<close> for unknown, comparison and
  LIKE of an engine, and the grammar of conditions, in which AND binds tighter than OR. The
  grammar is unambiguous: a machine with a stack of open parentheses computes the value of
  every text that it derives.
\<close>

section \<open>Three-valued logic\<close>

type_synonym tri = "bool option"

definition and3 :: "tri \<Rightarrow> tri \<Rightarrow> tri" where
  "and3 x y =
     (if x = Some False \<or> y = Some False then Some False
      else if x = None \<or> y = None then None else Some True)"

definition or3 :: "tri \<Rightarrow> tri \<Rightarrow> tri" where
  "or3 x y =
     (if x = Some True \<or> y = Some True then Some True
      else if x = None \<or> y = None then None else Some False)"

definition not3 :: "tri \<Rightarrow> tri" where
  "not3 x = map_option Not x"

lemma and3_assoc: "and3 (and3 x y) z = and3 x (and3 y z)"
  by (auto simp: and3_def)

lemma or3_assoc: "or3 (or3 x y) z = or3 x (or3 y z)"
  by (auto simp: or3_def)

lemma and3_units [simp]: "and3 (Some True) x = x" "and3 x (Some True) = x"
  by (cases x; auto simp: and3_def)+

lemma or3_units [simp]: "or3 (Some False) x = x" "or3 x (Some False) = x"
  by (cases x; auto simp: or3_def)+

lemma and3_true [simp]: "and3 x y = Some True \<longleftrightarrow> x = Some True \<and> y = Some True"
  by (auto simp: and3_def)

lemma or3_true [simp]: "or3 x y = Some True \<longleftrightarrow> x = Some True \<or> y = Some True"
  by (auto simp: or3_def)

lemma or3_false [simp]: "or3 x y = Some False \<longleftrightarrow> x = Some False \<and> y = Some False"
  by (auto simp: or3_def)

lemma not3_true [simp]: "not3 x = Some True \<longleftrightarrow> x = Some False"
  by (auto simp: not3_def)

section \<open>An engine\<close>

text \<open>How it compares two cells that are not NULL, and what LIKE takes for the same character.\<close>

record engine =
  eng_compare :: "cell \<Rightarrow> cell \<Rightarrow> ordering option"
  eng_fold :: "char \<Rightarrow> char"

definition op_accepts :: "binary_op \<Rightarrow> ordering \<Rightarrow> bool" where
  "op_accepts op ord =
     (if op = OpEq then ord = Equal else if op = OpNotEq then ord \<noteq> Equal else accepts op ord)"

definition cmp3 :: "engine \<Rightarrow> binary_op \<Rightarrow> cell \<Rightarrow> cell \<Rightarrow> tri" where
  "cmp3 e op a b =
     (if a = CNull \<or> b = CNull then None else map_option (op_accepts op) (eng_compare e a b))"

text \<open>The pattern, with backslash as the escape character, and the text.\<close>

function like :: "(char \<Rightarrow> char) \<Rightarrow> string \<Rightarrow> string \<Rightarrow> bool" where
  "like f [] s \<longleftrightarrow> s = []"
| "like f (c # p) s \<longleftrightarrow>
     (if c = CHR ''%'' then like f p s \<or> (case s of [] \<Rightarrow> False | _ # s' \<Rightarrow> like f (c # p) s')
      else if c = CHR ''_'' then (case s of [] \<Rightarrow> False | _ # s' \<Rightarrow> like f p s')
      else if c = CHR 0x5C then
        (case p of [] \<Rightarrow> False | q # p' \<Rightarrow> (case s of [] \<Rightarrow> False | t # s' \<Rightarrow> f q = f t \<and> like f p' s'))
      else (case s of [] \<Rightarrow> False | t # s' \<Rightarrow> f c = f t \<and> like f p s'))"
  by pat_completeness auto

termination
  by (relation "measures [\<lambda>(_, p, _). length p, \<lambda>(_, _, s). length s]") auto

declare like.simps(2) [simp del]

definition bound :: "cell list \<Rightarrow> nat \<Rightarrow> cell" where
  "bound cells n = (if 0 < n \<and> n \<le> length cells then cells ! (n - 1) else CNull)"

lemma bound_simps [simp]:
  "bound (cells @ c # rest) (Suc (length cells)) = c"
  "n \<le> length cells \<Longrightarrow> bound (cells @ rest) n = bound cells n"
  by (auto simp: bound_def nth_append)

definition negate_if :: "bool \<Rightarrow> tri \<Rightarrow> tri" where
  "negate_if negated x = (if negated then not3 x else x)"

fun atom_value :: "engine \<Rightarrow> (string \<Rightarrow> cell) \<Rightarrow> cell list \<Rightarrow> sql_atom \<Rightarrow> tri" where
  "atom_value e row cells (Cmp col op n) = cmp3 e op (row col) (bound cells n)"
| "atom_value e row cells (NullTest col is_null) = Some ((row col = CNull) = is_null)"
| "atom_value e row cells (ColumnPair left op right) = cmp3 e op (row left) (row right)"
| "atom_value e row cells (Among col negated ns) =
     negate_if negated (foldr (\<lambda>n. or3 (cmp3 e OpEq (row col) (bound cells n))) ns (Some False))"
| "atom_value e row cells (Like col negated n) =
     (case (row col, bound cells n) of
        (CText s, CText p) \<Rightarrow> Some (like (eng_fold e) p s \<noteq> negated)
      | _ \<Rightarrow> None)"
| "atom_value e row cells (Always t) = Some t"

section \<open>The grammar\<close>

inductive or_expr :: "(sql_atom \<Rightarrow> tri) \<Rightarrow> sql list \<Rightarrow> tri \<Rightarrow> bool"
  and and_expr :: "(sql_atom \<Rightarrow> tri) \<Rightarrow> sql list \<Rightarrow> tri \<Rightarrow> bool"
  and primary :: "(sql_atom \<Rightarrow> tri) \<Rightarrow> sql list \<Rightarrow> tri \<Rightarrow> bool"
  for f :: "sql_atom \<Rightarrow> tri"
where
  atom: "primary f [Atom a] (f a)"
| parens: "or_expr f ts x \<Longrightarrow> primary f (OpenT # ts @ [CloseT]) x"
| one_and: "primary f ts x \<Longrightarrow> and_expr f ts x"
| more_and: "and_expr f ts x \<Longrightarrow> primary f us y \<Longrightarrow> and_expr f (ts @ AndT # us) (and3 x y)"
| one_or: "and_expr f ts x \<Longrightarrow> or_expr f ts x"
| more_or: "or_expr f ts x \<Longrightarrow> and_expr f us y \<Longrightarrow> or_expr f (ts @ OrT # us) (or3 x y)"

lemma and_expr_append:
  "or_expr f us y \<Longrightarrow> True"
  "and_expr f us y \<Longrightarrow> and_expr f ts x \<Longrightarrow> and_expr f (ts @ AndT # us) (and3 x y)"
  "primary f us y \<Longrightarrow> True"
proof (induction rule: or_expr_and_expr_primary.inducts)
  case (one_and us y)
  then show ?case by (intro more_and)
next
  case (more_and us y vs z)
  then have "and_expr f (ts @ AndT # us) (and3 x y)" by simp
  from or_expr_and_expr_primary.more_and [OF this more_and(3)] show ?case
    by (simp add: and3_assoc)
qed simp_all

lemma or_expr_append:
  "or_expr f us y \<Longrightarrow> or_expr f ts x \<Longrightarrow> or_expr f (ts @ OrT # us) (or3 x y)"
  "and_expr f us y \<Longrightarrow> True"
  "primary f us y \<Longrightarrow> True"
proof (induction rule: or_expr_and_expr_primary.inducts)
  case (one_or us y)
  then show ?case by (intro more_or)
next
  case (more_or us y vs z)
  then have "or_expr f (ts @ OrT # us) (or3 x y)" by simp
  from or_expr_and_expr_primary.more_or [OF this more_or(3)] show ?case
    by (simp add: or3_assoc)
qed simp_all

lemma join_and:
  "clauses \<noteq> [] \<Longrightarrow> list_all2 (and_expr f) clauses xs \<Longrightarrow>
     and_expr f (join [AndT] clauses) (foldr and3 xs (Some True))"
proof (induction clauses arbitrary: xs)
  case (Cons c cs)
  then obtain x ys where xs: "xs = x # ys" "and_expr f c x" "list_all2 (and_expr f) cs ys"
    by (auto simp: list_all2_Cons1)
  show ?case
  proof (cases "cs = []")
    case True
    with xs show ?thesis by simp
  next
    case False
    with Cons.IH [OF False xs(3)] xs show ?thesis
      by (simp add: join_Cons and_expr_append(2))
  qed
qed simp

lemma join_or:
  "clauses \<noteq> [] \<Longrightarrow> list_all2 (or_expr f) clauses xs \<Longrightarrow>
     or_expr f (join [OrT] clauses) (foldr or3 xs (Some False))"
proof (induction clauses arbitrary: xs)
  case (Cons c cs)
  then obtain x ys where xs: "xs = x # ys" "or_expr f c x" "list_all2 (or_expr f) cs ys"
    by (auto simp: list_all2_Cons1)
  show ?case
  proof (cases "cs = []")
    case True
    with xs show ?thesis by simp
  next
    case False
    with Cons.IH [OF False xs(3)] xs show ?thesis
      by (simp add: join_Cons or_expr_append(1))
  qed
qed simp

section \<open>One reading\<close>

text \<open>For every open parenthesis, the value of the terms before OR and that of the term so far.\<close>

fun step :: "(sql_atom \<Rightarrow> tri) \<Rightarrow> sql \<Rightarrow> (tri \<times> tri) list \<Rightarrow> (tri \<times> tri) list" where
  "step f (Atom a) ((r, t) # fs) = (r, and3 t (f a)) # fs"
| "step f AndT fs = fs"
| "step f OrT ((r, t) # fs) = (or3 r t, Some True) # fs"
| "step f OpenT fs = (Some False, Some True) # fs"
| "step f CloseT ((r, t) # (r', t') # fs) = (r', and3 t' (or3 r t)) # fs"
| "step f _ fs = fs"

definition where_value :: "(sql_atom \<Rightarrow> tri) \<Rightarrow> sql list \<Rightarrow> tri" where
  "where_value f ts =
     (case fold (step f) ts [(Some False, Some True)] of (r, t) # _ \<Rightarrow> or3 r t | [] \<Rightarrow> None)"

lemma step_reads:
  "or_expr f ts x \<Longrightarrow> \<exists>r t. (\<forall>fs. fold (step f) ts ((Some False, Some True) # fs) = (r, t) # fs) \<and> or3 r t = x"
  "and_expr f ts x \<Longrightarrow> fold (step f) ts ((r, t) # fs) = (r, and3 t x) # fs"
  "primary f ts x \<Longrightarrow> fold (step f) ts ((r, t) # fs) = (r, and3 t x) # fs"
proof (induction arbitrary: and r t fs and r t fs rule: or_expr_and_expr_primary.inducts)
  case (more_or ts x us y)
  then obtain r t where "\<forall>fs. fold (step f) ts ((Some False, Some True) # fs) = (r, t) # fs" "or3 r t = x"
    by blast
  with more_or show ?case by (intro exI [of _ x] exI [of _ y]) simp
next
  case (one_or ts x)
  then show ?case by (intro exI [of _ "Some False"] exI [of _ x]) simp
qed (auto simp: and3_assoc)

theorem where_value_unique: "or_expr f ts x \<Longrightarrow> where_value f ts = x"
  using step_reads(1) by (fastforce simp: where_value_def)

end
