(* ===== verification/PushdownProps.thy ===== *)
theory PushdownProps
  imports SqlMeaning
begin

text \<open>
  The WHERE clause of a pushed condition: it is a sentence of the grammar, its placeholders are
  numbered in the order of the text, and it is true on exactly the rows of the tenant of the
  request that are not deleted and on which the condition holds; where the condition is typed
  and meets no NULL, that is where the interpreter answers \<open>true\<close>.
\<close>

section \<open>Placeholders\<close>

fun atom_holes :: "sql_atom \<Rightarrow> nat list" where
  "atom_holes (Cmp _ _ n) = [n]"
| "atom_holes (Among _ _ ns) = ns"
| "atom_holes (Like _ _ n) = [n]"
| "atom_holes _ = []"

fun sql_holes :: "sql list \<Rightarrow> nat list" where
  "sql_holes [] = []"
| "sql_holes (Atom a # ts) = atom_holes a @ sql_holes ts"
| "sql_holes (_ # ts) = sql_holes ts"

lemma sql_holes_append [simp]: "sql_holes (ts @ us) = sql_holes ts @ sql_holes us"
  by (induction ts rule: sql_holes.induct) simp_all

lemma sql_holes_parens [simp]: "sql_holes (in_parens ts) = sql_holes ts"
  by (simp add: in_parens_def)

lemma sql_holes_join [simp]: "sql_holes sep = [] \<Longrightarrow> sql_holes (join sep tss) = concat (map sql_holes tss)"
  by (induction sep tss rule: join.induct) simp_all

text \<open>The numbers of the cells that are added.\<close>

definition added :: "cell list \<Rightarrow> cell list \<Rightarrow> nat list" where
  "added cells cells' = [Suc (length cells)..<Suc (length cells')]"

lemma added_append: "added cells (cells @ us @ vs) = added cells (cells @ us) @ added (cells @ us) (cells @ us @ vs)"
proof -
  have "[i..<i + m + n] = [i..<i + m] @ [i + m..<i + m + n]" for i m n :: nat
    by (rule upt_add_eq_append) simp
  from this [of "Suc (length cells)" "length us" "length vs"] show ?thesis
    by (simp only: added_def length_append add_Suc add.assoc)
qed

lemma added_simps [simp]: "added cells cells = []" "added cells (cells @ [c]) = [Suc (length cells)]"
  by (simp_all add: added_def)

lemma added_Cons: "added cells (cells @ c # us) = Suc (length cells) # added (cells @ [c]) (cells @ c # us)"
  using added_append [of cells "[c]" us] by simp

lemma added_Nil: "[] = added cells (cells @ us) \<longleftrightarrow> us = []"
  by (cases us) (simp_all add: added_Cons)

section \<open>The meaning of a tree\<close>

definition val_cell :: "val \<Rightarrow> cell" where
  "val_cell v = (case native_cell v of Some c \<Rightarrow> c | None \<Rightarrow> CNull)"

text \<open>On the cell of each field.\<close>

fun cond3 :: "engine \<Rightarrow> (string \<Rightarrow> cell) \<Rightarrow> condition_expr \<Rightarrow> tri" where
  "cond3 e get (CLeaf field op v) =
     (if v = VNull then Some ((get field = CNull) = (op = OpEq))
      else cmp3 e op (get field) (val_cell v))"
| "cond3 e get (CFieldPair left op right) = cmp3 e op (get left) (get right)"
| "cond3 e get (CInList field vs negated) =
     negate_if negated (foldr (\<lambda>v. or3 (cmp3 e OpEq (get field) (val_cell v))) vs (Some False))"
| "cond3 e get (CStringMatch field op pattern negated) =
     (case get field of
        CText s \<Rightarrow> Some (like (eng_fold e) (like_val op pattern) s \<noteq> negated)
      | _ \<Rightarrow> None)"
| "cond3 e get (CAnd cs) = foldr and3 (map (cond3 e get) cs) (Some True)"
| "cond3 e get (COr cs) = foldr or3 (map (cond3 e get) cs) (Some False)"

text \<open>The cell of a field in a row, which is given by the cell of each column.\<close>

definition field_cell :: "db \<Rightarrow> string \<Rightarrow> column_plan list \<Rightarrow> (string \<Rightarrow> cell) \<Rightarrow> string \<Rightarrow> cell" where
  "field_cell d coll cols row field =
     row (case column_ref d coll cols field of Some (col, _) \<Rightarrow> col | None \<Rightarrow> field)"

fun nonempty_tree :: "condition_expr \<Rightarrow> bool" where
  "nonempty_tree (CAnd cs) \<longleftrightarrow> cs \<noteq> [] \<and> list_all nonempty_tree cs"
| "nonempty_tree (COr cs) \<longleftrightarrow> cs \<noteq> [] \<and> list_all nonempty_tree cs"
| "nonempty_tree _ \<longleftrightarrow> True"

definition fields_distinct :: "column_plan list \<Rightarrow> bool" where
  "fields_distinct cols \<longleftrightarrow> distinct (map (\<lambda>c. ft_name (cp_field c)) cols)"

section \<open>Leaves\<close>

text \<open>An atom with its cells stands for a condition.\<close>

definition atom_stands :: "engine \<Rightarrow> (string \<Rightarrow> cell) \<Rightarrow> tri \<Rightarrow> cell list \<Rightarrow> sql_atom \<Rightarrow> cell list \<Rightarrow> bool" where
  "atom_stands e row x cells a cells' \<longleftrightarrow>
     (\<exists>us. cells' = cells @ us) \<and> atom_holes a = added cells cells' \<and>
     (\<forall>rest. atom_value e row (cells' @ rest) a = x)"

lemma column_cell_native: "column_cell d col v = Some (Inr cell) \<Longrightarrow> native_cell v = Some cell"
  by (auto simp: column_cell_def ok_or_not_def write_param_def seq_defs
      split: option.splits if_splits sum.splits)

lemma id_cell_native: "id_cell_of v = Some (Inr cell) \<Longrightarrow> native_cell v = Some cell"
  by (cases v) (auto simp: id_cell_of_def native_cell_def seq_defs)

lemma leaf_stands:
  assumes "leaf_condition_sql d coll cols field op v cells = Some (Inr (a, cells'))"
  shows "atom_stands e row (cond3 e (field_cell d coll cols row) (CLeaf field op v)) cells a cells'"
proof -
  from assms obtain col pl where ref: "column_ref d coll cols field = Some (col, pl)"
    by (auto simp: leaf_condition_sql_def seq_defs split: option.splits)
  show ?thesis
  proof (cases "v = VNull")
    case True
    with assms ref show ?thesis
      by (auto simp: leaf_condition_sql_def atom_stands_def field_cell_def seq_defs split: if_splits)
  next
    case False
    with assms ref obtain cell where "native_cell v = Some cell"
      "a = Cmp col op (Suc (length cells))" "cells' = cells @ [cell]"
      by (auto simp: leaf_condition_sql_def seq_eq_Inr native_cell_def seq_defs
          split: if_splits val.splits dest: column_cell_native)
    with ref False show ?thesis
      by (auto simp: atom_stands_def field_cell_def val_cell_def)
  qed
qed

lemma find_stronger:
  "find (\<lambda>x. g x = k \<and> P x) xs = Some y \<Longrightarrow> distinct (map g xs) \<Longrightarrow> find (\<lambda>x. g x = k) xs = Some y"
  by (induction xs) (auto simp: find_Some_iff split: if_splits dest: nth_mem)

lemma native_column_ref:
  assumes "native_column d coll cols f = Some col" "fields_distinct cols"
  shows "field_cell d coll cols row f = row col"
  using assms find_stronger [of "\<lambda>c. ft_name (cp_field c)" f "\<lambda>c. \<not> cp_json c" cols]
  by (auto simp: native_column_def field_cell_def column_ref_def find_column_def fields_distinct_def
      split: if_splits)

lemma pair_stands:
  assumes "field_pair_condition_sql d coll cols left op right = Some a" "fields_distinct cols"
  shows "atom_stands e row (cond3 e (field_cell d coll cols row) (CFieldPair left op right)) cells a cells"
  using assms native_column_ref [OF _ assms(2)]
  by (auto simp: field_pair_condition_sql_def atom_stands_def split: if_splits option.splits)

lemma in_list_cells_bound:
  assumes "in_list_cells d field pl vs cells = Some (Inr (ns, cells'))"
  shows "\<exists>us. cells' = cells @ us \<and> ns = added cells cells' \<and>
    list_all2 (\<lambda>v n. \<forall>rest. bound (cells' @ rest) n = val_cell v) vs ns"
  using assms
proof (induction vs arbitrary: cells ns)
  case (Cons v vs)
  from Cons.prems obtain cell ms where cell: "native_cell v = Some cell"
    and rest: "in_list_cells d field pl vs (cells @ [cell]) = Some (Inr (ms, cells'))"
    and ns: "ns = Suc (length cells) # ms"
    by (auto simp: seq_eq_Inr seq_defs split: if_splits dest: column_cell_native id_cell_native)
  from Cons.IH [OF rest] obtain us where us: "cells' = cells @ cell # us"
    "ms = added (cells @ [cell]) cells'"
    "list_all2 (\<lambda>v n. \<forall>rest. bound (cells' @ rest) n = val_cell v) vs ms"
    by auto
  with cell ns show ?case
    by (auto simp: val_cell_def added_Cons)
qed (simp add: seq_defs)

lemma in_list_stands:
  assumes "in_list_condition_sql d coll cols field vs negated cells = Some (Inr (a, cells'))"
  shows "atom_stands e row (cond3 e (field_cell d coll cols row) (CInList field vs negated)) cells a cells'"
proof (cases "vs = []")
  case True
  with assms show ?thesis
    by (auto simp: in_list_condition_sql_def atom_stands_def seq_defs negate_if_def not3_def)
next
  case False
  with assms obtain col pl ns where ref: "column_ref d coll cols field = Some (col, pl)"
    and ns: "in_list_cells d field pl vs cells = Some (Inr (ns, cells'))" and a: "a = Among col negated ns"
    by (auto simp: in_list_condition_sql_def seq_eq_Inr seq_defs split: option.splits)
  from in_list_cells_bound [OF ns] obtain us where us: "cells' = cells @ us" "ns = added cells cells'"
    and all: "list_all2 (\<lambda>v n. \<forall>rest. bound (cells' @ rest) n = val_cell v) vs ns" by blast
  from all have "foldr (\<lambda>n. or3 (cmp3 e OpEq (row col) (bound (cells' @ rest) n))) ns (Some False) =
      foldr (\<lambda>v. or3 (cmp3 e OpEq (row col) (val_cell v))) vs (Some False)" for rest
    by (induction rule: list_all2_induct) simp_all
  with us ref a show ?thesis
    by (simp add: atom_stands_def field_cell_def)
qed

lemma string_match_stands:
  assumes "string_match_condition_sql d coll cols field op pattern negated cells = Some (Inr (a, cells'))"
  shows "atom_stands e row (cond3 e (field_cell d coll cols row) (CStringMatch field op pattern negated)) cells a cells'"
proof -
  from assms obtain col pl where ref: "column_ref d coll cols field = Some (col, pl)"
    by (auto simp: string_match_condition_sql_def seq_defs split: option.splits)
  with assms have "a = Like col negated (Suc (length cells))" "cells' = cells @ [CText (like_val op pattern)]"
    by (auto simp: string_match_condition_sql_def seq_defs Let_def split: option.splits if_splits)
  with ref show ?thesis
    by (auto simp: atom_stands_def field_cell_def split: cell.split)
qed

section \<open>Trees\<close>

text \<open>A text with its cells stands for a condition: as a disjunction if the condition is one, as a conjunction otherwise.\<close>

definition stands :: "engine \<Rightarrow> (string \<Rightarrow> cell) \<Rightarrow> bool \<Rightarrow> tri \<Rightarrow> cell list \<Rightarrow> sql list \<Rightarrow> cell list \<Rightarrow> bool" where
  "stands e row disjn x cells ts cells' \<longleftrightarrow>
     (\<exists>us. cells' = cells @ us) \<and> sql_holes ts = added cells cells' \<and>
     (\<forall>rest. if disjn then or_expr (atom_value e row (cells' @ rest)) ts x
             else and_expr (atom_value e row (cells' @ rest)) ts x)"

lemma atom_stands_alone:
  assumes "atom_stands e row x cells a cells'"
  shows "stands e row False x cells [Atom a] cells'"
proof -
  have "primary f [Atom a] (f a)" for f by (rule atom)
  from one_and [OF this] show ?thesis
    using assms by (auto simp: stands_def atom_stands_def) metis
qed

lemma stands_weaker: "stands e row False x cells ts cells' \<Longrightarrow> stands e row True x cells ts cells'"
  by (auto simp: stands_def intro: one_or)

lemma stands_parens: "stands e row disjn x cells ts cells' \<Longrightarrow> stands e row False x cells (in_parens ts) cells'"
proof -
  have "or_expr f ts x \<Longrightarrow> and_expr f (in_parens ts) x" for f
    unfolding in_parens_def by (intro one_and parens)
  moreover have "and_expr f ts x \<Longrightarrow> and_expr f (in_parens ts) x" for f
    unfolding in_parens_def by (rule one_and, rule parens, rule one_or)
  moreover assume "stands e row disjn x cells ts cells'"
  ultimately show ?thesis by (cases disjn) (auto simp: stands_def)
qed

text \<open>Clauses of a list, each read as the connective around it needs.\<close>

lemma clauses_stand:
  assumes "condition_clauses d coll cols wrap cs cells = Some (Inr (clauses, cells'))"
    and "\<And>c cells ts cells'. c \<in> set cs \<Longrightarrow> condition_expr_sql d coll cols c cells = Some (Inr (ts, cells')) \<Longrightarrow>
      stands e row disjn (x c) cells (if wrap c then in_parens ts else ts) cells'"
  shows "(\<exists>us. cells' = cells @ us) \<and> concat (map sql_holes clauses) = added cells cells' \<and>
    (\<forall>rest. list_all2 (if disjn then or_expr (atom_value e row (cells' @ rest)) else and_expr (atom_value e row (cells' @ rest)))
      clauses (map x cs))"
  using assms
proof (induction cs arbitrary: cells clauses)
  case (Cons c cs)
  from Cons.prems(1) obtain ts cells1 clauses1 where
    one: "condition_expr_sql d coll cols c cells = Some (Inr (ts, cells1))" and
    more: "condition_clauses d coll cols wrap cs cells1 = Some (Inr (clauses1, cells'))" and
    clauses: "clauses = (if wrap c then in_parens ts else ts) # clauses1"
    by (auto simp: seq_eq_Inr seq_defs)
  from Cons.prems(2) [OF _ one] have c: "stands e row disjn (x c) cells (if wrap c then in_parens ts else ts) cells1"
    by simp
  note cs = Cons.IH [OF more Cons.prems(2)]
  from c cs obtain us vs where cells: "cells1 = cells @ us" "cells' = cells @ us @ vs"
    by (auto simp: stands_def)
  from c have "if disjn then or_expr (atom_value e row (cells' @ rest)) (if wrap c then in_parens ts else ts) (x c)
      else and_expr (atom_value e row (cells' @ rest)) (if wrap c then in_parens ts else ts) (x c)" for rest
    unfolding stands_def cells by (metis append_assoc)
  then have "\<forall>rest. list_all2 (if disjn then or_expr (atom_value e row (cells' @ rest)) else and_expr (atom_value e row (cells' @ rest)))
      clauses (map x (c # cs))"
    using cs by (auto simp: clauses)
  moreover have "concat (map sql_holes clauses) = added cells cells'"
    using c cs by (simp add: clauses stands_def cells added_append split: if_splits)
  ultimately show ?case using cells by auto
qed (auto simp: seq_defs)

lemma condition_stands:
  assumes "condition_expr_sql d coll cols c cells = Some (Inr (ts, cells'))"
    and "nonempty_tree c" "fields_distinct cols"
  shows "stands e row (is_or c) (cond3 e (field_cell d coll cols row) c) cells ts cells'"
  using assms
proof (induction c arbitrary: cells ts cells')
  case (CLeaf field op v)
  then show ?case
    using leaf_stands by (fastforce simp: is_or_def one_atom_def seq_eq_Inr seq_defs intro: atom_stands_alone)
next
  case (CFieldPair left op right)
  then show ?case
    using pair_stands [OF _ CFieldPair(3)]
    by (fastforce simp: is_or_def seq_defs intro: atom_stands_alone split: option.splits)
next
  case (CInList field vs negated)
  then show ?case
    using in_list_stands by (fastforce simp: is_or_def one_atom_def seq_eq_Inr seq_defs intro: atom_stands_alone)
next
  case (CStringMatch field op pattern negated)
  then show ?case
    using string_match_stands by (fastforce simp: is_or_def one_atom_def seq_eq_Inr seq_defs intro: atom_stands_alone)
next
  case (CAnd cs)
  then obtain clauses where run: "condition_clauses d coll cols is_or cs cells = Some (Inr (clauses, cells'))"
    and ts: "ts = join [AndT] clauses"
    by (auto simp: seq_eq_Inr seq_defs)
  have "stands e row False (cond3 e (field_cell d coll cols row) c) k (if is_or c then in_parens t else t) k'"
    if "c \<in> set cs" "condition_expr_sql d coll cols c k = Some (Inr (t, k'))" for c k t k'
    using CAnd.IH [OF that] CAnd.prems that(1) by (auto simp: list_all_iff intro: stands_parens)
  from clauses_stand [OF run this] have all: "(\<exists>us. cells' = cells @ us) \<and>
      concat (map sql_holes clauses) = added cells cells' \<and>
      (\<forall>rest. list_all2 (and_expr (atom_value e row (cells' @ rest))) clauses
        (map (cond3 e (field_cell d coll cols row)) cs))"
    by simp
  moreover have "clauses \<noteq> []" using all CAnd.prems(2) by auto
  ultimately show ?case
    by (auto simp: stands_def is_or_def ts intro: join_and)
next
  case (COr cs)
  then obtain clauses where run: "condition_clauses d coll cols is_and cs cells = Some (Inr (clauses, cells'))"
    and ts: "ts = join [OrT] clauses"
    by (auto simp: seq_eq_Inr seq_defs)
  have "stands e row True (cond3 e (field_cell d coll cols row) c) k (if is_and c then in_parens t else t) k'"
    if "c \<in> set cs" "condition_expr_sql d coll cols c k = Some (Inr (t, k'))" for c k t k'
    using COr.IH [OF that] COr.prems that(1)
    by (cases "is_or c") (auto simp: list_all_iff intro: stands_parens stands_weaker)
  from clauses_stand [OF run this] have all: "(\<exists>us. cells' = cells @ us) \<and>
      concat (map sql_holes clauses) = added cells cells' \<and>
      (\<forall>rest. list_all2 (or_expr (atom_value e row (cells' @ rest))) clauses
        (map (cond3 e (field_cell d coll cols row)) cs))"
    by simp
  moreover have "clauses \<noteq> []" using all COr.prems(2) by auto
  ultimately show ?case
    by (auto simp: stands_def is_or_def ts intro: join_or)
qed

section \<open>The guards of a collection\<close>

text \<open>A row passes if it is of the tenant of the request and not deleted.\<close>

definition of_tenant :: "engine \<Rightarrow> db \<Rightarrow> string \<Rightarrow> (string \<Rightarrow> cell) \<Rightarrow> bool" where
  "of_tenant e d coll row \<longleftrightarrow>
     (case db_tenants d coll of
        None \<Rightarrow> True
      | Some t \<Rightarrow>
          (case tenant_cell d coll t of
             Some (Inr cell) \<Rightarrow> cmp3 e OpEq (row (tf_sql_col t)) cell = Some True
           | _ \<Rightarrow> False))"

definition not_deleted :: "db \<Rightarrow> string \<Rightarrow> (string \<Rightarrow> cell) \<Rightarrow> bool" where
  "not_deleted d coll row \<longleftrightarrow>
     (case soft_delete_where d coll of
        Some [Atom (NullTest col True)] \<Rightarrow> row col = CNull
      | _ \<Rightarrow> True)"

lemma soft_delete_form:
  obtains "soft_delete_where d coll = None" | col where "soft_delete_where d coll = Some [Atom (NullTest col True)]"
  by (cases "db_soft_delete d coll") (auto simp: soft_delete_where_def Let_def)

lemma atom_reads:
  "and_expr (atom_value e row cells) [Atom (NullTest col is_null)] (Some ((row col = CNull) = is_null))"
  "and_expr (atom_value e row cells) [Atom (Cmp col op n)] (cmp3 e op (row col) (bound cells n))"
  using one_and [OF atom, of "atom_value e row cells" "NullTest col is_null"]
    one_and [OF atom, of "atom_value e row cells" "Cmp col op n"] by simp_all

text \<open>The two guards as clauses of a conjunction, after \<open>cells\<close>.\<close>

lemma guards_stand:
  assumes "tenant_condition d coll cells = Some (Inr (tenant, cells'))"
  obtains us where "cells' = cells @ us"
    "concat (map sql_holes (opt_list (soft_delete_where d coll) @ opt_list tenant)) = added cells cells'"
    "\<And>rest. \<exists>xs. list_all2 (and_expr (atom_value e row (cells' @ rest)))
        (opt_list (soft_delete_where d coll) @ opt_list tenant) xs \<and>
      (foldr and3 xs (Some True) = Some True \<longleftrightarrow> of_tenant e d coll row \<and> not_deleted d coll row)"
proof (cases "db_tenants d coll")
  case None
  with assms have "tenant = None" "cells' = cells" by (auto simp: tenant_condition_def seq_defs)
  with None show thesis
    using atom_reads(1) [where is_null = True]
    by (cases rule: soft_delete_form [of d coll]; intro that [of "[]"])
      (fastforce simp: opt_list_def of_tenant_def not_deleted_def list_all2_Cons1)+
next
  case (Some t)
  with assms obtain cell where cell: "tenant_cell d coll t = Some (Inr cell)"
    and tenant: "tenant = Some [Atom (Cmp (tf_sql_col t) OpEq (Suc (length cells)))]"
    and cells: "cells' = cells @ [cell]"
    by (auto simp: tenant_condition_def seq_eq_Inr seq_defs Let_def)
  have t: "and_expr (atom_value e row (cells' @ rest)) [Atom (Cmp (tf_sql_col t) OpEq (Suc (length cells)))]
      (cmp3 e OpEq (row (tf_sql_col t)) cell)" for rest
    using atom_reads(2) [of e row "cells' @ rest" "tf_sql_col t" OpEq "Suc (length cells)"] by (simp add: cells)
  show thesis
  proof (cases rule: soft_delete_form [of d coll])
    case 1
    show thesis
      by (rule that [of "[cell]"])
        (use 1 Some cell t in \<open>auto simp: cells tenant opt_list_def of_tenant_def not_deleted_def
          intro!: exI [of _ "[cmp3 e OpEq (row (tf_sql_col t)) cell]"]\<close>)
  next
    case (2 col)
    have "and_expr (atom_value e row (cells' @ rest)) [Atom (NullTest col True)] (Some (row col = CNull))" for rest
      using atom_reads(1) [of e row _ col True] by simp
    with 2 Some cell t show thesis
      by (intro that [of "[cell]"])
        (auto simp: cells tenant opt_list_def of_tenant_def not_deleted_def
          intro!: exI [of _ "[Some (row col = CNull), cmp3 e OpEq (row (tf_sql_col t)) cell]"])
  qed
qed

text \<open>The value of the clause, and the numbers of its placeholders.\<close>

lemma condition_clause:
  assumes "condition_sql_with_params d coll cols c cells = Some (Inr (Some (ts, cells')))"
    and "nonempty_tree c" "fields_distinct cols"
  obtains x where "or_expr (atom_value e row cells') ts x"
    "x = Some True \<longleftrightarrow>
       cond3 e (field_cell d coll cols row) c = Some True \<and> of_tenant e d coll row \<and> not_deleted d coll row"
    "sql_holes ts = added cells cells'" "\<exists>us. cells' = cells @ us"
proof -
  let ?x = "cond3 e (field_cell d coll cols row) c"
  from assms(1) obtain cond cells1 where
    cond: "condition_expr_sql d coll cols c cells = Some (Inr (cond, cells1))"
    by (auto simp: condition_sql_with_params_def seq_defs split: option.splits sum.splits)
  with assms(1) obtain tenant where
    tenant: "tenant_condition d coll cells1 = Some (Inr (tenant, cells'))" and
    ts: "ts = (let extra = opt_list (soft_delete_where d coll) @ opt_list tenant
      in if extra = [] then cond else join [AndT] ((if is_or c then in_parens cond else cond) # extra))"
    by (auto simp: condition_sql_with_params_def seq_eq_Inr seq_defs Let_def split: if_splits)
  let ?extra = "opt_list (soft_delete_where d coll) @ opt_list tenant"
  note stands = condition_stands [OF cond assms(2,3), of e row]
  from guards_stand [OF tenant, of e row] obtain us where us: "cells' = cells1 @ us"
    "concat (map sql_holes ?extra) = added cells1 cells'"
    and guards: "\<exists>xs. list_all2 (and_expr (atom_value e row (cells' @ []))) ?extra xs \<and>
      (foldr and3 xs (Some True) = Some True \<longleftrightarrow> of_tenant e d coll row \<and> not_deleted d coll row)"
    by metis
  then obtain xs where xs: "list_all2 (and_expr (atom_value e row cells')) ?extra xs"
    "foldr and3 xs (Some True) = Some True \<longleftrightarrow> of_tenant e d coll row \<and> not_deleted d coll row"
    by auto
  from stands obtain vs where vs: "cells1 = cells @ vs" by (auto simp: stands_def)
  show thesis
  proof (cases "?extra = []")
    case True
    with xs(1) have "xs = []" by simp
    moreover from True us have "us = []" by (auto simp: added_Nil)
    moreover have "stands e row True ?x cells cond cells1"
      using stands by (cases "is_or c") (auto intro: stands_weaker)
    then have "or_expr (atom_value e row (cells1 @ [])) cond ?x" "sql_holes cond = added cells cells1"
      unfolding stands_def by (metis (full_types))+
    ultimately show thesis
      using True us xs(2) vs by (intro that [of ?x]) (simp_all add: ts)
  next
    case False
    let ?c = "if is_or c then in_parens cond else cond"
    have joined: "ts = join [AndT] (?c # ?extra)"
      unfolding ts Let_def using False by (rule if_not_P)
    have c: "stands e row False ?x cells ?c cells1"
      using stands by (auto intro: stands_parens)
    then have "and_expr (atom_value e row cells') ?c ?x" by (simp add: stands_def us)
    with xs(1) have "list_all2 (and_expr (atom_value e row cells')) (?c # ?extra) (?x # xs)" by simp
    from join_and [OF _ this] have "or_expr (atom_value e row cells') ts (and3 ?x (foldr and3 xs (Some True)))"
      by (simp add: joined one_or)
    moreover have "sql_holes ts = added cells cells'"
      using c us vs unfolding joined by (simp add: stands_def added_append)
    ultimately show thesis
      using xs(2) us vs by (intro that) auto
  qed
qed

section \<open>LIKE\<close>

lemma like_percent: "like f (CHR ''%'' # p) s \<longleftrightarrow> (\<exists>a b. s = a @ b \<and> like f p b)"
proof (induction s)
  case Nil
  then show ?case by (simp add: like.simps(2))
next
  case (Cons c s)
  have "like f (CHR ''%'' # p) (c # s) \<longleftrightarrow> like f p (c # s) \<or> (\<exists>a b. s = a @ b \<and> like f p b)"
    by (subst like.simps(2)) (simp add: Cons.IH)
  also have "\<dots> \<longleftrightarrow> (\<exists>a b. c # s = a @ b \<and> like f p b)"
    by (auto simp: Cons_eq_append_conv)
  finally show ?case .
qed

lemma like_literal:
  "like f (escape_like_wildcards p @ q) s \<longleftrightarrow> (\<exists>a b. s = a @ b \<and> map f a = map f p \<and> like f q b)"
proof (induction p arbitrary: s)
  case Nil
  then show ?case by (simp add: escape_like_wildcards_def)
next
  case (Cons c p)
  have "like f (escape_like_wildcards (c # p) @ q) s \<longleftrightarrow>
      (case s of [] \<Rightarrow> False | t # s' \<Rightarrow> f c = f t \<and> like f (escape_like_wildcards p @ q) s')"
    by (auto simp: escape_like_wildcards_def like.simps(2) split: list.split)
  also have "\<dots> \<longleftrightarrow> (\<exists>a b. s = a @ b \<and> map f a = map f (c # p) \<and> like f q b)"
  proof (cases s)
    case (Cons t s')
    have "(\<exists>a b. t # s' = a @ b \<and> map f a = map f (c # p) \<and> like f q b) \<longleftrightarrow>
        (\<exists>a b. s' = a @ b \<and> f c = f t \<and> map f a = map f p \<and> like f q b)" (is "?L \<longleftrightarrow> ?R")
    proof
      assume ?L
      then obtain a b where ab: "t # s' = a @ b" "map f a = map f (c # p)" "like f q b" by blast
      then obtain a' where "a = t # a'" by (cases a) auto
      with ab show ?R by auto
    next
      assume ?R
      then obtain a b where "s' = a @ b" "f c = f t" "map f a = map f p" "like f q b" by blast
      then show ?L by (intro exI [of _ "t # a"] exI [of _ b]) simp
    qed
    with Cons show ?thesis by (auto simp: Cons.IH)
  qed simp
  finally show ?case .
qed

lemma strip_prefix_iff: "(\<exists>y. strip_prefix p s = Some y) \<longleftrightarrow> (\<exists>b. s = p @ b)"
  by (auto simp: strip_prefix_def) (metis append_take_drop_id)

lemma strip_suffix_iff: "(\<exists>y. strip_suffix p s = Some y) \<longleftrightarrow> (\<exists>a. s = a @ p)"
  by (auto simp: strip_suffix_def) (metis append_take_drop_id)

lemma contains_text_iff: "contains_text p s \<longleftrightarrow> (\<exists>a b. s = a @ p @ b)"
proof (induction s)
  case (Cons c s)
  have "contains_text p (c # s) \<longleftrightarrow> (\<exists>b. c # s = p @ b) \<or> (\<exists>a b. s = a @ p @ b)"
    by (simp add: Cons.IH strip_prefix_iff)
  also have "\<dots> \<longleftrightarrow> (\<exists>a b. c # s = a @ p @ b)"
    by (auto simp: Cons_eq_append_conv [of c s _ "p @ _"])
  finally show ?case .
qed auto

lemma like_any: "like f ''%'' s"
  by (simp add: like_percent)

text \<open>The pattern of each operation, escaped, is matched by exactly the texts of the operation.\<close>

lemma like_val_exact: "like f (like_val op p) s \<longleftrightarrow> string_match op (map f s) (map f p)"
proof -
  have "map f s = map f p @ b \<longleftrightarrow> (\<exists>a c. s = a @ c \<and> map f a = map f p \<and> map f c = b)" for b
    by (auto simp: map_eq_append_conv) metis+
  moreover have "map f s = a @ map f p \<longleftrightarrow> (\<exists>c d. s = c @ d \<and> map f c = a \<and> map f d = map f p)" for a
    by (auto simp: map_eq_append_conv) metis+
  moreover have "map f s = a @ map f p @ b \<longleftrightarrow>
      (\<exists>c d g. s = c @ d @ g \<and> map f c = a \<and> map f d = map f p \<and> map f g = b)" for a b
    by (auto simp: map_eq_append_conv append_eq_map_conv) metis+
  ultimately show ?thesis
    using like_literal [of f p "[]" s]
    by (cases op) (auto simp: string_match_def like_val_def strip_prefix_iff strip_suffix_iff contains_text_iff
        like_percent like_literal [of f p "''%''"] like_any like_literal [of f p "[]", simplified])
qed

end
