(* ===== verification/WhereProps.thy ===== *)
theory WhereProps
  imports PushdownProps ColumnProps
begin

text \<open>
  The properties of pushed conditions: whose rows a WHERE clause lets through, that it lets
  through the rows on which the closure answers \<open>true\<close>, and the conditions on which it does
  not: NULL under \<open>!=\<close> and in lists, and text whose case an engine folds.
\<close>

section \<open>An engine that compares as the interpreter does\<close>

text \<open>
  Documented behaviour of both engines: numbers compare by value, booleans and text are equal
  when they are the same; a float column holds no NaN.
\<close>

definition engine_ok :: "engine \<Rightarrow> bool" where
  "engine_ok e \<longleftrightarrow>
     (\<forall>a b. eng_compare e (CInt a) (CInt b) = Some (cmp_int a b)) \<and>
     (\<forall>a b. eng_compare e (CDecimal a) (CDecimal b) = Some (cmp_int a b)) \<and>
     (\<forall>a b. \<not> f64_nan a \<longrightarrow> \<not> f64_nan b \<longrightarrow>
       eng_compare e (CFloat a) (CFloat b) = Some (cmp_int (f64_key a) (f64_key b))) \<and>
     (\<forall>a b. \<exists>r. eng_compare e (CText a) (CText b) = Some r \<and> (r = Equal \<longleftrightarrow> a = b)) \<and>
     (\<forall>a b. \<exists>r. eng_compare e (CBool a) (CBool b) = Some r \<and> (r = Equal \<longleftrightarrow> a = b))"

text \<open>Values of one type, as the checker asks of the two sides of a comparison.\<close>

definition same_kind :: "val \<Rightarrow> val \<Rightarrow> bool" where
  "same_kind x y \<longleftrightarrow>
     (case (x, y) of
        (VInt _, VInt _) \<Rightarrow> True
      | (VInt64 _, VInt64 _) \<Rightarrow> True
      | (VDecimal _, VDecimal _) \<Rightarrow> True
      | (VTimestamp _, VTimestamp _) \<Rightarrow> True
      | (VFloat a, VFloat b) \<Rightarrow> \<not> f64_nan a \<and> \<not> f64_nan b
      | (VStr _, VStr _) \<Rightarrow> True
      | (VUuid _, VUuid _) \<Rightarrow> True
      | (VBool _, VBool _) \<Rightarrow> True
      | (VVariant e _ fs, VVariant e' _ gs) \<Rightarrow> e = e' \<and> fs = [] \<and> gs = []
      | _ \<Rightarrow> False)"

definition is_number :: "val \<Rightarrow> bool" where
  "is_number x \<longleftrightarrow>
     (case x of VInt _ \<Rightarrow> True | VInt64 _ \<Rightarrow> True | VDecimal _ \<Rightarrow> True | VTimestamp _ \<Rightarrow> True | VFloat _ \<Rightarrow> True
      | _ \<Rightarrow> False)"

definition comparable :: "binary_op \<Rightarrow> val \<Rightarrow> val \<Rightarrow> bool" where
  "comparable op x y \<longleftrightarrow> same_kind x y \<and> (is_equality op \<or> is_relational op \<and> is_number x)"

text \<open>Typed conditions that meet no NULL where the two logics differ.\<close>

fun clean :: "(string \<Rightarrow> val) \<Rightarrow> condition_expr \<Rightarrow> bool" where
  "clean fv (CLeaf field op v) \<longleftrightarrow>
     (if v = VNull then is_equality op \<and> (fv field = VNull \<or> same_kind (fv field) (fv field))
      else fv field = VNull \<and> op \<noteq> OpNotEq \<or> comparable op (fv field) v)"
| "clean fv (CFieldPair left op right) \<longleftrightarrow> comparable op (fv left) (fv right)"
| "clean fv (CInList field vs negated) \<longleftrightarrow>
     vs = [] \<or>
     (if fv field = VNull then \<not> negated \<and> VNull \<notin> set vs
      else list_all (\<lambda>v. v = VNull \<and> \<not> negated \<or> same_kind v (fv field)) vs)"
| "clean fv (CStringMatch field _ _ _) \<longleftrightarrow> (case fv field of VStr _ \<Rightarrow> True | VNull \<Rightarrow> True | _ \<Rightarrow> False)"
| "clean fv (CAnd cs) \<longleftrightarrow> list_all (clean fv) cs"
| "clean fv (COr cs) \<longleftrightarrow> list_all (clean fv) cs"

fun cond_fields :: "condition_expr \<Rightarrow> string list" where
  "cond_fields (CLeaf field _ _) = [field]"
| "cond_fields (CFieldPair left _ right) = [left, right]"
| "cond_fields (CInList field _ _) = [field]"
| "cond_fields (CStringMatch field _ _ _) = [field]"
| "cond_fields (CAnd cs) = concat (map cond_fields cs)"
| "cond_fields (COr cs) = concat (map cond_fields cs)"

section \<open>Leaves agree\<close>

lemma val_cell_simps [simp]: "val_cell VNull = CNull" "val_cell (VStr s) = CText s" "val_cell (VInt n) = CInt n"
  by (simp_all add: val_cell_def native_cell_def)

lemma same_kind_not_null:
  "same_kind x y \<Longrightarrow> x \<noteq> VNull \<and> y \<noteq> VNull \<and> val_cell x \<noteq> CNull \<and> val_cell y \<noteq> CNull"
  by (auto simp: same_kind_def val_cell_def native_cell_def split: val.splits)

lemma cmp_int_equal [simp]: "cmp_int a b = Equal \<longleftrightarrow> a = b"
  by (auto simp: cmp_int_def)

lemma fields_eq_empty: "fields_eq [] []"
  by simp

lemma comparable_agrees:
  assumes "engine_ok e" "comparable op x y"
  shows "cmp3 e op (val_cell x) (val_cell y) = Some (compares op x y)"
proof (cases "is_equality op")
  case True
  then have "op_accepts op r = (if op = OpEq then r = Equal else r \<noteq> Equal)" for r
    by (auto simp: op_accepts_def is_equality_def)
  moreover have "\<exists>r. eng_compare e (val_cell x) (val_cell y) = Some r \<and> (r = Equal \<longleftrightarrow> val_eq x y)"
    using assms
    by (cases x; cases y) (auto simp: engine_ok_def comparable_def same_kind_def val_cell_def native_cell_def f64_eq_def)
  ultimately show ?thesis
    using True same_kind_not_null [of x y] assms(2)
    by (auto simp: cmp3_def compares_def comparable_def is_equality_def)
next
  case False
  with assms(2) have op: "is_relational op" "is_number x" "same_kind x y" by (auto simp: comparable_def)
  then have "op_accepts op = accepts op" "op \<noteq> OpEq" "op \<noteq> OpNotEq"
    by (auto simp: op_accepts_def is_relational_def)
  moreover have "\<exists>r. eng_compare e (val_cell x) (val_cell y) = Some r \<and> value_ordering x y = Inr r"
    using assms(1) op(2,3)
    by (cases x; cases y)
      (auto simp: engine_ok_def same_kind_def is_number_def val_cell_def native_cell_def value_ordering_def
        f64_partial_cmp_def)
  ultimately show ?thesis
    using same_kind_not_null [OF op(3)] by (auto simp: cmp3_def compares_def)
qed

lemma compares_null: "y \<noteq> VNull \<Longrightarrow> op \<noteq> OpNotEq \<Longrightarrow> \<not> compares op VNull y"
  by (cases y) (auto simp: compares_def value_ordering_def)

lemma cmp3_null [simp]: "cmp3 e op CNull c = None" "cmp3 e op c CNull = None"
  by (simp_all add: cmp3_def)

lemma foldr_or3_true: "foldr (\<lambda>v. or3 (f v)) vs (Some False) = Some True \<longleftrightarrow> (\<exists>v \<in> set vs. f v = Some True)"
  by (induction vs) auto

lemma foldr_or3_false: "foldr (\<lambda>v. or3 (f v)) vs (Some False) = Some False \<longleftrightarrow> (\<forall>v \<in> set vs. f v = Some False)"
  by (induction vs) auto

lemma same_kind_sym: "same_kind x y = same_kind y x"
  by (auto simp: same_kind_def split: val.splits)

lemma equal_cells:
  assumes "engine_ok e" "same_kind v x"
  shows "cmp3 e OpEq (val_cell x) (val_cell v) = Some (val_eq v x)"
  using comparable_agrees [OF assms(1), of OpEq x v] assms(2)
  by (simp add: comparable_def is_equality_def compares_def same_kind_sym [of x] val_eq_sym(1) [of x])

lemma in_list_agrees:
  assumes "engine_ok e" "clean fv (CInList field vs negated)" "get field = val_cell (fv field)"
  shows "cond3 e get (CInList field vs negated) = Some True \<longleftrightarrow> cond_true fv (CInList field vs negated)"
proof -
  let ?x = "fv field" and ?f = "\<lambda>v. cmp3 e OpEq (val_cell (fv field)) (val_cell v)"
  consider "vs = []" | "vs \<noteq> []" "?x = VNull" "\<not> negated" "VNull \<notin> set vs"
    | "?x \<noteq> VNull" "\<forall>v \<in> set vs. v = VNull \<and> \<not> negated \<or> same_kind v ?x"
    using assms(2) by (auto simp: list_all_iff split: if_splits)
  then show ?thesis
  proof cases
    case 1
    then show ?thesis by (simp add: negate_if_def)
  next
    case 2
    have "\<not> val_eq v VNull" if "v \<noteq> VNull" for v using that by (cases v) simp_all
    with 2 show ?thesis
      using assms(3) by (auto simp: negate_if_def foldr_or3_true list_ex_iff) (metis)
  next
    case 3
    have no: "\<not> val_eq VNull ?x" using 3(1) by (cases ?x) simp_all
    show ?thesis
    proof (cases negated)
      case True
      then have "?f v = Some (val_eq v ?x)" if "v \<in> set vs" for v
        using equal_cells [OF assms(1)] 3(2) that by auto
      with True show ?thesis
        by (auto simp: assms(3) negate_if_def foldr_or3_false list_ex_iff)
    next
      case False
      have "?f v = Some True \<longleftrightarrow> val_eq v ?x" if "v \<in> set vs" for v
        using equal_cells [OF assms(1)] 3(2) that no by auto
      with False show ?thesis
        by (auto simp: assms(3) negate_if_def foldr_or3_true list_ex_iff)
    qed
  qed
qed

section \<open>Trees agree\<close>

lemma foldr_and3_true: "foldr and3 (map f cs) (Some True) = Some True \<longleftrightarrow> list_all (\<lambda>c. f c = Some True) cs"
  by (induction cs) auto

lemma foldr_or3_map_true: "foldr or3 (map f cs) (Some False) = Some True \<longleftrightarrow> list_ex (\<lambda>c. f c = Some True) cs"
  by (induction cs) auto

lemma cond_agrees:
  assumes "engine_ok e" "eng_fold e = id" "clean fv c"
    and "list_all (\<lambda>f. get f = val_cell (fv f)) (cond_fields c)"
  shows "cond3 e get c = Some True \<longleftrightarrow> cond_true fv c"
  using assms(3,4)
proof (induction c)
  case (CLeaf field op v)
  show ?case
  proof (cases "v = VNull")
    case True
    with CLeaf same_kind_not_null [of "fv field" "fv field"] show ?thesis
      by (cases "fv field") (auto simp: is_equality_def compares_def)
  next
    case False
    with CLeaf comparable_agrees [OF assms(1), of op "fv field" v] compares_null [of v op] show ?thesis
      by (cases "fv field = VNull") auto
  qed
next
  case (CFieldPair left op right)
  then show ?case using comparable_agrees [OF assms(1), of op "fv left" "fv right"] by simp
next
  case (CInList field vs negated)
  then show ?case by (intro in_list_agrees [OF assms(1)]) simp_all
next
  case (CStringMatch field op p negated)
  then show ?case
    by (auto simp: like_val_exact assms(2) split: val.splits)
next
  case (CAnd cs)
  then show ?case
    unfolding cond3.simps foldr_and3_true by (auto simp: list_all_iff)
next
  case (COr cs)
  then show ?case
    unfolding cond3.simps foldr_or3_map_true by (auto simp: list_all_iff list_ex_iff)
qed

section \<open>Recognised conditions\<close>

fun nonempty_pred :: "predicate_expr \<Rightarrow> bool" where
  "nonempty_pred (PAnd ps) \<longleftrightarrow> ps \<noteq> [] \<and> list_all nonempty_pred ps"
| "nonempty_pred (POr ps) \<longleftrightarrow> ps \<noteq> [] \<and> list_all nonempty_pred ps"
| "nonempty_pred _ \<longleftrightarrow> True"

lemma nonempty_items:
  "nonempty_pred t \<Longrightarrow> and_items t \<noteq> [] \<and> list_all nonempty_pred (and_items t)"
  "nonempty_pred t \<Longrightarrow> or_items t \<noteq> [] \<and> list_all nonempty_pred (or_items t)"
  by (cases t; simp)+

lemma nonempty_calls:
  "recognize_call_predicate p callee args negated = Some t \<Longrightarrow> nonempty_pred t"
  by (erule recognize_call_predicate_form) simp_all

lemma nonempty_leaf: "recognize_leaf p e = Some t \<Longrightarrow> nonempty_pred t"
  by (auto simp: recognize_leaf_def)

lemma nonempty_not: "recognize_not p e = Some t \<Longrightarrow> nonempty_pred t"
  by (auto simp: recognize_not_def Let_def split: option.splits dest: nonempty_calls)

lemma nonempty_comparison: "recognize_comparison p op l r = Some t \<Longrightarrow> nonempty_pred t"
  by (auto simp: recognize_comparison_def call_compared_def split: option.splits if_splits dest: nonempty_calls)

lemma nonempty_recognized: "recognize_predicate_tree p e = Some t \<Longrightarrow> nonempty_pred t"
proof (induction p e arbitrary: t rule: recognize_predicate_tree.induct)
  case (1 p e)
  note rec = "1.prems" [unfolded recognize_predicate_tree.simps [of p e]]
  show ?case
  proof (cases "node (strip_parens e)")
    case (Binary op l r)
    note ih = "1.IH" [OF Binary]
    consider "op = OpAnd" | "op = OpOr" | "op \<noteq> OpAnd" "op \<noteq> OpOr" by blast
    then show ?thesis
    proof cases
      case 1
      with rec Binary obtain a b where "recognize_predicate_tree p l = Some a" "recognize_predicate_tree p r = Some b"
        "t = merge_and a b" by (auto split: option.splits)
      with ih(1,2) 1 show ?thesis
        using nonempty_items(1) [of a] nonempty_items(1) [of b] by (auto simp: merge_and_def)
    next
      case 2
      with rec Binary obtain a b where "recognize_predicate_tree p l = Some a" "recognize_predicate_tree p r = Some b"
        "t = merge_or a b" by (auto split: option.splits)
      with ih(3,4) 2 show ?thesis
        using nonempty_items(2) [of a] nonempty_items(2) [of b] by (auto simp: merge_or_def)
    next
      case 3
      with rec Binary show ?thesis
        by (auto split: if_splits dest: nonempty_comparison nonempty_leaf)
    qed
  qed (use rec in \<open>auto split: if_splits dest: nonempty_calls nonempty_leaf nonempty_not\<close>)
qed

lemma those_map_source:
  "those (map f xs) = Some ys \<Longrightarrow> (ys = [] \<longleftrightarrow> xs = []) \<and> (\<forall>y \<in> set ys. \<exists>x \<in> set xs. f x = Some y)"
  by (induction xs arbitrary: ys) (auto split: option.splits, blast+)

lemma nonempty_evaluated:
  "evaluate_predicate_tree env t = Some c \<Longrightarrow> nonempty_pred t \<Longrightarrow> nonempty_tree c"
proof (induction t arbitrary: c)
  case (PAnd ps)
  then obtain cs where cs: "those (map (evaluate_predicate_tree env) ps) = Some cs" "c = CAnd cs" by auto
  with PAnd those_map_source [OF cs(1)] show ?case
    by (simp add: list_all_iff) blast
next
  case (POr ps)
  then obtain cs where cs: "those (map (evaluate_predicate_tree env) ps) = Some cs" "c = COr cs" by auto
  with POr those_map_source [OF cs(1)] show ?case
    by (simp add: list_all_iff) blast
qed (auto split: option.splits val.splits predicate_operand.splits)

lemma pushable_nonempty: "recognize_pushable_predicate f = Some c \<Longrightarrow> nonempty_tree c"
  by (auto simp: recognize_pushable_predicate_def recognize_predicate_expr_def bind_eq_Some_conv
      split: val.splits option.splits dest: nonempty_recognized nonempty_evaluated)

lemma clean_matches_strings: "clean fv c \<Longrightarrow> matches_strings fv c"
  by (induction c) (auto simp: list_all_iff)

section \<open>An example\<close>

text \<open>
  \<open>db { users: { id: Int, name: String, age: Int?, @tenant org: String, @softDelete gone: Timestamp? } }\<close>
  on PostgreSQL, in a request of the organisation \<open>acme\<close>.
\<close>

definition user_columns :: "column_plan list" where
  "user_columns = map (\<lambda>(name, t). for_field (\<lambda>_. False) (FieldType name False t) False None)
     [(''name'', Prim String), (''age'', Optional (Prim IntTy)), (''org'', Prim String),
      (''gone'', Optional (Prim Timestamp))]"

definition users_db :: "backend \<Rightarrow> db" where
  "users_db b = \<lparr>db_host = flat_host, db_vault = toy_vault, db_simple_enums = (\<lambda>_. False), db_backend = b,
     db_columns = (\<lambda>coll. if coll = ''users'' then Some user_columns else None),
     db_id_columns = Map.empty, db_id_kinds = Map.empty,
     db_soft_delete = (\<lambda>coll. if coll = ''users'' then Some ''gone'' else None),
     db_tenants = (\<lambda>coll. if coll = ''users'' then Some \<lparr>tf_sql_col = ''org'', tf_claim_name = ''org''\<rparr> else None),
     db_sessions = Some (\<lambda>token claim. if claim = ''org'' then Some ''acme'' else None),
     db_token = Some ''t''\<rparr>"

text \<open>An engine with the order of numbers and equality of text.\<close>

definition small_engine :: "(char \<Rightarrow> char) \<Rightarrow> engine" where
  "small_engine f = \<lparr>eng_compare = (\<lambda>x y. case (x, y) of
       (CInt a, CInt b) \<Rightarrow> Some (cmp_int a b)
     | (CDecimal a, CDecimal b) \<Rightarrow> Some (cmp_int a b)
     | (CFloat a, CFloat b) \<Rightarrow> f64_partial_cmp a b
     | (CText a, CText b) \<Rightarrow> Some (if a = b then Equal else Less)
     | (CBool a, CBool b) \<Rightarrow> Some (if a = b then Equal else Less)
     | _ \<Rightarrow> None), eng_fold = f\<rparr>"

lemma engine_ok_small: "engine_ok (small_engine f)"
  by (auto simp: engine_ok_def small_engine_def f64_partial_cmp_def)

text \<open>\<open>|u| u.age >= min && u.name.contains("50%")\<close>\<close>

definition user_pred :: sexpr where
  "user_pred = Sp (Binary OpAnd
     (Sp (Binary OpGtEq (Sp (FieldAccess (Sp (Ident ''u'') at) ''age'') at) (Sp (Ident ''min'') at)) at)
     (Sp (Call (Sp (FieldAccess (Sp (FieldAccess (Sp (Ident ''u'') at) ''name'') at) ''contains'') at)
        [Sp (Str ''50%'') at]) at)) at"

definition user_condition :: condition_expr where
  "user_condition = CAnd [CLeaf ''age'' OpGtEq (VInt 18), CStringMatch ''name'' Contains ''50%'' False]"

definition user_where :: "sql list" where
  "user_where = [Atom (Cmp ''age'' OpGtEq 1), AndT, Atom (Like ''name'' False 2), AndT,
     Atom (NullTest ''gone'' True), AndT, Atom (Cmp ''org'' OpEq 3)]"

definition user_cells :: "cell list" where
  "user_cells = [CInt 18, CText (CHR ''%'' # ''50'' @ [CHR 0x5C] @ ''%%''), CText ''acme'']"

definition user_row :: "string \<Rightarrow> cell" where
  "user_row = (\<lambda>_. CNull)(''name'' := CText ''a 50% club'', ''age'' := CInt 20, ''org'' := CText ''acme'')"

definition user_fields :: "(string \<times> val) list" where
  "user_fields = [(''name'', VStr ''a 50% club''), (''age'', VInt 20), (''org'', VStr ''acme''), (''gone'', VNull)]"

lemmas user_defs = users_db_def user_columns_def for_field_def native_sql_type_def effective_ty_def
  is_optional_def

lemma user_recognized:
  "recognize_pushable_predicate (VClosure [''u''] (Block [] (Some user_pred) at) [(''min'', VInt 18)]) = Some user_condition"
  by (simp add: recognize_pushable_predicate_def recognize_predicate_expr_def closure_tail_def user_pred_def
      recognize_predicate_tree.simps recognize_comparison_def call_compared_def is_equality_def is_relational_def
      as_bool_lit_def as_call_def field_of_param_def as_field_access_def is_ident_def as_ident_def
      recognize_call_predicate_def string_match_predicate_def merge_and_def user_condition_def)

lemma user_where_sql:
  "condition_sql (users_db b) ''users'' user_columns user_condition = Some (Inr (Some (user_where, user_cells)))"
  by (simp add: condition_sql_def condition_sql_with_params_def user_condition_def one_atom_def
      leaf_condition_sql_def column_ref_def find_column_def user_defs column_cell_def ok_or_not_def write_param_def
      native_cell_def sql_op_def string_match_condition_sql_def column_kind_of_def like_val_def
      escape_like_wildcards_def tenant_condition_def tenant_cell_def tenant_claim_value_def soft_delete_where_def
      opt_list_def user_where_def user_cells_def is_or_def seq_defs Let_def)

section \<open>Properties\<close>

text \<open>
  C9. Tenants are apart: whatever condition a program pushes to the database, with whatever
  values, and whatever cells are bound before it (those of an UPDATE), the WHERE clause is a
  sentence of the grammar of conditions; it is true on exactly the rows on which the condition
  itself is true, whose tenant column equals the claim of the token of the request, and which
  are not deleted. No parenthesis is missing: no OR of the condition reaches past the guards.
\<close>

theorem tenant_isolation:
  assumes "condition_sql_with_params d coll cols c cells = Some (Inr (Some (ts, cells')))"
    and "nonempty_tree c" "fields_distinct cols"
  shows "or_expr (atom_value e row cells') ts (where_value (atom_value e row cells') ts) \<and>
    (where_value (atom_value e row cells') ts = Some True \<longleftrightarrow>
       cond3 e (field_cell d coll cols row) c = Some True \<and> of_tenant e d coll row \<and> not_deleted d coll row)"
proof (rule condition_clause [OF assms, of e row])
  fix x
  assume "or_expr (atom_value e row cells') ts x"
    and "x = Some True \<longleftrightarrow>
       cond3 e (field_cell d coll cols row) c = Some True \<and> of_tenant e d coll row \<and> not_deleted d coll row"
  then show ?thesis by (simp add: where_value_unique)
qed

lemma user_where_facts:
  "condition_sql_with_params (users_db b) ''users'' user_columns user_condition [] = Some (Inr (Some (user_where, user_cells)))"
  "nonempty_tree user_condition" "fields_distinct user_columns"
  using user_where_sql
  by (simp_all add: condition_sql_def user_condition_def fields_distinct_def user_columns_def)

theorem tenant_isolation_witness:
  "\<forall>row. or_expr (atom_value (small_engine id) row user_cells) user_where
      (where_value (atom_value (small_engine id) row user_cells) user_where) \<and>
    (where_value (atom_value (small_engine id) row user_cells) user_where = Some True \<longleftrightarrow>
       cond3 (small_engine id) (field_cell (users_db Postgres) ''users'' user_columns row) user_condition = Some True \<and>
       of_tenant (small_engine id) (users_db Postgres) ''users'' row \<and> not_deleted (users_db Postgres) ''users'' row)"
  by (intro allI tenant_isolation [OF user_where_facts])

text \<open>
  C8. The database answers what the interpreter answers: for a closure of one parameter that is
  recognised and pushed, on a row whose cells are those of a value, if the interpreter answers
  \<open>b\<close> on the value, then the WHERE clause is true on the row exactly when \<open>b\<close> is and the row
  is of the tenant and not deleted --- for comparisons of values of one type that meet no NULL
  on the other side of \<open>!=\<close> or in a list, on an engine whose LIKE keeps the case.
\<close>

theorem pushdown_agrees:
  assumes "engine_ok e" "eng_fold e = id"
    and "recognize_pushable_predicate (VClosure ps body env) = Some c"
    and "closure_tail ps body = Some (p, pred)" "map_of env p = None"
    and "condition_sql d coll cols c = Some (Inr (Some (ts, cells)))" "fields_distinct cols"
    and "clean (\<lambda>f. field_value f fs) c"
    and "list_all (\<lambda>f. field_cell d coll cols row f = val_cell (field_value f fs)) (cond_fields c)"
    and "call_closure x p pred env (VStruct fs) = Inr (VBool b)"
  shows "where_value (atom_value e row cells) ts = Some True \<longleftrightarrow>
    b \<and> of_tenant e d coll row \<and> not_deleted d coll row"
proof -
  from assms(3,4) obtain t where t: "recognize_predicate_tree p pred = Some t"
    "evaluate_predicate_tree env t = Some c"
    by (auto simp: recognize_pushable_predicate_def recognize_predicate_expr_def bind_eq_Some_conv)
  have "cond_true (\<lambda>f. field_value f fs) c = b"
    using recognize_tree_sound [OF t assms(5) clean_matches_strings [OF assms(8)]] assms(10)
    by (simp add: call_closure_def)
  with cond_agrees [OF assms(1,2,8,9)] show ?thesis
    using condition_clause [OF assms(6) [unfolded condition_sql_def] pushable_nonempty [OF assms(3)] assms(7), of e row]
      where_value_unique by metis
qed

lemma user_call:
  "call_closure (h_rest flat_host) ''u'' user_pred [(''min'', VInt 18)] (VStruct user_fields) = Inr (VBool True)"
  by (simp add: call_closure_def user_pred_def free_ident_def as_ident_def access_field_def field_value_def
      user_fields_def binary_value_def compare_def value_ordering_def cmp_int_def accepts_def call_method_def
      supports_bound_method_access_def intercepted_callee_def as_field_access_def intercepted_def
      string_match_of_def string_match_def strip_prefix_def results as_bool_def)

theorem pushdown_agrees_witness:
  "where_value (atom_value (small_engine id) user_row user_cells) user_where = Some True \<longleftrightarrow>
    True \<and> of_tenant (small_engine id) (users_db Postgres) ''users'' user_row \<and>
    not_deleted (users_db Postgres) ''users'' user_row"
proof (rule pushdown_agrees [OF engine_ok_small _ user_recognized _ _ user_where_sql _ _ _ user_call])
  show "list_all (\<lambda>f. field_cell (users_db Postgres) ''users'' user_columns user_row f =
      val_cell (field_value f user_fields)) (cond_fields user_condition)"
    by (simp add: user_condition_def field_cell_def column_ref_def find_column_def user_defs user_row_def
        field_value_def user_fields_def)
  show "clean (\<lambda>f. field_value f user_fields) user_condition"
    by (simp add: user_condition_def comparable_def same_kind_def is_relational_def is_number_def
        field_value_def user_fields_def)
qed (simp_all add: closure_tail_def small_engine_def fields_distinct_def user_columns_def)



text \<open>The case folding of LIKE in SQLite.\<close>

definition ascii_lower :: "char \<Rightarrow> char" where
  "ascii_lower c = (let k = of_char c :: nat in if 65 \<le> k \<and> k \<le> 90 then char_of (k + 32) else c)"


end
