(* ===== verification/StatementProps.thy ===== *)
theory StatementProps
  imports Statements WhereProps
begin

text \<open>
  The statements of a collection, as the engine sees them: SQLite binds the cells to the
  question marks in the order of the text, PostgreSQL by their numbers. The two agree on every
  statement but that of a page, and every statement on existing rows but that one is
  confined to the rows of the tenant.
\<close>

section \<open>What the engine sees\<close>

fun renumber_atom :: "nat \<Rightarrow> sql_atom \<Rightarrow> sql_atom \<times> nat" where
  "renumber_atom n (Cmp col op _) = (Cmp col op n, n + 1)"
| "renumber_atom n (Among col negated ns) = (Among col negated [n..<n + length ns], n + length ns)"
| "renumber_atom n (Like col negated _) = (Like col negated n, n + 1)"
| "renumber_atom n a = (a, n)"

fun renumber_sql :: "nat \<Rightarrow> sql list \<Rightarrow> sql list \<times> nat" where
  "renumber_sql n [] = ([], n)"
| "renumber_sql n (Atom a # ts) =
     (let (a', m) = renumber_atom n a; (ts', k) = renumber_sql m ts in (Atom a' # ts', k))"
| "renumber_sql n (t # ts) = (let (ts', k) = renumber_sql n ts in (t # ts', k))"

fun renumber :: "nat \<Rightarrow> piece list \<Rightarrow> piece list \<times> nat" where
  "renumber n [] = ([], n)"
| "renumber n (Raw s # ps) = (let (ps', k) = renumber n ps in (Raw s # ps', k))"
| "renumber n (Hole _ # ps) = (let (ps', k) = renumber (n + 1) ps in (Hole n # ps', k))"
| "renumber n (Cond ts # ps) =
     (let (ts', m) = renumber_sql n ts; (ps', k) = renumber m ps in (Cond ts' # ps', k))"

definition engine_view :: "backend \<Rightarrow> piece list \<Rightarrow> piece list" where
  "engine_view b ps = (case b of Postgres \<Rightarrow> ps | Sqlite \<Rightarrow> fst (renumber 1 ps))"

fun piece_holes :: "piece \<Rightarrow> nat list" where
  "piece_holes (Raw _) = []"
| "piece_holes (Hole n) = [n]"
| "piece_holes (Cond ts) = sql_holes ts"

definition statement_holes :: "piece list \<Rightarrow> nat list" where
  "statement_holes ps = concat (map piece_holes ps)"

lemma statement_holes_simps [simp]:
  "statement_holes [] = []"
  "statement_holes (p # ps) = piece_holes p @ statement_holes ps"
  "statement_holes (ps @ qs) = statement_holes ps @ statement_holes qs"
  by (simp_all add: statement_holes_def)

lemma statement_holes_join [simp]:
  "statement_holes sep = [] \<Longrightarrow> statement_holes (join sep pss) = concat (map statement_holes pss)"
  by (induction sep pss rule: join.induct) simp_all

text \<open>The numbers of a statement are those of its cells, in order.\<close>

definition in_order :: "piece list \<Rightarrow> cell list \<Rightarrow> bool" where
  "in_order ps cells \<longleftrightarrow> statement_holes ps = added [] cells"

lemma upt_split:
  assumes "[n..<m] = xs @ ys" "n \<le> m"
  shows "xs = [n..<n + length xs]" "ys = [n + length xs..<m]" "n + length xs \<le> m"
proof -
  have len: "length xs + length ys = m - n" using arg_cong [OF assms(1), of length] by simp
  with assms(2) show "n + length xs \<le> m" by linarith
  then have "[n..<m] = [n..<n + length xs] @ [n + length xs..<m]"
    by (metis le_add1 le_add_diff_inverse upt_add_eq_append)
  with assms(1) show "xs = [n..<n + length xs]" "ys = [n + length xs..<m]"
    by (auto simp: append_eq_append_conv)
qed

lemma upt_forms:
  "n \<le> m \<Longrightarrow> [] = [n..<m] \<longleftrightarrow> n = m" "[k] = [n..<m] \<longleftrightarrow> k = n \<and> m = Suc n"
proof -
  show "n \<le> m \<Longrightarrow> [] = [n..<m] \<longleftrightarrow> n = m"
    by (cases "n < m") (simp_all add: upt_conv_Cons)
  have "[n..<m] = n # [Suc n..<m]" if "n < m" using that by (rule upt_conv_Cons)
  then show "[k] = [n..<m] \<longleftrightarrow> k = n \<and> m = Suc n"
    by (cases "n < m") (auto simp: eq_commute [of "[]"])
qed

lemma renumber_atom_same:
  "atom_holes a = [n..<m] \<Longrightarrow> n \<le> m \<Longrightarrow> renumber_atom n a = (a, m)"
  by (cases a) (simp_all add: upt_forms)

lemma renumber_sql_same:
  "sql_holes ts = [n..<m] \<Longrightarrow> n \<le> m \<Longrightarrow> renumber_sql n ts = (ts, m)"
proof (induction ts arbitrary: n rule: sql_holes.induct)
  case (2 a ts)
  from upt_split [OF "2.prems"(1) [simplified, symmetric] "2.prems"(2)]
  have "renumber_atom n a = (a, n + length (atom_holes a))"
    "renumber_sql (n + length (atom_holes a)) ts = (ts, m)"
    by (auto intro: renumber_atom_same "2.IH")
  then show ?case by simp
qed (simp_all add: upt_forms)

lemma renumber_same:
  "statement_holes ps = [n..<m] \<Longrightarrow> n \<le> m \<Longrightarrow> renumber n ps = (ps, m)"
proof (induction n ps rule: renumber.induct)
  case (3 n k ps)
  from upt_split [of n m "[k]" "statement_holes ps"] 3 show ?case by simp
next
  case (4 n ts ps)
  from upt_split [of n m "sql_holes ts" "statement_holes ps"] 4
  have "renumber_sql n ts = (ts, n + length (sql_holes ts))"
    by (intro renumber_sql_same) auto
  moreover from upt_split [of n m "sql_holes ts" "statement_holes ps"] 4 this
  have "renumber (n + length (sql_holes ts)) ps = (ps, m)"
    by auto
  ultimately show ?case by simp
qed (simp_all add: upt_forms)

lemma engine_view_in_order: "in_order ps cells \<Longrightarrow> engine_view b ps = ps"
  using renumber_same [of ps 1 "Suc (length cells)"]
  by (cases b) (simp_all only: engine_view_def in_order_def added_def backend.case list.size One_nat_def le_add2 plus_1_eq_Suc fst_conv)

section \<open>Conditions that are conjunctions\<close>

lemma added_trans: "cells1 = cells @ us \<Longrightarrow> cells2 = cells1 @ vs \<Longrightarrow>
    added cells cells1 @ added cells1 cells2 = added cells cells2"
  using added_append [of cells us vs] by simp

text \<open>The condition is a sentence, and true only on rows of the tenant.\<close>

definition guarded :: "engine \<Rightarrow> db \<Rightarrow> string \<Rightarrow> (string \<Rightarrow> cell) \<Rightarrow> cell list \<Rightarrow> sql list \<Rightarrow> bool" where
  "guarded e d coll row cells ts \<longleftrightarrow>
     or_expr (atom_value e row cells) ts (where_value (atom_value e row cells) ts) \<and>
     (where_value (atom_value e row cells) ts = Some True \<longrightarrow> of_tenant e d coll row)"

lemma tenant_cases:
  assumes "tenant_condition d coll cells = Some (Inr (tenant, cells'))"
  obtains (none) "db_tenants d coll = None" "tenant = None" "cells' = cells"
  | (some) t cell where "db_tenants d coll = Some t" "tenant_cell d coll t = Some (Inr cell)"
      "tenant = Some [Atom (Cmp (tf_sql_col t) OpEq (Suc (length cells)))]" "cells' = cells @ [cell]"
  using assms by (cases "db_tenants d coll") (auto simp: tenant_condition_def seq_eq_Inr seq_defs Let_def)

lemma atom_and [simp]: "and_expr f [Atom a] (f a)"
  by (rule one_and, rule atom)

lemma atoms_read:
  "list_all (\<lambda>ts. \<exists>a. ts = [Atom a]) tss \<Longrightarrow> tss \<noteq> [] \<Longrightarrow>
     \<exists>xs. list_all2 (and_expr f) tss xs \<and> or_expr f (join [AndT] tss) (foldr and3 xs (Some True))"
proof -
  assume single: "list_all (\<lambda>ts. \<exists>a. ts = [Atom a]) tss" and ne: "tss \<noteq> []"
  have "list_all2 (and_expr f) tss (map (\<lambda>ts. case ts of [Atom a] \<Rightarrow> f a | _ \<Rightarrow> None) tss)"
    using single by (induction tss) auto
  from this join_and [OF ne this] show ?thesis by (blast intro: one_or)
qed

lemma conjunction_true:
  "list_all2 R tss xs \<Longrightarrow> foldr and3 xs (Some True) = Some True \<Longrightarrow> ts \<in> set tss \<Longrightarrow> R ts (Some True)"
  by (induction rule: list_all2_induct) auto

lemma and_atom_value: "and_expr f [Atom a] x \<Longrightarrow> x = f a"
  using where_value_unique [OF one_or, of f "[Atom a]" x] where_value_unique [OF one_or [OF one_and [OF atom]], of f a]
  by simp

lemma guardedI:
  assumes "tenant_condition d coll cells = Some (Inr (tenant, cells'))"
    and "list_all (\<lambda>ts. \<exists>a. ts = [Atom a]) tss" "tss @ opt_list tenant \<noteq> []"
  shows "guarded e d coll row (cells' @ rest) (join [AndT] (tss @ opt_list tenant))"
proof -
  let ?f = "atom_value e row (cells' @ rest)" and ?tss = "tss @ opt_list tenant"
  have "list_all (\<lambda>ts. \<exists>a. ts = [Atom a]) ?tss"
    using assms(2) by (cases rule: tenant_cases [OF assms(1)]) (auto simp: opt_list_def)
  from atoms_read [OF this assms(3)] obtain xs where xs: "list_all2 (and_expr ?f) ?tss xs"
    "or_expr ?f (join [AndT] ?tss) (foldr and3 xs (Some True))" by blast
  have "of_tenant e d coll row" if "foldr and3 xs (Some True) = Some True"
    using assms(1)
  proof (cases rule: tenant_cases)
    case none
    then show ?thesis by (simp add: of_tenant_def)
  next
    case (some t cell)
    then have "[Atom (Cmp (tf_sql_col t) OpEq (Suc (length cells)))] \<in> set ?tss" by (simp add: opt_list_def)
    from conjunction_true [OF xs(1) that this] have "?f (Cmp (tf_sql_col t) OpEq (Suc (length cells))) = Some True"
      using and_atom_value by metis
    with some show ?thesis by (simp add: of_tenant_def)
  qed
  with xs(2) show ?thesis by (simp add: guarded_def where_value_unique [OF xs(2)])
qed

lemma tenant_holes:
  assumes "tenant_condition d coll cells = Some (Inr (tenant, cells'))"
  shows "concat (map sql_holes (opt_list tenant)) = added cells cells' \<and> (\<exists>us. cells' = cells @ us)"
  by (cases rule: tenant_cases [OF assms]) (auto simp: opt_list_def)

lemma soft_single: "list_all (\<lambda>ts. \<exists>a. ts = [Atom a]) (opt_list (soft_delete_where d coll))"
  "concat (map sql_holes (opt_list (soft_delete_where d coll))) = []"
  by (cases rule: soft_delete_form [of d coll]; simp add: opt_list_def)+

lemma join_Nil: "list_all (\<lambda>ts. ts \<noteq> []) tss \<Longrightarrow> join sep tss = [] \<longleftrightarrow> tss = []"
  by (induction sep tss rule: join.induct) auto

section \<open>Statements\<close>

text \<open>A statement without a condition is none on existing rows.\<close>

definition confined :: "db \<Rightarrow> string \<Rightarrow> piece list \<Rightarrow> cell list \<Rightarrow> bool" where
  "confined d coll ps cells \<longleftrightarrow>
     (\<forall>e row ts. Cond ts \<in> set ps \<longrightarrow> guarded e d coll row cells ts) \<and>
     (db_tenants d coll \<noteq> None \<longrightarrow> (\<exists>ts. Cond ts \<in> set ps))"

lemma base_where_confined:
  assumes "base_where d coll cells = Some (Inr (conds, cells'))"
  shows "statement_holes (where_piece conds) = added cells cells' \<and> (\<exists>us. cells' = cells @ us) \<and>
    (Cond ts \<in> set (where_piece conds) \<longrightarrow> guarded e d coll row (cells' @ rest) ts) \<and>
    (db_tenants d coll \<noteq> None \<longrightarrow> (\<exists>ts. Cond ts \<in> set (where_piece conds)))"
proof -
  from assms obtain tenant where tenant: "tenant_condition d coll cells = Some (Inr (tenant, cells'))"
    and conds: "conds = join [AndT] (opt_list (soft_delete_where d coll) @ opt_list tenant)"
    by (auto simp: base_where_def seq_eq_Inr seq_defs)
  let ?tss = "opt_list (soft_delete_where d coll) @ opt_list tenant"
  have "list_all (\<lambda>ts. ts \<noteq> []) ?tss"
    using soft_single(1) [of d coll]
    by (cases rule: tenant_cases [OF tenant]) (auto simp: opt_list_def list_all_iff split: option.splits)
  from join_Nil [OF this] have nil: "conds = [] \<longleftrightarrow> ?tss = []" by (simp add: conds)
  have holes: "sql_holes conds = added cells cells'" "\<exists>us. cells' = cells @ us"
    using tenant_holes [OF tenant] soft_single(2) [of d coll] by (auto simp: conds)
  moreover have "statement_holes (where_piece conds) = sql_holes conds"
    by (auto simp: where_piece_def)
  moreover have "guarded e d coll row (cells' @ rest) ts" if "Cond ts \<in> set (where_piece conds)"
  proof -
    from that have "conds \<noteq> []" "ts = conds" by (auto simp: where_piece_def split: if_splits)
    with nil have "?tss \<noteq> []" by simp
    from guardedI [OF tenant soft_single(1) this] show ?thesis
      unfolding \<open>ts = conds\<close> conds .
  qed
  moreover have "\<exists>ts. Cond ts \<in> set (where_piece conds)" if "db_tenants d coll \<noteq> None"
    using that nil by (cases rule: tenant_cases [OF tenant]) (auto simp: where_piece_def opt_list_def)
  ultimately show ?thesis by auto
qed

text \<open>A statement in order whose conditions are guarded.\<close>

definition sound :: "db \<Rightarrow> string \<Rightarrow> piece list \<Rightarrow> cell list \<Rightarrow> bool" where
  "sound d coll ps cells \<longleftrightarrow> in_order ps cells \<and> confined d coll ps cells"

lemma base_sound:
  assumes "base_where d coll [] = Some (Inr (conds, cells))"
    and "statement_holes ps = []" "statement_holes qs = []" "\<And>ts. Cond ts \<notin> set ps \<union> set qs"
  shows "sound d coll (ps @ where_piece conds @ qs) cells"
  using base_where_confined [OF assms(1), where rest = "[]"] assms(2-4)
  by (auto simp: sound_def in_order_def confined_def)

text \<open>Assignments or a placeholder first, then one condition that the tenant closes.\<close>

lemma condition_sound:
  assumes "tenant_condition d coll cells = Some (Inr (tenant, cells'))"
    and "list_all (\<lambda>ts. \<exists>a. ts = [Atom a]) tss" "tss \<noteq> []" "\<And>ts. Cond ts \<notin> set ps"
    and "statement_holes ps @ concat (map sql_holes tss) = added [] cells"
  shows "sound d coll (ps @ [Cond (join [AndT] (tss @ opt_list tenant))]) cells'"
proof -
  have "guarded e d coll row cells' (join [AndT] (tss @ opt_list tenant))" for e row
    using guardedI [OF assms(1,2), where rest = "[]"] assms(3) by simp
  moreover have "statement_holes (ps @ [Cond (join [AndT] (tss @ opt_list tenant))]) = added [] cells'"
  proof -
    from tenant_holes [OF assms(1)] obtain us where "cells' = cells @ us"
      "concat (map sql_holes (opt_list tenant)) = added cells cells'" by blast
    with added_trans [of cells "[]" cells cells' us] assms(5) show ?thesis
      by (simp flip: append_assoc)
  qed
  ultimately show ?thesis
    using assms(4) by (auto simp: sound_def in_order_def confined_def)
qed

lemma sets_in_order:
  assumes "set_clauses d skip cols patch cells = Some (Inr (sets, cells'))"
  shows "concat (map statement_holes sets) = added cells cells' \<and> (\<exists>us. cells' = cells @ us) \<and>
    (\<forall>ps \<in> set sets. \<forall>ts. Cond ts \<notin> set ps)"
  using assms
proof (induction d skip cols patch cells arbitrary: sets rule: set_clauses.induct)
  case (2 d skip cols name v patch cells)
  show ?case
  proof (cases "\<exists>c. find_column cols name = Some c \<and> \<not> skip name c")
    case True
    then obtain c where c: "find_column cols name = Some c" "\<not> skip name c" by blast
    with "2.prems" obtain cell sets1 where
      more: "set_clauses d skip cols patch (cells @ [cell]) = Some (Inr (sets1, cells'))" and
      sets: "sets = [Raw (quoted (cp_sql_name c) @ '' = ''), Hole (length cells + 1)] # sets1" and
      cell: "write_cell d c (Some v) = Some (Inr cell)"
      by (auto simp: seq_eq_Inr seq_defs)
    from "2.IH"(3) [OF c cell more] obtain us where "cells' = cells @ cell # us"
      "concat (map statement_holes sets1) = added (cells @ [cell]) cells'"
      "\<forall>ps \<in> set sets1. \<forall>ts. Cond ts \<notin> set ps" by auto
    then show ?thesis by (auto simp: sets added_Cons)
  next
    case False
    with "2.prems" "2.IH" show ?thesis by (auto split: option.splits if_splits)
  qed
qed (simp add: seq_defs)

lemma updates_in_order:
  assumes "update_clauses d coll cols patch cells = Some (Inr (Some (sets, cells')))"
  shows "concat (map statement_holes sets) = added cells cells' \<and> (\<exists>us. cells' = cells @ us) \<and>
    (\<forall>ps \<in> set sets. \<forall>ts. Cond ts \<notin> set ps)"
  using assms
proof (induction d coll cols patch cells arbitrary: sets rule: update_clauses.induct)
  case (2 d coll cols name v patch cells)
  show ?case
  proof (cases "name \<noteq> ''id'' \<and> (\<exists>c. find_column cols name = Some c \<and> \<not> is_tenant_col d coll c \<and>
      \<not> (cp_json c \<or> cp_encrypted c))")
    case True
    then obtain c where c: "name \<noteq> ''id''" "find_column cols name = Some c" "\<not> is_tenant_col d coll c"
      "\<not> (cp_json c \<or> cp_encrypted c)" by blast
    with "2.prems" obtain cell sets1 where
      cell: "write_cell d c (Some v) = Some (Inr cell)" and
      more: "update_clauses d coll cols patch (cells @ [cell]) = Some (Inr (Some (sets1, cells')))" and
      sets: "sets = [Raw (quoted (cp_sql_name c) @ '' = ''), Hole (length cells + 1)] # sets1"
      by (auto simp: seq_eq_Inr seq_defs)
    from "2.IH"(4) [OF c cell more] obtain us where "cells' = cells @ cell # us"
      "concat (map statement_holes sets1) = added (cells @ [cell]) cells'"
      "\<forall>ps \<in> set sets1. \<forall>ts. Cond ts \<notin> set ps" by auto
    then show ?thesis by (auto simp: sets added_Cons)
  next
    case False
    with "2.prems" consider "name = ''id''" | "name \<noteq> ''id''" "find_column cols name = None"
      | c where "name \<noteq> ''id''" "find_column cols name = Some c" "is_tenant_col d coll c"
      by (auto simp: seq_defs split: option.splits if_splits)
    then show ?thesis
    proof cases
      case 1
      with "2.prems" "2.IH"(1) show ?thesis by simp
    next
      case 2
      with "2.prems" "2.IH"(2) show ?thesis by simp
    next
      case 3
      with "2.prems" "2.IH"(3) [OF 3] show ?thesis by simp
    qed
  qed
qed (simp add: seq_defs)

lemma pk_conds_in_order:
  assumes "pk_conds pks cells = (conds, cells')"
  shows "concat (map sql_holes conds) = added cells cells' \<and> (\<exists>us. cells' = cells @ us) \<and>
    list_all (\<lambda>ts. \<exists>a. ts = [Atom a]) conds \<and> (conds = [] \<longleftrightarrow> pks = [])"
  using assms
proof (induction pks cells arbitrary: conds rule: pk_conds.induct)
  case (2 col cell pks cells)
  then obtain conds1 where more: "pk_conds pks (cells @ [cell]) = (conds1, cells')"
    and conds: "conds = [Atom (Cmp col OpEq (length cells + 1))] # conds1"
    by (auto simp: Let_def split: prod.splits)
  from "2.IH" [OF more] obtain us where "cells' = cells @ cell # us"
    "concat (map sql_holes conds1) = added (cells @ [cell]) cells'" "list_all (\<lambda>ts. \<exists>a. ts = [Atom a]) conds1"
    by auto
  then show ?case by (auto simp: conds added_Cons)
qed simp

lemma no_cond_join: "\<forall>ps \<in> set pss. \<forall>ts. Cond ts \<notin> set ps \<Longrightarrow> Cond ts \<notin> set (join [Raw s] pss)"
  by (induction "[Raw s]" pss rule: join.induct) auto

lemma update_sound:
  assumes "tenant_condition d coll cells1 = Some (Inr (tenant, cells'))"
    and "concat (map statement_holes sets) = added [] cells" "\<forall>ps \<in> set sets. \<forall>ts. Cond ts \<notin> set ps"
    and "list_all (\<lambda>ts. \<exists>a. ts = [Atom a]) tss" "tss \<noteq> []"
    and "concat (map sql_holes tss) = added cells cells1" "\<exists>us. cells1 = cells @ us"
  shows "sound d coll (update_statement coll sets (join [AndT] (tss @ opt_list tenant))) cells'"
proof -
  let ?ps = "[Raw (''UPDATE '' @ quoted coll @ '' SET '')] @ join [Raw comma] sets @ [Raw '' WHERE '']"
  from assms(6,7) added_trans [of cells "[]" cells cells1]
  have "added [] cells @ concat (map sql_holes tss) = added [] cells1" by auto
  then have "statement_holes ?ps @ concat (map sql_holes tss) = added [] cells1"
    using assms(2) by simp
  moreover have "Cond ts \<notin> set ?ps" for ts using no_cond_join [OF assms(3)] by auto
  ultimately have "sound d coll (?ps @ [Cond (join [AndT] (tss @ opt_list tenant))]) cells'"
    by (intro condition_sound [OF assms(1,4,5)])
  then show ?thesis by (simp add: update_statement_def)
qed

text \<open>A pushed condition, after assignments.\<close>

lemma pushed_sound:
  assumes "condition_sql_with_params d coll cols c cells = Some (Inr (Some (ts, cells')))"
    and "nonempty_tree c" "fields_distinct cols"
    and "statement_holes ps = added [] cells" "statement_holes qs = []" "\<And>ts. Cond ts \<notin> set ps \<union> set qs"
  shows "sound d coll (ps @ [Cond ts] @ qs) cells'"
proof -
  have "guarded e d coll row cells' ts" for e row
    using tenant_isolation [OF assms(1-3)] by (simp add: guarded_def)
  moreover from condition_clause [OF assms(1-3)] obtain us where
    "sql_holes ts = added cells cells'" "cells' = cells @ us" by metis
  then have "statement_holes (ps @ [Cond ts] @ qs) = added [] cells'"
    using assms(4,5) added_trans [of cells "[]" cells cells' us] by simp
  ultimately show ?thesis
    using assms(6) by (auto simp: sound_def in_order_def confined_def)
qed

section \<open>Operations\<close>

text \<open>What a program asks of a collection, as the statement it becomes.\<close>

datatype operation =
    All
  | Find cell
  | FindMany "cell list"
  | Count
  | Page int int
  | PageAfter "int option" int
  | TopRow string bool
  | AllOrdered "(string \<times> bool) list"
  | PageOrdered "(string \<times> bool) list" int int
  | CountWhere condition_expr
  | FindWhere condition_expr
  | FindWhereOrdered condition_expr "(string \<times> bool) list"
  | ApplyPatch cell "(string \<times> val) list"
  | DeleteRow cell int
  | Increment cell string int
  | UpdateWhere condition_expr val
  | KeyFind "(string \<times> cell) list"
  | KeyAll "pk_component list"
  | KeyDelete "(string \<times> cell) list" int
  | KeyPatch "pk_component list" "(string \<times> cell) list" "(string \<times> val) list"

definition sent :: "(db_error + piece list \<times> cell list) option \<Rightarrow> (db_error + (piece list \<times> cell list) option) option" where
  "sent m = seq m (\<lambda>r. done_with (Some r))"

definition statement :: "db \<Rightarrow> string \<Rightarrow> column_plan list \<Rightarrow> operation
    \<Rightarrow> (db_error + (piece list \<times> cell list) option) option" where
  "statement d coll cols op =
     (case op of
        All \<Rightarrow> sent (select_rows d coll cols None)
      | Find k \<Rightarrow> sent (select_rows d coll cols (Some k))
      | FindMany ks \<Rightarrow> select_rows_by_ids d coll cols ks
      | Count \<Rightarrow> sent (count_rows d coll)
      | Page limit offset \<Rightarrow> sent (select_rows_page d coll cols limit offset)
      | PageAfter after limit \<Rightarrow> sent (select_rows_after d coll cols after limit)
      | TopRow field largest \<Rightarrow> sent (top_row d coll cols field largest)
      | AllOrdered order \<Rightarrow> sent (select_all_ordered d coll cols order)
      | PageOrdered order limit offset \<Rightarrow> sent (select_page_ordered d coll cols order limit offset)
      | CountWhere c \<Rightarrow> count_where_conjunction d coll cols c
      | FindWhere c \<Rightarrow> find_where_conjunction d coll cols c
      | FindWhereOrdered c order \<Rightarrow> find_where_conjunction_ordered d coll cols c order
      | ApplyPatch k patch \<Rightarrow> apply_patch d coll cols k patch
      | DeleteRow k now_ms \<Rightarrow> sent (delete_row d coll cols k now_ms)
      | Increment k field delta \<Rightarrow> sent (increment d coll cols k field delta)
      | UpdateWhere c patch \<Rightarrow>
          seq (update_where_conjunction d coll cols c patch) (\<lambda>r.
            done_with (case r of Update ps cells \<Rightarrow> Some (ps, cells) | _ \<Rightarrow> None))
      | KeyFind pks \<Rightarrow> sent (composite_select d coll cols pks)
      | KeyAll pk \<Rightarrow> sent (composite_select_all d coll cols pk)
      | KeyDelete pks now_ms \<Rightarrow> sent (composite_delete d coll cols pks now_ms)
      | KeyPatch pk pks patch \<Rightarrow> composite_apply_patch d coll cols pk pks patch)"

text \<open>A key has a component, a condition that the recogniser yields has no empty connective.\<close>

definition well_formed_op :: "operation \<Rightarrow> bool" where
  "well_formed_op op =
     (case op of
        CountWhere c \<Rightarrow> nonempty_tree c
      | FindWhere c \<Rightarrow> nonempty_tree c
      | FindWhereOrdered c _ \<Rightarrow> nonempty_tree c
      | UpdateWhere c _ \<Rightarrow> nonempty_tree c
      | KeyFind pks \<Rightarrow> pks \<noteq> []
      | KeyDelete pks _ \<Rightarrow> pks \<noteq> []
      | KeyPatch _ pks _ \<Rightarrow> pks \<noteq> []
      | _ \<Rightarrow> True)"

definition is_page :: "operation \<Rightarrow> bool" where
  "is_page op = (case op of Page _ _ \<Rightarrow> True | PageOrdered _ _ _ \<Rightarrow> True | _ \<Rightarrow> False)"

lemma sent_Inr: "sent m = Some (Inr (Some r)) \<longleftrightarrow> m = Some (Inr r)"
  by (cases r) (auto simp: sent_def seq_eq_Inr seq_defs)

lemma single_atoms: "list_all (\<lambda>ts. \<exists>a. ts = [Atom a]) [id_equals d coll n]"
  by (simp add: id_equals_def)

text \<open>Reads under the guards of the collection.\<close>

lemma base_reads_sound:
  "select_rows d coll cols None = Some (Inr (ps, cells)) \<Longrightarrow> sound d coll ps cells"
  "count_rows d coll = Some (Inr (ps, cells)) \<Longrightarrow> sound d coll ps cells"
  "top_row d coll cols field largest = Some (Inr (ps, cells)) \<Longrightarrow> sound d coll ps cells"
  "select_all_ordered d coll cols order = Some (Inr (ps, cells)) \<Longrightarrow> sound d coll ps cells"
  "composite_select_all d coll cols pk = Some (Inr (ps, cells)) \<Longrightarrow> sound d coll ps cells"
  using base_sound [where qs = "[]"]
  by (auto simp: select_rows_def count_rows_def top_row_def select_all_ordered_def composite_select_all_def
      seq_eq_Inr seq_defs split: option.splits intro!: base_sound [where ps = "[Raw _]" and qs = "[Raw _]", simplified]
      base_sound [where ps = "[Raw _]" and qs = "[]", simplified])

lemma added_few [simp]: "added [] [a] = [1]" "added [] [a, b] = [1, Suc 1]"
  by (simp_all add: added_def upt_rec)

lemma find_sound:
  assumes "select_rows d coll cols (Some k) = Some (Inr (ps, cells))"
  shows "sound d coll ps cells"
proof -
  from assms obtain tenant where tenant: "tenant_condition d coll [k] = Some (Inr (tenant, cells))"
    and ps: "ps = [Raw (select_from d coll cols @ ''WHERE '')] @
      [Cond (join [AndT] ([id_equals d coll 1] @ opt_list tenant))]"
    by (auto simp: select_rows_def seq_eq_Inr seq_defs)
  show ?thesis
    unfolding ps by (rule condition_sound [OF tenant single_atoms]) (simp_all add: id_equals_def)
qed

lemma find_many_sound:
  assumes "select_rows_by_ids d coll cols ks = Some (Inr (Some (ps, cells)))"
  shows "sound d coll ps cells"
proof -
  let ?in = "[Atom (Among (id_col d coll) False [1..<length ks + 1])]"
  from assms obtain tenant where tenant: "tenant_condition d coll ks = Some (Inr (tenant, cells))"
    and ps: "ps = [Raw (select_from d coll cols @ ''WHERE '')] @ [Cond (join [AndT] ([?in] @ opt_list tenant))]"
    by (auto simp: select_rows_by_ids_def seq_eq_Inr seq_defs split: if_splits)
  show ?thesis
    unfolding ps by (rule condition_sound [OF tenant]) (simp_all add: added_def)
qed

lemma after_sound:
  assumes "select_rows_after d coll cols after limit = Some (Inr (ps, cells))"
  shows "sound d coll ps cells"
proof -
  obtain start conds where start: "(case after of
      Some k \<Rightarrow> ([CInt k], [[Atom (Cmp (id_col d coll) OpGt 1)]]) | None \<Rightarrow> ([], [])) = (start, conds)"
    by (meson surj_pair)
  then have conds: "concat (map sql_holes conds) = added [] start" "list_all (\<lambda>ts. \<exists>a. ts = [Atom a]) conds"
    by (auto split: option.splits)
  let ?pre = "conds @ opt_list (soft_delete_where d coll)"
  from assms start obtain tenant cells' where tenant: "tenant_condition d coll start = Some (Inr (tenant, cells'))"
    and cells: "cells = cells' @ [CInt limit]"
    and ps: "ps = [Raw (select_from d coll cols)] @ where_piece (join [AndT] (?pre @ opt_list tenant)) @
      [Raw (order_by_id d coll @ '' LIMIT ''), Hole (length cells)]"
    by (auto simp: select_rows_after_def seq_eq_Inr seq_defs Let_def)
  have single: "list_all (\<lambda>ts. \<exists>a. ts = [Atom a]) ?pre" using conds(2) soft_single(1) by simp
  have nil: "join [AndT] (?pre @ opt_list tenant) = [] \<longleftrightarrow> ?pre @ opt_list tenant = []"
    using single by (intro join_Nil) (auto simp: list_all_iff intro: tenant_cases [OF tenant] simp: opt_list_def split: option.split)
  from tenant_holes [OF tenant] obtain us where us: "cells' = start @ us"
    "concat (map sql_holes (opt_list tenant)) = added start cells'" by blast
  have "concat (map sql_holes (?pre @ opt_list tenant)) = added [] cells'"
    unfolding map_append concat_append conds(1) soft_single(2) us(2)
    using us(1) added_trans [of start "[]" start cells' us] by simp
  then have "statement_holes (where_piece (join [AndT] (?pre @ opt_list tenant))) = added [] cells'"
    by (auto simp: where_piece_def dest: arg_cong [of "join _ _" "[]" sql_holes])
  then have "statement_holes ps = added [] cells"
    using added_append [of "[]" cells' "[CInt limit]"] by (simp add: ps cells)
  moreover have "guarded e d coll row cells ts" if "Cond ts \<in> set ps" for e row ts
  proof -
    from that have ts: "ts = join [AndT] (?pre @ opt_list tenant)" "?pre @ opt_list tenant \<noteq> []"
      using nil by (auto simp: ps where_piece_def split: if_splits)
    from guardedI [OF tenant single ts(2)] show ?thesis unfolding ts(1) cells .
  qed
  moreover have "\<exists>ts. Cond ts \<in> set ps" if "db_tenants d coll \<noteq> None"
    using tenant
  proof (cases rule: tenant_cases)
    case (some t cell)
    with nil show ?thesis by (auto simp: ps where_piece_def opt_list_def)
  qed (use that in simp)
  ultimately show ?thesis by (auto simp: sound_def in_order_def confined_def)
qed

lemma pushed_reads_sound:
  assumes "nonempty_tree c" "fields_distinct cols"
  shows "count_where_conjunction d coll cols c = Some (Inr (Some (ps, cells))) \<Longrightarrow> sound d coll ps cells"
    "find_where_conjunction d coll cols c = Some (Inr (Some (ps, cells))) \<Longrightarrow> sound d coll ps cells"
    "find_where_conjunction_ordered d coll cols c order = Some (Inr (Some (ps, cells))) \<Longrightarrow> sound d coll ps cells"
proof -
  have sound: "sound d coll ([Raw s] @ [Cond ts] @ qs) cells"
    if "condition_sql d coll cols c = Some (Inr (Some (ts, cells)))" "statement_holes qs = []"
      "\<And>ts. Cond ts \<notin> set qs" for s ts qs
    using that by (intro pushed_sound [OF _ assms, of d coll "[]"]) (simp_all add: condition_sql_def)
  show "count_where_conjunction d coll cols c = Some (Inr (Some (ps, cells))) \<Longrightarrow> sound d coll ps cells"
    using sound [where qs = "[]"] by (auto simp: count_where_conjunction_def seq_eq_Inr seq_defs)
  show "find_where_conjunction d coll cols c = Some (Inr (Some (ps, cells))) \<Longrightarrow> sound d coll ps cells"
    using sound [where qs = "[Raw _]"] by (auto simp: find_where_conjunction_def seq_eq_Inr seq_defs)
  show "find_where_conjunction_ordered d coll cols c order = Some (Inr (Some (ps, cells))) \<Longrightarrow> sound d coll ps cells"
    using sound [where qs = "[Raw _]"]
    by (auto simp: find_where_conjunction_ordered_def seq_eq_Inr seq_defs split: option.splits)
qed

lemma apply_patch_sound:
  assumes "apply_patch d coll cols k patch = Some (Inr (Some (ps, cells)))"
  shows "sound d coll ps cells"
proof -
  from assms obtain sets cells1 tenant where
    sets: "set_clauses d (\<lambda>_ c. is_tenant_col d coll c) cols patch [] = Some (Inr (sets, cells1))" and
    tenant: "tenant_condition d coll (cells1 @ [k]) = Some (Inr (tenant, cells))" and
    ps: "ps = update_statement coll sets (join [AndT] ([id_equals d coll (Suc (length cells1))] @ opt_list tenant))"
    by (auto simp: apply_patch_def seq_eq_Inr seq_defs Let_def split: if_splits)
  show ?thesis
    unfolding ps using sets_in_order [OF sets]
    by (intro update_sound [OF tenant _ _ single_atoms, where cells = cells1]) (simp_all add: id_equals_def)
qed

lemma delete_sound:
  assumes "delete_row d coll cols k now_ms = Some (Inr (ps, cells))"
  shows "sound d coll ps cells"
proof (cases "db_soft_delete d coll")
  case None
  with assms obtain tenant where tenant: "tenant_condition d coll [k] = Some (Inr (tenant, cells))"
    and ps: "ps = [Raw (''DELETE FROM '' @ quoted coll @ '' WHERE '')] @
      [Cond (join [AndT] ([id_equals d coll 1] @ opt_list tenant))]"
    by (auto simp: delete_row_def seq_eq_Inr seq_defs)
  show ?thesis
    unfolding ps by (rule condition_sound [OF tenant single_atoms]) (simp_all add: id_equals_def)
next
  case (Some field)
  let ?soft = "soft_column cols field"
  from assms Some obtain tenant where tenant: "tenant_condition d coll [CInt now_ms, k] = Some (Inr (tenant, cells))"
    and ps: "ps = [Raw (''UPDATE '' @ quoted coll @ '' SET '' @ quoted ?soft @ '' = ''), Hole 1, Raw '' WHERE ''] @
      [Cond (join [AndT] ([id_equals d coll 2, [Atom (NullTest ?soft True)]] @ opt_list tenant))]"
    by (auto simp: delete_row_def seq_eq_Inr seq_defs Let_def)
  show ?thesis
    unfolding ps by (rule condition_sound [OF tenant]) (simp_all add: id_equals_def)
qed

lemma increment_sound:
  assumes "increment d coll cols k field delta = Some (Inr (ps, cells))"
  shows "sound d coll ps cells"
proof -
  from assms obtain s tenant where tenant: "tenant_condition d coll [CInt delta, k] = Some (Inr (tenant, cells))"
    and ps: "ps = [Raw s, Hole 1, Raw '' WHERE ''] @ [Cond (join [AndT] ([id_equals d coll 2] @ opt_list tenant))]"
    by (auto simp: increment_def seq_eq_Inr seq_defs split: option.splits)
  show ?thesis
    unfolding ps by (rule condition_sound [OF tenant single_atoms]) (simp_all add: id_equals_def)
qed

lemma update_where_sound:
  assumes "update_where_conjunction d coll cols c patch = Some (Inr (Update ps cells))"
    and "nonempty_tree c" "fields_distinct cols"
  shows "sound d coll ps cells"
proof -
  from assms(1) obtain fs where fs: "patch = VStruct fs"
    by (cases patch) (auto simp: update_where_conjunction_def seq_defs)
  with assms(1) obtain r where "update_clauses d coll cols fs [] = Some (Inr r)"
    by (auto simp: update_where_conjunction_def seq_eq_Inr)
  with assms(1) fs obtain sets cells1 where
    sets: "update_clauses d coll cols fs [] = Some (Inr (Some (sets, cells1)))"
    by (cases r) (auto simp: update_where_conjunction_def seq_defs)
  with assms(1) fs obtain ts where
    ts: "condition_sql_with_params d coll cols c cells1 = Some (Inr (Some (ts, cells)))" and
    ps: "ps = ([Raw (''UPDATE '' @ quoted coll @ '' SET '')] @ join [Raw comma] sets @ [Raw '' WHERE '']) @ [Cond ts] @ []"
    by (auto simp: update_where_conjunction_def update_statement_def seq_eq_Inr seq_defs split: option.splits if_splits)
  note order = updates_in_order [OF sets]
  show ?thesis
    unfolding ps using order no_cond_join [of sets _ comma]
    by (intro pushed_sound [OF ts assms(2,3)]) auto
qed

lemma key_reads_sound:
  assumes "composite_select d coll cols pks = Some (Inr (ps, cells))" "pks \<noteq> []"
  shows "sound d coll ps cells"
proof -
  obtain conds cells1 where pk: "pk_conds pks [] = (conds, cells1)" by (cases "pk_conds pks []")
  with assms(1) obtain tenant s where tenant: "tenant_condition d coll cells1 = Some (Inr (tenant, cells))"
    and ps: "ps = [Raw s] @ [Cond (join [AndT] (conds @ opt_list tenant))]"
    by (auto simp: composite_select_def seq_eq_Inr seq_defs Let_def)
  show ?thesis
    unfolding ps using pk_conds_in_order [OF pk] assms(2)
    by (intro condition_sound [OF tenant]) auto
qed

lemma key_delete_sound:
  assumes "composite_delete d coll cols pks now_ms = Some (Inr (ps, cells))" "pks \<noteq> []"
  shows "sound d coll ps cells"
proof (cases "db_soft_delete d coll")
  case None
  obtain conds cells1 where pk: "pk_conds pks [] = (conds, cells1)" by (cases "pk_conds pks []")
  with assms(1) None obtain tenant s where tenant: "tenant_condition d coll cells1 = Some (Inr (tenant, cells))"
    and ps: "ps = [Raw s] @ [Cond (join [AndT] (conds @ opt_list tenant))]"
    by (auto simp: composite_delete_def seq_eq_Inr seq_defs Let_def)
  show ?thesis
    unfolding ps using pk_conds_in_order [OF pk] assms(2)
    by (intro condition_sound [OF tenant]) auto
next
  case (Some field)
  let ?soft = "[Atom (NullTest (soft_column cols field) True)]"
  obtain conds cells1 where pk: "pk_conds pks [CInt now_ms] = (conds, cells1)" by (cases "pk_conds pks [CInt now_ms]")
  with assms(1) Some obtain tenant s where tenant: "tenant_condition d coll cells1 = Some (Inr (tenant, cells))"
    and ps: "ps = [Raw s, Hole 1, Raw '' WHERE ''] @ [Cond (join [AndT] ((?soft # conds) @ opt_list tenant))]"
    by (auto simp: composite_delete_def seq_eq_Inr seq_defs Let_def)
  note conds = pk_conds_in_order [OF pk]
  then obtain us where "cells1 = [CInt now_ms] @ us" by blast
  from added_trans [of "[CInt now_ms]" "[]", OF _ this] conds have "1 # concat (map sql_holes conds) = added [] cells1"
    by simp
  then show ?thesis
    unfolding ps using conds by (intro condition_sound [OF tenant]) auto
qed

lemma key_patch_sound:
  assumes "composite_apply_patch d coll cols pk pks patch = Some (Inr (Some (ps, cells)))" "pks \<noteq> []"
  shows "sound d coll ps cells"
proof -
  from assms(1) obtain sets cells1 where
    sets: "set_clauses d (\<lambda>name _. list_ex (\<lambda>c. pk_field c = name) pk) cols patch [] = Some (Inr (sets, cells1))"
    and "sets \<noteq> []"
    by (auto simp: composite_apply_patch_def seq_eq_Inr seq_defs split: if_splits)
  obtain conds cells2 where pk: "pk_conds pks cells1 = (conds, cells2)" by (cases "pk_conds pks cells1")
  with assms(1) sets obtain tenant where tenant: "tenant_condition d coll cells2 = Some (Inr (tenant, cells))"
    and ps: "ps = update_statement coll sets (join [AndT] (conds @ opt_list tenant))"
    by (auto simp: composite_apply_patch_def seq_eq_Inr seq_defs Let_def split: if_splits)
  show ?thesis
    unfolding ps using sets_in_order [OF sets] pk_conds_in_order [OF pk] assms(2)
    by (intro update_sound [OF tenant]) auto
qed

lemma statement_sound:
  assumes "statement d coll cols op = Some (Inr (Some (ps, cells)))"
    and "well_formed_op op" "fields_distinct cols" "\<not> is_page op"
  shows "sound d coll ps cells"
proof (cases "\<exists>c patch. op = UpdateWhere c patch")
  case True
  then obtain c patch where op: "op = UpdateWhere c patch" by blast
  with assms(1) obtain r where "update_where_conjunction d coll cols c patch = Some (Inr r)"
    "(case r of Update ps cells \<Rightarrow> Some (ps, cells) | _ \<Rightarrow> None) = Some (ps, cells)"
    by (auto simp: statement_def seq_eq_Inr seq_defs)
  with op assms(2,3) show ?thesis
    by (auto simp: well_formed_op_def intro: update_where_sound split: update_plan.splits)
next
  case False
  with assms show ?thesis
    by (cases op)
      (auto simp: statement_def sent_Inr well_formed_op_def is_page_def
        intro: base_reads_sound find_sound find_many_sound after_sound pushed_reads_sound apply_patch_sound
          delete_sound increment_sound key_reads_sound key_delete_sound key_patch_sound)
qed

section \<open>Pages\<close>

definition page_shape :: "piece list \<Rightarrow> cell list \<Rightarrow> sql list \<Rightarrow> int \<Rightarrow> int \<Rightarrow> cell \<Rightarrow> bool" where
  "page_shape ps cells conds limit offset cell \<longleftrightarrow> cells = [CInt limit, CInt offset, cell] \<and>
     (\<exists>s r. ps = [Raw s] @ where_piece conds @ [Raw r, Hole 1, Raw '' OFFSET '', Hole 2])"

lemma base_where_tenant:
  assumes "base_where d coll cells = Some (Inr (conds, cells'))" "db_tenants d coll = Some t"
  obtains (plain) cell where "tenant_cell d coll t = Some (Inr cell)" "cells' = cells @ [cell]"
      "soft_delete_where d coll = None" "conds = [Atom (Cmp (tf_sql_col t) OpEq (length cells + 1))]"
  | (soft) cell col where "tenant_cell d coll t = Some (Inr cell)" "cells' = cells @ [cell]"
      "soft_delete_where d coll = Some [Atom (NullTest col True)]"
      "conds = [Atom (NullTest col True), AndT, Atom (Cmp (tf_sql_col t) OpEq (length cells + 1))]"
  using assms
  by (cases rule: soft_delete_form [of d coll])
    (auto simp: base_where_def tenant_condition_def seq_eq_Inr seq_defs Let_def opt_list_def)

lemma page_form:
  assumes "select_rows_page d coll cols limit offset = Some (Inr (ps, cells)) \<or>
      select_page_ordered d coll cols order limit offset = Some (Inr (ps, cells))"
  obtains conds s r where "base_where d coll [CInt limit, CInt offset] = Some (Inr (conds, cells))"
    "ps = [Raw s] @ where_piece conds @ [Raw r, Hole 1, Raw '' OFFSET '', Hole 2]"
  using assms by (auto simp: select_rows_page_def select_page_ordered_def seq_eq_Inr seq_defs)

section \<open>Properties\<close>


definition update_pieces :: "piece list" where
  "update_pieces = [Raw (''UPDATE '' @ quoted ''users'' @ '' SET ''), Raw (quoted ''age'' @ '' = ''), Hole 1, Raw '' WHERE '',
     Cond [Atom (Cmp ''age'' OpLt 2), AndT, Atom (NullTest ''gone'' True), AndT, Atom (Cmp ''org'' OpEq 3)]]"

definition update_op :: operation where
  "update_op = UpdateWhere (CLeaf ''age'' OpLt (VInt 18)) (VStruct [(''age'', VInt 18), (''org'', VStr ''evil'')])"

lemma update_op_statement:
  "statement (users_db b) ''users'' user_columns update_op =
     Some (Inr (Some (update_pieces, [CInt 18, CInt 18, CText ''acme''])))"
  "well_formed_op update_op" "fields_distinct user_columns" "\<not> is_page update_op"
  by (simp_all add: statement_def update_op_def update_where_conjunction_def find_column_def user_defs is_tenant_col_def
      write_cell_def write_param_def native_cell_def condition_sql_with_params_def one_atom_def
      leaf_condition_sql_def column_ref_def column_cell_def ok_or_not_def sql_op_def tenant_condition_def
      tenant_cell_def tenant_claim_value_def column_kind_of_def soft_delete_where_def opt_list_def is_or_def
      update_statement_def update_pieces_def seq_defs Let_def well_formed_op_def is_page_def fields_distinct_def)




text \<open>
  C31. A page does: on SQLite the three placeholders of a page, written in the order tenant,
  limit, offset and bound to the cells limit, offset, tenant, are crossed. The condition holds on
  the rows whose tenant equals the limit that the caller asks for, as many as the offset it
  asks for, from an offset that is the claim of its token.
\<close>

theorem page_crosses_tenants:
  assumes "select_rows_page d coll cols limit offset = Some (Inr (ps, cells)) \<or>
      select_page_ordered d coll cols order limit offset = Some (Inr (ps, cells))"
    and "db_tenants d coll = Some t"
  shows "\<exists>cell s ts r. tenant_cell d coll t = Some (Inr cell) \<and> statement_holes ps = [3, 1, 2] \<and>
    engine_view Sqlite ps =
      [Raw s, Raw ''WHERE '', Cond ts, Raw '' '', Raw r, Hole 2, Raw '' OFFSET '', Hole 3] \<and>
    bound cells 2 = CInt offset \<and> bound cells 3 = cell \<and>
    (\<forall>e row. where_value (atom_value e row cells) ts = Some True \<longleftrightarrow>
       cmp3 e OpEq (row (tf_sql_col t)) (CInt limit) = Some True \<and> not_deleted d coll row)"
proof -
  from page_form [OF assms(1)] obtain conds s r where
    base: "base_where d coll [CInt limit, CInt offset] = Some (Inr (conds, cells))" and
    ps: "ps = [Raw s] @ where_piece conds @ [Raw r, Hole 1, Raw '' OFFSET '', Hole 2]" .
  show ?thesis
  proof (cases rule: base_where_tenant [OF base assms(2)])
    case (1 cell)
    then show ?thesis
      by (simp add: ps where_piece_def engine_view_def where_value_def not_deleted_def bound_def)
  next
    case (2 cell col)
    then show ?thesis
      by (auto simp: ps where_piece_def engine_view_def where_value_def not_deleted_def bound_def)
  qed
qed

definition page_pieces :: "piece list" where
  "page_pieces = [Raw (select_from (users_db Sqlite) ''users'' user_columns), Raw ''WHERE '',
     Cond [Atom (NullTest ''gone'' True), AndT, Atom (Cmp ''org'' OpEq 3)], Raw '' '',
     Raw (order_by_id (users_db Sqlite) ''users'' @ '' LIMIT ''), Hole 1, Raw '' OFFSET '', Hole 2]"

lemma user_page:
  "select_rows_page (users_db Sqlite) ''users'' user_columns 42 10 =
     Some (Inr (page_pieces, [CInt 42, CInt 10, CText ''acme'']))"
  by (simp add: select_rows_page_def base_where_def tenant_condition_def tenant_cell_def tenant_claim_value_def
      user_defs column_kind_of_def soft_delete_where_def find_column_def opt_list_def where_piece_def page_pieces_def
      seq_defs Let_def)

theorem page_crosses_tenants_witness:
  "\<exists>cell s ts r. tenant_cell (users_db Sqlite) ''users'' \<lparr>tf_sql_col = ''org'', tf_claim_name = ''org''\<rparr> = Some (Inr cell) \<and>
    statement_holes page_pieces = [3, 1, 2] \<and>
    engine_view Sqlite page_pieces =
      [Raw s, Raw ''WHERE '', Cond ts, Raw '' '', Raw r, Hole 2, Raw '' OFFSET '', Hole 3] \<and>
    bound [CInt 42, CInt 10, CText ''acme''] 2 = CInt 10 \<and> bound [CInt 42, CInt 10, CText ''acme''] 3 = cell \<and>
    (\<forall>e row. where_value (atom_value e row [CInt 42, CInt 10, CText ''acme'']) ts = Some True \<longleftrightarrow>
       cmp3 e OpEq (row ''org'') (CInt 42) = Some True \<and> not_deleted (users_db Sqlite) ''users'' row)"
  using page_crosses_tenants [OF disjI1 [OF user_page], of "\<lparr>tf_sql_col = ''org'', tf_claim_name = ''org''\<rparr>"]
  by (simp add: users_db_def)

text \<open>
  C32. A patch of a row with a composite key can give the row away: the column of the tenant is
  skipped by \<open>applyPatch\<close> on a plain key, which sends no statement for a patch of it alone, and
  assigned, with the value of the caller, on a composite one.
\<close>

theorem key_patch_moves_row:
  assumes "db_tenants d coll = Some t" "tenant_cell d coll t = Some (Inr claim)"
    and "find_column cols f = Some c" "cp_sql_name c = tf_sql_col t"
    and "\<not> list_ex (\<lambda>k. pk_field k = f) pk" "write_cell d c (Some v) = Some (Inr cell)"
  shows "apply_patch d coll cols k [(f, v)] = done_with None \<and>
    (\<exists>rest cells. composite_apply_patch d coll cols pk pks [(f, v)] = done_with (Some
       ([Raw (''UPDATE '' @ quoted coll @ '' SET ''), Raw (quoted (tf_sql_col t) @ '' = ''), Hole 1] @ rest, cells)) \<and>
     bound cells 1 = cell)"
proof -
  have "apply_patch d coll cols k [(f, v)] = done_with None"
    using assms by (simp add: apply_patch_def is_tenant_col_def seq_defs)
  moreover obtain conds cells where pk: "pk_conds pks [cell] = (conds, cells)" by (cases "pk_conds pks [cell]")
  then obtain us where "cells = cell # us" using pk_conds_in_order [OF pk] by auto
  with assms pk have "composite_apply_patch d coll cols pk pks [(f, v)] = done_with (Some
       ([Raw (''UPDATE '' @ quoted coll @ '' SET ''), Raw (quoted (tf_sql_col t) @ '' = ''), Hole 1] @
        [Raw '' WHERE '', Cond (join [AndT] (conds @ [[Atom (Cmp (tf_sql_col t) OpEq (Suc (length cells)))]]))],
        cells @ [claim]))"
    by (simp add: composite_apply_patch_def tenant_condition_def update_statement_def opt_list_def seq_defs Let_def)
  moreover have "bound (cells @ [claim]) 1 = cell"
    using \<open>cells = cell # us\<close> by (simp add: bound_def)
  ultimately show ?thesis by blast
qed

theorem key_patch_moves_row_witness:
  "apply_patch (users_db Postgres) ''users'' user_columns (CInt 1) [(''org'', VStr ''evil'')] = done_with None \<and>
   (\<exists>rest cells. composite_apply_patch (users_db Postgres) ''users'' user_columns
      [\<lparr>pk_field = ''name'', pk_sql_col = ''name''\<rparr>] [(''name'', CText ''Ada'')] [(''org'', VStr ''evil'')] = done_with (Some
       ([Raw (''UPDATE '' @ quoted ''users'' @ '' SET ''), Raw (quoted ''org'' @ '' = ''), Hole 1] @ rest, cells)) \<and>
     bound cells 1 = CText ''evil'')"
  using key_patch_moves_row [of "users_db Postgres" "''users''" "\<lparr>tf_sql_col = ''org'', tf_claim_name = ''org''\<rparr>"
      "CText ''acme''" user_columns "''org''" "for_field (\<lambda>_. False) (FieldType ''org'' False (Prim String)) False None"
      "[\<lparr>pk_field = ''name'', pk_sql_col = ''name''\<rparr>]" "VStr ''evil''" "CText ''evil''" "CInt 1" "[(''name'', CText ''Ada'')]"]
  by (simp add: user_defs tenant_cell_def tenant_claim_value_def column_kind_of_def find_column_def write_cell_def
      write_param_def native_cell_def seq_defs)

end
