(* ===== verification/ParseBase.thy ===== *)
theory ParseBase
  imports Validators
begin

text \<open>
  What the parser of \<open>compiler/src/parser.rs\<close> is made of. The tokens do not change while it
  runs, so its state is the position: a parser takes a position to a result and the position
  where it stops, on an error too, for the recovery starts there. \<open>None\<close> is a recursion or a loop
  that the fuel has cut off. \<open>wp\<close> is what a run promises, with one equation per primitive.
\<close>

section \<open>Parsers\<close>

text \<open>What an error says was expected; the texts of the messages are not modelled.\<close>

datatype expected =
    Wanted token_kind
  | WantIdent | WantFieldName | WantString | WantNumber
  | WantItem | WantAnnotatedType | WantModel string | WantMember | WantTestName
  | WantDimension | WantType | EmptyParenType
  | WantPatternInt | BadTupleIndex | HtmlRest | WantExpr | WantMapKey
  | EmptyClosure | ClosureReturn
  | UnknownAnnotation string
  | Repeated string
  | EmptyText string
  | UnknownArgument string string
  | EmptyAnnotation string
  | TwoEnums string string

record parse_error =
  pe_what :: expected
  pe_found :: token_kind
  pe_span :: span
  pe_code :: "string option"

type_synonym 'a parse = "nat \<Rightarrow> ((parse_error + 'a) \<times> nat) option"

definition preturn :: "'a \<Rightarrow> 'a parse" where
  "preturn x = (\<lambda>p. Some (Inr x, p))"

definition pbind :: "'a parse \<Rightarrow> ('a \<Rightarrow> 'b parse) \<Rightarrow> 'b parse" where
  "pbind m k = (\<lambda>p.
     case m p of
       None \<Rightarrow> None
     | Some (r, q) \<Rightarrow> (case r of Inl e \<Rightarrow> Some (Inl e, q) | Inr x \<Rightarrow> k x q))"

text \<open>A loop whose body goes on with \<open>Inl\<close> and breaks with \<open>Inr\<close>.\<close>

primrec ploop :: "nat \<Rightarrow> ('s \<Rightarrow> ('s + 'r) parse) \<Rightarrow> 's \<Rightarrow> 'r parse" where
  "ploop 0 body s = (\<lambda>_. None)"
| "ploop (Suc n) body s = pbind (body s) (\<lambda>r. case r of Inl s' \<Rightarrow> ploop n body s' | Inr x \<Rightarrow> preturn x)"

definition again :: "'s \<Rightarrow> ('s + 'r) parse" where "again s = preturn (Inl s)"
definition stop :: "'r \<Rightarrow> ('s + 'r) parse" where "stop x = preturn (Inr x)"

section \<open>Tokens\<close>

text \<open>
  \<open>self.tokens[self.pos]\<close> is in range as long as the list is not empty, which the positions that
  the lemmas below speak of are; \<open>peek_at\<close> is \<open>Eof\<close> past the end.
\<close>

definition tok_at :: "token list \<Rightarrow> nat \<Rightarrow> token_kind" where
  "tok_at ts p = (if p < length ts then tk_kind (ts ! p) else Eof)"

definition span_at :: "token list \<Rightarrow> nat \<Rightarrow> span" where
  "span_at ts p = tk_span (ts ! p)"

definition peeking :: "token list \<Rightarrow> (token_kind \<Rightarrow> 'a parse) \<Rightarrow> 'a parse" where
  "peeking ts f = (\<lambda>p. f (tok_at ts p) p)"

definition peeking_at :: "token list \<Rightarrow> nat \<Rightarrow> (token_kind \<Rightarrow> 'a parse) \<Rightarrow> 'a parse" where
  "peeking_at ts n f = (\<lambda>p. f (tok_at ts (p + n)) p)"

definition spanning :: "token list \<Rightarrow> (span \<Rightarrow> 'a parse) \<Rightarrow> 'a parse" where
  "spanning ts f = (\<lambda>p. f (span_at ts p) p)"

definition prev_span :: "token list \<Rightarrow> (span \<Rightarrow> 'a parse) \<Rightarrow> 'a parse" where
  "prev_span ts f = (\<lambda>p. f (span_at ts (p - 1)) p)"

definition leading :: "token list \<Rightarrow> (string option \<Rightarrow> 'a parse) \<Rightarrow> 'a parse" where
  "leading ts f = (\<lambda>p. f (leading_doc (ts ! p)) p)"

definition merge :: "span \<Rightarrow> span \<Rightarrow> span" where
  "merge s e = mk_span (sp_start s) (sp_end e) (sp_line s) (sp_col s)"

text \<open>The last token stays.\<close>

definition next_token_at :: "token list \<Rightarrow> nat \<Rightarrow> nat" where
  "next_token_at ts p = (if p + 1 < length ts then p + 1 else p)"

definition advancing :: "token list \<Rightarrow> 'a parse \<Rightarrow> 'a parse" where
  "advancing ts m = (\<lambda>p. m (next_token_at ts p))"

definition pfail_code :: "token list \<Rightarrow> expected \<Rightarrow> string option \<Rightarrow> 'a parse" where
  "pfail_code ts e tag = (\<lambda>p.
     Some (Inl \<lparr>pe_what = e, pe_found = tok_at ts p, pe_span = span_at ts p, pe_code = tag\<rparr>, p))"

definition pfail :: "token list \<Rightarrow> expected \<Rightarrow> 'a parse" where
  "pfail ts e = pfail_code ts e None"

definition eat :: "token list \<Rightarrow> token_kind \<Rightarrow> 'a parse \<Rightarrow> 'a parse" where
  "eat ts k m = peeking ts (\<lambda>c. if c = k then advancing ts m else pfail ts (Wanted k))"

text \<open>\<open>if self.check(k) { self.advance(); m } else { n }\<close>\<close>

definition if_token :: "token list \<Rightarrow> token_kind \<Rightarrow> 'a parse \<Rightarrow> 'a parse \<Rightarrow> 'a parse" where
  "if_token ts k m n = peeking ts (\<lambda>c. if c = k then advancing ts m else n)"

definition is_ident :: "token_kind \<Rightarrow> bool" where
  "is_ident c = (case c of TIdent _ \<Rightarrow> True | _ \<Rightarrow> False)"

definition is_str :: "token_kind \<Rightarrow> bool" where
  "is_str c = (case c of TStr _ \<Rightarrow> True | _ \<Rightarrow> False)"

lemma is_ident_iff [simp]: "is_ident c \<longleftrightarrow> (\<exists>name. c = TIdent name)"
  by (simp add: is_ident_def split: token_kind.split)

lemma is_str_iff [simp]: "is_str c \<longleftrightarrow> (\<exists>s. c = TStr s)"
  by (simp add: is_str_def split: token_kind.split)

definition eat_ident :: "token list \<Rightarrow> string parse" where
  "eat_ident ts = peeking ts (\<lambda>c.
     case c of TIdent name \<Rightarrow> advancing ts (preturn name) | _ \<Rightarrow> pfail ts WantIdent)"

definition eat_field_name :: "token list \<Rightarrow> string parse" where
  "eat_field_name ts = peeking ts (\<lambda>c.
     case c of
       TIdent name \<Rightarrow> advancing ts (preturn name)
     | _ \<Rightarrow>
         (case keyword_text c of
            Some name \<Rightarrow> advancing ts (preturn name)
          | None \<Rightarrow> pfail ts WantFieldName))"

definition eat_string :: "token list \<Rightarrow> string parse" where
  "eat_string ts = peeking ts (\<lambda>c.
     case c of TStr s \<Rightarrow> advancing ts (preturn s) | _ \<Rightarrow> pfail ts WantString)"

text \<open>
  Floats in a token are text: \<open>number\<close> rounds an integer and \<open>float\<close> reads a text.
\<close>

definition eat_number :: "(int \<Rightarrow> 64 word) \<Rightarrow> (string \<Rightarrow> 64 word) \<Rightarrow> token list \<Rightarrow> 64 word parse" where
  "eat_number number float ts =
     (let digits = (\<lambda>neg. peeking ts (\<lambda>c.
        case c of
          TInt n \<Rightarrow> advancing ts (preturn (if neg then f64_neg (number n) else number n))
        | TFloat s \<Rightarrow> advancing ts (preturn (if neg then f64_neg (float s) else float s))
        | _ \<Rightarrow> pfail ts WantNumber))
      in if_token ts (Pt Minus) (digits True) (digits False))"

section \<open>Lists\<close>

text \<open>\<open>while self.check(sep) { self.advance(); xs.push(item) }\<close>\<close>

definition separated :: "token list \<Rightarrow> punct \<Rightarrow> 'a parse \<Rightarrow> 'a list \<Rightarrow> 'a list parse" where
  "separated ts sep m = ploop (length ts) (\<lambda>xs.
     if_token ts (Pt sep) (pbind m (\<lambda>x. again (xs @ [x]))) (stop xs))"

text \<open>The same with commas, left before the closing token for which a comma may stand.\<close>

definition more_items :: "token list \<Rightarrow> punct \<Rightarrow> 'a parse \<Rightarrow> 'a list \<Rightarrow> 'a list parse" where
  "more_items ts close m = ploop (length ts) (\<lambda>xs.
     if_token ts (Pt Comma)
       (peeking ts (\<lambda>c. if c = Pt close then stop xs else pbind m (\<lambda>x. again (xs @ [x]))))
       (stop xs))"

definition comma_list :: "token list \<Rightarrow> punct \<Rightarrow> 'a parse \<Rightarrow> 'a list parse" where
  "comma_list ts close m =
     peeking ts (\<lambda>c. if c = Pt close then preturn [] else pbind m (\<lambda>x. more_items ts close m [x]))"

text \<open>What follows the first item after a parenthesis, and whether a comma has been seen.\<close>

definition paren_items :: "token list \<Rightarrow> 'a parse \<Rightarrow> 'a \<Rightarrow> ('a list \<times> bool) parse" where
  "paren_items ts m x = ploop (length ts) (\<lambda>(xs, had_comma).
     if_token ts (Pt Comma)
       (peeking ts (\<lambda>c. if c = Pt RParen then stop (xs, True) else pbind m (\<lambda>x. again (xs @ [x], True))))
       (stop (xs, had_comma))) ([x], False)"

section \<open>What a run promises\<close>

text \<open>The tokens of a file and of an interpolation end in \<open>Eof\<close>, and a run stays within them.\<close>

definition ended :: "token list \<Rightarrow> bool" where
  "ended ts \<longleftrightarrow> ts \<noteq> [] \<and> tk_kind (last ts) = Eof"

definition wp :: "token list \<Rightarrow> 'a parse \<Rightarrow> ('a \<Rightarrow> nat \<Rightarrow> bool) \<Rightarrow> nat \<Rightarrow> bool" where
  "wp ts m Q p \<longleftrightarrow>
     (case m p of
        None \<Rightarrow> False
      | Some (r, q) \<Rightarrow> (case r of Inl e \<Rightarrow> q < length ts | Inr x \<Rightarrow> Q x q))"

named_theorems wp_simps

lemma wp_preturn [wp_simps]: "wp ts (preturn x) Q p \<longleftrightarrow> Q x p"
  by (simp add: wp_def preturn_def)

lemma wp_pbind [wp_simps]: "wp ts (pbind m k) Q p \<longleftrightarrow> wp ts m (\<lambda>x. wp ts (k x) Q) p"
  by (simp add: wp_def pbind_def split: option.split sum.split prod.split)

lemma wp_again [wp_simps]: "wp ts (again s) Q p \<longleftrightarrow> Q (Inl s) p"
  by (simp add: again_def wp_simps)

lemma wp_stop [wp_simps]: "wp ts (stop x) Q p \<longleftrightarrow> Q (Inr x) p"
  by (simp add: stop_def wp_simps)

lemma wp_peeking [wp_simps]: "wp ts (peeking us f) Q p \<longleftrightarrow> wp ts (f (tok_at us p)) Q p"
  by (simp add: wp_def peeking_def)

lemma wp_peeking_at [wp_simps]: "wp ts (peeking_at us n f) Q p \<longleftrightarrow> wp ts (f (tok_at us (p + n))) Q p"
  by (simp add: wp_def peeking_at_def)

lemma wp_spanning [wp_simps]: "wp ts (spanning us f) Q p \<longleftrightarrow> wp ts (f (span_at us p)) Q p"
  by (simp add: wp_def spanning_def)

lemma wp_prev_span [wp_simps]: "wp ts (prev_span us f) Q p \<longleftrightarrow> wp ts (f (span_at us (p - 1))) Q p"
  by (simp add: wp_def prev_span_def)

lemma wp_leading [wp_simps]: "wp ts (leading us f) Q p \<longleftrightarrow> wp ts (f (leading_doc (us ! p))) Q p"
  by (simp add: wp_def leading_def)

lemma wp_advancing [wp_simps]: "wp ts (advancing us m) Q p \<longleftrightarrow> wp ts m Q (next_token_at us p)"
  by (simp add: wp_def advancing_def)

lemma wp_pfail [wp_simps]:
  "wp ts (pfail us e) Q p \<longleftrightarrow> p < length ts" "wp ts (pfail_code us e tag) Q p \<longleftrightarrow> p < length ts"
  by (simp_all add: wp_def pfail_def pfail_code_def)

lemma wp_eat [wp_simps]:
  "wp ts (eat us k m) Q p \<longleftrightarrow>
     (if tok_at us p = k then wp ts m Q (next_token_at us p) else p < length ts)"
  by (simp add: eat_def wp_simps)

lemma wp_if_token [wp_simps]:
  "wp ts (if_token us k m n) Q p \<longleftrightarrow>
     (if tok_at us p = k then wp ts m Q (next_token_at us p) else wp ts n Q p)"
  by (simp add: if_token_def wp_simps)

lemma wp_mono: "wp ts m Q p \<Longrightarrow> (\<And>x q. Q x q \<Longrightarrow> R x q) \<Longrightarrow> wp ts m R p"
  by (auto simp: wp_def split: option.splits sum.splits)

lemma wp_conj: "wp ts m Q p \<Longrightarrow> wp ts m R p \<Longrightarrow> wp ts m (\<lambda>x q. Q x q \<and> R x q) p"
  by (auto simp: wp_def split: option.splits sum.splits)

lemma next_token_before:
  assumes "ended ts" "tok_at ts p \<noteq> Eof"
  shows "next_token_at ts p = Suc p" "Suc p < length ts" "p < length ts"
proof -
  have p: "p < length ts" using assms(2) by (auto simp: tok_at_def split: if_splits)
  moreover have "p \<noteq> length ts - 1"
    using assms p by (auto simp: tok_at_def ended_def last_conv_nth)
  ultimately show "next_token_at ts p = Suc p" "Suc p < length ts" "p < length ts"
    by (auto simp: next_token_at_def)
qed

lemma keyword_text_not_eof: "keyword_text k = Some s \<Longrightarrow> k \<noteq> Eof"
  by auto

text \<open>
  A loop ends if every round that goes on consumes a token, and what its rounds keep holds at
  its end.
\<close>

lemma wp_ploop:
  assumes "J s p" and "length ts \<le> n + p"
    and step: "\<And>s q. J s q \<Longrightarrow> p \<le> q \<Longrightarrow> q < length ts \<Longrightarrow>
      wp ts (body s) (\<lambda>r q'. case r of Inl s' \<Rightarrow> q < q' \<and> q' < length ts \<and> J s' q' | Inr x \<Rightarrow> Q x q') q"
    and "p < length ts"
  shows "wp ts (ploop n body s) Q p"
  using assms
proof (induction n arbitrary: s p)
  case (Suc n)
  have "wp ts (body s) (\<lambda>r q'. case r of Inl s' \<Rightarrow> p < q' \<and> q' < length ts \<and> J s' q' | Inr x \<Rightarrow> Q x q') p"
    using Suc.prems(1,4) by (intro Suc.prems(3)) auto
  then show ?case
  proof (simp add: wp_pbind, elim wp_mono)
    fix r q
    assume r: "case r of Inl s' \<Rightarrow> p < q \<and> q < length ts \<and> J s' q | Inr x \<Rightarrow> Q x q"
    show "wp ts (case r of Inl s' \<Rightarrow> ploop n body s' | Inr x \<Rightarrow> preturn x) Q q"
    proof (cases r)
      case (Inl s')
      with r have "p < q" "q < length ts" "J s' q" by simp_all
      with Suc.prems show ?thesis
        unfolding Inl sum.case by (intro Suc.IH) auto
    qed (use r in \<open>simp add: wp_simps\<close>)
  qed
qed auto

end
