(* ===== verification/Parser.thy ===== *)
theory Parser
  imports ParseBase
begin

text \<open>
  The parser of expressions, \<open>compiler/src/parser.rs\<close>: types, patterns, expressions and
  statements, one definition per method. The methods that call each other in a circle are the
  fields of \<open>parsers\<close>; \<open>parsers_of n\<close> ties the knot, \<open>n\<close> calls deep. The stack of the process is
  that depth.
\<close>

record parsers =
  p_number :: "int \<Rightarrow> 64 word"
  p_float :: "string \<Rightarrow> 64 word"
  p_type :: "token list \<Rightarrow> type_expr parse"
  p_expr :: "token list \<Rightarrow> bool \<Rightarrow> sexpr parse"
  p_unary :: "token list \<Rightarrow> bool \<Rightarrow> sexpr parse"
  p_if :: "token list \<Rightarrow> sexpr parse"
  p_block :: "token list \<Rightarrow> block parse"
  p_pattern :: "token list \<Rightarrow> sexpr pattern parse"

section \<open>Fields\<close>

text \<open>\<open>s.trim().is_empty()\<close>\<close>

definition blank :: "string \<Rightarrow> bool" where
  "blank s = list_all is_whitespace (chars_of s)"

definition once :: "token list \<Rightarrow> string \<Rightarrow> (field_annotation \<Rightarrow> bool) \<Rightarrow> field_annotation list \<Rightarrow> 'a parse \<Rightarrow> 'a parse" where
  "once ts name P anns m = (if list_ex P anns then pfail ts (Repeated name) else m)"

definition parse_validator :: "token list \<Rightarrow> field_validator parse" where
  "parse_validator ts =
     pbind (eat_ident ts) (\<lambda>kind.
       if kind = ''email'' then preturn Email
       else if kind = ''regex'' then eat ts (Pt Comma) (pbind (eat_string ts) (\<lambda>s. preturn (Regex s)))
       else pfail ts (UnknownArgument ''validate'' kind))"

definition parse_field_check :: "parsers \<Rightarrow> token list \<Rightarrow> field_check parse" where
  "parse_field_check K ts =
     (let num = eat_number (p_number K) (p_float K) ts;
          one = (\<lambda>c. eat ts (Pt Comma) (pbind num (\<lambda>n. preturn (c n))))
      in pbind (eat_ident ts) (\<lambda>kind.
           if kind = ''min'' then one CheckMin
           else if kind = ''max'' then one CheckMax
           else if kind = ''range'' then
             eat ts (Pt Comma) (pbind num (\<lambda>lo. eat ts (Pt Comma) (pbind num (\<lambda>hi. preturn (CheckRange lo hi)))))
           else if kind = ''minLength'' then one CheckMinLength
           else if kind = ''maxLength'' then one CheckMaxLength
           else pfail ts (UnknownArgument ''check'' kind)))"

definition parse_on_delete :: "token list \<Rightarrow> on_delete option parse" where
  "parse_on_delete ts =
     if_token ts (Pt Comma)
       (pbind (eat_ident ts) (\<lambda>kw.
          if kw \<noteq> ''onDelete'' then pfail ts (UnknownArgument ''ref'' kw)
          else eat ts (Pt Colon) (pbind (eat_ident ts) (\<lambda>act.
            if act = ''Cascade'' then preturn (Some Cascade)
            else if act = ''Restrict'' then preturn (Some Restrict)
            else if act = ''SetNull'' then preturn (Some SetNull)
            else pfail ts (UnknownArgument ''onDelete'' act)))))
       (preturn None)"

definition parse_tenant_claim :: "token list \<Rightarrow> string option parse" where
  "parse_tenant_claim ts =
     if_token ts (Pt LParen)
       (pbind (eat_ident ts) (\<lambda>kw.
          if kw \<noteq> ''claim'' then pfail ts (UnknownArgument ''tenant'' kw)
          else eat ts (Pt Colon) (pbind (eat_string ts) (\<lambda>name.
            if blank name then pfail ts (EmptyText ''tenant'')
            else eat ts (Pt RParen) (preturn (Some name))))))
       (preturn None)"

text \<open>
  One annotation, after its name; the two that a field has at most once by a flag of their own
  are found in the list as well, where they are from then on.
\<close>

definition parse_field_annotation :: "parsers \<Rightarrow> token list \<Rightarrow> field_annotation list \<Rightarrow> string \<Rightarrow> field_annotation parse" where
  "parse_field_annotation K ts anns name =
     (if name = ''deprecated'' then
        once ts name (\<lambda>a. case a of FieldDeprecated _ \<Rightarrow> True | _ \<Rightarrow> False) anns
          (eat ts (Pt LParen) (pbind (eat_string ts) (\<lambda>reason. eat ts (Pt RParen)
            (if blank reason then pfail ts (EmptyText name) else preturn (FieldDeprecated reason)))))
      else if name = ''validate'' then
        once ts name (\<lambda>a. case a of Validate _ \<Rightarrow> True | _ \<Rightarrow> False) anns
          (eat ts (Pt LParen) (pbind (parse_validator ts) (\<lambda>v. eat ts (Pt RParen) (preturn (Validate v)))))
      else if name = ''autoUpdate'' then once ts name (\<lambda>a. case a of AutoUpdate \<Rightarrow> True | _ \<Rightarrow> False) anns (preturn AutoUpdate)
      else if name = ''softDelete'' then once ts name (\<lambda>a. case a of SoftDelete \<Rightarrow> True | _ \<Rightarrow> False) anns (preturn SoftDelete)
      else if name = ''index'' \<or> name = ''unique'' then
        once ts name (\<lambda>a. case a of FieldIndex _ \<Rightarrow> True | _ \<Rightarrow> False) anns
          (preturn (FieldIndex (name = ''unique'')))
      else if name = ''check'' then
        once ts name (\<lambda>a. case a of FieldCheck _ \<Rightarrow> True | _ \<Rightarrow> False) anns
          (eat ts (Pt LParen) (pbind (parse_field_check K ts) (\<lambda>c. eat ts (Pt RParen) (preturn (FieldCheck c)))))
      else if name = ''encrypted'' then once ts name (\<lambda>a. case a of Encrypted \<Rightarrow> True | _ \<Rightarrow> False) anns (preturn Encrypted)
      else if name = ''hidden'' then once ts name (\<lambda>a. case a of Hidden \<Rightarrow> True | _ \<Rightarrow> False) anns (preturn Hidden)
      else if name = ''naturalKey'' then once ts name (\<lambda>a. case a of NaturalKey \<Rightarrow> True | _ \<Rightarrow> False) anns (preturn NaturalKey)
      else if name = ''column'' then
        once ts name (\<lambda>a. case a of Column _ \<Rightarrow> True | _ \<Rightarrow> False) anns
          (eat ts (Pt LParen) (pbind (eat_string ts) (\<lambda>col. eat ts (Pt RParen)
            (if blank col then pfail ts (EmptyText name) else preturn (Column col)))))
      else if name = ''ref'' then
        once ts name (\<lambda>a. case a of Ref _ _ \<Rightarrow> True | _ \<Rightarrow> False) anns
          (eat ts (Pt LParen) (pbind (eat_ident ts) (\<lambda>target. pbind (parse_on_delete ts) (\<lambda>d.
            eat ts (Pt RParen) (preturn (Ref target d))))))
      else if name = ''tenant'' then
        once ts name (\<lambda>a. case a of Tenant _ \<Rightarrow> True | _ \<Rightarrow> False) anns
          (pbind (parse_tenant_claim ts) (\<lambda>c. preturn (Tenant c)))
      else if name = ''searchable'' then once ts name (\<lambda>a. case a of Searchable \<Rightarrow> True | _ \<Rightarrow> False) anns (preturn Searchable)
      else pfail ts (UnknownAnnotation name))"

definition parse_field_annotations :: "parsers \<Rightarrow> token list \<Rightarrow> field_annotation list parse" where
  "parse_field_annotations K ts =
     ploop (length ts) (\<lambda>anns.
       if_token ts (Pt At)
         (pbind (eat_ident ts) (\<lambda>name. pbind (parse_field_annotation K ts anns name) (\<lambda>a. again (anns @ [a]))))
         (stop anns)) []"

definition parse_field_decl :: "parsers \<Rightarrow> token list \<Rightarrow> field parse" where
  "parse_field_decl K ts =
     pbind (parse_field_annotations K ts) (\<lambda>anns. spanning ts (\<lambda>name_span.
       pbind (eat_field_name ts) (\<lambda>name.
         pbind (if_token ts (Pt Question) (preturn True) (preturn False)) (\<lambda>optional.
           eat ts (Pt Colon) (pbind (p_type K ts) (\<lambda>t.
             if_token ts (Pt Equals)
               (pbind (p_expr K ts False) (\<lambda>e. preturn (Field name optional t name_span anns (Some e))))
               (preturn (Field name optional t name_span anns None))))))))"

definition parse_field_list :: "parsers \<Rightarrow> token list \<Rightarrow> field list parse" where
  "parse_field_list K ts = comma_list ts RBrace (parse_field_decl K ts)"

section \<open>Types\<close>

definition parse_paren_type :: "parsers \<Rightarrow> token list \<Rightarrow> type_expr parse" where
  "parse_paren_type K ts =
     eat ts (Pt LParen)
       (pbind
         (peeking ts (\<lambda>c.
            if c = Pt RParen then preturn ([], False)
            else pbind (p_type K ts) (\<lambda>t.
              paren_items ts (p_type K ts) t)))
         (\<lambda>(types, had_comma).
            eat ts (Pt RParen)
              (if_token ts (Pt Arrow)
                (pbind (p_type K ts) (\<lambda>ret. preturn (FunctionT types ret)))
                (if length types = 0 then pfail ts EmptyParenType
                 else if length types = 1 \<and> \<not> had_comma then preturn (hd types)
                 else preturn (TupleT types)))))"

definition parse_type_args :: "parsers \<Rightarrow> token list \<Rightarrow> type_expr list parse" where
  "parse_type_args K ts =
     if_token ts (Pt Lt)
       (pbind (p_type K ts) (\<lambda>t. pbind (separated ts Comma (p_type K ts) [t]) (\<lambda>args.
          eat ts (Pt Gt) (preturn args))))
       (preturn [])"

definition parse_named_type :: "parsers \<Rightarrow> token list \<Rightarrow> string \<Rightarrow> span \<Rightarrow> type_expr parse" where
  "parse_named_type K ts name name_span =
     peeking ts (\<lambda>c.
       if name = ''Vector'' \<and> c = Pt Lt then
         advancing ts (spanning ts (\<lambda>dim_span. peeking ts (\<lambda>d.
           case d of
             TInt n \<Rightarrow> advancing ts (eat ts (Pt Gt)
               (preturn (Named ''Vector'' [Named (show_int n) [] dim_span] name_span)))
           | _ \<Rightarrow> pfail ts WantDimension)))
       else pbind (parse_type_args K ts) (\<lambda>args. preturn (Named name args name_span)))"

definition parse_primary_type :: "parsers \<Rightarrow> token list \<Rightarrow> type_expr parse" where
  "parse_primary_type K ts =
     peeking ts (\<lambda>c.
       case c of
         TIdent name \<Rightarrow> spanning ts (\<lambda>name_span. advancing ts (parse_named_type K ts name name_span))
       | Pt LBrace \<Rightarrow>
           advancing ts (pbind (parse_field_list K ts) (\<lambda>fs. eat ts (Pt RBrace) (preturn (StructT fs))))
       | Pt LParen \<Rightarrow> parse_paren_type K ts
       | _ \<Rightarrow> pfail ts WantType)"

definition parse_postfix_type :: "parsers \<Rightarrow> token list \<Rightarrow> type_expr parse" where
  "parse_postfix_type K ts =
     pbind (parse_primary_type K ts) (ploop (length ts) (\<lambda>t.
       peeking ts (\<lambda>c.
         case c of
           Pt Question \<Rightarrow> advancing ts (again (OptionalT t))
         | Pt LBracket \<Rightarrow> advancing ts (eat ts (Pt RBracket) (again (ListT t)))
         | _ \<Rightarrow> stop t)))"

definition parse_type_expr :: "parsers \<Rightarrow> token list \<Rightarrow> type_expr parse" where
  "parse_type_expr K ts =
     pbind (parse_postfix_type K ts) (\<lambda>first. peeking ts (\<lambda>c.
       if c = Pt Pipe then
         pbind (separated ts Pipe (parse_postfix_type K ts) [first]) (\<lambda>variants. preturn (UnionT variants))
       else preturn first))"

section \<open>Patterns\<close>

definition parse_field_pattern :: "parsers \<Rightarrow> token list \<Rightarrow> sexpr field_pattern parse" where
  "parse_field_pattern K ts =
     pbind (eat_field_name ts) (\<lambda>name.
       if_token ts (Pt Colon)
         (pbind (p_pattern K ts) (\<lambda>pat. preturn (FieldPattern name pat)))
         (preturn (FieldPattern name (BindPat name))))"

definition parse_named_pattern :: "parsers \<Rightarrow> token list \<Rightarrow> sexpr pattern parse" where
  "parse_named_pattern K ts =
     pbind (eat_ident ts) (\<lambda>name. peeking ts (\<lambda>c.
       case c of
         Pt Dot \<Rightarrow>
           advancing ts (pbind (eat_ident ts) (\<lambda>variant.
             if_token ts (Pt LBrace)
               (pbind (comma_list ts RBrace (parse_field_pattern K ts)) (\<lambda>fs.
                 eat ts (Pt RBrace) (preturn (VariantPat name variant (Some fs)))))
               (preturn (VariantPat name variant None))))
       | Pt Colon \<Rightarrow> advancing ts (pbind (parse_postfix_type K ts) (\<lambda>t. preturn (TypePat name t)))
       | _ \<Rightarrow> preturn (BindPat name)))"

definition parse_pattern_atom :: "parsers \<Rightarrow> token list \<Rightarrow> sexpr pattern parse" where
  "parse_pattern_atom K ts =
     peeking ts (\<lambda>c.
       case c of
         TInt n \<Rightarrow> advancing ts (preturn (LitPat (LitInt n)))
       | Pt Minus \<Rightarrow>
           advancing ts (peeking ts (\<lambda>d.
             case d of
               TInt n \<Rightarrow> advancing ts (preturn (LitPat (LitInt (- n))))
             | _ \<Rightarrow> pfail ts WantPatternInt))
       | TStr s \<Rightarrow> advancing ts (preturn (LitPat (LitStr s)))
       | Kw KTrue \<Rightarrow> advancing ts (preturn (LitPat (LitBool True)))
       | Kw KFalse \<Rightarrow> advancing ts (preturn (LitPat (LitBool False)))
       | Kw KNull \<Rightarrow> advancing ts (preturn (LitPat LitNull))
       | _ \<Rightarrow> parse_named_pattern K ts)"

definition parse_pattern :: "parsers \<Rightarrow> token list \<Rightarrow> sexpr pattern parse" where
  "parse_pattern K ts =
     pbind (parse_pattern_atom K ts) (\<lambda>first. peeking ts (\<lambda>c.
       if c = Pt Pipe then
         pbind (separated ts Pipe (parse_pattern_atom K ts) [first]) (\<lambda>alts. preturn (OrPat alts))
       else preturn first))"

section \<open>Primary expressions\<close>

definition parse_field_init :: "parsers \<Rightarrow> token list \<Rightarrow> (string \<times> sexpr) parse" where
  "parse_field_init K ts =
     pbind (eat_field_name ts) (\<lambda>name. eat ts (Pt Colon) (pbind (p_expr K ts False) (\<lambda>e. preturn (name, e))))"

definition parse_field_init_list :: "parsers \<Rightarrow> token list \<Rightarrow> (string \<times> sexpr) list parse" where
  "parse_field_init_list K ts =
     eat ts (Pt LBrace) (pbind (comma_list ts RBrace (parse_field_init K ts)) (\<lambda>fs. eat ts (Pt RBrace) (preturn fs)))"

definition parse_map_lit_field :: "parsers \<Rightarrow> token list \<Rightarrow> (string \<times> sexpr) parse" where
  "parse_map_lit_field K ts =
     peeking ts (\<lambda>c.
       case c of
         TStr s \<Rightarrow> advancing ts (eat ts (Pt Colon) (pbind (p_expr K ts False) (\<lambda>e. preturn (s, e))))
       | _ \<Rightarrow> pfail ts WantMapKey)"

definition parse_map_lit_fields :: "parsers \<Rightarrow> token list \<Rightarrow> (string \<times> sexpr) list parse" where
  "parse_map_lit_fields K ts =
     eat ts (Pt LBrace) (pbind (comma_list ts RBrace (parse_map_lit_field K ts)) (\<lambda>fs. eat ts (Pt RBrace) (preturn fs)))"

definition empty_closure_error :: "token list \<Rightarrow> 'a parse" where
  "empty_closure_error ts = pfail_code ts EmptyClosure (Some ''L0005'')"

definition parse_closure_param :: "parsers \<Rightarrow> token list \<Rightarrow> sexpr closure_param parse" where
  "parse_closure_param K ts =
     pbind (eat_ident ts) (\<lambda>name.
       if_token ts (Pt Colon)
         (pbind (parse_postfix_type K ts) (\<lambda>t. preturn (ClosureParam name (Some t))))
         (preturn (ClosureParam name None)))"

definition parse_closure_expr :: "parsers \<Rightarrow> token list \<Rightarrow> sexpr parse" where
  "parse_closure_expr K ts =
     spanning ts (\<lambda>start. eat ts (Pt Pipe)
       (pbind (comma_list ts Pipe (parse_closure_param K ts)) (\<lambda>ps.
         eat ts (Pt Pipe)
           (if length ps = 0 then empty_closure_error ts
            else peeking ts (\<lambda>c.
              if c = Pt Arrow then pfail_code ts ClosureReturn (Some ''L0003'')
              else pbind (p_block K ts) (\<lambda>body. prev_span ts (\<lambda>end_span.
                preturn (Sp (Closure ps body) (merge start end_span)))))))))"

text \<open>
  The expression of an interpolation has a parser of its own, over its tokens and an \<open>Eof\<close>.
\<close>

definition parse_html_expr :: "parsers \<Rightarrow> token list \<Rightarrow> sexpr parse" where
  "parse_html_expr K us =
     (\<lambda>p. case p_expr K us False 0 of
        None \<Rightarrow> None
      | Some (r, q) \<Rightarrow>
          (case r of
             Inl e \<Rightarrow> Some (Inl e, p)
           | Inr x \<Rightarrow>
               if tok_at us q = Eof then Some (Inr x, p)
               else Some (Inl \<lparr>pe_what = HtmlRest, pe_found = tok_at us q, pe_span = span_at us q, pe_code = None\<rparr>, p)))"

primrec parse_html_parts :: "parsers \<Rightarrow> span \<Rightarrow> html_part list \<Rightarrow> sexpr ast_html_part list parse" where
  "parse_html_parts K lit_span [] = preturn []"
| "parse_html_parts K lit_span (part # parts) =
     (case part of
        HtmlText s \<Rightarrow> pbind (parse_html_parts K lit_span parts) (\<lambda>xs. preturn (HText s # xs))
      | HtmlExpr us \<Rightarrow>
          pbind (parse_html_expr K (us @ [mk_token Eof lit_span])) (\<lambda>e.
            pbind (parse_html_parts K lit_span parts) (\<lambda>xs. preturn (HExpr e # xs))))"

definition literal :: "token list \<Rightarrow> expr \<Rightarrow> sexpr parse" where
  "literal ts e = spanning ts (\<lambda>s. advancing ts (preturn (Sp e s)))"

definition parse_array :: "parsers \<Rightarrow> token list \<Rightarrow> sexpr parse" where
  "parse_array K ts =
     spanning ts (\<lambda>start. advancing ts
       (pbind (comma_list ts RBracket (p_expr K ts False)) (\<lambda>es. eat ts (Pt RBracket)
         (prev_span ts (\<lambda>end_span. preturn (Sp (ArrayLit es) (merge start end_span)))))))"

definition parse_paren_expr :: "parsers \<Rightarrow> token list \<Rightarrow> sexpr parse" where
  "parse_paren_expr K ts =
     spanning ts (\<lambda>start. advancing ts
       (pbind (p_expr K ts False) (\<lambda>e.
         pbind
           (paren_items ts (p_expr K ts False) e)
           (\<lambda>(es, had_comma). eat ts (Pt RParen)
             (prev_span ts (\<lambda>end_span. preturn (Sp
               (if length es = 1 \<and> \<not> had_comma then Paren (hd es) else TupleLit es) (merge start end_span))))))))"

definition parse_struct_lit :: "parsers \<Rightarrow> token list \<Rightarrow> span \<Rightarrow> string \<Rightarrow> string option \<Rightarrow> sexpr parse" where
  "parse_struct_lit K ts start name variant =
     pbind (parse_field_init_list K ts) (\<lambda>fs.
       prev_span ts (\<lambda>end_span. preturn (Sp (StructLit name variant fs) (merge start end_span))))"

definition parse_name_expr :: "parsers \<Rightarrow> token list \<Rightarrow> bool \<Rightarrow> string \<Rightarrow> sexpr parse" where
  "parse_name_expr K ts no_struct_lit name =
     spanning ts (\<lambda>start. advancing ts
       (peeking ts (\<lambda>c. peeking_at ts 1 (\<lambda>c1. peeking_at ts 2 (\<lambda>c2.
          if \<not> no_struct_lit \<and> c = Pt Dot \<and> is_ident c1 \<and> c2 = Pt LBrace then
            advancing ts (pbind (eat_ident ts) (\<lambda>variant. parse_struct_lit K ts start name (Some variant)))
          else if \<not> no_struct_lit \<and> c = Pt LBrace then parse_struct_lit K ts start name None
          else preturn (Sp (Ident name) start))))))"

definition parse_primary_expr :: "parsers \<Rightarrow> token list \<Rightarrow> bool \<Rightarrow> sexpr parse" where
  "parse_primary_expr K ts no_struct_lit =
     peeking ts (\<lambda>c.
       case c of
         TInt n \<Rightarrow> literal ts (IntLit n)
       | TFloat s \<Rightarrow> literal ts (FloatLit (p_float K s))
       | TStr s \<Rightarrow> literal ts (Str s)
       | THtmlLit parts \<Rightarrow>
           spanning ts (\<lambda>s. advancing ts
             (pbind (parse_html_parts K s parts) (\<lambda>xs. preturn (Sp (HtmlLit xs) s))))
       | Kw KTrue \<Rightarrow> literal ts (BoolLit True)
       | Kw KFalse \<Rightarrow> literal ts (BoolLit False)
       | Kw KNull \<Rightarrow> literal ts NullLit
       | Pt LBracket \<Rightarrow> parse_array K ts
       | Pt LParen \<Rightarrow> parse_paren_expr K ts
       | TIdent name \<Rightarrow> parse_name_expr K ts no_struct_lit name
       | Pt Pipe \<Rightarrow> parse_closure_expr K ts
       | Pt PipePipe \<Rightarrow> advancing ts (empty_closure_error ts)
       | Pt LBrace \<Rightarrow>
           if no_struct_lit then pfail ts WantExpr
           else spanning ts (\<lambda>start. peeking_at ts 1 (\<lambda>c1.
             if is_str c1 then
               pbind (parse_map_lit_fields K ts) (\<lambda>fs.
                 prev_span ts (\<lambda>end_span. preturn (Sp (MapLit fs) (merge start end_span))))
             else parse_struct_lit K ts start [] None))
       | _ \<Rightarrow> pfail ts WantExpr)"

section \<open>Operators\<close>

text \<open>A round of the loop of \<open>parse_postfix_expr\<close>.\<close>

definition postfix_step :: "parsers \<Rightarrow> token list \<Rightarrow> sexpr \<Rightarrow> (sexpr + sexpr) parse" where
  "postfix_step K ts e =
     peeking ts (\<lambda>c.
       case c of
         Pt Dot \<Rightarrow>
           advancing ts (peeking ts (\<lambda>d.
             case d of
               TInt n \<Rightarrow>
                 advancing ts (if n < 0 then pfail ts BadTupleIndex
                   else prev_span ts (\<lambda>s. again (Sp (TupleIndex e (nat n)) (merge (span_of e) s))))
             | _ \<Rightarrow>
                 pbind (eat_field_name ts) (\<lambda>f.
                   prev_span ts (\<lambda>s. again (Sp (FieldAccess e f) (merge (span_of e) s))))))
       | Pt LParen \<Rightarrow>
           advancing ts (pbind
             (peeking ts (\<lambda>d.
                if d = Pt RParen then preturn []
                else pbind (p_expr K ts False) (\<lambda>a. separated ts Comma (p_expr K ts False) [a])))
             (\<lambda>args. eat ts (Pt RParen)
               (prev_span ts (\<lambda>s. again (Sp (Call e args) (merge (span_of e) s))))))
       | Pt LBracket \<Rightarrow>
           advancing ts (pbind (p_expr K ts False) (\<lambda>i. eat ts (Pt RBracket)
             (prev_span ts (\<lambda>s. again (Sp (Index e i) (merge (span_of e) s))))))
       | _ \<Rightarrow> stop e)"

definition parse_postfix_expr :: "parsers \<Rightarrow> token list \<Rightarrow> bool \<Rightarrow> sexpr parse" where
  "parse_postfix_expr K ts no_struct_lit =
     pbind (parse_primary_expr K ts no_struct_lit) (ploop (length ts) (postfix_step K ts))"

definition parse_unary_expr :: "parsers \<Rightarrow> token list \<Rightarrow> bool \<Rightarrow> sexpr parse" where
  "parse_unary_expr K ts no_struct_lit =
     peeking ts (\<lambda>c.
       let op = (case c of Pt Bang \<Rightarrow> Some OpNot | Pt Minus \<Rightarrow> Some OpNeg | _ \<Rightarrow> None)
       in case op of
            Some op \<Rightarrow>
              spanning ts (\<lambda>start. advancing ts (pbind (p_unary K ts no_struct_lit) (\<lambda>e.
                preturn (Sp (Unary op e) (merge start (span_of e))))))
          | None \<Rightarrow> parse_postfix_expr K ts no_struct_lit)"

text \<open>
  A level of the operators, associated to the left: the loops of \<open>parse_coalesce_expr\<close> and of
  the six methods below it differ in their operators and in the method that they call.
\<close>

definition left_assoc :: "token list \<Rightarrow> (token_kind \<Rightarrow> binary_op option) \<Rightarrow> sexpr parse \<Rightarrow> sexpr parse" where
  "left_assoc ts op_of operand =
     pbind operand (ploop (length ts) (\<lambda>left.
       peeking ts (\<lambda>c.
         case op_of c of
           None \<Rightarrow> stop left
         | Some op \<Rightarrow>
             advancing ts (pbind operand (\<lambda>right.
               again (Sp (Binary op left right) (merge (span_of left) (span_of right))))))))"

definition multiplicative_op :: "token_kind \<Rightarrow> binary_op option" where
  "multiplicative_op c =
     (case c of Pt Star \<Rightarrow> Some OpMul | Pt Slash \<Rightarrow> Some OpDiv | Pt Percent \<Rightarrow> Some OpRem | _ \<Rightarrow> None)"

definition additive_op :: "token_kind \<Rightarrow> binary_op option" where
  "additive_op c = (case c of Pt Plus \<Rightarrow> Some OpAdd | Pt Minus \<Rightarrow> Some OpSub | _ \<Rightarrow> None)"

definition relational_op :: "token_kind \<Rightarrow> binary_op option" where
  "relational_op c =
     (case c of Pt Lt \<Rightarrow> Some OpLt | Pt LtEq \<Rightarrow> Some OpLtEq | Pt Gt \<Rightarrow> Some OpGt | Pt GtEq \<Rightarrow> Some OpGtEq
      | _ \<Rightarrow> None)"

definition equality_op :: "token_kind \<Rightarrow> binary_op option" where
  "equality_op c = (case c of Pt EqEq \<Rightarrow> Some OpEq | Pt NotEq \<Rightarrow> Some OpNotEq | _ \<Rightarrow> None)"

definition and_op :: "token_kind \<Rightarrow> binary_op option" where
  "and_op c = (case c of Pt AmpAmp \<Rightarrow> Some OpAnd | _ \<Rightarrow> None)"

definition or_op :: "token_kind \<Rightarrow> binary_op option" where
  "or_op c = (case c of Pt PipePipe \<Rightarrow> Some OpOr | _ \<Rightarrow> None)"

definition coalesce_op :: "token_kind \<Rightarrow> binary_op option" where
  "coalesce_op c = (case c of Pt QuestionQuestion \<Rightarrow> Some OpCoalesce | _ \<Rightarrow> None)"

definition parse_multiplicative_expr :: "parsers \<Rightarrow> token list \<Rightarrow> bool \<Rightarrow> sexpr parse" where
  "parse_multiplicative_expr K ts no_struct_lit =
     left_assoc ts multiplicative_op (parse_unary_expr K ts no_struct_lit)"

definition parse_additive_expr :: "parsers \<Rightarrow> token list \<Rightarrow> bool \<Rightarrow> sexpr parse" where
  "parse_additive_expr K ts no_struct_lit =
     left_assoc ts additive_op (parse_multiplicative_expr K ts no_struct_lit)"

definition parse_relational_expr :: "parsers \<Rightarrow> token list \<Rightarrow> bool \<Rightarrow> sexpr parse" where
  "parse_relational_expr K ts no_struct_lit =
     left_assoc ts relational_op (parse_additive_expr K ts no_struct_lit)"

definition parse_equality_expr :: "parsers \<Rightarrow> token list \<Rightarrow> bool \<Rightarrow> sexpr parse" where
  "parse_equality_expr K ts no_struct_lit =
     left_assoc ts equality_op (parse_relational_expr K ts no_struct_lit)"

definition parse_and_expr :: "parsers \<Rightarrow> token list \<Rightarrow> bool \<Rightarrow> sexpr parse" where
  "parse_and_expr K ts no_struct_lit = left_assoc ts and_op (parse_equality_expr K ts no_struct_lit)"

definition parse_or_expr :: "parsers \<Rightarrow> token list \<Rightarrow> bool \<Rightarrow> sexpr parse" where
  "parse_or_expr K ts no_struct_lit = left_assoc ts or_op (parse_and_expr K ts no_struct_lit)"

definition parse_coalesce_expr :: "parsers \<Rightarrow> token list \<Rightarrow> bool \<Rightarrow> sexpr parse" where
  "parse_coalesce_expr K ts no_struct_lit = left_assoc ts coalesce_op (parse_or_expr K ts no_struct_lit)"

section \<open>Expressions with blocks\<close>

definition parse_match_arm :: "parsers \<Rightarrow> token list \<Rightarrow> (sexpr, block) match_arm parse" where
  "parse_match_arm K ts =
     spanning ts (\<lambda>start. pbind (parse_pattern K ts) (\<lambda>pat.
       pbind
         (if_token ts (Kw KIf)
            (pbind (parse_coalesce_expr K ts True) (\<lambda>g. preturn (Some g)))
            (preturn None))
         (\<lambda>guard. eat ts (Pt FatArrow)
           (peeking ts (\<lambda>c.
             if c = Pt LBrace then
               pbind (p_block K ts) (\<lambda>b.
                 let arm = MatchArm pat guard (ArmBlock b) (merge start (block_span b))
                 in if_token ts (Pt Comma) (preturn arm) (preturn arm))
             else
               pbind (p_expr K ts False) (\<lambda>e.
                 let arm = MatchArm pat guard (ArmExpr e) (merge start (span_of e))
                 in peeking ts (\<lambda>d.
                      if d \<noteq> Pt RBrace then eat ts (Pt Comma) (preturn arm) else preturn arm)))))))"

definition parse_match_expr :: "parsers \<Rightarrow> token list \<Rightarrow> sexpr parse" where
  "parse_match_expr K ts =
     spanning ts (\<lambda>start. eat ts (Kw KMatch) (pbind (p_expr K ts True) (\<lambda>scrutinee. eat ts (Pt LBrace)
       (pbind
         (ploop (length ts) (\<lambda>arms. peeking ts (\<lambda>c.
            if c \<noteq> Pt RBrace then pbind (parse_match_arm K ts) (\<lambda>arm. again (arms @ [arm])) else stop arms)) [])
         (\<lambda>arms. eat ts (Pt RBrace)
           (prev_span ts (\<lambda>end_span. preturn (Sp (Match scrutinee arms) (merge start end_span)))))))))"

definition parse_if_expr :: "parsers \<Rightarrow> token list \<Rightarrow> sexpr parse" where
  "parse_if_expr K ts =
     spanning ts (\<lambda>start. eat ts (Kw KIf) (pbind (parse_coalesce_expr K ts True) (\<lambda>cond.
       pbind (p_block K ts) (\<lambda>then_block. eat ts (Kw KElse)
         (pbind
           (peeking ts (\<lambda>c.
              if c = Kw KIf then pbind (p_if K ts) (\<lambda>nested. preturn (Block [] (Some nested) (span_of nested)))
              else p_block K ts))
           (\<lambda>else_block.
              prev_span ts (\<lambda>end_span. preturn (Sp (If cond then_block else_block) (merge start end_span)))))))))"

definition parse_transaction_expr :: "parsers \<Rightarrow> token list \<Rightarrow> sexpr parse" where
  "parse_transaction_expr K ts =
     spanning ts (\<lambda>start. eat ts (Kw KTransaction) (pbind (p_block K ts) (\<lambda>b.
       prev_span ts (\<lambda>end_span. preturn (Sp (Transaction b) (merge start end_span))))))"

definition parse_expr_ctx :: "parsers \<Rightarrow> token list \<Rightarrow> bool \<Rightarrow> sexpr parse" where
  "parse_expr_ctx K ts no_struct_lit =
     peeking ts (\<lambda>c.
       if c = Kw KMatch then parse_match_expr K ts
       else if c = Kw KIf then parse_if_expr K ts
       else if c = Kw KTransaction then parse_transaction_expr K ts
       else parse_coalesce_expr K ts no_struct_lit)"

section \<open>Statements\<close>

definition parse_let_stmt :: "parsers \<Rightarrow> token list \<Rightarrow> (stmt \<times> span) parse" where
  "parse_let_stmt K ts =
     spanning ts (\<lambda>start. eat ts (Kw KLet)
       (pbind (if_token ts (Kw KMut) (preturn True) (preturn False)) (\<lambda>mutable.
         pbind (eat_ident ts) (\<lambda>name.
           pbind (if_token ts (Pt Colon) (pbind (p_type K ts) (\<lambda>t. preturn (Some t))) (preturn None)) (\<lambda>t.
             eat ts (Pt Equals) (pbind (p_expr K ts False) (\<lambda>e. eat ts (Pt Semi)
               (preturn (Let name mutable t e, merge start (span_of e))))))))))"

definition parse_return_stmt :: "parsers \<Rightarrow> token list \<Rightarrow> (stmt \<times> span) parse" where
  "parse_return_stmt K ts =
     spanning ts (\<lambda>start. eat ts (Kw KReturn)
       (pbind
         (peeking ts (\<lambda>c.
            if c = Pt Semi then preturn None else pbind (p_expr K ts False) (\<lambda>e. preturn (Some e))))
         (\<lambda>v. eat ts (Pt Semi)
           (preturn (Return v, case v of Some e \<Rightarrow> merge start (span_of e) | None \<Rightarrow> start)))))"

definition parse_while_stmt :: "parsers \<Rightarrow> token list \<Rightarrow> (stmt \<times> span) parse" where
  "parse_while_stmt K ts =
     spanning ts (\<lambda>start. eat ts (Kw KWhile) (pbind (parse_coalesce_expr K ts True) (\<lambda>cond.
       pbind (p_block K ts) (\<lambda>body.
         prev_span ts (\<lambda>end_span. preturn (While cond body, merge start end_span))))))"

definition parse_for_stmt :: "parsers \<Rightarrow> token list \<Rightarrow> (stmt \<times> span) parse" where
  "parse_for_stmt K ts =
     spanning ts (\<lambda>start. eat ts (Kw KFor) (pbind (eat_ident ts) (\<lambda>var. eat ts (Kw KIn)
       (pbind (parse_coalesce_expr K ts True) (\<lambda>first.
         pbind
           (if_token ts (Pt DotDot)
              (pbind (parse_coalesce_expr K ts True) (\<lambda>last_expr. preturn (IterRange first last_expr)))
              (preturn (IterList first)))
           (\<lambda>iter. pbind (p_block K ts) (\<lambda>body.
             prev_span ts (\<lambda>end_span. preturn (For var iter body, merge start end_span)))))))))"

type_synonym statements = "(stmt \<times> span) list"

definition parse_assign_stmt :: "parsers \<Rightarrow> token list \<Rightarrow> string \<Rightarrow> (stmt \<times> span) parse" where
  "parse_assign_stmt K ts name =
     spanning ts (\<lambda>start. advancing ts (advancing ts (pbind (p_expr K ts False) (\<lambda>e. eat ts (Pt Semi)
       (preturn (Assign name e, merge start (span_of e)))))))"

text \<open>A structure without a name, as the last expression of a block.\<close>

definition parse_bare_struct :: "parsers \<Rightarrow> token list \<Rightarrow> sexpr parse" where
  "parse_bare_struct K ts =
     pbind (parse_field_init K ts) (\<lambda>f. pbind (more_items ts RBrace (parse_field_init K ts) [f]) (\<lambda>fs.
       prev_span ts (\<lambda>end_span. preturn (Sp (StructLit [] None fs) (merge (span_of (snd (hd fs))) end_span)))))"

definition parse_stmt :: "parsers \<Rightarrow> token list \<Rightarrow> statements \<Rightarrow> (statements + statements \<times> sexpr option) parse" where
  "parse_stmt K ts ss =
     (let push = (\<lambda>s. again (ss @ [s])); finish = (\<lambda>e. stop (ss, Some e))
      in peeking ts (\<lambda>c. peeking_at ts 1 (\<lambda>c1.
           case c of
             Pt RBrace \<Rightarrow> stop (ss, None)
           | Kw KLet \<Rightarrow> pbind (parse_let_stmt K ts) push
           | Kw KReturn \<Rightarrow> pbind (parse_return_stmt K ts) push
           | Kw KWhile \<Rightarrow> pbind (parse_while_stmt K ts) push
           | Kw KFor \<Rightarrow> pbind (parse_for_stmt K ts) push
           | _ \<Rightarrow>
               if is_ident c \<and> c1 = Pt Equals then
                 (case c of TIdent name \<Rightarrow> pbind (parse_assign_stmt K ts name) push | _ \<Rightarrow> pfail ts WantIdent)
               else if c = Kw KIf \<or> c = Kw KMatch \<or> c = Kw KTransaction then
                 pbind (p_expr K ts False) (\<lambda>e. peeking ts (\<lambda>d.
                   if d = Pt RBrace then finish e
                   else if_token ts (Pt Semi) (push (ExprStmt e, span_of e)) (push (ExprStmt e, span_of e))))
               else if is_ident c \<and> c1 = Pt Colon then
                 pbind (parse_bare_struct K ts) finish
               else
                 pbind (p_expr K ts False) (\<lambda>e. if_token ts (Pt Semi) (push (ExprStmt e, span_of e)) (finish e)))))"

definition parse_block :: "parsers \<Rightarrow> token list \<Rightarrow> block parse" where
  "parse_block K ts =
     spanning ts (\<lambda>start. eat ts (Pt LBrace)
       (pbind (ploop (length ts) (parse_stmt K ts) []) (\<lambda>(ss, last_expr).
         eat ts (Pt RBrace) (prev_span ts (\<lambda>end_span. preturn (Block ss last_expr (merge start end_span)))))))"

section \<open>The knot\<close>

primrec parsers_of :: "(int \<Rightarrow> 64 word) \<Rightarrow> (string \<Rightarrow> 64 word) \<Rightarrow> nat \<Rightarrow> parsers" where
  "parsers_of num flt 0 =
     \<lparr>p_number = num, p_float = flt, p_type = \<lambda>_ _. None, p_expr = \<lambda>_ _ _. None, p_unary = \<lambda>_ _ _. None,
      p_if = \<lambda>_ _. None, p_block = \<lambda>_ _. None, p_pattern = \<lambda>_ _. None\<rparr>"
| "parsers_of num flt (Suc n) =
     (let K = parsers_of num flt n
      in \<lparr>p_number = num, p_float = flt, p_type = parse_type_expr K, p_expr = parse_expr_ctx K,
          p_unary = parse_unary_expr K, p_if = parse_if_expr K, p_block = parse_block K,
          p_pattern = parse_pattern K\<rparr>)"

lemma parsers_of_Suc:
  "p_type (parsers_of num flt (Suc n)) = parse_type_expr (parsers_of num flt n)"
  "p_expr (parsers_of num flt (Suc n)) = parse_expr_ctx (parsers_of num flt n)"
  "p_unary (parsers_of num flt (Suc n)) = parse_unary_expr (parsers_of num flt n)"
  "p_if (parsers_of num flt (Suc n)) = parse_if_expr (parsers_of num flt n)"
  "p_block (parsers_of num flt (Suc n)) = parse_block (parsers_of num flt n)"
  "p_pattern (parsers_of num flt (Suc n)) = parse_pattern (parsers_of num flt n)"
  by (simp_all add: Let_def)

lemma parsers_of_floats:
  "p_number (parsers_of num flt n) = num" "p_float (parsers_of num flt n) = flt"
  by (cases n; simp add: Let_def)+

declare parsers_of.simps [simp del]

end
