(* ===== verification/ParseItems.thy ===== *)
theory ParseItems
  imports Parser
begin

text \<open>
  The parser of declarations, \<open>compiler/src/parser.rs\<close>: annotations, items, services, and
  \<open>parse_program\<close> with its recovery, which goes on at the next token that can begin an item.
\<close>

section \<open>Lists of names\<close>

definition eat_idents :: "token list \<Rightarrow> string list parse" where
  "eat_idents ts = pbind (eat_ident ts) (\<lambda>x. separated ts Comma (eat_ident ts) [x])"

definition parse_type_params :: "token list \<Rightarrow> string list parse" where
  "parse_type_params ts =
     if_token ts (Pt Lt) (pbind (eat_idents ts) (\<lambda>xs. eat ts (Pt Gt) (preturn xs))) (preturn [])"

text \<open>A keyword argument: \<open>, kw: value\<close>, the only one that the annotation knows.\<close>

definition keyword_argument :: "token list \<Rightarrow> string \<Rightarrow> string \<Rightarrow> 'a parse \<Rightarrow> 'a parse" where
  "keyword_argument ts owner kw m =
     pbind (eat_ident ts) (\<lambda>given.
       if given \<noteq> kw then pfail ts (UnknownArgument owner given) else eat ts (Pt Colon) m)"

section \<open>Annotations of a type\<close>

definition parse_index_annotation :: "parsers \<Rightarrow> token list \<Rightarrow> string \<Rightarrow> type_annotation parse" where
  "parse_index_annotation K ts name =
     eat ts (Pt LParen) (pbind (eat_idents ts) (\<lambda>fs. eat ts (Pt RParen)
       (pbind
         (if_token ts (TIdent ''where'')
            (pbind (parse_or_expr K ts False) (\<lambda>e. preturn (Some e)))
            (preturn None))
         (\<lambda>cond. preturn (if name = ''index'' then TypeIndex fs cond else Unique fs cond)))))"

definition parse_type_annotation :: "parsers \<Rightarrow> token list \<Rightarrow> string \<Rightarrow> type_annotation parse" where
  "parse_type_annotation K ts name =
     (if name = ''primaryKey'' then
        eat ts (Pt LParen) (pbind (eat_idents ts) (\<lambda>fs. eat ts (Pt RParen) (preturn (PrimaryKey fs))))
      else if name = ''unique'' \<or> name = ''index'' then parse_index_annotation K ts name
      else if name = ''check'' then
        eat ts (Pt LParen) (pbind (parse_or_expr K ts False) (\<lambda>e. eat ts (Pt RParen) (preturn (Check e))))
      else pfail ts (UnknownAnnotation name))"

definition parse_type_annotations :: "parsers \<Rightarrow> token list \<Rightarrow> type_annotation list parse" where
  "parse_type_annotations K ts =
     ploop (length ts) (\<lambda>anns.
       if_token ts (Pt At)
         (pbind (eat_ident ts) (\<lambda>name. pbind (parse_type_annotation K ts name) (\<lambda>a. again (anns @ [a]))))
         (stop anns)) []"

section \<open>Annotations of an rpc\<close>

definition parse_owner :: "token list \<Rightarrow> ownership_clause option parse" where
  "parse_owner ts =
     if_token ts (Pt Comma)
       (keyword_argument ts ''requires'' ''ownerOf'' (pbind (eat_ident ts) (\<lambda>coll. eat ts (Pt Comma)
         (keyword_argument ts ''requires'' ''id'' (pbind (eat_ident ts) (\<lambda>param. eat ts (Pt Comma)
           (keyword_argument ts ''requires'' ''field'' (pbind (eat_ident ts) (\<lambda>f.
             preturn (Some \<lparr>collection = coll, id_param = param, owner_field = f\<rparr>))))))))))
       (preturn None)"

definition parse_requires :: "token list \<Rightarrow> annotation parse" where
  "parse_requires ts =
     eat ts (Pt LParen) (pbind (eat_ident ts) (\<lambda>enum. eat ts (Pt Dot) (pbind (eat_ident ts) (\<lambda>variant.
       pbind
         (ploop (length ts) (\<lambda>vs.
            if_token ts (Pt Pipe)
              (pbind (eat_ident ts) (\<lambda>next_enum.
                 if next_enum \<noteq> enum then pfail ts (TwoEnums enum next_enum)
                 else eat ts (Pt Dot) (pbind (eat_ident ts) (\<lambda>v. again (vs @ [v])))))
              (stop vs)) [variant])
         (\<lambda>vs. pbind (parse_owner ts) (\<lambda>own. eat ts (Pt RParen) (preturn (Requires enum vs own))))))))"

definition string_argument :: "token list \<Rightarrow> (string \<Rightarrow> annotation) \<Rightarrow> annotation parse" where
  "string_argument ts c =
     eat ts (Pt LParen) (pbind (eat_string ts) (\<lambda>s. eat ts (Pt RParen) (preturn (c s))))"

definition parse_limit :: "token list \<Rightarrow> annotation parse" where
  "parse_limit ts =
     eat ts (Pt LParen) (pbind (eat_string ts) (\<lambda>limit.
       pbind
         (if_token ts (Pt Comma)
            (keyword_argument ts ''rate_limit'' ''key'' (pbind (eat_ident ts) (\<lambda>k. preturn (Some k))))
            (preturn None))
         (\<lambda>k. eat ts (Pt RParen) (preturn (RateLimit limit k)))))"

definition parse_cron :: "token list \<Rightarrow> annotation parse" where
  "parse_cron ts =
     eat ts (Pt LParen) (pbind (eat_string ts) (\<lambda>schedule.
       pbind
         (if_token ts (Pt Comma)
            (keyword_argument ts ''cron'' ''initialDelay'' (pbind (eat_string ts) (\<lambda>d. preturn (Some d))))
            (preturn None))
         (\<lambda>d. eat ts (Pt RParen) (preturn (Cron schedule d)))))"

definition parse_example :: "parsers \<Rightarrow> token list \<Rightarrow> annotation parse" where
  "parse_example K ts =
     eat ts (Pt LParen) (peeking ts (\<lambda>c.
       if c = Pt RParen then pfail ts (EmptyAnnotation ''example'')
       else
         pbind
           (ploop (length ts) (\<lambda>(req, res).
              pbind (eat_ident ts) (\<lambda>key. eat ts (Pt Colon) (pbind (p_expr K ts False) (\<lambda>e.
                let continue = (\<lambda>s. if_token ts (Pt Comma) (again s) (stop s))
                in if key = ''request'' \<and> Option.is_none req then continue (Some e, res)
                   else if key = ''response'' \<and> Option.is_none res then continue (req, Some e)
                   else if key = ''request'' \<or> key = ''response'' then pfail ts (Repeated key)
                   else pfail ts (UnknownArgument ''example'' key))))) (None, None))
           (\<lambda>(req, res). eat ts (Pt RParen) (preturn (Example req res)))))"

definition parse_invalidates :: "token list \<Rightarrow> annotation parse" where
  "parse_invalidates ts =
     eat ts (Pt LParen) (peeking ts (\<lambda>c.
       if c = Pt RParen then pfail ts (EmptyAnnotation ''invalidates'')
       else pbind (eat_idents ts) (\<lambda>names. eat ts (Pt RParen) (preturn (Invalidates names)))))"

definition parse_infinite :: "token list \<Rightarrow> annotation parse" where
  "parse_infinite ts =
     eat ts (Pt LParen) (pbind (eat_ident ts) (\<lambda>cursor. eat ts (Pt Comma) (pbind (eat_ident ts) (\<lambda>limit.
       eat ts (Pt RParen) (preturn (Infinite cursor limit))))))"

definition parse_annotation :: "parsers \<Rightarrow> token list \<Rightarrow> string \<Rightarrow> annotation parse" where
  "parse_annotation K ts name =
     (if name = ''authenticated'' then preturn Authenticated
      else if name = ''requires'' then parse_requires ts
      else if name = ''content_type'' then string_argument ts ContentType
      else if name = ''route'' then string_argument ts Route
      else if name = ''rate_limit'' then parse_limit ts
      else if name = ''deprecated'' then string_argument ts Deprecated
      else if name = ''cache_control'' then string_argument ts CacheControl
      else if name = ''example'' then parse_example K ts
      else if name = ''invalidates'' then parse_invalidates ts
      else if name = ''infinite'' then parse_infinite ts
      else if name = ''idempotent'' then preturn Idempotent
      else if name = ''readReplica'' then preturn ReadReplica
      else if name = ''background'' then preturn annotation.Background
      else if name = ''cache'' then string_argument ts annotation.Cache
      else if name = ''cors'' then string_argument ts Cors
      else if name = ''cron'' then parse_cron ts
      else if name = ''notFound'' then preturn NotFound
      else if name = ''csrf'' then preturn Csrf
      else if name = ''rawSql'' then preturn RawSql
      else if name = ''startup'' then preturn Startup
      else pfail ts (UnknownAnnotation name))"

definition parse_optional_annotation :: "parsers \<Rightarrow> token list \<Rightarrow> annotation list parse" where
  "parse_optional_annotation K ts =
     ploop (length ts) (\<lambda>anns.
       if_token ts (Pt At)
         (pbind (eat_ident ts) (\<lambda>name. pbind (parse_annotation K ts name) (\<lambda>a. again (anns @ [a]))))
         (stop anns)) []"

section \<open>Functions and services\<close>

definition parse_param :: "parsers \<Rightarrow> token list \<Rightarrow> param parse" where
  "parse_param K ts =
     spanning ts (\<lambda>name_span. pbind (eat_ident ts) (\<lambda>name. eat ts (Pt Colon) (pbind (p_type K ts) (\<lambda>t.
       pbind
         (if_token ts (Pt Equals) (pbind (p_expr K ts False) (\<lambda>e. preturn (Some e))) (preturn None))
         (\<lambda>default. preturn \<lparr>param_name = name, param_ty = t, param_default = default, param_span = name_span\<rparr>)))))"

definition parse_param_list :: "parsers \<Rightarrow> token list \<Rightarrow> param list parse" where
  "parse_param_list K ts = comma_list ts RParen (parse_param K ts)"

text \<open>What follows \<open>fn\<close>, \<open>rpc\<close> or \<open>stream\<close>; the span is that of the signature.\<close>

definition parse_signature ::
  "parsers \<Rightarrow> token list \<Rightarrow> span \<Rightarrow> (string \<Rightarrow> param list \<Rightarrow> type_expr \<Rightarrow> span \<Rightarrow> block \<Rightarrow> 'a) \<Rightarrow> 'a parse" where
  "parse_signature K ts start f =
     pbind (eat_ident ts) (\<lambda>name. eat ts (Pt LParen) (pbind (parse_param_list K ts) (\<lambda>ps.
       eat ts (Pt RParen) (eat ts (Pt Arrow) (pbind (p_type K ts) (\<lambda>ret. prev_span ts (\<lambda>end_span.
         pbind (p_block K ts) (\<lambda>body. preturn (f name ps ret (merge start end_span) body)))))))))"

definition parse_rpc_like ::
  "parsers \<Rightarrow> token list \<Rightarrow> span \<Rightarrow> token_kind \<Rightarrow> annotation list \<Rightarrow> string option \<Rightarrow> rpc_decl parse" where
  "parse_rpc_like K ts start kw anns doc =
     eat ts kw (parse_signature K ts start (\<lambda>name ps ret sp body.
       \<lparr>rpc_name = name, params = ps, return_type = ret, rpc_body = body, annotations = anns,
        rpc_doc = doc, rpc_span = sp\<rparr>))"

definition parse_fn_decl :: "parsers \<Rightarrow> token list \<Rightarrow> fn_decl parse" where
  "parse_fn_decl K ts =
     spanning ts (\<lambda>start. eat ts (Kw KFn) (parse_signature K ts start (\<lambda>name ps ret sp body.
       \<lparr>fn_name = name, fn_params = ps, fn_return = ret, fn_body = body, fn_span = sp\<rparr>)))"

definition parse_member :: "parsers \<Rightarrow> token list \<Rightarrow> member parse" where
  "parse_member K ts =
     spanning ts (\<lambda>start. leading ts (\<lambda>doc. pbind (parse_optional_annotation K ts) (\<lambda>anns.
       peeking ts (\<lambda>c.
         case c of
           Kw KRpc \<Rightarrow> pbind (parse_rpc_like K ts start (Kw KRpc) anns doc) (\<lambda>r. preturn (Rpc r))
         | Kw KStream \<Rightarrow> pbind (parse_rpc_like K ts start (Kw KStream) anns doc) (\<lambda>r. preturn (Stream r))
         | _ \<Rightarrow> pfail ts WantMember))))"

definition parse_service_decl :: "parsers \<Rightarrow> token list \<Rightarrow> service_decl parse" where
  "parse_service_decl K ts =
     spanning ts (\<lambda>start. eat ts (Kw KService) (pbind (eat_ident ts) (\<lambda>name. eat ts (Pt LBrace)
       (pbind
         (ploop (length ts) (\<lambda>ms. peeking ts (\<lambda>c.
            if c \<noteq> Pt RBrace then pbind (parse_member K ts) (\<lambda>m. again (ms @ [m])) else stop ms)) [])
         (\<lambda>ms. eat ts (Pt RBrace) (prev_span ts (\<lambda>end_span.
           preturn \<lparr>service_name = name, members = ms, service_span = merge start end_span\<rparr>)))))))"

section \<open>Other items\<close>

definition parse_db_decl :: "parsers \<Rightarrow> token list \<Rightarrow> db_decl parse" where
  "parse_db_decl K ts =
     spanning ts (\<lambda>start. advancing ts (eat ts (Pt LBrace) (pbind (parse_field_list K ts) (\<lambda>fs.
       eat ts (Pt RBrace) (prev_span ts (\<lambda>end_span.
         preturn \<lparr>collections = fs, db_span = merge start end_span\<rparr>))))))"

definition parse_ai_model :: "token list \<Rightarrow> ai_model parse" where
  "parse_ai_model ts =
     spanning ts (\<lambda>start. pbind (eat_ident ts) (\<lambda>alias_name. eat ts (Pt Colon) (peeking ts (\<lambda>c.
       if is_str c then
         pbind (eat_string ts) (\<lambda>model. prev_span ts (\<lambda>end_span.
           preturn \<lparr>model_alias = alias_name, model_spec = model, model_span = merge start end_span\<rparr>))
       else pfail ts (WantModel alias_name)))))"

definition parse_ai_decl :: "token list \<Rightarrow> ai_decl parse" where
  "parse_ai_decl ts =
     spanning ts (\<lambda>start. advancing ts (eat ts (Pt LBrace)
       (pbind
         (ploop (length ts) (\<lambda>ms. peeking ts (\<lambda>c.
            if c = Pt RBrace then stop ms
            else pbind (parse_ai_model ts) (\<lambda>m. if_token ts (Pt Comma) (again (ms @ [m])) (stop (ms @ [m]))))) [])
         (\<lambda>ms. eat ts (Pt RBrace) (prev_span ts (\<lambda>end_span.
           preturn \<lparr>models = ms, ai_span = merge start end_span\<rparr>))))))"

definition parse_import_decl :: "token list \<Rightarrow> import_decl parse" where
  "parse_import_decl ts =
     spanning ts (\<lambda>start. eat ts (Kw KImport)
       (let finish = (\<lambda>names. pbind (eat_string ts) (\<lambda>from_path. prev_span ts (\<lambda>end_span. eat ts (Pt Semi)
              (preturn \<lparr>import_names = names, import_from = from_path, import_span = merge start end_span\<rparr>))))
        in peeking ts (\<lambda>c.
             if is_str c then finish []
             else eat ts (Pt LBrace) (pbind (eat_idents ts) (\<lambda>names.
               eat ts (Pt RBrace) (eat ts (Kw KFrom) (finish names)))))))"

definition parse_type_decl :: "parsers \<Rightarrow> token list \<Rightarrow> span \<Rightarrow> type_annotation list \<Rightarrow> type_decl parse" where
  "parse_type_decl K ts start anns =
     eat ts (Kw KType) (pbind (eat_ident ts) (\<lambda>name. pbind (parse_type_params ts) (\<lambda>ps.
       eat ts (Pt Equals) (pbind (p_type K ts) (\<lambda>t. prev_span ts (\<lambda>end_span.
         let d = \<lparr>type_name = name, type_params = ps, type_ty = t, type_annotations = anns,
                  type_span = merge start end_span\<rparr>
         in if_token ts (Pt Semi) (preturn d) (preturn d)))))))"

definition parse_variant :: "parsers \<Rightarrow> token list \<Rightarrow> enum_variant parse" where
  "parse_variant K ts =
     pbind (eat_ident ts) (\<lambda>name.
       if_token ts (Pt LBrace)
         (pbind (parse_field_list K ts) (\<lambda>fs. eat ts (Pt RBrace)
           (preturn \<lparr>variant_name = name, variant_fields = Some fs\<rparr>)))
         (preturn \<lparr>variant_name = name, variant_fields = None\<rparr>))"

definition parse_enum_decl :: "parsers \<Rightarrow> token list \<Rightarrow> enum_decl parse" where
  "parse_enum_decl K ts =
     spanning ts (\<lambda>start. eat ts (Kw KEnum) (pbind (eat_ident ts) (\<lambda>name. pbind (parse_type_params ts) (\<lambda>ps.
       eat ts (Pt LBrace) (pbind (comma_list ts RBrace (parse_variant K ts)) (\<lambda>vs. eat ts (Pt RBrace)
         (prev_span ts (\<lambda>end_span. preturn
           \<lparr>enum_name = name, enum_params = ps, variants = vs, enum_span = merge start end_span\<rparr>))))))))"

definition parse_const_decl :: "parsers \<Rightarrow> token list \<Rightarrow> const_decl parse" where
  "parse_const_decl K ts =
     spanning ts (\<lambda>start. eat ts (Kw KConst) (pbind (eat_ident ts) (\<lambda>name. eat ts (Pt Colon)
       (pbind (p_type K ts) (\<lambda>t. eat ts (Pt Equals) (pbind (p_expr K ts False) (\<lambda>e. eat ts (Pt Semi)
         (preturn \<lparr>const_name = name, const_ty = t, const_value = e,
            const_span = merge start (span_of e)\<rparr>))))))))"

definition parse_test_decl :: "parsers \<Rightarrow> token list \<Rightarrow> test_decl parse" where
  "parse_test_decl K ts =
     spanning ts (\<lambda>start. eat ts (Kw KTest) (spanning ts (\<lambda>name_span.
       pbind
         (peeking ts (\<lambda>c.
            case c of
              TStr s \<Rightarrow> advancing ts (preturn s)
            | TIdent s \<Rightarrow> advancing ts (preturn s)
            | _ \<Rightarrow> pfail ts WantTestName))
         (\<lambda>name. pbind (p_block K ts) (\<lambda>body.
           preturn \<lparr>test_name = name, test_name_span = Some name_span, test_body = body,
             test_span = merge start (block_span body)\<rparr>)))))"

section \<open>Programs\<close>

definition parse_item :: "parsers \<Rightarrow> token list \<Rightarrow> item parse" where
  "parse_item K ts =
     spanning ts (\<lambda>start. peeking ts (\<lambda>c. peeking_at ts 1 (\<lambda>c1.
           if c = Pt At then
             pbind (parse_type_annotations K ts) (\<lambda>anns. peeking ts (\<lambda>d.
               if d \<noteq> Kw KType then pfail ts WantAnnotatedType
               else pbind (parse_type_decl K ts start anns) (\<lambda>d. preturn (TypeItem d))))
           else if c = Kw KImport then pbind (parse_import_decl ts) (\<lambda>d. preturn (Import d))
           else if c = Kw KType then pbind (parse_type_decl K ts start []) (\<lambda>d. preturn (TypeItem d))
           else if c = Kw KEnum then pbind (parse_enum_decl K ts) (\<lambda>d. preturn (EnumItem d))
           else if c = Kw KService then pbind (parse_service_decl K ts) (\<lambda>d. preturn (ServiceItem d))
           else if c = Kw KConst then pbind (parse_const_decl K ts) (\<lambda>d. preturn (Const d))
           else if c = Kw KFn then pbind (parse_fn_decl K ts) (\<lambda>d. preturn (Fn d))
           else if c = Kw KTest then pbind (parse_test_decl K ts) (\<lambda>d. preturn (Test d))
           else if c = TIdent ''db'' \<and> c1 = Pt LBrace then pbind (parse_db_decl K ts) (\<lambda>d. preturn (DbItem d))
           else if c = TIdent ''ai'' \<and> c1 = Pt LBrace then pbind (parse_ai_decl ts) (\<lambda>d. preturn (AiItem d))
           else pfail ts WantItem)))"

definition at_item_start :: "token list \<Rightarrow> nat \<Rightarrow> bool" where
  "at_item_start ts p \<longleftrightarrow>
     tok_at ts p \<in> Kw ` {KImport, KType, KEnum, KService, KConst, KFn, KTest} \<or>
     tok_at ts p = TIdent ''db'' \<and> tok_at ts (p + 1) = Pt LBrace"

primrec synchronize :: "nat \<Rightarrow> token list \<Rightarrow> nat \<Rightarrow> nat option" where
  "synchronize 0 ts p = None"
| "synchronize (Suc n) ts p =
     (if tok_at ts p = Eof \<or> at_item_start ts p then Some p else synchronize n ts (next_token_at ts p))"

definition max_errors :: nat where "max_errors = 100"

primrec parse_program ::
  "nat \<Rightarrow> parsers \<Rightarrow> token list \<Rightarrow> item list \<Rightarrow> parse_error list \<Rightarrow> nat \<Rightarrow> (item list \<times> parse_error list) option" where
  "parse_program 0 K ts xs errs p = None"
| "parse_program (Suc n) K ts xs errs p =
     (if tok_at ts p = Eof \<or> max_errors \<le> length errs then Some (xs, errs)
      else case parse_item K ts p of
        None \<Rightarrow> None
      | Some (Inr x, q) \<Rightarrow> parse_program n K ts (xs @ [x]) errs q
      | Some (Inl e, q) \<Rightarrow>
          (case synchronize (length ts) ts q of
             None \<Rightarrow> None
           | Some q' \<Rightarrow> parse_program n K ts xs (errs @ [e]) q'))"

text \<open>How deep the calls can go: one more than the tokens, those of interpolations included.\<close>

fun token_weight :: "token \<Rightarrow> nat" and part_weight :: "html_part \<Rightarrow> nat" where
  "token_weight (Token k s d) =
     (case k of THtmlLit parts \<Rightarrow> Suc (sum_list (map part_weight parts)) | _ \<Rightarrow> 1)"
| "part_weight (HtmlText s) = 1"
| "part_weight (HtmlExpr ts) = Suc (Suc (sum_list (map token_weight ts)))"

definition weight :: "token list \<Rightarrow> nat \<Rightarrow> nat" where
  "weight ts p = sum_list (map token_weight (drop p ts))"

definition parse_tokens ::
  "(int \<Rightarrow> 64 word) \<Rightarrow> (string \<Rightarrow> 64 word) \<Rightarrow> token list \<Rightarrow> (parse_error list + program) option" where
  "parse_tokens num flt ts =
     (case parse_program (Suc (length ts)) (parsers_of num flt (Suc (weight ts 0))) ts [] [] 0 of
        None \<Rightarrow> None
      | Some (xs, errs) \<Rightarrow> Some (if length errs = 0 then Inr \<lparr>items = xs\<rparr> else Inl errs))"

end
