(* ===== verification/LinkGrammar.thy ===== *)
theory LinkGrammar
  imports ParseItems
begin

text \<open>
  The grammar of the language (\<open>GRAMMAR.md\<close>, section 2) over the positions of a token list, with
  the tree and the span that each phrase stands for: \<open>type_at num flt ts p t q\<close> says that the
  tokens from \<open>p\<close> up to \<open>q\<close> spell the type \<open>t\<close>. There is no parser state in it. The operators are
  two rules over the table of their levels.
\<close>

section \<open>Lists of phrases\<close>

type_synonym 'a phrase = "nat \<Rightarrow> 'a \<Rightarrow> nat \<Rightarrow> bool"

text \<open>One phrase or more, with a separator between them.\<close>

inductive sep_at :: "token list \<Rightarrow> punct \<Rightarrow> 'a phrase \<Rightarrow> nat \<Rightarrow> 'a list \<Rightarrow> nat \<Rightarrow> bool" for ts sep R where
  one: "R p x q \<Longrightarrow> sep_at ts sep R p [x] q"
| more: "sep_at ts sep R p xs q \<Longrightarrow> tok_at ts q = Pt sep \<Longrightarrow> R (Suc q) x r \<Longrightarrow> sep_at ts sep R p (xs @ [x]) r"

text \<open>A comma may stand before the closing token.\<close>

inductive trailed_at :: "token list \<Rightarrow> punct \<Rightarrow> 'a phrase \<Rightarrow> nat \<Rightarrow> 'a list \<Rightarrow> bool \<Rightarrow> nat \<Rightarrow> bool" for ts close R where
  plain: "sep_at ts Comma R p xs q \<Longrightarrow> trailed_at ts close R p xs (1 < length xs) q"
| trail: "sep_at ts Comma R p xs q \<Longrightarrow> tok_at ts q = Pt Comma \<Longrightarrow> tok_at ts (Suc q) = Pt close \<Longrightarrow>
    trailed_at ts close R p xs True (Suc q)"

inductive list_at :: "token list \<Rightarrow> punct \<Rightarrow> 'a phrase \<Rightarrow> nat \<Rightarrow> 'a list \<Rightarrow> nat \<Rightarrow> bool" for ts close R where
  none: "tok_at ts p = Pt close \<Longrightarrow> list_at ts close R p [] p"
| some: "trailed_at ts close R p xs comma q \<Longrightarrow> list_at ts close R p xs q"

text \<open>Phrases one after the other.\<close>

inductive seq_at :: "'a phrase \<Rightarrow> nat \<Rightarrow> 'a list \<Rightarrow> nat \<Rightarrow> bool" for R where
  none: "seq_at R p [] p"
| more: "seq_at R p xs q \<Longrightarrow> R q x r \<Longrightarrow> seq_at R p (xs @ [x]) r"

lemma sep_at_mono [mono]:
  assumes "\<And>p x q. R p x q \<longrightarrow> S p x q"
  shows "sep_at ts sep R p xs q \<longrightarrow> sep_at ts sep S p xs q"
proof
  assume "sep_at ts sep R p xs q"
  then show "sep_at ts sep S p xs q"
    by induction (use assms in \<open>auto intro: sep_at.intros\<close>)
qed

lemma trailed_at_mono [mono]:
  assumes "\<And>p x q. R p x q \<longrightarrow> S p x q"
  shows "trailed_at ts close R p xs c q \<longrightarrow> trailed_at ts close S p xs c q"
proof
  assume "trailed_at ts close R p xs c q"
  then show "trailed_at ts close S p xs c q"
    by cases (auto intro: trailed_at.plain trailed_at.trail sep_at_mono [OF assms, THEN mp] simp del: One_nat_def)
qed

lemma list_at_mono [mono]:
  assumes "\<And>p x q. R p x q \<longrightarrow> S p x q"
  shows "list_at ts close R p xs q \<longrightarrow> list_at ts close S p xs q"
proof
  assume "list_at ts close R p xs q"
  then show "list_at ts close S p xs q"
    by cases (auto intro: list_at.intros trailed_at_mono [OF assms, THEN mp])
qed

lemma seq_at_mono [mono]:
  assumes "\<And>p x q. R p x q \<longrightarrow> S p x q"
  shows "seq_at R p xs q \<longrightarrow> seq_at S p xs q"
proof
  assume "seq_at R p xs q"
  then show "seq_at S p xs q"
    by induction (use assms in \<open>auto intro: seq_at.intros\<close>)
qed

section \<open>Words\<close>

definition over :: "token list \<Rightarrow> nat \<Rightarrow> nat \<Rightarrow> span" where
  "over ts p q = merge (span_at ts p) (span_at ts (q - 1))"

text \<open>A name of a field may be a keyword.\<close>

definition field_name_at :: "token list \<Rightarrow> nat \<Rightarrow> string \<Rightarrow> bool" where
  "field_name_at ts p name \<longleftrightarrow> tok_at ts p = TIdent name \<or> keyword_text (tok_at ts p) = Some name"

inductive number_at :: "(int \<Rightarrow> 64 word) \<Rightarrow> (string \<Rightarrow> 64 word) \<Rightarrow> token list \<Rightarrow> nat \<Rightarrow> 64 word \<Rightarrow> nat \<Rightarrow> bool"
  for num flt ts where
  "tok_at ts p = TInt n \<Longrightarrow> number_at num flt ts p (num n) (Suc p)"
| "tok_at ts p = TFloat s \<Longrightarrow> number_at num flt ts p (flt s) (Suc p)"
| "tok_at ts p = Pt Minus \<Longrightarrow> tok_at ts (Suc p) = TInt n \<Longrightarrow> number_at num flt ts p (f64_neg (num n)) (Suc (Suc p))"
| "tok_at ts p = Pt Minus \<Longrightarrow> tok_at ts (Suc p) = TFloat s \<Longrightarrow> number_at num flt ts p (f64_neg (flt s)) (Suc (Suc p))"

text \<open>The tokens from a position on, up to another, are these.\<close>

definition words_at :: "token list \<Rightarrow> nat \<Rightarrow> token_kind list \<Rightarrow> nat \<Rightarrow> bool" where
  "words_at ts p ks q \<longleftrightarrow> q = p + length ks \<and> (\<forall>i < length ks. tok_at ts (p + i) = ks ! i)"

section \<open>Annotations of a field\<close>

definition check_name :: "string \<Rightarrow> (64 word \<Rightarrow> field_check) option" where
  "check_name s = map_of
     [(''min'', CheckMin), (''max'', CheckMax), (''minLength'', CheckMinLength), (''maxLength'', CheckMaxLength)] s"

definition on_delete_text :: "on_delete \<Rightarrow> string" where
  "on_delete_text d = (case d of Cascade \<Rightarrow> ''Cascade'' | Restrict \<Rightarrow> ''Restrict'' | SetNull \<Rightarrow> ''SetNull'')"

text \<open>How an annotation is written, but those with numbers.\<close>

fun annotation_words :: "field_annotation \<Rightarrow> token_kind list" where
  "annotation_words (FieldDeprecated s) = [TIdent ''deprecated'', Pt LParen, TStr s, Pt RParen]"
| "annotation_words (Validate Email) = [TIdent ''validate'', Pt LParen, TIdent ''email'', Pt RParen]"
| "annotation_words (Validate (Regex s)) =
     [TIdent ''validate'', Pt LParen, TIdent ''regex'', Pt Comma, TStr s, Pt RParen]"
| "annotation_words AutoUpdate = [TIdent ''autoUpdate'']"
| "annotation_words SoftDelete = [TIdent ''softDelete'']"
| "annotation_words (FieldIndex u) = [TIdent (if u then ''unique'' else ''index'')]"
| "annotation_words (FieldCheck c) = []"
| "annotation_words Encrypted = [TIdent ''encrypted'']"
| "annotation_words Hidden = [TIdent ''hidden'']"
| "annotation_words NaturalKey = [TIdent ''naturalKey'']"
| "annotation_words (Column s) = [TIdent ''column'', Pt LParen, TStr s, Pt RParen]"
| "annotation_words (Ref t None) = [TIdent ''ref'', Pt LParen, TIdent t, Pt RParen]"
| "annotation_words (Ref t (Some d)) =
     [TIdent ''ref'', Pt LParen, TIdent t, Pt Comma, TIdent ''onDelete'', Pt Colon,
      TIdent (on_delete_text d), Pt RParen]"
| "annotation_words (Tenant None) = [TIdent ''tenant'']"
| "annotation_words (Tenant (Some s)) =
     [TIdent ''tenant'', Pt LParen, TIdent ''claim'', Pt Colon, TStr s, Pt RParen]"
| "annotation_words Searchable = [TIdent ''searchable'']"

inductive annotation_at :: "(int \<Rightarrow> 64 word) \<Rightarrow> (string \<Rightarrow> 64 word) \<Rightarrow> token list \<Rightarrow> field_annotation phrase"
  for num flt ts where
  plain: "tok_at ts p = Pt At \<Longrightarrow> words_at ts (Suc p) (annotation_words a) q \<Longrightarrow> annotation_words a \<noteq> [] \<Longrightarrow>
    annotation_at num flt ts p a q"
| check: "words_at ts p [Pt At, TIdent ''check'', Pt LParen, TIdent name, Pt Comma] q \<Longrightarrow>
    check_name name = Some c \<Longrightarrow> number_at num flt ts q w r \<Longrightarrow> tok_at ts r = Pt RParen \<Longrightarrow>
    annotation_at num flt ts p (FieldCheck (c w)) (Suc r)"
| range: "words_at ts p [Pt At, TIdent ''check'', Pt LParen, TIdent ''range'', Pt Comma] q \<Longrightarrow>
    number_at num flt ts q lo r \<Longrightarrow> tok_at ts r = Pt Comma \<Longrightarrow> number_at num flt ts (Suc r) hi s \<Longrightarrow>
    tok_at ts s = Pt RParen \<Longrightarrow> annotation_at num flt ts p (FieldCheck (CheckRange lo hi)) (Suc s)"

section \<open>Operators\<close>

fun op_token :: "binary_op \<Rightarrow> punct" where
  "op_token OpCoalesce = QuestionQuestion"
| "op_token OpOr = PipePipe"
| "op_token OpAnd = AmpAmp"
| "op_token OpEq = EqEq"
| "op_token OpNotEq = NotEq"
| "op_token OpLt = Lt"
| "op_token OpLtEq = LtEq"
| "op_token OpGt = Gt"
| "op_token OpGtEq = GtEq"
| "op_token OpAdd = Plus"
| "op_token OpSub = Minus"
| "op_token OpMul = Star"
| "op_token OpDiv = Slash"
| "op_token OpRem = Percent"

text \<open>From the loosest to the tightest; the level of operands without an operator is 7.\<close>

fun level :: "binary_op \<Rightarrow> nat" where
  "level OpCoalesce = 0"
| "level OpOr = 1"
| "level OpAnd = 2"
| "level OpEq = 3"
| "level OpNotEq = 3"
| "level OpLt = 4"
| "level OpLtEq = 4"
| "level OpGt = 4"
| "level OpGtEq = 4"
| "level OpAdd = 5"
| "level OpSub = 5"
| "level OpMul = 6"
| "level OpDiv = 6"
| "level OpRem = 6"

section \<open>The grammar\<close>

text \<open>
  The flag of an expression says that a structure cannot stand open in it, as before the brace of
  a \<open>match\<close>, an \<open>if\<close> or a loop.
\<close>

inductive
  type_at :: "(int \<Rightarrow> 64 word) \<Rightarrow> (string \<Rightarrow> 64 word) \<Rightarrow> token list \<Rightarrow> type_expr phrase" and
  postfix_type_at :: "(int \<Rightarrow> 64 word) \<Rightarrow> (string \<Rightarrow> 64 word) \<Rightarrow> token list \<Rightarrow> type_expr phrase" and
  primary_type_at :: "(int \<Rightarrow> 64 word) \<Rightarrow> (string \<Rightarrow> 64 word) \<Rightarrow> token list \<Rightarrow> type_expr phrase" and
  field_at :: "(int \<Rightarrow> 64 word) \<Rightarrow> (string \<Rightarrow> 64 word) \<Rightarrow> token list \<Rightarrow> field phrase" and
  pattern_at :: "(int \<Rightarrow> 64 word) \<Rightarrow> (string \<Rightarrow> 64 word) \<Rightarrow> token list \<Rightarrow> sexpr pattern phrase" and
  pattern_atom_at :: "(int \<Rightarrow> 64 word) \<Rightarrow> (string \<Rightarrow> 64 word) \<Rightarrow> token list \<Rightarrow> sexpr pattern phrase" and
  field_pattern_at :: "(int \<Rightarrow> 64 word) \<Rightarrow> (string \<Rightarrow> 64 word) \<Rightarrow> token list \<Rightarrow> sexpr field_pattern phrase" and
  expr_at :: "(int \<Rightarrow> 64 word) \<Rightarrow> (string \<Rightarrow> 64 word) \<Rightarrow> token list \<Rightarrow> bool \<Rightarrow> sexpr phrase" and
  operand_at :: "(int \<Rightarrow> 64 word) \<Rightarrow> (string \<Rightarrow> 64 word) \<Rightarrow> token list \<Rightarrow> bool \<Rightarrow> nat \<Rightarrow> sexpr phrase" and
  postfix_at :: "(int \<Rightarrow> 64 word) \<Rightarrow> (string \<Rightarrow> 64 word) \<Rightarrow> token list \<Rightarrow> bool \<Rightarrow> sexpr phrase" and
  primary_at :: "(int \<Rightarrow> 64 word) \<Rightarrow> (string \<Rightarrow> 64 word) \<Rightarrow> token list \<Rightarrow> bool \<Rightarrow> sexpr phrase" and
  init_at :: "(int \<Rightarrow> 64 word) \<Rightarrow> (string \<Rightarrow> 64 word) \<Rightarrow> token list \<Rightarrow> (string \<times> sexpr) phrase" and
  entry_at :: "(int \<Rightarrow> 64 word) \<Rightarrow> (string \<Rightarrow> 64 word) \<Rightarrow> token list \<Rightarrow> (string \<times> sexpr) phrase" and
  closure_param_at :: "(int \<Rightarrow> 64 word) \<Rightarrow> (string \<Rightarrow> 64 word) \<Rightarrow> token list \<Rightarrow> sexpr closure_param phrase" and
  html_part_at :: "(int \<Rightarrow> 64 word) \<Rightarrow> (string \<Rightarrow> 64 word) \<Rightarrow> span \<Rightarrow> html_part \<Rightarrow> sexpr ast_html_part \<Rightarrow> bool" and
  arm_at :: "(int \<Rightarrow> 64 word) \<Rightarrow> (string \<Rightarrow> 64 word) \<Rightarrow> token list \<Rightarrow> (sexpr, block) match_arm phrase" and
  guard_at :: "(int \<Rightarrow> 64 word) \<Rightarrow> (string \<Rightarrow> 64 word) \<Rightarrow> token list \<Rightarrow> sexpr option phrase" and
  else_at :: "(int \<Rightarrow> 64 word) \<Rightarrow> (string \<Rightarrow> 64 word) \<Rightarrow> token list \<Rightarrow> block phrase" and
  block_at :: "(int \<Rightarrow> 64 word) \<Rightarrow> (string \<Rightarrow> 64 word) \<Rightarrow> token list \<Rightarrow> block phrase" and
  stmt_at :: "(int \<Rightarrow> 64 word) \<Rightarrow> (string \<Rightarrow> 64 word) \<Rightarrow> token list \<Rightarrow> (stmt \<times> span) phrase" and
  tail_at :: "(int \<Rightarrow> 64 word) \<Rightarrow> (string \<Rightarrow> 64 word) \<Rightarrow> token list \<Rightarrow> sexpr option phrase"
  for num flt where
  type_one: "postfix_type_at num flt ts p t q \<Longrightarrow> type_at num flt ts p t q"
| type_union: "sep_at ts Pipe (postfix_type_at num flt ts) p us q \<Longrightarrow> 1 < length us \<Longrightarrow>
    type_at num flt ts p (UnionT us) q"
| postfix_type: "primary_type_at num flt ts p t q \<Longrightarrow> postfix_type_at num flt ts p t q"
| optional: "postfix_type_at num flt ts p t q \<Longrightarrow> tok_at ts q = Pt Question \<Longrightarrow>
    postfix_type_at num flt ts p (OptionalT t) (Suc q)"
| list_of: "postfix_type_at num flt ts p t q \<Longrightarrow> words_at ts q [Pt LBracket, Pt RBracket] r \<Longrightarrow>
    postfix_type_at num flt ts p (ListT t) r"
| named: "tok_at ts p = TIdent name \<Longrightarrow> primary_type_at num flt ts p (Named name [] (span_at ts p)) (Suc p)"
| generic: "words_at ts p [TIdent name, Pt Lt] q \<Longrightarrow> sep_at ts Comma (type_at num flt ts) q args r \<Longrightarrow>
    tok_at ts r = Pt Gt \<Longrightarrow> primary_type_at num flt ts p (Named name args (span_at ts p)) (Suc r)"
| vector: "words_at ts p [TIdent ''Vector'', Pt Lt, TInt n, Pt Gt] q \<Longrightarrow>
    primary_type_at num flt ts p (Named ''Vector'' [Named (show_int n) [] (span_at ts (p + 2))] (span_at ts p)) q"
| struct_type: "tok_at ts p = Pt LBrace \<Longrightarrow> list_at ts RBrace (field_at num flt ts) (Suc p) fs q \<Longrightarrow>
    tok_at ts q = Pt RBrace \<Longrightarrow> primary_type_at num flt ts p (StructT fs) (Suc q)"
| group_type: "tok_at ts p = Pt LParen \<Longrightarrow> type_at num flt ts (Suc p) t q \<Longrightarrow> tok_at ts q = Pt RParen \<Longrightarrow>
    primary_type_at num flt ts p t (Suc q)"
| tuple_type: "tok_at ts p = Pt LParen \<Longrightarrow> trailed_at ts RParen (type_at num flt ts) (Suc p) us True q \<Longrightarrow>
    tok_at ts q = Pt RParen \<Longrightarrow> primary_type_at num flt ts p (TupleT us) (Suc q)"
| function_type: "tok_at ts p = Pt LParen \<Longrightarrow> list_at ts RParen (type_at num flt ts) (Suc p) us q \<Longrightarrow>
    words_at ts q [Pt RParen, Pt Arrow] r \<Longrightarrow> type_at num flt ts r t s \<Longrightarrow>
    primary_type_at num flt ts p (FunctionT us t) s"
| field: "seq_at (annotation_at num flt ts) p anns q \<Longrightarrow> field_name_at ts q name \<Longrightarrow>
    words_at ts (Suc q) (if opt then [Pt Question, Pt Colon] else [Pt Colon]) r \<Longrightarrow>
    type_at num flt ts r t s \<Longrightarrow> field_at num flt ts p (Field name opt t (span_at ts q) anns None) s"
| field_default: "field_at num flt ts p (Field name opt t lit_span anns None) q \<Longrightarrow> tok_at ts q = Pt Equals \<Longrightarrow>
    expr_at num flt ts False (Suc q) e r \<Longrightarrow> field_at num flt ts p (Field name opt t lit_span anns (Some e)) r"
| pattern_one: "pattern_atom_at num flt ts p pat q \<Longrightarrow> pattern_at num flt ts p pat q"
| pattern_or: "sep_at ts Pipe (pattern_atom_at num flt ts) p pats q \<Longrightarrow> 1 < length pats \<Longrightarrow>
    pattern_at num flt ts p (OrPat pats) q"
| pat_int: "tok_at ts p = TInt n \<Longrightarrow> pattern_atom_at num flt ts p (LitPat (LitInt n)) (Suc p)"
| pat_minus: "words_at ts p [Pt Minus, TInt n] q \<Longrightarrow> pattern_atom_at num flt ts p (LitPat (LitInt (- n))) q"
| pat_str: "tok_at ts p = TStr s \<Longrightarrow> pattern_atom_at num flt ts p (LitPat (LitStr s)) (Suc p)"
| pat_bool: "tok_at ts p = Kw (if b then KTrue else KFalse) \<Longrightarrow>
    pattern_atom_at num flt ts p (LitPat (LitBool b)) (Suc p)"
| pat_null: "tok_at ts p = Kw KNull \<Longrightarrow> pattern_atom_at num flt ts p (LitPat LitNull) (Suc p)"
| pat_bind: "tok_at ts p = TIdent name \<Longrightarrow> pattern_atom_at num flt ts p (BindPat name) (Suc p)"
| pat_type: "words_at ts p [TIdent name, Pt Colon] q \<Longrightarrow> postfix_type_at num flt ts q t r \<Longrightarrow>
    pattern_atom_at num flt ts p (TypePat name t) r"
| pat_variant: "words_at ts p [TIdent name, Pt Dot, TIdent v] q \<Longrightarrow>
    pattern_atom_at num flt ts p (VariantPat name v None) q"
| pat_fields: "words_at ts p [TIdent name, Pt Dot, TIdent v, Pt LBrace] q \<Longrightarrow>
    list_at ts RBrace (field_pattern_at num flt ts) q fs r \<Longrightarrow> tok_at ts r = Pt RBrace \<Longrightarrow>
    pattern_atom_at num flt ts p (VariantPat name v (Some fs)) (Suc r)"
| field_pattern: "field_name_at ts p name \<Longrightarrow> tok_at ts (Suc p) = Pt Colon \<Longrightarrow>
    pattern_at num flt ts (Suc (Suc p)) pat q \<Longrightarrow> field_pattern_at num flt ts p (FieldPattern name pat) q"
| short_pattern: "field_name_at ts p name \<Longrightarrow>
    field_pattern_at num flt ts p (FieldPattern name (BindPat name)) (Suc p)"
| operators: "operand_at num flt ts b 0 p e q \<Longrightarrow> expr_at num flt ts b p e q"
| match: "tok_at ts p = Kw KMatch \<Longrightarrow> expr_at num flt ts True (Suc p) e q \<Longrightarrow> tok_at ts q = Pt LBrace \<Longrightarrow>
    seq_at (arm_at num flt ts) (Suc q) arms r \<Longrightarrow> tok_at ts r = Pt RBrace \<Longrightarrow>
    expr_at num flt ts b p (Sp (Match e arms) (over ts p (Suc r))) (Suc r)"
| if_else: "tok_at ts p = Kw KIf \<Longrightarrow> operand_at num flt ts True 0 (Suc p) c q \<Longrightarrow> block_at num flt ts q t r \<Longrightarrow>
    tok_at ts r = Kw KElse \<Longrightarrow> else_at num flt ts (Suc r) f s \<Longrightarrow>
    expr_at num flt ts b p (Sp (If c t f) (over ts p s)) s"
| transaction: "tok_at ts p = Kw KTransaction \<Longrightarrow> block_at num flt ts (Suc p) body q \<Longrightarrow>
    expr_at num flt ts b p (Sp (Transaction body) (over ts p q)) q"
| else_block: "block_at num flt ts p body q \<Longrightarrow> else_at num flt ts p body q"
| else_if: "tok_at ts p = Kw KIf \<Longrightarrow> expr_at num flt ts False p e q \<Longrightarrow>
    else_at num flt ts p (Block [] (Some e) (over ts p q)) q"
| binary: "operand_at num flt ts b (level op) p l q \<Longrightarrow> tok_at ts q = Pt (op_token op) \<Longrightarrow>
    operand_at num flt ts b (Suc (level op)) (Suc q) r s \<Longrightarrow>
    operand_at num flt ts b (level op) p (Sp (Binary op l r) (over ts p s)) s"
| tighter: "operand_at num flt ts b (Suc n) p e q \<Longrightarrow> operand_at num flt ts b n p e q"
| negation: "tok_at ts p = Pt (case op of OpNeg \<Rightarrow> Minus | OpNot \<Rightarrow> Bang) \<Longrightarrow>
    operand_at num flt ts b 7 (Suc p) e q \<Longrightarrow> operand_at num flt ts b 7 p (Sp (Unary op e) (over ts p q)) q"
| postfix: "postfix_at num flt ts b p e q \<Longrightarrow> operand_at num flt ts b 7 p e q"
| primary: "primary_at num flt ts b p e q \<Longrightarrow> postfix_at num flt ts b p e q"
| access: "postfix_at num flt ts b p e q \<Longrightarrow> tok_at ts q = Pt Dot \<Longrightarrow> field_name_at ts (Suc q) name \<Longrightarrow>
    postfix_at num flt ts b p (Sp (FieldAccess e name) (over ts p (Suc (Suc q)))) (Suc (Suc q))"
| tuple_index: "postfix_at num flt ts b p e q \<Longrightarrow> words_at ts q [Pt Dot, TInt (int n)] r \<Longrightarrow>
    postfix_at num flt ts b p (Sp (TupleIndex e n) (over ts p r)) r"
| call_none: "postfix_at num flt ts b p e q \<Longrightarrow> words_at ts q [Pt LParen, Pt RParen] r \<Longrightarrow>
    postfix_at num flt ts b p (Sp (Call e []) (over ts p r)) r"
| call: "postfix_at num flt ts b p e q \<Longrightarrow> tok_at ts q = Pt LParen \<Longrightarrow>
    sep_at ts Comma (expr_at num flt ts False) (Suc q) args r \<Longrightarrow> tok_at ts r = Pt RParen \<Longrightarrow>
    postfix_at num flt ts b p (Sp (Call e args) (over ts p (Suc r))) (Suc r)"
| index: "postfix_at num flt ts b p e q \<Longrightarrow> tok_at ts q = Pt LBracket \<Longrightarrow>
    expr_at num flt ts False (Suc q) i r \<Longrightarrow> tok_at ts r = Pt RBracket \<Longrightarrow>
    postfix_at num flt ts b p (Sp (Index e i) (over ts p (Suc r))) (Suc r)"
| int: "tok_at ts p = TInt n \<Longrightarrow> primary_at num flt ts b p (Sp (IntLit n) (over ts p (Suc p))) (Suc p)"
| float: "tok_at ts p = TFloat s \<Longrightarrow> primary_at num flt ts b p (Sp (FloatLit (flt s)) (over ts p (Suc p))) (Suc p)"
| str: "tok_at ts p = TStr s \<Longrightarrow> primary_at num flt ts b p (Sp (Str s) (over ts p (Suc p))) (Suc p)"
| bool: "tok_at ts p = Kw (if v then KTrue else KFalse) \<Longrightarrow>
    primary_at num flt ts b p (Sp (BoolLit v) (over ts p (Suc p))) (Suc p)"
| null: "tok_at ts p = Kw KNull \<Longrightarrow> primary_at num flt ts b p (Sp NullLit (over ts p (Suc p))) (Suc p)"
| html: "tok_at ts p = THtmlLit parts \<Longrightarrow> list_all2 (html_part_at num flt (span_at ts p)) parts xs \<Longrightarrow>
    primary_at num flt ts b p (Sp (HtmlLit xs) (over ts p (Suc p))) (Suc p)"
| array: "tok_at ts p = Pt LBracket \<Longrightarrow> list_at ts RBracket (expr_at num flt ts False) (Suc p) es q \<Longrightarrow>
    tok_at ts q = Pt RBracket \<Longrightarrow> primary_at num flt ts b p (Sp (ArrayLit es) (over ts p (Suc q))) (Suc q)"
| paren: "tok_at ts p = Pt LParen \<Longrightarrow> expr_at num flt ts False (Suc p) e q \<Longrightarrow> tok_at ts q = Pt RParen \<Longrightarrow>
    primary_at num flt ts b p (Sp (Paren e) (over ts p (Suc q))) (Suc q)"
| tuple: "tok_at ts p = Pt LParen \<Longrightarrow> trailed_at ts RParen (expr_at num flt ts False) (Suc p) es True q \<Longrightarrow>
    tok_at ts q = Pt RParen \<Longrightarrow> primary_at num flt ts b p (Sp (TupleLit es) (over ts p (Suc q))) (Suc q)"
| ident: "tok_at ts p = TIdent name \<Longrightarrow> primary_at num flt ts b p (Sp (Ident name) (over ts p (Suc p))) (Suc p)"
| struct_lit: "words_at ts p ([TIdent name] @ (case variant of None \<Rightarrow> [] | Some v \<Rightarrow> [Pt Dot, TIdent v]) @ [Pt LBrace]) q \<Longrightarrow>
    list_at ts RBrace (init_at num flt ts) q fs r \<Longrightarrow> tok_at ts r = Pt RBrace \<Longrightarrow>
    primary_at num flt ts False p (Sp (StructLit name variant fs) (over ts p (Suc r))) (Suc r)"
| anonymous: "tok_at ts p = Pt LBrace \<Longrightarrow> list_at ts RBrace (init_at num flt ts) (Suc p) fs r \<Longrightarrow>
    tok_at ts r = Pt RBrace \<Longrightarrow> primary_at num flt ts False p (Sp (StructLit [] None fs) (over ts p (Suc r))) (Suc r)"
| map_lit: "tok_at ts p = Pt LBrace \<Longrightarrow> trailed_at ts RBrace (entry_at num flt ts) (Suc p) fs comma r \<Longrightarrow>
    tok_at ts r = Pt RBrace \<Longrightarrow> primary_at num flt ts False p (Sp (MapLit fs) (over ts p (Suc r))) (Suc r)"
| closure: "tok_at ts p = Pt Pipe \<Longrightarrow> trailed_at ts Pipe (closure_param_at num flt ts) (Suc p) ps comma q \<Longrightarrow>
    tok_at ts q = Pt Pipe \<Longrightarrow> block_at num flt ts (Suc q) body r \<Longrightarrow>
    primary_at num flt ts b p (Sp (Closure ps body) (over ts p r)) r"
| init: "field_name_at ts p name \<Longrightarrow> tok_at ts (Suc p) = Pt Colon \<Longrightarrow>
    expr_at num flt ts False (Suc (Suc p)) e q \<Longrightarrow> init_at num flt ts p (name, e) q"
| entry: "words_at ts p [TStr s, Pt Colon] q \<Longrightarrow> expr_at num flt ts False q e r \<Longrightarrow> entry_at num flt ts p (s, e) r"
| param: "tok_at ts p = TIdent name \<Longrightarrow> closure_param_at num flt ts p (ClosureParam name None) (Suc p)"
| typed_param: "words_at ts p [TIdent name, Pt Colon] q \<Longrightarrow> postfix_type_at num flt ts q t r \<Longrightarrow>
    closure_param_at num flt ts p (ClosureParam name (Some t)) r"
| html_text: "html_part_at num flt lit_span (HtmlText s) (HText s)"
| html_expr: "expr_at num flt (us @ [mk_token Eof lit_span]) False 0 e q \<Longrightarrow> tok_at (us @ [mk_token Eof lit_span]) q = Eof \<Longrightarrow>
    html_part_at num flt lit_span (HtmlExpr us) (HExpr e)"
| no_guard: "guard_at num flt ts p None p"
| guard: "tok_at ts p = Kw KIf \<Longrightarrow> operand_at num flt ts True 0 (Suc p) e q \<Longrightarrow> guard_at num flt ts p (Some e) q"
| arm_block: "pattern_at num flt ts p pat q \<Longrightarrow> guard_at num flt ts q g r \<Longrightarrow> tok_at ts r = Pt FatArrow \<Longrightarrow>
    block_at num flt ts (Suc r) body s \<Longrightarrow> words_at ts s (if comma then [Pt Comma] else []) s' \<Longrightarrow>
    arm_at num flt ts p (MatchArm pat g (ArmBlock body) (over ts p s)) s'"
| arm_expr: "pattern_at num flt ts p pat q \<Longrightarrow> guard_at num flt ts q g r \<Longrightarrow> tok_at ts r = Pt FatArrow \<Longrightarrow>
    expr_at num flt ts False (Suc r) e s \<Longrightarrow> words_at ts s (if comma then [Pt Comma] else []) s' \<Longrightarrow>
    comma \<or> tok_at ts s = Pt RBrace \<Longrightarrow> arm_at num flt ts p (MatchArm pat g (ArmExpr e) (over ts p s)) s'"
| block: "tok_at ts p = Pt LBrace \<Longrightarrow> seq_at (stmt_at num flt ts) (Suc p) ss q \<Longrightarrow> tail_at num flt ts q e r \<Longrightarrow>
    tok_at ts r = Pt RBrace \<Longrightarrow> block_at num flt ts p (Block ss e (over ts p (Suc r))) (Suc r)"
| no_tail: "tail_at num flt ts p None p"
| tail: "expr_at num flt ts False p e q \<Longrightarrow> tail_at num flt ts p (Some e) q"
| tail_struct: "trailed_at ts RBrace (init_at num flt ts) p fs comma q \<Longrightarrow> 
    tail_at num flt ts p (Some (Sp (StructLit [] None fs) (merge (span_of (snd (hd fs))) (span_at ts (q - 1))))) q"
| let_stmt: "words_at ts p ([Kw KLet] @ (if mutable then [Kw KMut] else []) @ [TIdent name, Pt Equals]) q \<Longrightarrow>
    expr_at num flt ts False q e r \<Longrightarrow> tok_at ts r = Pt Semi \<Longrightarrow>
    stmt_at num flt ts p (Let name mutable None e, over ts p r) (Suc r)"
| typed_let: "words_at ts p ([Kw KLet] @ (if mutable then [Kw KMut] else []) @ [TIdent name, Pt Colon]) q \<Longrightarrow>
    type_at num flt ts q t r \<Longrightarrow> tok_at ts r = Pt Equals \<Longrightarrow> expr_at num flt ts False (Suc r) e s \<Longrightarrow>
    tok_at ts s = Pt Semi \<Longrightarrow> stmt_at num flt ts p (Let name mutable (Some t) e, over ts p s) (Suc s)"
| return_none: "words_at ts p [Kw KReturn, Pt Semi] q \<Longrightarrow> stmt_at num flt ts p (Return None, over ts p (Suc p)) q"
| return: "tok_at ts p = Kw KReturn \<Longrightarrow> expr_at num flt ts False (Suc p) e q \<Longrightarrow> tok_at ts q = Pt Semi \<Longrightarrow>
    stmt_at num flt ts p (Return (Some e), over ts p q) (Suc q)"
| while: "tok_at ts p = Kw KWhile \<Longrightarrow> operand_at num flt ts True 0 (Suc p) e q \<Longrightarrow> block_at num flt ts q body r \<Longrightarrow>
    stmt_at num flt ts p (While e body, over ts p r) r"
| for_list: "words_at ts p [Kw KFor, TIdent v, Kw KIn] q \<Longrightarrow> operand_at num flt ts True 0 q e r \<Longrightarrow>
    block_at num flt ts r body s \<Longrightarrow> stmt_at num flt ts p (For v (IterList e) body, over ts p s) s"
| for_range: "words_at ts p [Kw KFor, TIdent v, Kw KIn] q \<Longrightarrow> operand_at num flt ts True 0 q e r \<Longrightarrow>
    tok_at ts r = Pt DotDot \<Longrightarrow> operand_at num flt ts True 0 (Suc r) f s \<Longrightarrow>
    block_at num flt ts s body s' \<Longrightarrow> stmt_at num flt ts p (For v (IterRange e f) body, over ts p s') s'"
| assign: "words_at ts p [TIdent name, Pt Equals] q \<Longrightarrow> expr_at num flt ts False q e r \<Longrightarrow> tok_at ts r = Pt Semi \<Longrightarrow>
    stmt_at num flt ts p (Assign name e, over ts p r) (Suc r)"
| expr_stmt: "expr_at num flt ts False p e q \<Longrightarrow> tok_at ts q = Pt Semi \<Longrightarrow>
    stmt_at num flt ts p (ExprStmt e, over ts p q) (Suc q)"
| block_stmt: "tok_at ts p \<in> Kw ` {KIf, KMatch, KTransaction} \<Longrightarrow> expr_at num flt ts False p e q \<Longrightarrow>
    stmt_at num flt ts p (ExprStmt e, over ts p q) q"

end
