(* ===== verification/ParserSound.thy ===== *)
theory ParserSound
  imports LinkGrammar
begin

text \<open>
  The parser reads the grammar: from every position it returns, stays within the tokens, moves
  forward when it succeeds, and its tree is one that the grammar gives to the tokens it took.
\<close>

section \<open>Moves\<close>

definition reads :: "token list \<Rightarrow> 'a parse \<Rightarrow> 'a phrase \<Rightarrow> nat \<Rightarrow> bool" where
  "reads ts m R p \<longleftrightarrow> wp ts m (\<lambda>x q. p < q \<and> q < length ts \<and> R p x q) p"

lemma reads_wp:
  assumes "reads ts m R p" "\<And>x q. p < q \<Longrightarrow> q < length ts \<Longrightarrow> R p x q \<Longrightarrow> Q x q"
  shows "wp ts m Q p"
  using assms by (auto simp: reads_def elim!: wp_mono)

lemma next_token_kinds [simp]:
  assumes "ended ts"
  shows "tok_at ts p = Pt c \<Longrightarrow> next_token_at ts p = Suc p"
    "tok_at ts p = Kw w \<Longrightarrow> next_token_at ts p = Suc p"
    "tok_at ts p = TIdent s \<Longrightarrow> next_token_at ts p = Suc p"
    "tok_at ts p = TStr s \<Longrightarrow> next_token_at ts p = Suc p"
    "tok_at ts p = TInt n \<Longrightarrow> next_token_at ts p = Suc p"
    "tok_at ts p = TFloat s \<Longrightarrow> next_token_at ts p = Suc p"
    "tok_at ts p = THtmlLit parts \<Longrightarrow> next_token_at ts p = Suc p"
  using assms by (simp_all add: next_token_before)

lemma not_last [simp]:
  assumes "ended ts"
  shows "tok_at ts p = Pt c \<Longrightarrow> Suc p < length ts"
    "tok_at ts p = Kw w \<Longrightarrow> Suc p < length ts"
    "tok_at ts p = TIdent s \<Longrightarrow> Suc p < length ts"
    "tok_at ts p = TStr s \<Longrightarrow> Suc p < length ts"
    "tok_at ts p = TInt n \<Longrightarrow> Suc p < length ts"
    "tok_at ts p = TFloat s \<Longrightarrow> Suc p < length ts"
    "tok_at ts p = THtmlLit parts \<Longrightarrow> Suc p < length ts"
  using assms by (simp_all add: next_token_before)

lemma keyword_next [simp]:
  assumes "ended ts" "keyword_text (tok_at ts p) = Some s"
  shows "next_token_at ts p = Suc p" "Suc p < length ts"
  using assms next_token_before [of ts p] keyword_text_not_eof [of "tok_at ts p" s] by auto

lemma words_at_simps [simp]:
  "words_at ts p [] q \<longleftrightarrow> q = p"
  "words_at ts p (k # ks) q \<longleftrightarrow> tok_at ts p = k \<and> words_at ts (Suc p) ks q"
proof -
  show "words_at ts p [] q \<longleftrightarrow> q = p" by (simp add: words_at_def)
  show "words_at ts p (k # ks) q \<longleftrightarrow> tok_at ts p = k \<and> words_at ts (Suc p) ks q"
    by (auto simp: words_at_def nth_Cons all_conj_distrib less_Suc_eq_0_disj)
qed

lemma over_simps [simp]:
  "merge (span_at ts p) (span_at ts q) = over ts p (Suc q)"
  "merge (over ts p q) (over ts r s) = over ts p s"
  "merge (span_at ts p) (over ts r s) = over ts p s"
  "merge (over ts p q) (span_at ts r) = over ts p (Suc r)"
  "over ts p (Suc p) = span_at ts p"
  "merge (span_at ts p) (span_at ts (q - Suc 0)) = over ts p q"
  "merge (over ts p r) (span_at ts (q - Suc 0)) = over ts p q"
  by (simp_all add: over_def merge_def mk_span_def)

lemma token_weight_pos: "0 < token_weight t"
  by (cases t) (simp split: token_kind.split)

lemma weight_Suc: "p < length ts \<Longrightarrow> weight ts p = token_weight (ts ! p) + weight ts (Suc p)"
  by (simp add: weight_def flip: Cons_nth_drop_Suc)

lemma weight_mono: "p \<le> q \<Longrightarrow> weight ts q \<le> weight ts p"
proof (induction q rule: dec_induct)
  case (step q)
  show ?case
  proof (cases "q < length ts")
    case True
    with step weight_Suc [of q ts] show ?thesis by simp
  qed (use step in \<open>simp add: weight_def\<close>)
qed simp

lemma weight_less: "p < q \<Longrightarrow> q < length ts \<Longrightarrow> weight ts q < weight ts p"
  using weight_mono [of "Suc p" q ts] weight_Suc [of p ts] token_weight_pos [of "ts ! p"] by simp

section \<open>Words\<close>

lemma wp_eat_ident [wp_simps]:
  "wp ts (eat_ident us) Q p \<longleftrightarrow>
     (case tok_at us p of TIdent name \<Rightarrow> Q name (next_token_at us p) | _ \<Rightarrow> p < length ts)"
  by (simp add: eat_ident_def wp_simps split: token_kind.split)

lemma wp_eat_string [wp_simps]:
  "wp ts (eat_string us) Q p \<longleftrightarrow>
     (case tok_at us p of TStr s \<Rightarrow> Q s (next_token_at us p) | _ \<Rightarrow> p < length ts)"
  by (simp add: eat_string_def wp_simps split: token_kind.split)

lemma eat_field_name_reads:
  assumes "ended ts" "p < length ts"
  shows "reads ts (eat_field_name ts) (\<lambda>p name q. q = Suc p \<and> field_name_at ts p name) p"
  using assms
  by (auto simp: reads_def eat_field_name_def wp_simps field_name_at_def split: token_kind.split option.split)

lemma eat_number_reads:
  assumes "ended ts" "p < length ts"
  shows "reads ts (eat_number num flt ts) (number_at num flt ts) p"
  using assms
  by (auto simp: reads_def eat_number_def wp_simps Let_def split: token_kind.split intro: number_at.intros)

section \<open>Lists\<close>

lemma separated_reads:
  assumes item: "\<And>q. p < q \<Longrightarrow> q < length ts \<Longrightarrow> reads ts m R q"
    and "ended ts" "sep_at ts sep R p xs q" "p < q" "q < length ts"
  shows "wp ts (separated ts sep m xs) (\<lambda>ys r. q \<le> r \<and> r < length ts \<and> sep_at ts sep R p ys r \<and>
    length xs \<le> length ys \<and> (tok_at ts q = Pt sep \<longrightarrow> length xs < length ys)) q"
  unfolding separated_def
proof (rule wp_ploop [where J = "\<lambda>ys r. q \<le> r \<and> sep_at ts sep R p ys r \<and> (r = q \<and> ys = xs \<or> length xs < length ys)"])
  fix ys r
  assume "q \<le> r \<and> sep_at ts sep R p ys r \<and> (r = q \<and> ys = xs \<or> length xs < length ys)" "r < length ts"
  then show "wp ts (if_token ts (Pt sep) (pbind m (\<lambda>x. again (ys @ [x]))) (stop ys))
      (\<lambda>a s. case a of
         Inl ys' \<Rightarrow> r < s \<and> s < length ts \<and> q \<le> s \<and> sep_at ts sep R p ys' s \<and> (s = q \<and> ys' = xs \<or> length xs < length ys')
       | Inr ys \<Rightarrow> q \<le> s \<and> s < length ts \<and> sep_at ts sep R p ys s \<and> length xs \<le> length ys \<and>
           (tok_at ts q = Pt sep \<longrightarrow> length xs < length ys)) r"
    using assms(2,4) by (auto simp: wp_simps intro!: reads_wp [OF item] intro: sep_at.more)
qed (use assms in auto)

lemma sep_at_pos: "sep_at ts sep R p xs q \<Longrightarrow> 0 < length xs"
  by (induction rule: sep_at.induct) auto

lemma sep_at_single: "sep_at ts sep R p xs q \<Longrightarrow> length xs = 1 \<Longrightarrow> R p (hd xs) q"
  by (erule sep_at.cases) (auto dest: sep_at_pos)

lemma trailed_at_single: "trailed_at ts close R p xs False q \<Longrightarrow> xs = [hd xs] \<and> R p (hd xs) q"
proof (erule trailed_at.cases)
  fix p' xs' q'
  assume eqs: "p = p'" "xs = xs'" "False = (1 < length xs')" "q = q'" and sep: "sep_at ts Comma R p' xs' q'"
  then have "length xs = 1" using sep_at_pos [OF sep] by (metis One_nat_def less_one linorder_neqE_nat not_gr_zero)
  then show "xs = [hd xs] \<and> R p (hd xs) q" using sep_at_single [OF sep] eqs by (auto simp: length_Suc_conv)
qed auto

lemma trailed_at_many: "trailed_at ts close R p xs c q \<Longrightarrow> length xs \<noteq> 1 \<Longrightarrow> trailed_at ts close R p xs True q"
  using trailed_at.plain [of ts R p xs q close] trailed_at.trail [of ts R p xs _ close]
  by (erule_tac trailed_at.cases) (auto dest!: sep_at_pos simp: Suc_lessI)

lemma trailed_at_pos: "trailed_at ts close R p xs c q \<Longrightarrow> xs \<noteq> []"
  by (erule trailed_at.cases) (auto dest: sep_at_pos)

lemma paren_items_reads:
  assumes item: "\<And>q. p < q \<Longrightarrow> q < length ts \<Longrightarrow> reads ts m R q"
    and "ended ts" "R p x q" "p < q" "q < length ts"
  shows "wp ts (paren_items ts m x) (\<lambda>y r. q \<le> r \<and> r < length ts \<and> trailed_at ts RParen R p (fst y) (snd y) r) q"
  unfolding paren_items_def
proof (rule wp_ploop [where J = "\<lambda>y r. q \<le> r \<and> sep_at ts Comma R p (fst y) r \<and> snd y = (1 < length (fst y))"])
  fix y r
  assume "q \<le> r \<and> sep_at ts Comma R p (fst y) r \<and> snd y = (1 < length (fst y))" "r < length ts"
  moreover obtain ys c where "y = (ys, c)" by (cases y)
  moreover have "sep_at ts Comma R p ys r \<Longrightarrow> 0 < length ys" for ys r by (induction rule: sep_at.induct) auto
  ultimately show "wp ts
      ((\<lambda>(xs, had_comma). if_token ts (Pt Comma)
          (peeking ts (\<lambda>c. if c = Pt RParen then stop (xs, True) else pbind m (\<lambda>x. again (xs @ [x], True))))
          (stop (xs, had_comma))) y)
      (\<lambda>a s. case a of
         Inl y' \<Rightarrow> r < s \<and> s < length ts \<and> q \<le> s \<and> sep_at ts Comma R p (fst y') s \<and> snd y' = (1 < length (fst y'))
       | Inr y \<Rightarrow> q \<le> s \<and> s < length ts \<and> trailed_at ts RParen R p (fst y) (snd y) s) r"
    using assms(2,4)
    by (auto simp: wp_simps intro!: reads_wp [OF item] intro: sep_at.more trailed_at.plain trailed_at.trail simp del: One_nat_def)
qed (use assms in \<open>auto intro: sep_at.one\<close>)

lemma more_items_reads:
  assumes item: "\<And>q. p < q \<Longrightarrow> q < length ts \<Longrightarrow> reads ts m R q"
    and "ended ts" "R p x q" "p < q" "q < length ts"
  shows "wp ts (more_items ts close m [x]) (\<lambda>ys r. q \<le> r \<and> r < length ts \<and> (\<exists>c. trailed_at ts close R p ys c r)) q"
  unfolding more_items_def
proof (rule wp_ploop [where J = "\<lambda>ys r. q \<le> r \<and> sep_at ts Comma R p ys r"])
  fix ys r
  assume "q \<le> r \<and> sep_at ts Comma R p ys r" "r < length ts"
  then show "wp ts
      (if_token ts (Pt Comma)
          (peeking ts (\<lambda>c. if c = Pt close then stop ys else pbind m (\<lambda>x. again (ys @ [x]))))
          (stop ys))
      (\<lambda>a s. case a of
         Inl ys \<Rightarrow> r < s \<and> s < length ts \<and> q \<le> s \<and> sep_at ts Comma R p ys s
       | Inr ys \<Rightarrow> q \<le> s \<and> s < length ts \<and> (\<exists>c. trailed_at ts close R p ys c s)) r"
    using assms(2,4)
    by (auto simp: wp_simps intro!: reads_wp [OF item] intro: sep_at.more trailed_at.plain trailed_at.trail)
qed (use assms in \<open>auto intro: sep_at.one\<close>)

lemma comma_list_reads:
  assumes item: "\<And>q. p \<le> q \<Longrightarrow> q < length ts \<Longrightarrow> reads ts m R q"
    and "ended ts" "p < length ts"
  shows "wp ts (comma_list ts close m) (\<lambda>ys r. p \<le> r \<and> r < length ts \<and> list_at ts close R p ys r \<and>
    (tok_at ts p \<noteq> Pt close \<longrightarrow> (\<exists>c. trailed_at ts close R p ys c r))) p"
  using assms(2,3)
  by (auto simp: comma_list_def wp_simps intro: list_at.none list_at.some
      intro!: reads_wp [OF item] wp_mono [OF more_items_reads [where R = R and p = p]] item)

section \<open>Annotations of a field\<close>

lemma parse_on_delete_reads:
  assumes "ended ts" "p < length ts"
  shows "wp ts (parse_on_delete ts) (\<lambda>d q. p \<le> q \<and> q < length ts \<and>
    words_at ts p (case d of None \<Rightarrow> [] | Some d \<Rightarrow> [Pt Comma, TIdent ''onDelete'', Pt Colon, TIdent (on_delete_text d)]) q) p"
  using assms
  by (auto simp: parse_on_delete_def wp_simps on_delete_text_def split: token_kind.split)

lemma parse_tenant_claim_reads:
  assumes "ended ts" "p < length ts"
  shows "wp ts (parse_tenant_claim ts) (\<lambda>c q. p \<le> q \<and> q < length ts \<and>
    words_at ts p (case c of None \<Rightarrow> [] | Some s \<Rightarrow> [Pt LParen, TIdent ''claim'', Pt Colon, TStr s, Pt RParen]) q) p"
  using assms
  by (auto simp: parse_tenant_claim_def wp_simps split: token_kind.split)

lemma parse_validator_reads:
  assumes "ended ts" "p < length ts"
  shows "wp ts (parse_validator ts) (\<lambda>v q. p \<le> q \<and> q < length ts \<and>
    words_at ts p (case v of Email \<Rightarrow> [TIdent ''email''] | Regex s \<Rightarrow> [TIdent ''regex'', Pt Comma, TStr s]) q) p"
  using assms
  by (auto simp: parse_validator_def wp_simps split: token_kind.split)

lemma wp_ifI: "(b \<Longrightarrow> wp ts m Q p) \<Longrightarrow> (\<not> b \<Longrightarrow> wp ts n Q p) \<Longrightarrow> wp ts (if b then m else n) Q p"
  by simp

lemma wp_onceI: "wp ts m Q p \<Longrightarrow> p < length ts \<Longrightarrow> wp ts (once ts name P anns m) Q p"
  by (simp add: once_def wp_simps)

lemma check_names:
  "check_name ''min'' = Some CheckMin" "check_name ''max'' = Some CheckMax"
  "check_name ''minLength'' = Some CheckMinLength" "check_name ''maxLength'' = Some CheckMaxLength"
  by (simp_all add: check_name_def)

lemma parse_field_check_reads:
  assumes "ended ts" "p_number K = num" "p_float K = flt" "p < length ts"
    and "words_at ts s [Pt At, TIdent ''check'', Pt LParen] p"
  shows "wp ts (parse_field_check K ts) (\<lambda>c q. p \<le> q \<and> q < length ts \<and>
    (tok_at ts q = Pt RParen \<longrightarrow> annotation_at num flt ts s (FieldCheck c) (Suc q))) p"
proof -
  have s: "tok_at ts s = Pt At" "tok_at ts (Suc s) = TIdent ''check''" "tok_at ts (Suc (Suc s)) = Pt LParen"
      "p = Suc (Suc (Suc s))"
    using assms(5) by simp_all
  let ?Q = "\<lambda>c q. p \<le> q \<and> q < length ts \<and>
    (tok_at ts q = Pt RParen \<longrightarrow> annotation_at num flt ts s (FieldCheck c) (Suc q))"
  have check: "wp ts (eat ts (Pt Comma) (pbind (eat_number num flt ts) (\<lambda>n. preturn (c n)))) ?Q (Suc p)"
    if "tok_at ts p = TIdent name" "check_name name = Some c" for name c
    using assms(1) that s
    by (auto simp: wp_simps intro!: reads_wp [OF eat_number_reads] annotation_at.check [of ts s name "Suc (Suc p)"])
  have range: "wp ts (eat ts (Pt Comma) (pbind (eat_number num flt ts) (\<lambda>lo.
      eat ts (Pt Comma) (pbind (eat_number num flt ts) (\<lambda>hi. preturn (CheckRange lo hi)))))) ?Q (Suc p)"
    if "tok_at ts p = TIdent ''range''"
    using assms(1) that s
    by (auto simp: wp_simps intro!: reads_wp [OF eat_number_reads] annotation_at.range [of ts s "Suc (Suc p)"])
  have "wp ts (if name = ''min'' then eat ts (Pt Comma) (pbind (eat_number num flt ts) (\<lambda>n. preturn (CheckMin n)))
      else if name = ''max'' then eat ts (Pt Comma) (pbind (eat_number num flt ts) (\<lambda>n. preturn (CheckMax n)))
      else if name = ''range'' then eat ts (Pt Comma) (pbind (eat_number num flt ts) (\<lambda>lo.
        eat ts (Pt Comma) (pbind (eat_number num flt ts) (\<lambda>hi. preturn (CheckRange lo hi)))))
      else if name = ''minLength'' then eat ts (Pt Comma) (pbind (eat_number num flt ts) (\<lambda>n. preturn (CheckMinLength n)))
      else if name = ''maxLength'' then eat ts (Pt Comma) (pbind (eat_number num flt ts) (\<lambda>n. preturn (CheckMaxLength n)))
      else pfail ts (UnknownArgument ''check'' name)) ?Q (Suc p)"
    if "tok_at ts p = TIdent name" for name
    using that
    by (intro wp_ifI check [OF _ check_names(1)] check [OF _ check_names(2)] check [OF _ check_names(3)]
        check [OF _ check_names(4)] range; simp add: wp_simps assms(1))
  then show ?thesis
    using assms(1-4)
    by (simp add: parse_field_check_def Let_def wp_pbind wp_eat_ident split: token_kind.split split del: if_split)
qed

lemma parse_field_annotation_reads:
  assumes "ended ts" "p_number K = num" "p_float K = flt" "p < length ts"
    and "tok_at ts s = Pt At" "tok_at ts (Suc s) = TIdent name" "p = Suc (Suc s)"
  shows "wp ts (parse_field_annotation K ts anns name) (\<lambda>a q. p \<le> q \<and> q < length ts \<and> annotation_at num flt ts s a q) p"
proof -
  let ?Q = "\<lambda>a q. p \<le> q \<and> q < length ts \<and> annotation_at num flt ts s a q"
  note plain = annotation_at.plain [OF assms(5)]
  have bare: "wp ts (preturn a) ?Q p" if "annotation_words a = [TIdent name]" for a
    using that assms by (auto simp: wp_simps intro!: plain)
  have texted: "wp ts (eat ts (Pt LParen) (pbind (eat_string ts) (\<lambda>r. eat ts (Pt RParen)
      (if blank r then pfail ts (EmptyText name) else preturn (c r))))) ?Q p"
    if "\<And>r. annotation_words (c r) = [TIdent name, Pt LParen, TStr r, Pt RParen]" for c
    using that assms by (auto simp: wp_simps intro!: plain split: token_kind.split)
  have valid: "wp ts (eat ts (Pt LParen) (pbind (parse_validator ts) (\<lambda>v. eat ts (Pt RParen) (preturn (Validate v))))) ?Q p"
    if "name = ''validate''"
    using that assms
    by (auto simp: wp_simps intro!: plain wp_mono [OF parse_validator_reads] split: field_validator.splits)
  have check: "wp ts (eat ts (Pt LParen) (pbind (parse_field_check K ts) (\<lambda>c. eat ts (Pt RParen) (preturn (FieldCheck c))))) ?Q p"
    if "name = ''check''"
    using that assms
    by (auto simp: wp_simps intro!: wp_mono [OF parse_field_check_reads])
  have refers: "wp ts (eat ts (Pt LParen) (pbind (eat_ident ts) (\<lambda>t. pbind (parse_on_delete ts) (\<lambda>d.
      eat ts (Pt RParen) (preturn (Ref t d)))))) ?Q p" if "name = ''ref''"
    using that assms
    by (auto simp: wp_simps intro!: plain wp_mono [OF parse_on_delete_reads] split: token_kind.split option.splits)
  have tenant: "wp ts (pbind (parse_tenant_claim ts) (\<lambda>c. preturn (Tenant c))) ?Q p" if "name = ''tenant''"
    using that assms
    by (auto simp: wp_simps intro!: plain wp_mono [OF parse_tenant_claim_reads] split: option.splits)
  show ?thesis
    unfolding parse_field_annotation_def
    by (intro wp_ifI wp_onceI assms(4); (rule bare texted valid check refers tenant)?;
        (auto simp add: wp_simps assms(4))?)
qed

text \<open>A loop that appends a phrase in every round.\<close>

lemma seq_loop:
  assumes "p < length ts"
    and "\<And>xs q. seq_at R p xs q \<Longrightarrow> p \<le> q \<Longrightarrow> q < length ts \<Longrightarrow>
      wp ts (body xs) (\<lambda>r q'. case r of
        Inl ys \<Rightarrow> q < q' \<and> q' < length ts \<and> (\<exists>x. ys = xs @ [x] \<and> R q x q')
      | Inr y \<Rightarrow> Q y q') q"
  shows "wp ts (ploop (length ts) body []) Q p"
proof (rule wp_ploop [where J = "\<lambda>xs q. seq_at R p xs q \<and> p \<le> q"])
  fix xs q
  assume q: "seq_at R p xs q \<and> p \<le> q" "p \<le> q" "q < length ts"
  show "wp ts (body xs) (\<lambda>r q'. case r of
      Inl ys \<Rightarrow> q < q' \<and> q' < length ts \<and> seq_at R p ys q' \<and> p \<le> q' | Inr y \<Rightarrow> Q y q') q"
    using q by (intro wp_mono [OF assms(2)]) (auto split: sum.splits intro: seq_at.more)
qed (use assms(1) in \<open>auto intro: seq_at.none\<close>)

text \<open>A loop that goes on from a phrase as long as it can make a longer one.\<close>

lemma grow_loop:
  assumes "R p x q" "p < q" "q < length ts"
    and "\<And>x q. R p x q \<Longrightarrow> p < q \<Longrightarrow> q < length ts \<Longrightarrow>
      wp ts (body x) (\<lambda>r q'. case r of
        Inl y \<Rightarrow> q < q' \<and> q' < length ts \<and> R p y q'
      | Inr y \<Rightarrow> q \<le> q' \<and> q' < length ts \<and> R p y q') q"
  shows "wp ts (ploop (length ts) body x) (\<lambda>y r. p < r \<and> r < length ts \<and> R p y r) q"
proof (rule wp_ploop [where J = "\<lambda>x r. R p x r \<and> q \<le> r"])
  fix x r
  assume r: "R p x r \<and> q \<le> r" "q \<le> r" "r < length ts"
  show "wp ts (body x) (\<lambda>r' q'. case r' of
      Inl y \<Rightarrow> r < q' \<and> q' < length ts \<and> R p y q' \<and> q \<le> q' | Inr y \<Rightarrow> p < q' \<and> q' < length ts \<and> R p y q') r"
    using r assms(2) by (intro wp_mono [OF assms(4)]) (auto split: sum.splits)
qed (use assms in auto)

lemma parse_field_annotations_reads:
  assumes "ended ts" "p_number K = num" "p_float K = flt" "p < length ts"
  shows "wp ts (parse_field_annotations K ts)
    (\<lambda>anns q. p \<le> q \<and> q < length ts \<and> seq_at (annotation_at num flt ts) p anns q) p"
  unfolding parse_field_annotations_def
  using assms
  by (intro seq_loop [where R = "annotation_at num flt ts"])
    (auto simp: wp_simps split: token_kind.split intro!: wp_mono [OF parse_field_annotation_reads])

section \<open>Types\<close>

text \<open>
  \<open>near n ts p\<close>: the knot that is \<open>n\<close> deep reads from every position after \<open>p\<close>.
\<close>

definition near :: "nat \<Rightarrow> token list \<Rightarrow> nat \<Rightarrow> bool" where
  "near n ts p \<longleftrightarrow> ended ts \<and> p < length ts \<and> weight ts p \<le> Suc n"

lemma near_ended: "near n ts p \<Longrightarrow> ended ts" "near n ts p \<Longrightarrow> p < length ts"
  by (simp_all add: near_def)

lemma near_later: "near n ts p \<Longrightarrow> p \<le> q \<Longrightarrow> q < length ts \<Longrightarrow> near n ts q"
  using weight_mono [of p q ts] by (simp add: near_def)

lemma near_weight: "near n ts p \<Longrightarrow> p < q \<Longrightarrow> q < length ts \<Longrightarrow> weight ts q \<le> n"
  using weight_less [of p q ts] by (simp add: near_def)

definition spanned :: "token list \<Rightarrow> sexpr phrase \<Rightarrow> sexpr phrase" where
  "spanned ts R p e q \<longleftrightarrow> R p e q \<and> span_of e = over ts p q"

definition spanned_block :: "token list \<Rightarrow> block phrase \<Rightarrow> block phrase" where
  "spanned_block ts R p b q \<longleftrightarrow> R p b q \<and> block_span b = over ts p q"

locale reading_parsers =
  fixes num :: "int \<Rightarrow> 64 word" and flt :: "string \<Rightarrow> 64 word" and K :: parsers and n :: nat
  assumes floats: "p_number K = num" "p_float K = flt"
    and type_below: "ended ts \<Longrightarrow> p < length ts \<Longrightarrow> weight ts p \<le> n \<Longrightarrow>
      reads ts (p_type K ts) (type_at num flt ts) p"
    and expr_below: "ended ts \<Longrightarrow> p < length ts \<Longrightarrow> weight ts p \<le> n \<Longrightarrow>
      reads ts (p_expr K ts b) (spanned ts (expr_at num flt ts b)) p"
    and unary_below: "ended ts \<Longrightarrow> p < length ts \<Longrightarrow> weight ts p \<le> n \<Longrightarrow>
      reads ts (p_unary K ts b) (spanned ts (operand_at num flt ts b 7)) p"
    and if_below: "ended ts \<Longrightarrow> p < length ts \<Longrightarrow> weight ts p \<le> n \<Longrightarrow> tok_at ts p = Kw KIf \<Longrightarrow>
      reads ts (p_if K ts) (spanned ts (expr_at num flt ts b)) p"
    and block_below: "ended ts \<Longrightarrow> p < length ts \<Longrightarrow> weight ts p \<le> n \<Longrightarrow>
      reads ts (p_block K ts) (spanned_block ts (block_at num flt ts)) p"
    and pattern_below: "ended ts \<Longrightarrow> p < length ts \<Longrightarrow> weight ts p \<le> n \<Longrightarrow>
      reads ts (p_pattern K ts) (pattern_at num flt ts) p"
begin

lemma calls:
  assumes "near n ts s" "s < p" "p < length ts"
  shows type_call: "reads ts (p_type K ts) (type_at num flt ts) p"
    and expr_call: "reads ts (p_expr K ts b) (spanned ts (expr_at num flt ts b)) p"
    and unary_call: "reads ts (p_unary K ts b) (spanned ts (operand_at num flt ts b 7)) p"
    and if_call: "tok_at ts p = Kw KIf \<Longrightarrow> reads ts (p_if K ts) (spanned ts (expr_at num flt ts b)) p"
    and block_call: "reads ts (p_block K ts) (spanned_block ts (block_at num flt ts)) p"
    and pattern_call: "reads ts (p_pattern K ts) (pattern_at num flt ts) p"
  using near_weight [OF assms] near_ended [OF assms(1)] assms(3)
  by (simp_all add: type_below expr_below unary_below if_below block_below pattern_below)

lemma field_intros:
  assumes "seq_at (annotation_at num flt ts) p anns q" "field_name_at ts q name"
  shows "tok_at ts (Suc q) = Pt Colon \<Longrightarrow> type_at num flt ts (Suc (Suc q)) t s \<Longrightarrow>
      field_at num flt ts p (Field name False t (span_at ts q) anns None) s"
    and "tok_at ts (Suc q) = Pt Question \<Longrightarrow> tok_at ts (Suc (Suc q)) = Pt Colon \<Longrightarrow>
      type_at num flt ts (Suc (Suc (Suc q))) t s \<Longrightarrow>
      field_at num flt ts p (Field name True t (span_at ts q) anns None) s"
  using field [OF assms, of False] field [OF assms, of True] by simp_all

lemma parse_field_decl_reads:
  assumes "near n ts s" "s < p" "p < length ts"
  shows "reads ts (parse_field_decl K ts) (field_at num flt ts) p"
proof -
  note e = near_ended [OF assms(1)]
  have opt: "wp ts (if_token ts (Pt Question) (preturn True) (preturn False))
      (\<lambda>opt r. q \<le> r \<and> r < length ts \<and> r = (if opt then Suc q else q) \<and> (opt \<longrightarrow> tok_at ts q = Pt Question)) q"
    if "q < length ts" for q
    using e that by (auto simp: wp_simps)
  show ?thesis
    unfolding reads_def parse_field_decl_def
    using assms e
    by (auto simp: wp_simps floats spanned_def
         intro!: wp_mono [OF parse_field_annotations_reads [OF _ floats]]
         reads_wp [OF eat_field_name_reads] wp_mono [OF opt] reads_wp [OF type_call] reads_wp [OF expr_call]
         split: if_splits)
      (linarith | blast intro: field_intros field_default)+
qed

lemmas below =
  reads_wp [OF type_call] reads_wp [OF expr_call] reads_wp [OF unary_call] reads_wp [OF block_call]
  reads_wp [OF pattern_call]

lemma parse_field_list_reads:
  assumes "near n ts s" "s < p" "p < length ts"
  shows "wp ts (parse_field_list K ts)
    (\<lambda>fs q. p \<le> q \<and> q < length ts \<and> list_at ts RBrace (field_at num flt ts) p fs q) p"
  unfolding parse_field_list_def
  using assms near_ended [OF assms(1)]
  by (intro wp_mono [OF comma_list_reads [where R = "field_at num flt ts"]] parse_field_decl_reads [OF assms(1)]) auto

lemma parse_paren_type_reads:
  assumes "near n ts p" "tok_at ts p = Pt LParen"
  shows "reads ts (parse_paren_type K ts) (primary_type_at num flt ts) p"
proof -
  note e = near_ended [OF assms(1)]
  let ?T = "type_at num flt ts"
  let ?finish = "\<lambda>(types, had_comma). eat ts (Pt RParen)
    (if_token ts (Pt Arrow) (pbind (p_type K ts) (\<lambda>ret. preturn (FunctionT types ret)))
      (if length types = 0 then pfail ts EmptyParenType
       else if length types = 1 \<and> \<not> had_comma then preturn (hd types) else preturn (TupleT types)))"
  let ?Q = "\<lambda>t q. p < q \<and> q < length ts \<and> primary_type_at num flt ts p t q"
  have some: "wp ts (?finish y) ?Q q"
    if "Suc p < q" "q < length ts" "trailed_at ts RParen ?T (Suc p) (fst y) (snd y) q" for y q
  proof -
    obtain us c where y: "y = (us, c)" by (cases y)
    from that(3) have "list_at ts RParen ?T (Suc p) us q" unfolding y by (auto intro: list_at.some)
    with that assms e trailed_at_single [of ts RParen ?T "Suc p" us q] trailed_at_many [of ts RParen ?T "Suc p" us c q]
      trailed_at_pos [of ts RParen ?T "Suc p" us c q] show ?thesis
      unfolding y
      by (auto simp: wp_simps intro!: below)
       (linarith | auto intro: function_type group_type tuple_type)+
  qed
  have none: "wp ts (?finish ([], False)) ?Q (Suc p)" if "tok_at ts (Suc p) = Pt RParen"
    using that assms e list_at.none [OF that, of ?T]
    by (auto simp: wp_simps intro!: below) (linarith | auto intro: function_type)+
  have item: "reads ts (p_type K ts) ?T q" if "p < q" "q < length ts" for q
    using that assms(1) by (intro type_call)
  have items: "wp ts (peeking ts (\<lambda>c. if c = Pt RParen then preturn ([], False)
        else pbind (p_type K ts) (\<lambda>t. paren_items ts (p_type K ts) t)))
      (\<lambda>y q. if tok_at ts (Suc p) = Pt RParen then y = ([], False) \<and> q = Suc p
        else Suc p < q \<and> q < length ts \<and> trailed_at ts RParen ?T (Suc p) (fst y) (snd y) q) (Suc p)"
    using assms e
    by (auto simp: wp_simps intro!: reads_wp [OF item] wp_mono [OF paren_items_reads [where p = "Suc p", OF item]])
  show ?thesis
  proof -
    have "wp ts (pbind (peeking ts (\<lambda>c. if c = Pt RParen then preturn ([], False)
        else pbind (p_type K ts) (\<lambda>t. paren_items ts (p_type K ts) t))) ?finish) ?Q (Suc p)"
      unfolding wp_pbind [of _ _ ?finish] by (rule wp_mono [OF items]) (use none some in \<open>auto split: if_splits\<close>)
    then show ?thesis
      using assms e by (simp add: reads_def parse_paren_type_def wp_eat)
  qed
qed

lemma parse_named_type_reads:
  assumes "near n ts p" "tok_at ts p = TIdent name"
  shows "wp ts (parse_named_type K ts name (span_at ts p))
    (\<lambda>t q. p < q \<and> q < length ts \<and> primary_type_at num flt ts p t q) (Suc p)"
proof -
  note e = near_ended [OF assms(1)] and below = below [OF assms(1)]
  let ?Q = "\<lambda>t q. p < q \<and> q < length ts \<and> primary_type_at num flt ts p t q"
  have vector: "wp ts (advancing ts (spanning ts (\<lambda>dim_span. peeking ts (\<lambda>d.
           case d of
             TInt n \<Rightarrow> advancing ts (eat ts (Pt Gt)
               (preturn (Named ''Vector'' [Named (show_int n) [] dim_span] (span_at ts p))))
           | _ \<Rightarrow> pfail ts WantDimension)))) ?Q (Suc p)"
    if "name = ''Vector''" "tok_at ts (Suc p) = Pt Lt"
    using assms e that vector [of ts p _ "Suc (Suc (Suc (Suc p)))"]
    by (auto simp: wp_simps split: token_kind.split)
  have args: "wp ts (parse_type_args K ts) (\<lambda>us q. p < q \<and> q < length ts \<and>
      (if tok_at ts (Suc p) = Pt Lt then \<exists>r. q = Suc r \<and> tok_at ts r = Pt Gt \<and>
         sep_at ts Comma (type_at num flt ts) (Suc (Suc p)) us r else us = [] \<and> q = Suc p)) (Suc p)"
    using assms e
    by (auto simp: parse_type_args_def wp_simps intro!: below sep_at.one
      wp_mono [OF separated_reads [where p = "Suc (Suc p)" and R = "type_at num flt ts"]] type_call [OF assms(1)])
  show ?thesis
    unfolding parse_named_type_def wp_peeking
    using assms e vector
    by (auto simp: wp_simps intro!: wp_mono [OF args] split: if_splits)
      (auto intro: named generic)
qed

lemma parse_primary_type_reads:
  assumes "near n ts p"
  shows "reads ts (parse_primary_type K ts) (primary_type_at num flt ts) p"
proof -
  note e = near_ended [OF assms(1)]
  show ?thesis
    unfolding reads_def parse_primary_type_def
    using assms e parse_paren_type_reads [OF assms]
    by (auto simp: wp_simps reads_def intro!: wp_mono [OF parse_named_type_reads] wp_mono [OF parse_field_list_reads]
         split: token_kind.split punct.split intro: struct_type)
qed

lemma parse_postfix_type_reads:
  assumes "near n ts p"
  shows "reads ts (parse_postfix_type K ts) (postfix_type_at num flt ts) p"
  unfolding reads_def parse_postfix_type_def wp_pbind
  using near_ended [OF assms(1)]
  by (auto intro!: reads_wp [OF parse_primary_type_reads [OF assms]] grow_loop
      simp: wp_simps intro: postfix_type split: token_kind.split punct.split)
    (auto intro: optional list_of)

lemma parse_type_expr_reads:
  assumes "near n ts p"
  shows "reads ts (parse_type_expr K ts) (type_at num flt ts) p"
  unfolding reads_def parse_type_expr_def wp_pbind wp_peeking
  using near_ended [OF assms(1)]
  by (auto intro!: reads_wp [OF parse_postfix_type_reads [OF assms]] sep_at.one
       wp_mono [OF separated_reads [where p = p and R = "postfix_type_at num flt ts"]]
       parse_postfix_type_reads near_later [OF assms]
      simp: wp_simps intro: type_one)
    (simp add: type_union)

text \<open>Patterns.\<close>

lemma parse_field_pattern_reads:
  assumes "near n ts s" "s < p" "p < length ts"
  shows "reads ts (parse_field_pattern K ts) (field_pattern_at num flt ts) p"
  unfolding reads_def parse_field_pattern_def
  using assms near_ended [OF assms(1)]
  by (auto simp: wp_simps intro!: reads_wp [OF eat_field_name_reads] below [OF assms(1)])
    (auto intro: field_pattern short_pattern)

lemma parse_named_pattern_reads:
  assumes "near n ts p"
  shows "reads ts (parse_named_pattern K ts) (pattern_atom_at num flt ts) p"
proof (cases "tok_at ts p")
  case (TIdent name)
  note e = near_ended [OF assms]
  let ?Q = "\<lambda>x q. p < q \<and> q < length ts \<and> pattern_atom_at num flt ts p x q"
  have typed: "wp ts (pbind (parse_postfix_type K ts) (\<lambda>t. preturn (TypePat name t))) ?Q (Suc (Suc p))"
    if "tok_at ts (Suc p) = Pt Colon"
    using that TIdent e pat_type [of ts p name "Suc (Suc p)"]
    by (auto simp: wp_simps intro!: reads_wp [OF parse_postfix_type_reads] near_later [OF assms])
  have fields: "wp ts (pbind (comma_list ts RBrace (parse_field_pattern K ts)) (\<lambda>fs.
      eat ts (Pt RBrace) (preturn (VariantPat name v (Some fs))))) ?Q (Suc (Suc (Suc (Suc p))))"
    if "words_at ts p [TIdent name, Pt Dot, TIdent v, Pt LBrace] (Suc (Suc (Suc (Suc p))))" for v
    using that e pat_fields [OF that]
    by (auto simp: wp_simps intro!: wp_mono [OF comma_list_reads [where R = "field_pattern_at num flt ts"]]
        parse_field_pattern_reads [OF assms] split: if_splits)
  have variant: "wp ts (pbind (eat_ident ts) (\<lambda>variant.
      if_token ts (Pt LBrace)
        (pbind (comma_list ts RBrace (parse_field_pattern K ts)) (\<lambda>fs.
          eat ts (Pt RBrace) (preturn (VariantPat name variant (Some fs)))))
        (preturn (VariantPat name variant None)))) ?Q (Suc (Suc p))"
    if "tok_at ts (Suc p) = Pt Dot"
    using that TIdent e fields pat_variant [of ts p name _ "Suc (Suc (Suc p))"]
    by (simp add: wp_pbind wp_eat_ident wp_if_token wp_preturn split: token_kind.split)
  show ?thesis
    using TIdent e variant typed pat_bind [OF TIdent]
    by (simp add: reads_def parse_named_pattern_def wp_pbind wp_eat_ident wp_peeking wp_advancing wp_preturn
        split: token_kind.split punct.split)
qed (use near_ended [OF assms] in \<open>simp_all add: reads_def parse_named_pattern_def wp_simps\<close>)

lemma parse_pattern_atom_reads:
  assumes "near n ts p"
  shows "reads ts (parse_pattern_atom K ts) (pattern_atom_at num flt ts) p"
proof -
  have other: "wp ts (parse_named_pattern K ts)
      (\<lambda>x q. p < q \<and> q < length ts \<and> pattern_atom_at num flt ts p x q) p"
    using parse_named_pattern_reads [OF assms] by (simp add: reads_def)
  show ?thesis
  proof (cases "tok_at ts p")
    case (Kw w)
    then show ?thesis
      unfolding reads_def parse_pattern_atom_def wp_peeking
      using near_ended [OF assms] other pat_bool [of ts p True] pat_bool [of ts p False]
      by (cases w) (simp_all add: wp_simps pat_null)
  next
    case (Pt c)
    then show ?thesis
      unfolding reads_def parse_pattern_atom_def wp_peeking
      using near_ended [OF assms] other
      by (cases c) (auto simp: wp_simps pat_minus split: token_kind.split)
  qed (use near_ended [OF assms] other in \<open>simp_all add: reads_def parse_pattern_atom_def wp_simps pat_int pat_str\<close>)
qed

lemma parse_pattern_reads:
  assumes "near n ts p"
  shows "reads ts (parse_pattern K ts) (pattern_at num flt ts) p"
  unfolding reads_def parse_pattern_def wp_pbind wp_peeking
  using near_ended [OF assms(1)]
  by (auto intro!: reads_wp [OF parse_pattern_atom_reads [OF assms]] sep_at.one
       wp_mono [OF separated_reads [where p = p and R = "pattern_atom_at num flt ts"]]
       parse_pattern_atom_reads near_later [OF assms]
      simp: wp_simps intro: pattern_one)
    (simp add: pattern_or)

section \<open>Primary expressions\<close>

lemma parse_field_init_reads:
  assumes "near n ts s" "s \<le> p" "p < length ts"
  shows "reads ts (parse_field_init K ts) (init_at num flt ts) p"
  unfolding reads_def parse_field_init_def
  using assms near_ended [OF assms(1)]
  by (auto simp: wp_simps spanned_def intro!: reads_wp [OF eat_field_name_reads] below [OF assms(1)])
    (auto intro: init)

lemma parse_map_lit_field_reads:
  assumes "near n ts s" "s < p" "p < length ts"
  shows "reads ts (parse_map_lit_field K ts) (entry_at num flt ts) p"
  unfolding reads_def parse_map_lit_field_def
  using assms near_ended [OF assms(1)]
  by (auto simp: wp_simps spanned_def intro!: below [OF assms(1)] split: token_kind.split)
    (auto intro: entry)

lemma parse_field_init_list_reads:
  assumes "near n ts s" "s \<le> p" "p < length ts"
  shows "wp ts (parse_field_init_list K ts) (\<lambda>fs q. p < q \<and> q < length ts \<and> tok_at ts p = Pt LBrace \<and>
    (\<exists>r. q = Suc r \<and> tok_at ts r = Pt RBrace \<and> list_at ts RBrace (init_at num flt ts) (Suc p) fs r)) p"
  unfolding parse_field_init_list_def
  using assms near_ended [OF assms(1)]
  by (auto simp: wp_simps intro!: wp_mono [OF comma_list_reads [where R = "init_at num flt ts"]]
      parse_field_init_reads [OF assms(1)] split: if_splits)

lemma parse_map_lit_fields_reads:
  assumes "near n ts s" "s \<le> p" "p < length ts"
  shows "wp ts (parse_map_lit_fields K ts) (\<lambda>fs q. p < q \<and> q < length ts \<and> tok_at ts p = Pt LBrace \<and>
    (\<exists>r. q = Suc r \<and> tok_at ts r = Pt RBrace \<and> (tok_at ts (Suc p) \<noteq> Pt RBrace \<longrightarrow>
      (\<exists>c. trailed_at ts RBrace (entry_at num flt ts) (Suc p) fs c r)))) p"
  unfolding parse_map_lit_fields_def
  using assms near_ended [OF assms(1)]
  by (auto simp: wp_simps intro!: wp_mono [OF comma_list_reads [where R = "entry_at num flt ts"]]
      parse_map_lit_field_reads [OF assms(1)] split: if_splits)

lemma parse_closure_param_reads:
  assumes "near n ts s" "s < p" "p < length ts"
  shows "reads ts (parse_closure_param K ts) (closure_param_at num flt ts) p"
  unfolding reads_def parse_closure_param_def
  using assms near_ended [OF assms(1)]
  by (auto simp: wp_simps split: token_kind.split
      intro!: reads_wp [OF parse_postfix_type_reads] near_later [OF assms(1)])
    (auto intro: param typed_param)

lemma parse_closure_expr_reads:
  assumes "near n ts p"
  shows "reads ts (parse_closure_expr K ts) (spanned ts (primary_at num flt ts b)) p"
proof -
  note e = near_ended [OF assms]
  have params: "wp ts (comma_list ts Pipe (parse_closure_param K ts))
      (\<lambda>ps q. Suc p \<le> q \<and> q < length ts \<and> (ps \<noteq> [] \<longrightarrow>
         (\<exists>c. trailed_at ts Pipe (closure_param_at num flt ts) (Suc p) ps c q))) (Suc p)"
    if "tok_at ts p = Pt Pipe"
    using that e
    by (auto intro!: wp_mono [OF comma_list_reads [where R = "closure_param_at num flt ts"]]
        parse_closure_param_reads [OF assms] elim: list_at.cases)
  show ?thesis
    unfolding reads_def parse_closure_expr_def
    using e
    by (auto simp: wp_simps empty_closure_error_def spanned_def spanned_block_def
        intro!: wp_mono [OF params] below [OF assms] split: if_splits)
      (auto intro: closure)
qed

lemma parse_html_expr_reads:
  assumes "weight (us @ [mk_token Eof s]) 0 \<le> n" "p < length ts"
  shows "wp ts (parse_html_expr K (us @ [mk_token Eof s])) (\<lambda>e q. q = p \<and> html_part_at num flt s (HtmlExpr us) (HExpr e)) p"
proof -
  let ?us = "us @ [mk_token Eof s]"
  have "ended ?us" "0 < length ?us" by (simp_all add: ended_def)
  then have "reads ?us (p_expr K ?us False) (spanned ?us (expr_at num flt ?us False)) 0"
    using assms(1) by (intro expr_below)
  then show ?thesis
    using assms(2)
    by (auto simp: reads_def wp_def parse_html_expr_def spanned_def split: option.splits sum.splits prod.splits)
      (auto intro: html_expr)
qed

lemma parse_html_parts_reads:
  assumes "sum_list (map part_weight parts) \<le> n" "p < length ts"
  shows "wp ts (parse_html_parts K s parts) (\<lambda>xs q. q = p \<and> list_all2 (html_part_at num flt s) parts xs) p"
  using assms(1)
proof (induction parts)
  case (Cons part parts)
  then have IH: "wp ts (parse_html_parts K s parts) (\<lambda>xs q. q = p \<and> list_all2 (html_part_at num flt s) parts xs) p"
    by simp
  show ?case
  proof (cases part)
    case (HtmlText t)
    then show ?thesis
      by (auto simp: wp_simps intro!: wp_mono [OF IH] html_text)
  next
    case (HtmlExpr us)
    with Cons.prems have "weight (us @ [mk_token Eof s]) 0 \<le> n"
      by (simp add: weight_def mk_token_def)
    from parse_html_expr_reads [OF this assms(2)] show ?thesis
      by (auto simp: HtmlExpr wp_simps elim!: wp_mono intro!: wp_mono [OF IH])
  qed
qed (simp add: wp_simps)

abbreviation primary_Q :: "token list \<Rightarrow> bool \<Rightarrow> nat \<Rightarrow> sexpr \<Rightarrow> nat \<Rightarrow> bool" where
  "primary_Q ts b p e q \<equiv> p < q \<and> q < length ts \<and> primary_at num flt ts b p e q \<and> span_of e = over ts p q"

lemma parse_array_reads:
  assumes "near n ts p" "tok_at ts p = Pt LBracket"
  shows "wp ts (parse_array K ts) (primary_Q ts b p) p"
proof -
  note e = near_ended [OF assms(1)]
  have item: "reads ts (p_expr K ts False) (expr_at num flt ts False) q" if "p < q" "q < length ts" for q
    using expr_call [OF assms(1) that, of False] by (auto simp: reads_def spanned_def elim: wp_mono)
  show ?thesis
    unfolding parse_array_def
    using assms e
    by (auto simp: wp_simps intro!: wp_mono [OF comma_list_reads [where R = "expr_at num flt ts False"]] item
        split: if_splits)
      (auto intro: array)
qed

lemma parse_paren_expr_reads:
  assumes "near n ts p" "tok_at ts p = Pt LParen"
  shows "wp ts (parse_paren_expr K ts) (primary_Q ts b p) p"
proof -
  note e = near_ended [OF assms(1)]
  let ?E = "expr_at num flt ts False"
  let ?finish = "\<lambda>(es, had_comma). eat ts (Pt RParen)
     (prev_span ts (\<lambda>end_span. preturn (Sp
       (if length es = 1 \<and> \<not> had_comma then Paren (hd es) else TupleLit es) (merge (span_at ts p) end_span))))"
  have item: "reads ts (p_expr K ts False) ?E q" if "p < q" "q < length ts" for q
    using expr_call [OF assms(1) that, of False] by (auto simp: reads_def spanned_def elim: wp_mono)
  have finish: "wp ts (?finish y) (primary_Q ts b p) q"
    if "Suc p < q" "q < length ts" "trailed_at ts RParen ?E (Suc p) (fst y) (snd y) q" for y q
  proof -
    obtain es c where y: "y = (es, c)" by (cases y)
    show ?thesis
    proof (cases "length es = 1 \<and> \<not> c")
      case True
      with that assms e trailed_at_single [of ts RParen ?E "Suc p" es q] paren [of ts p num flt "hd es" q]
      show ?thesis by (simp add: y wp_simps)
    next
      case False
      then have "trailed_at ts RParen ?E (Suc p) es True q"
        using that trailed_at_many [of ts RParen ?E "Suc p" es c q] by (auto simp: y)
      with False that assms e tuple [of ts p num flt es q] show ?thesis by (auto simp: y wp_simps)
    qed
  qed
  have items: "wp ts (paren_items ts (p_expr K ts False) x) (\<lambda>y q.
      Suc p < q \<and> q < length ts \<and> trailed_at ts RParen ?E (Suc p) (fst y) (snd y) q) q"
    if "?E (Suc p) x q" "Suc p < q" "q < length ts" for x q
    using that e by (auto intro!: wp_mono [OF paren_items_reads [where p = "Suc p", OF item]])
  have "wp ts (pbind (p_expr K ts False) (\<lambda>e. pbind (paren_items ts (p_expr K ts False) e) ?finish))
      (primary_Q ts b p) (Suc p)"
    unfolding wp_pbind
    by (rule reads_wp [OF item]; (rule wp_mono [OF items]; (assumption | rule finish | simp))?)
      (use assms e in \<open>auto intro: finish\<close>)
  then show ?thesis
    using assms e by (simp add: parse_paren_expr_def wp_spanning wp_advancing)
qed

lemma parse_struct_lit_reads:
  assumes "near n ts p" "q < length ts" "\<not> b"
    and "words_at ts p ([TIdent name] @ (case variant of None \<Rightarrow> [] | Some v \<Rightarrow> [Pt Dot, TIdent v])) q"
  shows "wp ts (parse_struct_lit K ts (span_at ts p) name variant) (primary_Q ts b p) q"
proof -
  have w: "words_at ts p ([TIdent name] @ (case variant of None \<Rightarrow> [] | Some v \<Rightarrow> [Pt Dot, TIdent v]) @ [Pt LBrace]) (Suc q)"
    if "tok_at ts q = Pt LBrace"
    using assms(4) that by (cases variant) auto
  have "p < q" using assms(4) by (cases variant) auto
  then show ?thesis
    unfolding parse_struct_lit_def
    using assms(2,3)
    by (auto simp: wp_simps intro!: wp_mono [OF parse_field_init_list_reads [OF assms(1)]])
      (auto intro: struct_lit w)
qed

lemma parse_name_expr_reads:
  assumes "near n ts p" "tok_at ts p = TIdent name"
  shows "wp ts (parse_name_expr K ts b name) (primary_Q ts b p) p"
  unfolding parse_name_expr_def
  using assms near_ended [OF assms(1)] ident [of ts p name]
  by (auto simp: wp_simps intro!: parse_struct_lit_reads)


lemmas literals = int [simplified] float [simplified] str [simplified] bool [simplified] null [simplified]

lemma literal_reads:
  assumes "near n ts p" "tok_at ts p \<noteq> Eof" "primary_at num flt ts b p (Sp e (span_at ts p)) (Suc p)"
  shows "wp ts (literal ts e) (primary_Q ts b p) p"
  using assms next_token_before [OF near_ended(1) [OF assms(1)] assms(2)] by (simp add: literal_def wp_simps)

lemma html_reads:
  assumes "near n ts p" "tok_at ts p = THtmlLit parts"
  shows "wp ts (spanning ts (\<lambda>s. advancing ts
             (pbind (parse_html_parts K s parts) (\<lambda>xs. preturn (Sp (HtmlLit xs) s))))) (primary_Q ts b p) p"
proof -
  note e = near_ended [OF assms(1)]
  have t: "tk_kind (ts ! p) = THtmlLit parts" using assms(2) e by (simp add: tok_at_def)
  have "token_weight (ts ! p) \<le> Suc n"
    using assms(1) e weight_Suc [of p ts] by (simp add: near_def)
  then have "sum_list (map part_weight parts) \<le> n" using t by (cases "ts ! p") simp
  with assms e show ?thesis
    by (auto simp: wp_simps intro!: wp_mono [OF parse_html_parts_reads] intro: html [simplified])
qed

lemma parse_brace_reads:
  assumes "near n ts p" "tok_at ts p = Pt LBrace" "\<not> b"
  shows "wp ts (spanning ts (\<lambda>start. peeking_at ts 1 (\<lambda>c1.
             if \<exists>s. c1 = TStr s then
               pbind (parse_map_lit_fields K ts) (\<lambda>fs.
                 prev_span ts (\<lambda>end_span. preturn (Sp (MapLit fs) (merge start end_span))))
             else parse_struct_lit K ts start [] None))) (primary_Q ts b p) p"
  unfolding parse_struct_lit_def
  using assms near_ended [OF assms(1)]
  by (auto simp: wp_simps intro!: wp_mono [OF parse_map_lit_fields_reads [OF assms(1)]]
      wp_mono [OF parse_field_init_list_reads [OF assms(1)]])
    (auto intro: map_lit anonymous)

lemma parse_primary_expr_reads:
  assumes "near n ts p"
  shows "wp ts (parse_primary_expr K ts b) (primary_Q ts b p) p"
proof (cases "tok_at ts p")
  case (Kw w)
  then show ?thesis
    using near_ended [OF assms] literal_reads [OF assms, of b]
      bool [of ts p True num flt b] bool [of ts p False num flt b] null [of ts p num flt b]
    by (cases w) (simp_all add: parse_primary_expr_def wp_simps)
next
  case (Pt c)
  then show ?thesis
    using near_ended [OF assms] parse_array_reads [OF assms] parse_paren_expr_reads [OF assms]
      parse_closure_expr_reads [OF assms, of b] parse_brace_reads [OF assms, of b]
    by (cases c) (auto simp: parse_primary_expr_def wp_peeking wp_advancing wp_pfail empty_closure_error_def
      reads_def spanned_def)
next
  case (TIdent name)
  then show ?thesis
    using parse_name_expr_reads [OF assms] by (simp add: parse_primary_expr_def wp_peeking)
next
  case (THtmlLit parts)
  then show ?thesis
    using html_reads [OF assms] by (simp add: parse_primary_expr_def wp_peeking)
qed (use near_ended [OF assms] in
    \<open>auto simp: parse_primary_expr_def wp_peeking wp_pfail floats intro!: literal_reads [OF assms] literals\<close>)

section \<open>Operators\<close>

lemma postfix_step_reads:
  assumes "near n ts p" "p < q" "q < length ts" "postfix_at num flt ts b p x q" "span_of x = over ts p q"
  shows "wp ts (postfix_step K ts x)
    (\<lambda>r q'. case r of
        Inl y \<Rightarrow> q < q' \<and> q' < length ts \<and> spanned ts (postfix_at num flt ts b) p y q'
      | Inr y \<Rightarrow> q \<le> q' \<and> q' < length ts \<and> spanned ts (postfix_at num flt ts b) p y q') q" (is "wp ts _ ?Q q")
proof -
  note e = near_ended [OF assms(1)]
  let ?E = "expr_at num flt ts False"
  have item: "reads ts (p_expr K ts False) ?E r" if "p < r" "r < length ts" for r
    using expr_call [OF assms(1) that, of False] by (auto simp: reads_def spanned_def elim: wp_mono)
  have args: "wp ts (peeking ts (\<lambda>d.
        if d = Pt RParen then preturn []
        else pbind (p_expr K ts False) (\<lambda>a. separated ts Comma (p_expr K ts False) [a])))
      (\<lambda>as r. Suc q \<le> r \<and> r < length ts \<and> (if tok_at ts (Suc q) = Pt RParen then as = [] \<and> r = Suc q
        else sep_at ts Comma ?E (Suc q) as r)) (Suc q)"
    if "tok_at ts q = Pt LParen"
    using that e assms(2)
    by (auto simp: wp_simps intro!: reads_wp [OF item] sep_at.one
        wp_mono [OF separated_reads [where p = "Suc q" and R = ?E]] item)
  have dot: "wp ts (peeking ts (\<lambda>d.
       case d of
         TInt n \<Rightarrow>
           advancing ts (if n < 0 then pfail ts BadTupleIndex
             else prev_span ts (\<lambda>s. again (Sp (TupleIndex x (nat n)) (merge (span_of x) s))))
       | _ \<Rightarrow>
           pbind (eat_field_name ts) (\<lambda>f.
             prev_span ts (\<lambda>s. again (Sp (FieldAccess x f) (merge (span_of x) s)))))) ?Q (Suc q)"
    if c: "tok_at ts q = Pt Dot"
  proof (cases "tok_at ts (Suc q)")
    case (TInt m)
    have "tok_at ts (Suc q) = TInt (int (nat m))" if "0 \<le> m" using TInt that by simp
    then have "postfix_at num flt ts b p (Sp (TupleIndex x (nat m)) (over ts p (Suc (Suc q)))) (Suc (Suc q))" if "0 \<le> m"
      using c that by (intro tuple_index [OF assms(4)]) simp
    with TInt c assms e show ?thesis by (simp add: wp_simps spanned_def)
  qed (use c assms e in \<open>auto simp: wp_simps spanned_def intro!: reads_wp [OF eat_field_name_reads] access [OF assms(4)]\<close>)
  have called: "wp ts (pbind (peeking ts (\<lambda>d.
        if d = Pt RParen then preturn []
        else pbind (p_expr K ts False) (\<lambda>a. separated ts Comma (p_expr K ts False) [a])))
      (\<lambda>args. eat ts (Pt RParen) (prev_span ts (\<lambda>s. again (Sp (Call x args) (merge (span_of x) s)))))) ?Q (Suc q)"
    if c: "tok_at ts q = Pt LParen"
    unfolding wp_pbind [of _ "peeking _ _"]
    by (rule wp_mono [OF args [OF c]])
      (use assms e c in \<open>auto simp: wp_simps spanned_def split: if_splits intro: call_none [OF assms(4)] call [OF assms(4)]\<close>)
  have indexed: "wp ts (pbind (p_expr K ts False) (\<lambda>i. eat ts (Pt RBracket)
      (prev_span ts (\<lambda>s. again (Sp (Index x i) (merge (span_of x) s)))))) ?Q (Suc q)"
    if "tok_at ts q = Pt LBracket"
    using that assms e
    by (auto simp: wp_simps spanned_def intro!: reads_wp [OF item] intro: index [OF assms(4)])
  have stopped: "wp ts (stop x) ?Q q"
    using assms by (simp add: wp_stop spanned_def)
  show ?thesis
  proof (cases "tok_at ts q")
    case (Pt c)
    then show ?thesis
      unfolding postfix_step_def wp_peeking [of _ _ "case_token_kind _ _ _ _ _ _ _ _"]
      using e dot called indexed stopped
      by (cases c) (simp_all add: wp_advancing)
  qed (use assms e in \<open>simp_all add: postfix_step_def wp_peeking wp_stop spanned_def\<close>)
qed

lemma parse_postfix_expr_reads:
  assumes "near n ts p"
  shows "reads ts (parse_postfix_expr K ts b) (spanned ts (postfix_at num flt ts b)) p"
    unfolding reads_def parse_postfix_expr_def wp_pbind
  by (rule wp_mono [OF parse_primary_expr_reads [OF assms]], rule grow_loop)
   (auto simp: spanned_def intro: primary wp_mono [OF postfix_step_reads [OF assms]])

lemma parse_unary_expr_reads:
  assumes "near n ts p"
  shows "reads ts (parse_unary_expr K ts b) (spanned ts (operand_at num flt ts b 7)) p"
proof -
  note e = near_ended [OF assms]
  have signed: "wp ts (spanning ts (\<lambda>start. advancing ts (pbind (p_unary K ts b) (\<lambda>e.
      preturn (Sp (Unary op e) (merge start (span_of e)))))))
      (\<lambda>x q. p < q \<and> q < length ts \<and> spanned ts (operand_at num flt ts b 7) p x q) p"
    if "tok_at ts p = Pt (case op of OpNeg \<Rightarrow> Minus | OpNot \<Rightarrow> Bang)" for op
    using e that
    by (auto simp: wp_simps spanned_def intro!: reads_wp [OF unary_call [OF assms]] intro: negation)
  have plain: "wp ts (parse_postfix_expr K ts b)
      (\<lambda>x q. p < q \<and> q < length ts \<and> spanned ts (operand_at num flt ts b 7) p x q) p"
    using parse_postfix_expr_reads [OF assms, of b]
    by (auto simp: reads_def spanned_def elim!: wp_mono intro: postfix)
  show ?thesis
    unfolding reads_def parse_unary_expr_def wp_peeking
  proof (cases "tok_at ts p")
    case (Pt c)
    then show "wp ts (let op = case tok_at ts p of Pt Bang \<Rightarrow> Some OpNot | Pt Minus \<Rightarrow> Some OpNeg | _ \<Rightarrow> None
        in case op of
            Some op \<Rightarrow>
              spanning ts (\<lambda>start. advancing ts (pbind (p_unary K ts b) (\<lambda>e.
                preturn (Sp (Unary op e) (merge start (span_of e))))))
          | None \<Rightarrow> parse_postfix_expr K ts b)
        (\<lambda>x q. p < q \<and> q < length ts \<and> spanned ts (operand_at num flt ts b 7) p x q) p"
      using plain signed [of OpNot] signed [of OpNeg] by (cases c) simp_all
  qed (use plain in simp_all)
qed

lemma left_assoc_reads:
  assumes "ended ts" "p < length ts"
    and operand: "\<And>q. p \<le> q \<Longrightarrow> q < length ts \<Longrightarrow> reads ts m (spanned ts (operand_at num flt ts b (Suc k))) q"
    and ops: "\<And>c op. op_of c = Some op \<Longrightarrow> c = Pt (op_token op) \<and> level op = k"
  shows "reads ts (left_assoc ts op_of m) (spanned ts (operand_at num flt ts b k)) p"
proof -
  have step: "wp ts (peeking ts (\<lambda>c.
         case op_of c of
           None \<Rightarrow> stop l
         | Some op \<Rightarrow>
             advancing ts (pbind m (\<lambda>right.
               again (Sp (Binary op l right) (merge (span_of l) (span_of right)))))))
      (\<lambda>r q'. case r of
        Inl y \<Rightarrow> q < q' \<and> q' < length ts \<and> spanned ts (operand_at num flt ts b k) p y q'
      | Inr y \<Rightarrow> q \<le> q' \<and> q' < length ts \<and> spanned ts (operand_at num flt ts b k) p y q') q"
    if l: "spanned ts (operand_at num flt ts b k) p l q" "p < q" "q < length ts" for l q
  proof (cases "op_of (tok_at ts q)")
    case (Some op)
    then have op: "tok_at ts q = Pt (op_token op)" "level op = k" using ops by simp_all
    show ?thesis
      using Some op l assms(1) binary [of num flt ts b op p l q]
      by (auto simp: wp_simps spanned_def intro!: reads_wp [OF operand])
  qed (use l in \<open>simp add: wp_simps\<close>)
  show ?thesis
    unfolding reads_def left_assoc_def wp_pbind
    by (rule reads_wp [OF operand], use assms in simp, use assms in simp, rule grow_loop; (rule step)?)
      (auto simp: spanned_def intro: tighter)
qed

lemma level_ops:
  "multiplicative_op c = Some op \<Longrightarrow> c = Pt (op_token op) \<and> level op = 6"
  "additive_op c = Some op \<Longrightarrow> c = Pt (op_token op) \<and> level op = 5"
  "relational_op c = Some op \<Longrightarrow> c = Pt (op_token op) \<and> level op = 4"
  "equality_op c = Some op \<Longrightarrow> c = Pt (op_token op) \<and> level op = 3"
  "and_op c = Some op \<Longrightarrow> c = Pt (op_token op) \<and> level op = 2"
  "or_op c = Some op \<Longrightarrow> c = Pt (op_token op) \<and> level op = 1"
  "coalesce_op c = Some op \<Longrightarrow> c = Pt (op_token op) \<and> level op = 0"
  by (auto simp: multiplicative_op_def additive_op_def relational_op_def equality_op_def and_op_def or_op_def
      coalesce_op_def split: token_kind.splits punct.splits)

lemma levels_read:
  assumes "near n ts p"
  shows "reads ts (parse_multiplicative_expr K ts b) (spanned ts (operand_at num flt ts b 6)) p"
    and "reads ts (parse_additive_expr K ts b) (spanned ts (operand_at num flt ts b 5)) p"
    and "reads ts (parse_relational_expr K ts b) (spanned ts (operand_at num flt ts b 4)) p"
    and "reads ts (parse_equality_expr K ts b) (spanned ts (operand_at num flt ts b 3)) p"
    and "reads ts (parse_and_expr K ts b) (spanned ts (operand_at num flt ts b 2)) p"
    and "reads ts (parse_or_expr K ts b) (spanned ts (operand_at num flt ts b 1)) p"
    and "reads ts (parse_coalesce_expr K ts b) (spanned ts (operand_at num flt ts b 0)) p"
proof -
  have later: "near n ts q" "ended ts" if "near n ts p" "p \<le> q" "q < length ts" for p q
    using that near_ended by (auto intro: near_later)
  have mul: "reads ts (parse_multiplicative_expr K ts b) (spanned ts (operand_at num flt ts b 6)) p" if "near n ts p" for p
    unfolding parse_multiplicative_expr_def using near_ended [OF that] parse_unary_expr_reads near_later [OF that]
    by (intro left_assoc_reads level_ops) auto
  have add: "reads ts (parse_additive_expr K ts b) (spanned ts (operand_at num flt ts b 5)) p" if "near n ts p" for p
    unfolding parse_additive_expr_def using near_ended [OF that] mul near_later [OF that]
    by (intro left_assoc_reads level_ops) auto
  have rel: "reads ts (parse_relational_expr K ts b) (spanned ts (operand_at num flt ts b 4)) p" if "near n ts p" for p
    unfolding parse_relational_expr_def using near_ended [OF that] add near_later [OF that]
    by (intro left_assoc_reads level_ops) auto
  have eq: "reads ts (parse_equality_expr K ts b) (spanned ts (operand_at num flt ts b 3)) p" if "near n ts p" for p
    unfolding parse_equality_expr_def using near_ended [OF that] rel near_later [OF that]
    by (intro left_assoc_reads level_ops) auto
  have conj: "reads ts (parse_and_expr K ts b) (spanned ts (operand_at num flt ts b 2)) p" if "near n ts p" for p
    unfolding parse_and_expr_def using near_ended [OF that] eq near_later [OF that]
    by (intro left_assoc_reads level_ops) auto
  have disj: "reads ts (parse_or_expr K ts b) (spanned ts (operand_at num flt ts b 1)) p" if "near n ts p" for p
    unfolding parse_or_expr_def using near_ended [OF that] conj near_later [OF that]
    by (intro left_assoc_reads level_ops) (auto simp: numeral_2_eq_2)
  have coalesce: "reads ts (parse_coalesce_expr K ts b) (spanned ts (operand_at num flt ts b 0)) p" if "near n ts p" for p
    unfolding parse_coalesce_expr_def using near_ended [OF that] disj near_later [OF that]
    by (intro left_assoc_reads level_ops) auto
  show "reads ts (parse_multiplicative_expr K ts b) (spanned ts (operand_at num flt ts b 6)) p"
    "reads ts (parse_additive_expr K ts b) (spanned ts (operand_at num flt ts b 5)) p"
    "reads ts (parse_relational_expr K ts b) (spanned ts (operand_at num flt ts b 4)) p"
    "reads ts (parse_equality_expr K ts b) (spanned ts (operand_at num flt ts b 3)) p"
    "reads ts (parse_and_expr K ts b) (spanned ts (operand_at num flt ts b 2)) p"
    "reads ts (parse_or_expr K ts b) (spanned ts (operand_at num flt ts b 1)) p"
    "reads ts (parse_coalesce_expr K ts b) (spanned ts (operand_at num flt ts b 0)) p"
    using assms by (rule mul add rel eq conj disj coalesce)+
qed

section \<open>Expressions with blocks\<close>

lemma cond_reads:
  assumes "near n ts s" "s \<le> p" "p < length ts"
  shows "reads ts (parse_coalesce_expr K ts b) (spanned ts (operand_at num flt ts b 0)) p"
  by (rule levels_read) (rule near_later [OF assms])

lemma parse_match_arm_reads:
  assumes "near n ts p"
  shows "reads ts (parse_match_arm K ts) (arm_at num flt ts) p"
proof -
  note e = near_ended [OF assms]
  let ?Q = "\<lambda>x q. p < q \<and> q < length ts \<and> arm_at num flt ts p x q"
  have guard: "wp ts (if_token ts (Kw KIf) (pbind (parse_coalesce_expr K ts True) (\<lambda>g. preturn (Some g))) (preturn None))
      (\<lambda>g r. q \<le> r \<and> r < length ts \<and> guard_at num flt ts q g r) q"
    if "p < q" "q < length ts" for q
    using that e
    by (auto simp: wp_simps spanned_def intro!: reads_wp [OF cond_reads [OF assms]] intro: no_guard guard)
  have rest: "wp ts (peeking ts (\<lambda>c.
        if c = Pt LBrace then
          pbind (p_block K ts) (\<lambda>body.
            let arm = MatchArm pat g (ArmBlock body) (merge (span_at ts p) (block_span body))
            in if_token ts (Pt Comma) (preturn arm) (preturn arm))
        else
          pbind (p_expr K ts False) (\<lambda>x.
            let arm = MatchArm pat g (ArmExpr x) (merge (span_at ts p) (span_of x))
            in peeking ts (\<lambda>d.
                 if d \<noteq> Pt RBrace then eat ts (Pt Comma) (preturn arm) else preturn arm)))) ?Q (Suc r)"
    if h: "pattern_at num flt ts p pat q" "guard_at num flt ts q g r" "tok_at ts r = Pt FatArrow" "p < r" for pat g q r
    using that e arm_block [OF h(1-3), of _ _ True] arm_block [OF h(1-3), of _ _ False]
      arm_expr [OF h(1-3), of _ _ True] arm_expr [OF h(1-3), of _ _ False]
    by (auto simp: wp_simps Let_def spanned_def spanned_block_def intro!: below [OF assms])
  show ?thesis
    unfolding reads_def parse_match_arm_def wp_spanning wp_pbind [of _ "parse_pattern _ _"]
  proof (rule reads_wp [OF parse_pattern_reads [OF assms]])
    fix pat q
    assume q: "p < q" "q < length ts" "pattern_at num flt ts p pat q"
    show "wp ts (pbind (if_token ts (Kw KIf) (pbind (parse_coalesce_expr K ts True) (\<lambda>g. preturn (Some g))) (preturn None))
        (\<lambda>guard. eat ts (Pt FatArrow) (peeking ts (\<lambda>c.
          if c = Pt LBrace then
            pbind (p_block K ts) (\<lambda>b.
              let arm = MatchArm pat guard (ArmBlock b) (merge (span_at ts p) (block_span b))
              in if_token ts (Pt Comma) (preturn arm) (preturn arm))
          else
            pbind (p_expr K ts False) (\<lambda>e.
              let arm = MatchArm pat guard (ArmExpr e) (merge (span_at ts p) (span_of e))
              in peeking ts (\<lambda>d. if d \<noteq> Pt RBrace then eat ts (Pt Comma) (preturn arm) else preturn arm)))))) ?Q q"
      unfolding wp_pbind [of _ "if_token _ _ _ _"]
      by (rule wp_mono [OF guard]) (use q e rest [OF q(3)] in \<open>auto simp: wp_eat\<close>)
  qed
qed

lemma parse_match_expr_reads:
  assumes "near n ts p"
  shows "reads ts (parse_match_expr K ts) (spanned ts (expr_at num flt ts b)) p"
proof -
  note e = near_ended [OF assms]
  have arms: "wp ts (ploop (length ts) (\<lambda>arms. peeking ts (\<lambda>c.
        if c \<noteq> Pt RBrace then pbind (parse_match_arm K ts) (\<lambda>arm. again (arms @ [arm])) else stop arms)) [])
      (\<lambda>arms r. q \<le> r \<and> r < length ts \<and> seq_at (arm_at num flt ts) q arms r) q"
    if "p \<le> q" "q < length ts" for q
    by (rule seq_loop [where R = "arm_at num flt ts"])
      (use that in \<open>auto simp: wp_simps intro!: reads_wp [OF parse_match_arm_reads] near_later [OF assms]\<close>)
  show ?thesis
    unfolding reads_def parse_match_expr_def
    using e
    by (auto simp: wp_simps spanned_def intro!: below [OF assms] wp_mono [OF arms])
      (auto intro: match)
qed

lemma parse_if_expr_reads:
  assumes "near n ts p"
  shows "reads ts (parse_if_expr K ts) (spanned ts (expr_at num flt ts b)) p"
proof -
  note e = near_ended [OF assms]
  have others: "wp ts (peeking ts (\<lambda>c.
        if c = Kw KIf then pbind (p_if K ts) (\<lambda>nested. preturn (Block [] (Some nested) (span_of nested)))
        else p_block K ts))
      (\<lambda>body r. q < r \<and> r < length ts \<and> else_at num flt ts q body r) q"
    if "p < q" "q < length ts" for q
    using that else_if [of ts q num flt]
    by (auto simp: wp_simps spanned_def spanned_block_def
        intro!: reads_wp [OF if_call [OF assms]] below [OF assms] intro: else_block)
  show ?thesis
    unfolding reads_def parse_if_expr_def
    using e
    by (auto simp: wp_spanning wp_eat wp_pbind wp_prev_span wp_preturn spanned_def spanned_block_def
        intro!: reads_wp [OF cond_reads [OF assms]] below [OF assms] wp_mono [OF others] if_else)
qed

lemma parse_transaction_expr_reads:
  assumes "near n ts p"
  shows "reads ts (parse_transaction_expr K ts) (spanned ts (expr_at num flt ts b)) p"
  unfolding reads_def parse_transaction_expr_def
  using near_ended [OF assms]
  by (auto simp: wp_simps spanned_def spanned_block_def intro!: below [OF assms] intro: transaction)

lemma parse_expr_ctx_reads:
  assumes "near n ts p"
  shows "reads ts (parse_expr_ctx K ts b) (spanned ts (expr_at num flt ts b)) p"
  using parse_match_expr_reads [OF assms, of b] parse_if_expr_reads [OF assms, of b]
    parse_transaction_expr_reads [OF assms, of b] levels_read(7) [OF assms, of b]
  by (auto simp: reads_def parse_expr_ctx_def wp_peeking spanned_def elim: wp_mono intro: operators)

section \<open>Statements\<close>

lemma parse_let_stmt_reads:
  assumes "near n ts p"
  shows "reads ts (parse_let_stmt K ts) (stmt_at num flt ts) p"
proof -
  note e = near_ended [OF assms]
  have mutable: "wp ts (if_token ts (Kw KMut) (preturn True) (preturn False))
      (\<lambda>m q. q = (if m then Suc (Suc p) else Suc p) \<and> q < length ts \<and> (m \<longrightarrow> tok_at ts (Suc p) = Kw KMut)) (Suc p)"
    if "Suc p < length ts"
    using that e by (simp add: wp_simps)
  have typed: "wp ts (if_token ts (Pt Colon) (pbind (p_type K ts) (\<lambda>t. preturn (Some t))) (preturn None))
      (\<lambda>t r. q \<le> r \<and> r < length ts \<and> (case t of None \<Rightarrow> r = q
         | Some t \<Rightarrow> tok_at ts q = Pt Colon \<and> type_at num flt ts (Suc q) t r)) q"
    if "p < q" "q < length ts" for q
    using that e by (auto simp: wp_simps intro!: below [OF assms])
  show ?thesis
    unfolding reads_def parse_let_stmt_def
    using e
    by (auto simp: wp_spanning wp_eat wp_eat_ident wp_pbind wp_prev_span wp_preturn spanned_def
        intro!: wp_mono [OF mutable] wp_mono [OF typed] below [OF assms] split: token_kind.split option.splits)
      (auto intro: let_stmt [where mutable = True] let_stmt [where mutable = False]
        typed_let [where mutable = True] typed_let [where mutable = False] split: if_splits)
qed

lemma parse_return_stmt_reads:
  assumes "near n ts p"
  shows "reads ts (parse_return_stmt K ts) (stmt_at num flt ts) p"
  unfolding reads_def parse_return_stmt_def
  using near_ended [OF assms] return_none [of ts p "Suc (Suc p)" num flt]
  by (auto simp: wp_simps spanned_def intro!: below [OF assms])
    (auto intro: return)

lemma parse_while_stmt_reads:
  assumes "near n ts p"
  shows "reads ts (parse_while_stmt K ts) (stmt_at num flt ts) p"
  unfolding reads_def parse_while_stmt_def
  using near_ended [OF assms]
  by (auto simp: wp_simps spanned_def spanned_block_def
      intro!: reads_wp [OF cond_reads [OF assms]] below [OF assms] while)

lemma parse_for_stmt_reads:
  assumes "near n ts p"
  shows "reads ts (parse_for_stmt K ts) (stmt_at num flt ts) p"
  unfolding reads_def parse_for_stmt_def
  using near_ended [OF assms]
  by (auto simp: wp_simps spanned_def spanned_block_def split: token_kind.split
      intro!: reads_wp [OF cond_reads [OF assms]] below [OF assms])
    (auto intro: for_list for_range)

lemma parse_assign_stmt_reads:
  assumes "near n ts p" "tok_at ts p = TIdent name" "tok_at ts (Suc p) = Pt Equals"
  shows "reads ts (parse_assign_stmt K ts name) (stmt_at num flt ts) p"
  unfolding reads_def parse_assign_stmt_def
  using assms near_ended [OF assms(1)]
  by (auto simp: wp_simps spanned_def intro!: below [OF assms(1)])
    (auto intro: assign)

text \<open>A round of the loop of a block adds a statement or ends with the tail.\<close>

abbreviation stmt_Q :: "token list \<Rightarrow> nat \<Rightarrow> statements \<Rightarrow> (statements + statements \<times> sexpr option) \<Rightarrow> nat \<Rightarrow> bool" where
  "stmt_Q ts p ss r q \<equiv> (case r of
     Inl ss' \<Rightarrow> p < q \<and> q < length ts \<and> (\<exists>s. ss' = ss @ [s] \<and> stmt_at num flt ts p s q)
   | Inr y \<Rightarrow> p \<le> q \<and> q < length ts \<and> fst y = ss \<and> tail_at num flt ts p (snd y) q)"

lemma push_reads:
  assumes "reads ts m (stmt_at num flt ts) p"
  shows "wp ts (pbind m (\<lambda>s. again (ss @ [s]))) (stmt_Q ts p ss) p"
  by (auto simp: wp_pbind wp_again intro!: reads_wp [OF assms])

lemma parse_bare_struct_reads:
  assumes "near n ts p"
  shows "reads ts (parse_bare_struct K ts) (\<lambda>p e. tail_at num flt ts p (Some e)) p"
  unfolding reads_def parse_bare_struct_def
  using near_ended [OF assms]
  by (auto simp: wp_pbind wp_prev_span wp_preturn intro!: reads_wp [OF parse_field_init_reads [OF assms]]
      wp_mono [OF more_items_reads [where R = "init_at num flt ts" and p = p]] parse_field_init_reads [OF assms])
    (auto intro: tail_struct [simplified])

lemma expr_stmt_reads:
  assumes "near n ts s" "s < p" "p < length ts"
  shows "wp ts (pbind (p_expr K ts False) (\<lambda>e. if_token ts (Pt Semi) (again (ss @ [(ExprStmt e, span_of e)]))
      (stop (ss, Some e)))) (stmt_Q ts p ss) p"
    and "tok_at ts p \<in> Kw ` {KIf, KMatch, KTransaction} \<Longrightarrow>
      wp ts (pbind (p_expr K ts False) (\<lambda>e. peeking ts (\<lambda>d.
        if d = Pt RBrace then stop (ss, Some e)
        else if_token ts (Pt Semi) (again (ss @ [(ExprStmt e, span_of e)])) (again (ss @ [(ExprStmt e, span_of e)])))))
      (stmt_Q ts p ss) p"
proof -
  note e = near_ended [OF assms(1)]
  show "wp ts (pbind (p_expr K ts False) (\<lambda>e. if_token ts (Pt Semi) (again (ss @ [(ExprStmt e, span_of e)]))
      (stop (ss, Some e)))) (stmt_Q ts p ss) p"
    using assms e by (auto simp: wp_simps spanned_def intro!: below [OF assms(1)] intro: expr_stmt tail)
  show "wp ts (pbind (p_expr K ts False) (\<lambda>e. peeking ts (\<lambda>d.
        if d = Pt RBrace then stop (ss, Some e)
        else if_token ts (Pt Semi) (again (ss @ [(ExprStmt e, span_of e)])) (again (ss @ [(ExprStmt e, span_of e)])))))
      (stmt_Q ts p ss) p" if "tok_at ts p \<in> Kw ` {KIf, KMatch, KTransaction}"
    using assms e block_stmt [OF that]
    by (auto simp: wp_simps spanned_def intro!: below [OF assms(1)] intro: expr_stmt tail)
qed

lemma parse_stmt_reads:
  assumes "near n ts s" "s < p" "p < length ts"
  shows "wp ts (parse_stmt K ts ss) (stmt_Q ts p ss) p"
proof -
  have p: "near n ts p" using near_later [OF assms(1)] assms by simp
  note kinds = push_reads [OF parse_let_stmt_reads [OF p]] push_reads [OF parse_return_stmt_reads [OF p]]
    push_reads [OF parse_while_stmt_reads [OF p]] push_reads [OF parse_for_stmt_reads [OF p]]
  note exprs = expr_stmt_reads [OF assms, of ss]
  have bare: "wp ts (pbind (parse_bare_struct K ts) (\<lambda>e. stop (ss, Some e))) (stmt_Q ts p ss) p"
    by (auto simp: wp_simps intro!: reads_wp [OF parse_bare_struct_reads [OF p]])
  show ?thesis
  proof (cases "tok_at ts p")
    case (Kw w)
    then show ?thesis
      using kinds exprs by (cases w) (simp_all add: parse_stmt_def Let_def wp_peeking wp_peeking_at)
  next
    case (Pt c)
    then show ?thesis
      using exprs assms no_tail [of num flt ts p]
      by (cases c) (simp_all add: parse_stmt_def Let_def wp_peeking wp_peeking_at wp_stop)
  next
    case (TIdent name)
    then show ?thesis
      using exprs bare push_reads [OF parse_assign_stmt_reads [OF p TIdent]]
      by (simp add: parse_stmt_def Let_def wp_peeking wp_peeking_at)
  qed (use exprs in \<open>simp_all add: parse_stmt_def Let_def wp_peeking wp_peeking_at\<close>)
qed

lemma parse_block_reads:
  assumes "near n ts p"
  shows "reads ts (parse_block K ts) (spanned_block ts (block_at num flt ts)) p"
proof -
  note e = near_ended [OF assms]
  have body: "wp ts (ploop (length ts) (parse_stmt K ts) [])
      (\<lambda>y r. \<exists>q. Suc p \<le> r \<and> r < length ts \<and> seq_at (stmt_at num flt ts) (Suc p) (fst y) q \<and>
        tail_at num flt ts q (snd y) r) (Suc p)"
    if "Suc p < length ts"
  proof (rule seq_loop [where R = "stmt_at num flt ts"])
    fix ss q
    assume "seq_at (stmt_at num flt ts) (Suc p) ss q" "Suc p \<le> q" "q < length ts"
    then show "wp ts (parse_stmt K ts ss) (\<lambda>r q'. case r of
        Inl ys \<Rightarrow> q < q' \<and> q' < length ts \<and> (\<exists>x. ys = ss @ [x] \<and> stmt_at num flt ts q x q')
      | Inr y \<Rightarrow> \<exists>q. Suc p \<le> q' \<and> q' < length ts \<and> seq_at (stmt_at num flt ts) (Suc p) (fst y) q \<and>
          tail_at num flt ts q (snd y) q') q"
      by (intro wp_mono [OF parse_stmt_reads [OF assms]]) (auto split: sum.splits)
  qed (fact that)
  show ?thesis
    unfolding reads_def parse_block_def
    using e
    by (auto simp: wp_spanning wp_eat wp_pbind wp_prev_span wp_preturn spanned_block_def intro!: wp_mono [OF body])
      (auto intro: block)
qed

end

section \<open>The knot\<close>

text \<open>A knot that is as deep as the weight of what is left reads every phrase.\<close>

lemma weight_pos: "p < length ts \<Longrightarrow> 0 < weight ts p"
  using weight_Suc [of p ts] token_weight_pos [of "ts ! p"] by simp

lemma knot_reads: "reading_parsers num flt (parsers_of num flt n) n"
proof (induction n)
  case 0
  then show ?case
    by unfold_locales (use weight_pos in \<open>fastforce simp: parsers_of_floats\<close>)+
next
  case (Suc n)
  show ?case
  proof
    fix ts p b
    assume "ended ts" "p < length ts" "weight ts p \<le> Suc n"
    then have "near n ts p" by (simp add: near_def)
    note steps = reading_parsers.parse_type_expr_reads [OF Suc.IH this] reading_parsers.parse_expr_ctx_reads [OF Suc.IH this]
      reading_parsers.parse_unary_expr_reads [OF Suc.IH this] reading_parsers.parse_if_expr_reads [OF Suc.IH this]
      reading_parsers.parse_block_reads [OF Suc.IH this] reading_parsers.parse_pattern_reads [OF Suc.IH this]
    show "reads ts (p_type (parsers_of num flt (Suc n)) ts) (type_at num flt ts) p"
      "reads ts (p_expr (parsers_of num flt (Suc n)) ts b) (spanned ts (expr_at num flt ts b)) p"
      "reads ts (p_unary (parsers_of num flt (Suc n)) ts b) (spanned ts (operand_at num flt ts b 7)) p"
      "reads ts (p_if (parsers_of num flt (Suc n)) ts) (spanned ts (expr_at num flt ts b)) p"
      "reads ts (p_block (parsers_of num flt (Suc n)) ts) (spanned_block ts (block_at num flt ts)) p"
      "reads ts (p_pattern (parsers_of num flt (Suc n)) ts) (pattern_at num flt ts) p"
      by (simp_all add: parsers_of_Suc steps)
  qed (simp_all add: parsers_of_floats)
qed

interpretation knot: reading_parsers num flt "parsers_of num flt n" n
  for num flt n
  by (rule knot_reads)

end
