(* ===== verification/ItemGrammar.thy ===== *)
theory ItemGrammar
  imports LinkGrammar
begin

text \<open>
  The grammar of declarations (\<open>GRAMMAR.md\<close>, section 2) over the positions of a token list:
  annotations, services and the items of a file.
\<close>

section \<open>Names\<close>

definition ident_at :: "token list \<Rightarrow> string phrase" where
  "ident_at ts p x q \<longleftrightarrow> tok_at ts p = TIdent x \<and> q = Suc p"

inductive type_params_at :: "token list \<Rightarrow> string list phrase" for ts where
  none: "type_params_at ts p [] p"
| some: "tok_at ts p = Pt Lt \<Longrightarrow> sep_at ts Comma (ident_at ts) (Suc p) xs q \<Longrightarrow> tok_at ts q = Pt Gt \<Longrightarrow>
    type_params_at ts p xs (Suc q)"

section \<open>Annotations\<close>

inductive where_at :: "(int \<Rightarrow> 64 word) \<Rightarrow> (string \<Rightarrow> 64 word) \<Rightarrow> token list \<Rightarrow> sexpr option phrase"
  for num flt ts where
  none: "where_at num flt ts p None p"
| some: "tok_at ts p = TIdent ''where'' \<Longrightarrow> operand_at num flt ts False 1 (Suc p) e q \<Longrightarrow>
    where_at num flt ts p (Some e) q"

inductive type_annotation_at :: "(int \<Rightarrow> 64 word) \<Rightarrow> (string \<Rightarrow> 64 word) \<Rightarrow> token list \<Rightarrow> type_annotation phrase"
  for num flt ts where
  primary_key: "words_at ts p [Pt At, TIdent ''primaryKey'', Pt LParen] q \<Longrightarrow>
    sep_at ts Comma (ident_at ts) q fs r \<Longrightarrow> tok_at ts r = Pt RParen \<Longrightarrow>
    type_annotation_at num flt ts p (PrimaryKey fs) (Suc r)"
| type_unique: "words_at ts p [Pt At, TIdent ''unique'', Pt LParen] q \<Longrightarrow>
    sep_at ts Comma (ident_at ts) q fs r \<Longrightarrow> tok_at ts r = Pt RParen \<Longrightarrow> where_at num flt ts (Suc r) cond s \<Longrightarrow>
    type_annotation_at num flt ts p (Unique fs cond) s"
| type_index: "words_at ts p [Pt At, TIdent ''index'', Pt LParen] q \<Longrightarrow>
    sep_at ts Comma (ident_at ts) q fs r \<Longrightarrow> tok_at ts r = Pt RParen \<Longrightarrow> where_at num flt ts (Suc r) cond s \<Longrightarrow>
    type_annotation_at num flt ts p (TypeIndex fs cond) s"
| type_check: "words_at ts p [Pt At, TIdent ''check'', Pt LParen] q \<Longrightarrow> operand_at num flt ts False 1 q e r \<Longrightarrow>
    tok_at ts r = Pt RParen \<Longrightarrow> type_annotation_at num flt ts p (Check e) (Suc r)"

text \<open>The annotations of an rpc that have no argument, and those that have a string.\<close>

definition bare_annotation :: "string \<Rightarrow> annotation option" where
  "bare_annotation s = map_of
     [(''authenticated'', Authenticated), (''idempotent'', Idempotent), (''readReplica'', ReadReplica),
      (''background'', annotation.Background), (''notFound'', NotFound), (''csrf'', Csrf), (''rawSql'', RawSql),
      (''startup'', Startup)] s"

definition text_annotation :: "string \<Rightarrow> (string \<Rightarrow> annotation) option" where
  "text_annotation s = map_of
     [(''content_type'', ContentType), (''route'', Route), (''deprecated'', Deprecated),
      (''cache_control'', CacheControl), (''cache'', annotation.Cache), (''cors'', Cors)] s"

definition role_at :: "token list \<Rightarrow> string \<Rightarrow> string phrase" where
  "role_at ts enum p v q \<longleftrightarrow> words_at ts p [TIdent enum, Pt Dot, TIdent v] q"

fun owner_words :: "ownership_clause option \<Rightarrow> token_kind list" where
  "owner_words None = []"
| "owner_words (Some c) =
     [Pt Comma, TIdent ''ownerOf'', Pt Colon, TIdent (collection c),
      Pt Comma, TIdent ''id'', Pt Colon, TIdent (id_param c),
      Pt Comma, TIdent ''field'', Pt Colon, TIdent (owner_field c)]"

definition argument_at :: "(int \<Rightarrow> 64 word) \<Rightarrow> (string \<Rightarrow> 64 word) \<Rightarrow> token list \<Rightarrow> (string \<times> sexpr) phrase" where
  "argument_at num flt ts p x q \<longleftrightarrow>
     words_at ts p [TIdent (fst x), Pt Colon] (Suc (Suc p)) \<and> expr_at num flt ts False (Suc (Suc p)) (snd x) q"

text \<open>The arguments of \<open>@example\<close> come in any order, each at most once.\<close>

inductive rpc_annotation_at :: "(int \<Rightarrow> 64 word) \<Rightarrow> (string \<Rightarrow> 64 word) \<Rightarrow> token list \<Rightarrow> annotation phrase"
  for num flt ts where
  bare: "words_at ts p [Pt At, TIdent name] q \<Longrightarrow> bare_annotation name = Some a \<Longrightarrow>
    rpc_annotation_at num flt ts p a q"
| text_arg: "words_at ts p [Pt At, TIdent name, Pt LParen, TStr s, Pt RParen] q \<Longrightarrow> text_annotation name = Some c \<Longrightarrow>
    rpc_annotation_at num flt ts p (c s) q"
| requires: "words_at ts p [Pt At, TIdent ''requires'', Pt LParen] q \<Longrightarrow> sep_at ts Pipe (role_at ts enum) q vs r \<Longrightarrow>
    words_at ts r (owner_words own) s \<Longrightarrow> tok_at ts s = Pt RParen \<Longrightarrow>
    rpc_annotation_at num flt ts p (Requires enum vs own) (Suc s)"
| rate: "words_at ts p ([Pt At, TIdent ''rate_limit'', Pt LParen, TStr limit] @
      (case k of None \<Rightarrow> [] | Some k \<Rightarrow> [Pt Comma, TIdent ''key'', Pt Colon, TIdent k]) @ [Pt RParen]) q \<Longrightarrow>
    rpc_annotation_at num flt ts p (RateLimit limit k) q"
| cron: "words_at ts p ([Pt At, TIdent ''cron'', Pt LParen, TStr schedule] @
      (case d of None \<Rightarrow> [] | Some d \<Rightarrow> [Pt Comma, TIdent ''initialDelay'', Pt Colon, TStr d]) @ [Pt RParen]) q \<Longrightarrow>
    rpc_annotation_at num flt ts p (Cron schedule d) q"
| example: "words_at ts p [Pt At, TIdent ''example'', Pt LParen] q \<Longrightarrow>
    sep_at ts Comma (argument_at num flt ts) q kvs r \<Longrightarrow> tok_at ts r = Pt RParen \<Longrightarrow>
    distinct (map fst kvs) \<Longrightarrow> set (map fst kvs) \<subseteq> {''request'', ''response''} \<Longrightarrow>
    rpc_annotation_at num flt ts p (Example (map_of kvs ''request'') (map_of kvs ''response'')) (Suc r)"
| invalidates: "words_at ts p [Pt At, TIdent ''invalidates'', Pt LParen] q \<Longrightarrow>
    sep_at ts Comma (ident_at ts) q names r \<Longrightarrow> tok_at ts r = Pt RParen \<Longrightarrow>
    rpc_annotation_at num flt ts p (Invalidates names) (Suc r)"
| infinite: "words_at ts p [Pt At, TIdent ''infinite'', Pt LParen, TIdent c, Pt Comma, TIdent l, Pt RParen] q \<Longrightarrow>
    rpc_annotation_at num flt ts p (Infinite c l) q"

section \<open>Functions and services\<close>

inductive default_at :: "(int \<Rightarrow> 64 word) \<Rightarrow> (string \<Rightarrow> 64 word) \<Rightarrow> token list \<Rightarrow> sexpr option phrase"
  for num flt ts where
  none: "default_at num flt ts p None p"
| some: "tok_at ts p = Pt Equals \<Longrightarrow> expr_at num flt ts False (Suc p) e q \<Longrightarrow> default_at num flt ts p (Some e) q"

inductive param_at :: "(int \<Rightarrow> 64 word) \<Rightarrow> (string \<Rightarrow> 64 word) \<Rightarrow> token list \<Rightarrow> param phrase" for num flt ts where
  param: "words_at ts p [TIdent name, Pt Colon] q \<Longrightarrow> type_at num flt ts q t r \<Longrightarrow> default_at num flt ts r d s \<Longrightarrow>
    param_at num flt ts p \<lparr>param_name = name, param_ty = t, param_default = d, param_span = span_at ts p\<rparr> s"

text \<open>A signature with its body; its fourth part is where the type of its result ends.\<close>

inductive signature_at ::
  "(int \<Rightarrow> 64 word) \<Rightarrow> (string \<Rightarrow> 64 word) \<Rightarrow> token list \<Rightarrow> (string \<times> param list \<times> type_expr \<times> nat \<times> block) phrase"
  for num flt ts where
  signature: "words_at ts p [TIdent name, Pt LParen] q \<Longrightarrow> list_at ts RParen (param_at num flt ts) q ps r \<Longrightarrow>
    words_at ts r [Pt RParen, Pt Arrow] s \<Longrightarrow> type_at num flt ts s t u \<Longrightarrow> block_at num flt ts u body v \<Longrightarrow>
    signature_at num flt ts p (name, ps, t, u, body) v"

inductive rpc_at :: "(int \<Rightarrow> 64 word) \<Rightarrow> (string \<Rightarrow> 64 word) \<Rightarrow> token list \<Rightarrow> keyword \<Rightarrow> rpc_decl phrase" for num flt ts where
  rpc: "seq_at (rpc_annotation_at num flt ts) p anns q \<Longrightarrow> tok_at ts q = Kw w \<Longrightarrow>
    signature_at num flt ts (Suc q) (name, ps, t, u, body) r \<Longrightarrow>
    rpc_at num flt ts w p \<lparr>rpc_name = name, params = ps, return_type = t, rpc_body = body, annotations = anns,
      rpc_doc = leading_doc (ts ! p), rpc_span = over ts p u\<rparr> r"

inductive member_at :: "(int \<Rightarrow> 64 word) \<Rightarrow> (string \<Rightarrow> 64 word) \<Rightarrow> token list \<Rightarrow> member phrase" for num flt ts where
  rpc: "rpc_at num flt ts KRpc p r q \<Longrightarrow> member_at num flt ts p (Rpc r) q"
| stream: "rpc_at num flt ts KStream p r q \<Longrightarrow> member_at num flt ts p (Stream r) q"

section \<open>Items\<close>

text \<open>Models are separated by commas, and one may end them.\<close>

inductive model_at :: "token list \<Rightarrow> ai_model phrase" for ts where
  model: "words_at ts p [TIdent a, Pt Colon, TStr s] q \<Longrightarrow>
    model_at ts p \<lparr>model_alias = a, model_spec = s, model_span = over ts p q\<rparr> q"

inductive variant_at :: "(int \<Rightarrow> 64 word) \<Rightarrow> (string \<Rightarrow> 64 word) \<Rightarrow> token list \<Rightarrow> enum_variant phrase"
  for num flt ts where
  plain: "tok_at ts p = TIdent name \<Longrightarrow> variant_at num flt ts p \<lparr>variant_name = name, variant_fields = None\<rparr> (Suc p)"
| fields: "words_at ts p [TIdent name, Pt LBrace] q \<Longrightarrow> list_at ts RBrace (field_at num flt ts) q fs r \<Longrightarrow>
    tok_at ts r = Pt RBrace \<Longrightarrow> variant_at num flt ts p \<lparr>variant_name = name, variant_fields = Some fs\<rparr> (Suc r)"

inductive item_at :: "(int \<Rightarrow> 64 word) \<Rightarrow> (string \<Rightarrow> 64 word) \<Rightarrow> token list \<Rightarrow> item phrase" for num flt ts where
  import_all: "words_at ts p [Kw KImport, TStr path, Pt Semi] q \<Longrightarrow>
    item_at num flt ts p (Import \<lparr>import_names = [], import_from = path, import_span = over ts p (Suc (Suc p))\<rparr>) q"
| import_names: "words_at ts p [Kw KImport, Pt LBrace] q \<Longrightarrow> sep_at ts Comma (ident_at ts) q names r \<Longrightarrow>
    words_at ts r [Pt RBrace, Kw KFrom, TStr path] s \<Longrightarrow> tok_at ts s = Pt Semi \<Longrightarrow>
    item_at num flt ts p (Import \<lparr>import_names = names, import_from = path, import_span = over ts p s\<rparr>) (Suc s)"
| type_decl: "seq_at (type_annotation_at num flt ts) p anns q \<Longrightarrow> words_at ts q [Kw KType, TIdent name] r \<Longrightarrow>
    type_params_at ts r ps s \<Longrightarrow> tok_at ts s = Pt Equals \<Longrightarrow> type_at num flt ts (Suc s) t u \<Longrightarrow>
    words_at ts u (if semi then [Pt Semi] else []) v \<Longrightarrow>
    item_at num flt ts p (TypeItem \<lparr>type_name = name, type_params = ps, type_ty = t, type_annotations = anns,
      type_span = over ts p u\<rparr>) v"
| enum: "words_at ts p [Kw KEnum, TIdent name] q \<Longrightarrow> type_params_at ts q ps r \<Longrightarrow> tok_at ts r = Pt LBrace \<Longrightarrow>
    list_at ts RBrace (variant_at num flt ts) (Suc r) vs s \<Longrightarrow> tok_at ts s = Pt RBrace \<Longrightarrow>
    item_at num flt ts p (EnumItem \<lparr>enum_name = name, enum_params = ps, variants = vs,
      enum_span = over ts p (Suc s)\<rparr>) (Suc s)"
| service: "words_at ts p [Kw KService, TIdent name, Pt LBrace] q \<Longrightarrow> seq_at (member_at num flt ts) q ms r \<Longrightarrow>
    tok_at ts r = Pt RBrace \<Longrightarrow>
    item_at num flt ts p (ServiceItem \<lparr>service_name = name, members = ms, service_span = over ts p (Suc r)\<rparr>) (Suc r)"
| const: "words_at ts p [Kw KConst, TIdent name, Pt Colon] q \<Longrightarrow> type_at num flt ts q t r \<Longrightarrow> tok_at ts r = Pt Equals \<Longrightarrow>
    expr_at num flt ts False (Suc r) e s \<Longrightarrow> tok_at ts s = Pt Semi \<Longrightarrow>
    item_at num flt ts p (Const \<lparr>const_name = name, const_ty = t, const_value = e, const_span = over ts p s\<rparr>) (Suc s)"
| fn: "tok_at ts p = Kw KFn \<Longrightarrow> signature_at num flt ts (Suc p) (name, ps, t, u, body) q \<Longrightarrow>
    item_at num flt ts p (Fn \<lparr>fn_name = name, fn_params = ps, fn_return = t, fn_body = body, fn_span = over ts p u\<rparr>) q"
| test: "tok_at ts p = Kw KTest \<Longrightarrow> tok_at ts (Suc p) \<in> {TStr name, TIdent name} \<Longrightarrow>
    block_at num flt ts (Suc (Suc p)) body q \<Longrightarrow>
    item_at num flt ts p (Test \<lparr>test_name = name, test_name_span = Some (span_at ts (Suc p)), test_body = body,
      test_span = over ts p q\<rparr>) q"
| db: "words_at ts p [TIdent ''db'', Pt LBrace] q \<Longrightarrow> list_at ts RBrace (field_at num flt ts) q fs r \<Longrightarrow>
    tok_at ts r = Pt RBrace \<Longrightarrow>
    item_at num flt ts p (DbItem \<lparr>collections = fs, db_span = over ts p (Suc r)\<rparr>) (Suc r)"
| ai: "words_at ts p [TIdent ''ai'', Pt LBrace] q \<Longrightarrow> list_at ts RBrace (model_at ts) q ms r \<Longrightarrow>
    tok_at ts r = Pt RBrace \<Longrightarrow>
    item_at num flt ts p (AiItem \<lparr>models = ms, ai_span = over ts p (Suc r)\<rparr>) (Suc r)"

text \<open>A file is a sequence of items up to its end.\<close>

definition program_at :: "(int \<Rightarrow> 64 word) \<Rightarrow> (string \<Rightarrow> 64 word) \<Rightarrow> token list \<Rightarrow> item list \<Rightarrow> bool" where
  "program_at num flt ts xs \<longleftrightarrow> (\<exists>q. seq_at (item_at num flt ts) 0 xs q \<and> tok_at ts q = Eof)"

end
