(* ===== verification/ItemSound.thy ===== *)
theory ItemSound
  imports ParserSound ItemGrammar
begin

text \<open>
  The parser of declarations reads their grammar. A knot as deep as the weight of the whole file
  reads from every position in it.
\<close>

section \<open>Names\<close>

lemma eat_ident_reads:
  assumes "ended ts" "p < length ts"
  shows "reads ts (eat_ident ts) (ident_at ts) p"
  using assms by (auto simp: reads_def wp_simps ident_at_def split: token_kind.split)

lemma eat_idents_reads:
  assumes "ended ts" "p < length ts"
  shows "reads ts (eat_idents ts) (sep_at ts Comma (ident_at ts)) p"
  unfolding reads_def eat_idents_def wp_pbind
  using assms
  by (auto intro!: reads_wp [OF eat_ident_reads] sep_at.one
      wp_mono [OF separated_reads [where p = p and R = "ident_at ts"]] eat_ident_reads)

lemma parse_type_params_reads:
  assumes "ended ts" "p < length ts"
  shows "wp ts (parse_type_params ts) (\<lambda>xs q. p \<le> q \<and> q < length ts \<and> type_params_at ts p xs q) p"
  unfolding parse_type_params_def
  using assms
  by (auto simp: wp_simps intro!: reads_wp [OF eat_idents_reads] intro: type_params_at.intros)

section \<open>Annotations of an rpc\<close>

lemma words_append:
  "words_at ts p (ks @ ks') q \<longleftrightarrow> words_at ts p ks (p + length ks) \<and> words_at ts (p + length ks) ks' q"
  by (induction ks arbitrary: p) (auto simp: words_at_simps)

text \<open>An annotation begins with \<open>@\<close> and its name.\<close>

definition marked :: "token list \<Rightarrow> nat \<Rightarrow> string \<Rightarrow> nat \<Rightarrow> bool" where
  "marked ts p name q \<longleftrightarrow> tok_at ts p = Pt At \<and> tok_at ts (Suc p) = TIdent name \<and> q = Suc (Suc p)"

lemma parse_owner_reads:
  assumes "ended ts" "p < length ts"
  shows "wp ts (parse_owner ts) (\<lambda>c q. p \<le> q \<and> q < length ts \<and> words_at ts p (owner_words c) q) p"
  using assms
  by (auto simp: parse_owner_def keyword_argument_def wp_simps split: token_kind.split)

lemma parse_requires_reads:
  assumes "ended ts" "marked ts s ''requires'' p" "p < length ts"
  shows "wp ts (parse_requires ts) (\<lambda>a q. p \<le> q \<and> q < length ts \<and> rpc_annotation_at num flt ts s a q) p"
proof (cases "tok_at ts (Suc p)")
  case (TIdent enum)
  let ?loop = "ploop (length ts) (\<lambda>vs.
            if_token ts (Pt Pipe)
              (pbind (eat_ident ts) (\<lambda>next_enum.
                 if next_enum \<noteq> enum then pfail ts (TwoEnums enum next_enum)
                 else eat ts (Pt Dot) (pbind (eat_ident ts) (\<lambda>v. again (vs @ [v])))))
              (stop vs))"
  have roles: "wp ts (?loop [v]) (\<lambda>vs r. q < r \<and> r < length ts \<and> sep_at ts Pipe (role_at ts enum) q vs r) r"
    if "words_at ts q [TIdent enum, Pt Dot, TIdent v] r" "r < length ts" for q r v
  proof (rule grow_loop [where R = "\<lambda>q vs r. sep_at ts Pipe (role_at ts enum) q vs r"])
    show "sep_at ts Pipe (role_at ts enum) q [v] r"
      using that(1) by (intro sep_at.one) (simp add: role_at_def)
  next
    fix vs r
    assume "sep_at ts Pipe (role_at ts enum) q vs r" "q < r" "r < length ts"
    then show "wp ts (if_token ts (Pt Pipe)
              (pbind (eat_ident ts) (\<lambda>next_enum.
                 if next_enum \<noteq> enum then pfail ts (TwoEnums enum next_enum)
                 else eat ts (Pt Dot) (pbind (eat_ident ts) (\<lambda>v. again (vs @ [v])))))
              (stop vs))
      (\<lambda>x r'. case x of
         Inl ws \<Rightarrow> r < r' \<and> r' < length ts \<and> sep_at ts Pipe (role_at ts enum) q ws r'
       | Inr ws \<Rightarrow> r \<le> r' \<and> r' < length ts \<and> sep_at ts Pipe (role_at ts enum) q ws r') r"
      using assms(1)
      by (auto simp: wp_simps split: token_kind.split)
        (auto intro: sep_at.more simp: role_at_def)
  qed (use that in auto)
  show ?thesis
    unfolding parse_requires_def
    using assms TIdent
    by (auto simp: wp_simps marked_def split: token_kind.split intro!: wp_mono [OF roles] wp_mono [OF parse_owner_reads])
      (auto intro!: requires)
qed (use assms in \<open>auto simp: parse_requires_def wp_simps\<close>)

lemma string_argument_reads:
  assumes "ended ts" "marked ts s name p" "p < length ts" "text_annotation name = Some c"
  shows "wp ts (string_argument ts c) (\<lambda>a q. p \<le> q \<and> q < length ts \<and> rpc_annotation_at num flt ts s a q) p"
  unfolding string_argument_def
  using assms text_arg [of ts s name _ "Suc (Suc (Suc p))" c]
  by (auto simp: wp_simps marked_def split: token_kind.split)

lemma parse_limit_reads:
  assumes "ended ts" "marked ts s ''rate_limit'' p" "p < length ts"
  shows "wp ts (parse_limit ts) (\<lambda>a q. p \<le> q \<and> q < length ts \<and> rpc_annotation_at num flt ts s a q) p"
  unfolding parse_limit_def
  using assms
  by (auto simp: wp_simps keyword_argument_def marked_def split: token_kind.split intro!: rate)

lemma parse_cron_reads:
  assumes "ended ts" "marked ts s ''cron'' p" "p < length ts"
  shows "wp ts (parse_cron ts) (\<lambda>a q. p \<le> q \<and> q < length ts \<and> rpc_annotation_at num flt ts s a q) p"
  unfolding parse_cron_def
  using assms
  by (auto simp: wp_simps keyword_argument_def marked_def split: token_kind.split intro!: cron)

lemma parse_invalidates_reads:
  assumes "ended ts" "marked ts s ''invalidates'' p" "p < length ts"
  shows "wp ts (parse_invalidates ts) (\<lambda>a q. p \<le> q \<and> q < length ts \<and> rpc_annotation_at num flt ts s a q) p"
  unfolding parse_invalidates_def
  using assms
  by (auto simp: wp_simps marked_def intro!: reads_wp [OF eat_idents_reads]) (auto intro: invalidates)

lemma parse_infinite_reads:
  assumes "ended ts" "marked ts s ''infinite'' p" "p < length ts"
  shows "wp ts (parse_infinite ts) (\<lambda>a q. p \<le> q \<and> q < length ts \<and> rpc_annotation_at num flt ts s a q) p"
  unfolding parse_infinite_def
  using assms
  by (auto simp: wp_simps marked_def split: token_kind.split intro!: infinite)

section \<open>Reading with a deep knot\<close>

definition deep :: "nat \<Rightarrow> token list \<Rightarrow> bool" where
  "deep n ts \<longleftrightarrow> ended ts \<and> weight ts 0 \<le> n"

lemma deep_ended: "deep n ts \<Longrightarrow> ended ts"
  by (simp add: deep_def)

lemma deep_near: "deep n ts \<Longrightarrow> p < length ts \<Longrightarrow> near n ts p"
  using weight_mono [of 0 p ts] by (simp add: deep_def near_def)

context reading_parsers
begin

lemma type_reads:
  assumes "deep n ts" "p < length ts"
  shows "reads ts (p_type K ts) (type_at num flt ts) p"
  using assms weight_mono [of 0 p ts] by (intro type_below) (auto simp: deep_def)

lemma expr_reads:
  assumes "deep n ts" "p < length ts"
  shows "reads ts (p_expr K ts b) (spanned ts (expr_at num flt ts b)) p"
  using assms weight_mono [of 0 p ts] by (intro expr_below) (auto simp: deep_def)

lemma block_reads:
  assumes "deep n ts" "p < length ts"
  shows "reads ts (p_block K ts) (spanned_block ts (block_at num flt ts)) p"
  using assms weight_mono [of 0 p ts] by (intro block_below) (auto simp: deep_def)

lemma or_reads:
  assumes "deep n ts" "p < length ts"
  shows "reads ts (parse_or_expr K ts b) (spanned ts (operand_at num flt ts b 1)) p"
  by (rule levels_read) (rule deep_near [OF assms])

lemma parse_example_reads:
  assumes "deep n ts" "marked ts s ''example'' p" "p < length ts"
  shows "wp ts (parse_example K ts) (\<lambda>a q. p \<le> q \<and> q < length ts \<and> rpc_annotation_at num flt ts s a q) p"
proof -
  note e = deep_ended [OF assms(1)]
  let ?A = "argument_at num flt ts"
  define holds where "holds kvs y \<longleftrightarrow> distinct (map fst kvs) \<and> set (map fst kvs) \<subseteq> {''request'', ''response''} \<and>
    y = (map_of kvs ''request'', map_of kvs ''response'')" for kvs :: "(string \<times> sexpr) list" and y
  let ?body = "\<lambda>(req, res). pbind (eat_ident ts) (\<lambda>key. eat ts (Pt Colon) (pbind (p_expr K ts False) (\<lambda>e.
      let continue = (\<lambda>s. if_token ts (Pt Comma) (again s) (stop s))
      in if key = ''request'' \<and> Option.is_none req then continue (Some e, res)
         else if key = ''response'' \<and> Option.is_none res then continue (req, Some e)
         else if key = ''request'' \<or> key = ''response'' then pfail ts (Repeated key)
         else pfail ts (UnknownArgument ''example'' key))))"
  have "wp ts (ploop (length ts) ?body (None, None)) (\<lambda>y r. q < r \<and> r < length ts \<and>
      (\<exists>kvs. holds kvs y \<and> sep_at ts Comma ?A q kvs r)) q" if "q < length ts" for q
  proof (rule wp_ploop [where J = "\<lambda>y r. \<exists>kvs. holds kvs y \<and>
      (if kvs = [] then r = q else \<exists>r'. r = Suc r' \<and> tok_at ts r' = Pt Comma \<and> sep_at ts Comma ?A q kvs r')"])
    show "\<exists>kvs. holds kvs (None, None) \<and>
      (if kvs = [] then q = q else \<exists>r'. q = Suc r' \<and> tok_at ts r' = Pt Comma \<and> sep_at ts Comma ?A q kvs r')"
      by (rule exI [of _ "[]"]) (simp add: holds_def)
  next
    fix y r
    assume r: "q \<le> r" "r < length ts" and "\<exists>kvs. holds kvs y \<and>
      (if kvs = [] then r = q else \<exists>r'. r = Suc r' \<and> tok_at ts r' = Pt Comma \<and> sep_at ts Comma ?A q kvs r')"
    then obtain kvs where kvs: "holds kvs y"
      and at: "if kvs = [] then r = q else \<exists>r'. r = Suc r' \<and> tok_at ts r' = Pt Comma \<and> sep_at ts Comma ?A q kvs r'" by blast
    have more: "sep_at ts Comma ?A q (kvs @ [(key, x)]) r'"
      if "words_at ts r [TIdent key, Pt Colon] (Suc (Suc r))" "expr_at num flt ts False (Suc (Suc r)) x r'" for key x r'
      using at that by (cases "kvs = []") (auto simp: argument_at_def intro: sep_at.one sep_at.more)
    have req: "holds (kvs @ [(''request'', x)]) (Some x, snd y)" if "fst y = None" for x
    proof -
      from that kvs have "map_of kvs ''request'' = None" by (simp add: holds_def)
      moreover from this have "''request'' \<notin> fst ` set kvs" by (simp add: map_of_eq_None_iff)
      ultimately show ?thesis using kvs by (auto simp: holds_def map_add_def split: option.split)
    qed
    have res: "holds (kvs @ [(''response'', x)]) (fst y, Some x)" if "snd y = None" for x
    proof -
      from that kvs have "map_of kvs ''response'' = None" by (simp add: holds_def)
      moreover from this have "''response'' \<notin> fst ` set kvs" by (simp add: map_of_eq_None_iff)
      ultimately show ?thesis using kvs by (auto simp: holds_def map_add_def split: option.split)
    qed
    let ?P = "\<lambda>x r'. case x of
        Inl y \<Rightarrow> r < r' \<and> r' < length ts \<and> (\<exists>kvs. holds kvs y \<and> (if kvs = [] then r' = q
          else \<exists>r''. r' = Suc r'' \<and> tok_at ts r'' = Pt Comma \<and> sep_at ts Comma ?A q kvs r''))
      | Inr y \<Rightarrow> q < r' \<and> r' < length ts \<and> (\<exists>kvs. holds kvs y \<and> sep_at ts Comma ?A q kvs r')"
    have finish: "wp ts (if_token ts (Pt Comma) (again y') (stop y')) ?P r'"
      if "holds (kvs @ [(key, x)]) y'" "r < r'" "r' < length ts" "sep_at ts Comma ?A q (kvs @ [(key, x)]) r'" for key x y' r'
    proof (cases "tok_at ts r' = Pt Comma")
      case True
      have "\<exists>ks. holds ks y' \<and> (if ks = [] then Suc r' = q
          else \<exists>r''. Suc r' = Suc r'' \<and> tok_at ts r'' = Pt Comma \<and> sep_at ts Comma ?A q ks r'')"
        by (rule exI [of _ "kvs @ [(key, x)]"]) (use that True in simp)
      with True that e show ?thesis by (simp add: wp_if_token wp_again)
    next
      case False
      with that e r show ?thesis by (simp add: wp_if_token wp_stop) blast
    qed
    show "wp ts (?body y) ?P r"
    proof (cases "tok_at ts r")
      case (TIdent key)
      have "wp ts (p_expr K ts False) (\<lambda>x r'. wp ts (let continue = (\<lambda>s. if_token ts (Pt Comma) (again s) (stop s))
          in if key = ''request'' \<and> Option.is_none (fst y) then continue (Some x, snd y)
             else if key = ''response'' \<and> Option.is_none (snd y) then continue (fst y, Some x)
             else if key = ''request'' \<or> key = ''response'' then pfail ts (Repeated key)
             else pfail ts (UnknownArgument ''example'' key)) ?P r') (Suc (Suc r))"
        if "tok_at ts (Suc r) = Pt Colon"
      proof (rule reads_wp [OF expr_reads [OF assms(1)]])
        fix x r'
        assume x: "Suc (Suc r) < r'" "r' < length ts" "spanned ts (expr_at num flt ts False) (Suc (Suc r)) x r'"
        then have "sep_at ts Comma ?A q (kvs @ [(key, x)]) r'"
          using TIdent that by (intro more) (simp_all add: spanned_def)
        then show "wp ts (let continue = (\<lambda>s. if_token ts (Pt Comma) (again s) (stop s))
          in if key = ''request'' \<and> Option.is_none (fst y) then continue (Some x, snd y)
             else if key = ''response'' \<and> Option.is_none (snd y) then continue (fst y, Some x)
             else if key = ''request'' \<or> key = ''response'' then pfail ts (Repeated key)
             else pfail ts (UnknownArgument ''example'' key)) ?P r'"
          unfolding Let_def using x
          by (intro wp_ifI finish [where key = key and x = x]) (auto simp: wp_pfail Option.is_none_def req res)
      qed (use e that in simp)
      then show ?thesis
        unfolding case_prod_beta wp_pbind wp_eat_ident wp_eat
        using TIdent e r by (cases "tok_at ts (Suc r) = Pt Colon") (simp_all split del: if_split)
    qed (use r in \<open>auto simp: wp_simps split: prod.split\<close>)
  qed (use that in auto)
  note args = this
  have "wp ts (pbind (ploop (length ts) ?body (None, None)) (\<lambda>(req, res). eat ts (Pt RParen) (preturn (Example req res))))
      (\<lambda>a q. p \<le> q \<and> q < length ts \<and> rpc_annotation_at num flt ts s a q) (Suc p)"
    if "tok_at ts p = Pt LParen"
    unfolding wp_pbind [of _ "ploop _ _ _"]
  proof (rule wp_mono [OF args])
    have ex: "rpc_annotation_at num flt ts s (Example (fst y) (snd y)) (Suc r)"
      if "holds kvs y" "sep_at ts Comma ?A (Suc p) kvs r" "tok_at ts r = Pt RParen" for kvs y r
      using that \<open>tok_at ts p = Pt LParen\<close> assms(2) example [of ts s "Suc p" num flt kvs r]
      by (simp add: holds_def marked_def)
    fix y r
    assume "Suc p < r \<and> r < length ts \<and> (\<exists>kvs. holds kvs y \<and> sep_at ts Comma ?A (Suc p) kvs r)"
    then show "wp ts (case y of (req, res) \<Rightarrow> eat ts (Pt RParen) (preturn (Example req res)))
        (\<lambda>a q. p \<le> q \<and> q < length ts \<and> rpc_annotation_at num flt ts s a q) r"
      using e ex by (cases y) (auto simp: wp_simps)
  qed (use assms e that in simp)
  then show ?thesis
    using assms(2,3) e by (simp add: parse_example_def marked_def wp_eat wp_peeking wp_pfail)
qed

lemma bare_annotations:
  assumes "p < length ts" "marked ts s name p" "bare_annotation name = Some a"
  shows "wp ts (preturn a) (\<lambda>a q. p \<le> q \<and> q < length ts \<and> rpc_annotation_at num flt ts s a q) p"
  using assms bare [of ts s name "Suc (Suc s)" a] by (simp add: wp_preturn marked_def)

lemma parse_annotation_reads:
  assumes "deep n ts" "marked ts s name p" "p < length ts"
  shows "wp ts (parse_annotation K ts name) (\<lambda>a q. p \<le> q \<and> q < length ts \<and> rpc_annotation_at num flt ts s a q) p"
proof -
  note e = deep_ended [OF assms(1)]
  have bare: "name = s' \<Longrightarrow> bare_annotation s' = Some a \<Longrightarrow>
      wp ts (preturn a) (\<lambda>a q. p \<le> q \<and> q < length ts \<and> rpc_annotation_at num flt ts s a q) p" for s' a
    using bare_annotations assms by blast
  have texted: "name = s' \<Longrightarrow> text_annotation s' = Some c \<Longrightarrow>
      wp ts (string_argument ts c) (\<lambda>a q. p \<le> q \<and> q < length ts \<and> rpc_annotation_at num flt ts s a q) p" for s' c
    using string_argument_reads [OF e] assms by blast
  show ?thesis
    unfolding parse_annotation_def
    by (intro wp_ifI; ((rule bare texted, assumption, simp add: bare_annotation_def text_annotation_def)
        | (rule parse_requires_reads [OF e] parse_limit_reads [OF e] parse_example_reads [OF assms(1)]
             parse_invalidates_reads [OF e] parse_infinite_reads [OF e] parse_cron_reads [OF e];
           use assms in simp)
        | simp add: wp_pfail assms))
qed

text \<open>A loop over annotations.\<close>

lemma annotation_loop:
  assumes "ended ts" "p < length ts"
    and one: "\<And>s name r. marked ts s name r \<Longrightarrow> r < length ts \<Longrightarrow>
      wp ts (m name) (\<lambda>a q. r \<le> q \<and> q < length ts \<and> R s a q) r"
  shows "wp ts (ploop (length ts) (\<lambda>anns.
       if_token ts (Pt At) (pbind (eat_ident ts) (\<lambda>name. pbind (m name) (\<lambda>a. again (anns @ [a])))) (stop anns)) [])
    (\<lambda>anns q. p \<le> q \<and> q < length ts \<and> seq_at R p anns q) p"
  using assms(1,2)
  by (intro seq_loop [where R = R])
    (auto simp: wp_simps marked_def split: token_kind.split intro!: wp_mono [OF one])

lemma parse_optional_annotation_reads:
  assumes "deep n ts" "p < length ts"
  shows "wp ts (parse_optional_annotation K ts)
    (\<lambda>anns q. p \<le> q \<and> q < length ts \<and> seq_at (rpc_annotation_at num flt ts) p anns q) p"
  unfolding parse_optional_annotation_def
  using assms by (intro annotation_loop parse_annotation_reads deep_ended)

lemma parse_index_annotation_reads:
  assumes "deep n ts" "marked ts s name p" "p < length ts" "name = ''unique'' \<or> name = ''index''"
  shows "wp ts (parse_index_annotation K ts name)
    (\<lambda>a q. p \<le> q \<and> q < length ts \<and> type_annotation_at num flt ts s a q) p"
proof -
  note e = deep_ended [OF assms(1)]
  have cond: "wp ts (if_token ts (TIdent ''where'')
        (pbind (parse_or_expr K ts False) (\<lambda>e. preturn (Some e))) (preturn None))
      (\<lambda>c r. q \<le> r \<and> r < length ts \<and> where_at num flt ts q c r) q" if "q < length ts" for q
    using e that
    by (auto simp: wp_simps spanned_def intro!: reads_wp [OF or_reads [OF assms(1)]]
        intro: where_at.intros [simplified])
  show ?thesis
    unfolding parse_index_annotation_def
    using assms(2-) e
    by (auto simp: wp_eat wp_pbind wp_preturn marked_def intro!: reads_wp [OF eat_idents_reads] wp_mono [OF cond])
      (auto intro: type_unique type_index)
qed

lemma parse_type_annotation_reads:
  assumes "deep n ts" "marked ts s name p" "p < length ts"
  shows "wp ts (parse_type_annotation K ts name)
    (\<lambda>a q. p \<le> q \<and> q < length ts \<and> type_annotation_at num flt ts s a q) p"
proof -
  note e = deep_ended [OF assms(1)]
  let ?Q = "\<lambda>a q. p \<le> q \<and> q < length ts \<and> type_annotation_at num flt ts s a q"
  have "wp ts (eat ts (Pt LParen) (pbind (eat_idents ts) (\<lambda>fs. eat ts (Pt RParen) (preturn (PrimaryKey fs))))) ?Q p"
    if "name = ''primaryKey''"
    using assms(2,3) e that
    by (auto simp: wp_simps marked_def intro!: reads_wp [OF eat_idents_reads]) (auto intro: primary_key)
  moreover have "wp ts (eat ts (Pt LParen) (pbind (parse_or_expr K ts False) (\<lambda>e. eat ts (Pt RParen) (preturn (Check e))))) ?Q p"
    if "name = ''check''"
    using assms(2,3) e that
    by (auto simp: wp_simps marked_def spanned_def intro!: reads_wp [OF or_reads [OF assms(1)]])
      (auto intro: type_check [simplified])
  ultimately show ?thesis
    unfolding parse_type_annotation_def
    by (intro wp_ifI parse_index_annotation_reads [OF assms]) (auto simp: wp_pfail assms(3))
qed

lemma parse_type_annotations_reads:
  assumes "deep n ts" "p < length ts"
  shows "wp ts (parse_type_annotations K ts)
    (\<lambda>anns q. p \<le> q \<and> q < length ts \<and> seq_at (type_annotation_at num flt ts) p anns q) p"
  unfolding parse_type_annotations_def
  using assms by (intro annotation_loop parse_type_annotation_reads deep_ended)

section \<open>Functions and services\<close>

lemma parse_param_reads:
  assumes "deep n ts" "p < length ts"
  shows "reads ts (parse_param K ts) (param_at num flt ts) p"
proof -
  note e = deep_ended [OF assms(1)]
  have default: "wp ts (if_token ts (Pt Equals) (pbind (p_expr K ts False) (\<lambda>e. preturn (Some e))) (preturn None))
      (\<lambda>d r. q \<le> r \<and> r < length ts \<and> default_at num flt ts q d r) q" if "q < length ts" for q
    using e that
    by (auto simp: wp_simps spanned_def intro!: reads_wp [OF expr_reads [OF assms(1)]] intro: default_at.intros)
  show ?thesis
    unfolding reads_def parse_param_def
    using assms(2) e
    by (auto simp: wp_spanning wp_eat_ident wp_eat wp_pbind wp_preturn split: token_kind.split
        intro!: reads_wp [OF type_reads [OF assms(1)]] wp_mono [OF default])
      (auto intro: param_at.param)
qed

lemma parse_signature_reads:
  assumes "deep n ts" "p < length ts"
  shows "wp ts (parse_signature K ts start f) (\<lambda>x q. p < q \<and> q < length ts \<and>
    (\<exists>name ps t u body. x = f name ps t (merge start (span_at ts (u - Suc 0))) body \<and> 0 < u \<and>
       signature_at num flt ts p (name, ps, t, u, body) q)) p"
proof -
  note e = deep_ended [OF assms(1)]
  have ps: "wp ts (parse_param_list K ts) (\<lambda>ps r. q \<le> r \<and> r < length ts \<and>
      list_at ts RParen (param_at num flt ts) q ps r) q" if "q < length ts" for q
    unfolding parse_param_list_def
    using e that by (intro wp_mono [OF comma_list_reads [where R = "param_at num flt ts"]] parse_param_reads [OF assms(1)]) auto
  show ?thesis
    unfolding parse_signature_def
    using assms(2) e
    by (auto simp: wp_prev_span wp_eat_ident wp_eat wp_pbind wp_preturn spanned_block_def split: token_kind.split
        intro!: reads_wp [OF type_reads [OF assms(1)]] reads_wp [OF block_reads [OF assms(1)]] wp_mono [OF ps])
      (metis signature words_at_simps gr_implies_not_zero neq0_conv)
qed
lemma parse_member_reads:
  assumes "deep n ts" "p < length ts"
  shows "reads ts (parse_member K ts) (member_at num flt ts) p"
proof -
  note e = deep_ended [OF assms(1)]
  let ?A = "seq_at (rpc_annotation_at num flt ts) p"
  have decl: "wp ts (parse_rpc_like K ts (span_at ts p) (Kw w) anns (leading_doc (ts ! p)))
      (\<lambda>d r. p < r \<and> r < length ts \<and> rpc_at num flt ts w p d r) q"
    if "?A anns q" "p \<le> q" "q < length ts" for anns q w
    unfolding parse_rpc_like_def wp_eat
    using e that by (auto intro!: wp_mono [OF parse_signature_reads [OF assms(1)]]) (auto intro: rpc_at.rpc)
  have "wp ts (case tok_at ts q of
       Kw KRpc \<Rightarrow> pbind (parse_rpc_like K ts (span_at ts p) (Kw KRpc) anns (leading_doc (ts ! p))) (\<lambda>r. preturn (Rpc r))
     | Kw KStream \<Rightarrow> pbind (parse_rpc_like K ts (span_at ts p) (Kw KStream) anns (leading_doc (ts ! p))) (\<lambda>r. preturn (Stream r))
     | _ \<Rightarrow> pfail ts WantMember) (\<lambda>m r. p < r \<and> r < length ts \<and> member_at num flt ts p m r) q"
    if "?A anns q" "p \<le> q" "q < length ts" for anns q
  proof -
    have "wp ts (pbind (parse_rpc_like K ts (span_at ts p) (Kw w) anns (leading_doc (ts ! p))) (\<lambda>r. preturn (c r)))
        (\<lambda>m r. p < r \<and> r < length ts \<and> member_at num flt ts p m r) q"
      if "(w, c) \<in> {(KRpc, Rpc), (KStream, Stream)}" for w c
      using that by (auto simp: wp_simps intro!: wp_mono [OF decl [OF \<open>?A anns q\<close> \<open>p \<le> q\<close> \<open>q < length ts\<close>]]
          intro: member_at.intros)
    then show ?thesis
      using \<open>q < length ts\<close> by (simp add: wp_pfail split: token_kind.split keyword.split)
  qed
  then show ?thesis
    unfolding reads_def parse_member_def wp_spanning wp_leading wp_pbind [of _ "parse_optional_annotation _ _"] wp_peeking
    by (auto intro!: wp_mono [OF parse_optional_annotation_reads [OF assms]])
qed

section \<open>Items\<close>

lemma parse_service_decl_reads:
  assumes "deep n ts" "p < length ts"
  shows "reads ts (parse_service_decl K ts) (\<lambda>p d. item_at num flt ts p (ServiceItem d)) p"
proof -
  note e = deep_ended [OF assms(1)]
  have ms: "wp ts (ploop (length ts) (\<lambda>ms. peeking ts (\<lambda>c.
        if c \<noteq> Pt RBrace then pbind (parse_member K ts) (\<lambda>m. again (ms @ [m])) else stop ms)) [])
      (\<lambda>ms r. q \<le> r \<and> r < length ts \<and> seq_at (member_at num flt ts) q ms r) q" if "q < length ts" for q
    by (rule seq_loop [where R = "member_at num flt ts"])
      (use that in \<open>auto simp: wp_simps intro!: reads_wp [OF parse_member_reads [OF assms(1)]]\<close>)
  show ?thesis
    unfolding reads_def parse_service_decl_def
    using assms(2) e
    by (auto simp: wp_spanning wp_eat_ident wp_eat wp_pbind wp_preturn wp_prev_span split: token_kind.split
        intro!: wp_mono [OF ms])
      (auto intro: service)
qed

lemma parse_db_decl_reads:
  assumes "deep n ts" "p < length ts" "tok_at ts p = TIdent ''db''"
  shows "reads ts (parse_db_decl K ts) (\<lambda>p d. item_at num flt ts p (DbItem d)) p"
  unfolding reads_def parse_db_decl_def
  using assms(2,3) deep_ended [OF assms(1)]
  by (auto simp: wp_simps intro!: wp_mono [OF parse_field_list_reads [OF deep_near [OF assms(1,2)]]]) (auto intro: db)

lemma parse_ai_decl_reads:
  assumes "deep n ts" "p < length ts" "tok_at ts p = TIdent ''ai''"
  shows "reads ts (parse_ai_decl ts) (\<lambda>p d. item_at num flt ts p (AiItem d)) p"
proof -
  note e = deep_ended [OF assms(1)]
  have model: "reads ts (parse_ai_model ts) (model_at ts) q" if "q < length ts" for q
    unfolding reads_def parse_ai_model_def
    using e that by (auto simp: wp_simps split: token_kind.split) (auto intro: model_at.model [simplified])
  have ms: "wp ts (ploop (length ts) (\<lambda>ms. peeking ts (\<lambda>c.
        if c = Pt RBrace then stop ms
        else pbind (parse_ai_model ts) (\<lambda>m. if_token ts (Pt Comma) (again (ms @ [m])) (stop (ms @ [m]))))) [])
      (\<lambda>ms r. q \<le> r \<and> r < length ts \<and> (tok_at ts r = Pt RBrace \<longrightarrow> list_at ts RBrace (model_at ts) q ms r)) q" if "q < length ts" for q
  proof (rule wp_ploop [where J = "\<lambda>ms r. if ms = [] then r = q
      else \<exists>r'. r = Suc r' \<and> tok_at ts r' = Pt Comma \<and> sep_at ts Comma (model_at ts) q ms r'"])
    fix ms r
    assume J: "if ms = [] then r = q
      else \<exists>r'. r = Suc r' \<and> tok_at ts r' = Pt Comma \<and> sep_at ts Comma (model_at ts) q ms r'" and r: "q \<le> r" "r < length ts"
    have more: "sep_at ts Comma (model_at ts) q (ms @ [x]) r'" if "model_at ts r x r'" for x r'
      using J that by (cases "ms = []") (auto intro: sep_at.one sep_at.more)
    have ended: "list_at ts RBrace (model_at ts) q ms r" if "tok_at ts r = Pt RBrace"
      using J that by (cases "ms = []") (auto intro: list_at.none list_at.some trailed_at.trail)
    show "wp ts (peeking ts (\<lambda>c.
        if c = Pt RBrace then stop ms
        else pbind (parse_ai_model ts) (\<lambda>m. if_token ts (Pt Comma) (again (ms @ [m])) (stop (ms @ [m])))))
      (\<lambda>x r'. case x of
          Inl ms \<Rightarrow> r < r' \<and> r' < length ts \<and> (if ms = [] then r' = q
            else \<exists>r''. r' = Suc r'' \<and> tok_at ts r'' = Pt Comma \<and> sep_at ts Comma (model_at ts) q ms r'')
        | Inr ms \<Rightarrow> q \<le> r' \<and> r' < length ts \<and> (tok_at ts r' = Pt RBrace \<longrightarrow> list_at ts RBrace (model_at ts) q ms r')) r"
      using r e ended
      by (auto simp: wp_simps intro!: reads_wp [OF model] more) (auto intro: list_at.some [OF trailed_at.plain] more)
  qed (use that in auto)
  show ?thesis
    unfolding reads_def parse_ai_decl_def
    using assms(2,3) e
    by (auto simp: wp_spanning wp_advancing wp_eat wp_pbind wp_preturn wp_prev_span intro!: wp_mono [OF ms])
      (auto intro: ai)
qed
lemma parse_import_decl_reads:
  assumes "ended ts" "p < length ts"
  shows "reads ts (parse_import_decl ts) (\<lambda>p d. item_at num flt ts p (Import d)) p"
  unfolding reads_def parse_import_decl_def
  using assms import_all [of ts p _ "Suc (Suc (Suc p))"]
  by (auto simp: wp_simps Let_def split: token_kind.split intro!: reads_wp [OF eat_idents_reads])
    (auto intro: import_names)

lemma parse_type_decl_reads:
  assumes "deep n ts" "seq_at (type_annotation_at num flt ts) p anns q" "p \<le> q" "q < length ts"
  shows "wp ts (parse_type_decl K ts (span_at ts p) anns)
    (\<lambda>d r. q < r \<and> r < length ts \<and> item_at num flt ts p (TypeItem d) r) q"
proof -
  note e = deep_ended [OF assms(1)]
  show ?thesis
    unfolding parse_type_decl_def
    using assms(2-) e
    by (auto simp: wp_if_token wp_prev_span wp_eat_ident wp_eat wp_pbind wp_preturn Let_def split: token_kind.split
        intro!: reads_wp [OF type_reads [OF assms(1)]] wp_mono [OF parse_type_params_reads])
      (auto intro: type_decl [where semi = True] type_decl [where semi = False])
qed

lemma parse_variant_reads:
  assumes "deep n ts" "p < length ts"
  shows "reads ts (parse_variant K ts) (variant_at num flt ts) p"
  unfolding reads_def parse_variant_def
  using assms(2) deep_ended [OF assms(1)]
  by (auto simp: wp_simps split: token_kind.split
      intro!: wp_mono [OF parse_field_list_reads [OF deep_near [OF assms]]] variant_at.plain)
    (auto intro: variant_at.fields)

lemma parse_enum_decl_reads:
  assumes "deep n ts" "p < length ts"
  shows "reads ts (parse_enum_decl K ts) (\<lambda>p d. item_at num flt ts p (EnumItem d)) p"
proof -
  note e = deep_ended [OF assms(1)]
  have vs: "wp ts (comma_list ts RBrace (parse_variant K ts)) (\<lambda>vs r. q \<le> r \<and> r < length ts \<and>
      list_at ts RBrace (variant_at num flt ts) q vs r) q" if "q < length ts" for q
    using e that by (intro wp_mono [OF comma_list_reads [where R = "variant_at num flt ts"]] parse_variant_reads [OF assms(1)]) auto
  show ?thesis
    unfolding reads_def parse_enum_decl_def
    using assms(2) e
    by (auto simp: wp_spanning wp_prev_span wp_eat_ident wp_eat wp_pbind wp_preturn split: token_kind.split
        intro!: wp_mono [OF parse_type_params_reads] wp_mono [OF vs])
      (auto intro: enum)
qed

lemma parse_const_decl_reads:
  assumes "deep n ts" "p < length ts"
  shows "reads ts (parse_const_decl K ts) (\<lambda>p d. item_at num flt ts p (Const d)) p"
  unfolding reads_def parse_const_decl_def
  using assms(2) deep_ended [OF assms(1)]
  by (auto simp: wp_simps spanned_def split: token_kind.split
      intro!: reads_wp [OF type_reads [OF assms(1)]] reads_wp [OF expr_reads [OF assms(1)]])
    (auto intro: const)

lemma parse_fn_decl_reads:
  assumes "deep n ts" "p < length ts"
  shows "reads ts (parse_fn_decl K ts) (\<lambda>p d. item_at num flt ts p (Fn d)) p"
  unfolding reads_def parse_fn_decl_def
  using assms(2) deep_ended [OF assms(1)]
  by (auto simp: wp_simps intro!: wp_mono [OF parse_signature_reads [OF assms(1)]])
    (auto intro: fn)

lemma parse_test_decl_reads:
  assumes "deep n ts" "p < length ts"
  shows "reads ts (parse_test_decl K ts) (\<lambda>p d. item_at num flt ts p (Test d)) p"
  unfolding reads_def parse_test_decl_def
  using assms(2) deep_ended [OF assms(1)]
  by (auto simp: wp_simps spanned_block_def split: token_kind.split intro!: reads_wp [OF block_reads [OF assms(1)]])
    (auto intro: test)

lemma parse_item_reads:
  assumes "deep n ts" "p < length ts"
  shows "reads ts (parse_item K ts) (item_at num flt ts) p"
proof -
  note e = deep_ended [OF assms(1)]
  have c: "wp ts (pbind m (\<lambda>d. preturn (c d))) (\<lambda>x q. p < q \<and> q < length ts \<and> item_at num flt ts p x q) p"
    if "reads ts m (\<lambda>p d. item_at num flt ts p (c d)) p" for m :: "'x parse" and c
    by (auto simp: wp_simps intro!: reads_wp [OF that])
  have annotated: "wp ts (pbind (parse_type_annotations K ts) (\<lambda>anns. peeking ts (\<lambda>d.
       if d \<noteq> Kw KType then pfail ts WantAnnotatedType
       else pbind (parse_type_decl K ts (span_at ts p) anns) (\<lambda>d. preturn (TypeItem d)))))
      (\<lambda>x q. p < q \<and> q < length ts \<and> item_at num flt ts p x q) p"
    by (auto simp: wp_simps intro!: wp_mono [OF parse_type_annotations_reads [OF assms]]
        wp_mono [OF parse_type_decl_reads [OF assms(1)]])
  have plain: "reads ts (parse_type_decl K ts (span_at ts p) []) (\<lambda>p d. item_at num flt ts p (TypeItem d)) p"
    unfolding reads_def using assms
    by (auto intro!: wp_mono [OF parse_type_decl_reads [OF assms(1)]] intro: seq_at.none)
  show ?thesis
    unfolding reads_def parse_item_def wp_spanning wp_peeking wp_peeking_at
    by (intro wp_ifI annotated c plain parse_import_decl_reads [OF e assms(2)] parse_enum_decl_reads [OF assms]
        parse_service_decl_reads [OF assms] parse_const_decl_reads [OF assms] parse_fn_decl_reads [OF assms]
        parse_test_decl_reads [OF assms] parse_db_decl_reads [OF assms] parse_ai_decl_reads [OF assms])
      (auto simp: wp_pfail assms(2))
qed
end

end
