(* ===== verification/Recovery.thy ===== *)
theory Recovery
  imports ParseItems
begin

text \<open>
  No parser goes back, on an error either. So after an error the recovery of \<open>parse_program\<close>
  starts at or behind the item that failed, and strictly behind it where an item could begin.
\<close>

section \<open>Forward\<close>

definition forward :: "'a parse \<Rightarrow> bool" where
  "forward m \<longleftrightarrow> (\<forall>p r q. m p = Some (r, q) \<longrightarrow> p \<le> q)"

named_theorems forward_intros

lemma next_token_forward: "p \<le> next_token_at ts p"
  by (simp add: next_token_at_def)

lemma forward_preturn [forward_intros]: "forward (preturn x)"
  by (simp add: forward_def preturn_def)

lemma forward_pbind [forward_intros]: "forward m \<Longrightarrow> (\<And>x. forward (k x)) \<Longrightarrow> forward (pbind m k)"
  by (fastforce simp: forward_def pbind_def split: option.splits prod.splits sum.splits dest: order_trans)

lemma forward_ploop [forward_intros]: "(\<And>s. forward (body s)) \<Longrightarrow> forward (ploop n body s)"
proof (induction n arbitrary: s)
  case (Suc n)
  then show ?case
    unfolding ploop.simps by (intro forward_pbind Suc.prems) (auto intro: forward_preturn split: sum.split)
qed (simp add: forward_def)

lemma forward_again [forward_intros]: "forward (again s)" "forward (stop x)"
  by (simp_all add: again_def stop_def forward_intros)

lemma forward_peeking [forward_intros]:
  "(\<And>c. forward (f c)) \<Longrightarrow> forward (peeking ts f)"
  "(\<And>c. forward (f c)) \<Longrightarrow> forward (peeking_at ts n f)"
  "(\<And>s. forward (g s)) \<Longrightarrow> forward (spanning ts g)"
  "(\<And>s. forward (g s)) \<Longrightarrow> forward (prev_span ts g)"
  "(\<And>d. forward (h d)) \<Longrightarrow> forward (leading ts h)"
  by (auto simp: forward_def peeking_def peeking_at_def spanning_def prev_span_def leading_def)

lemma forward_advancing [forward_intros]: "forward m \<Longrightarrow> forward (advancing ts m)"
  by (auto simp: forward_def advancing_def intro: order_trans [OF next_token_forward])

lemma forward_pfail [forward_intros]: "forward (pfail ts e)" "forward (pfail_code ts e tag)"
  by (simp_all add: forward_def pfail_def pfail_code_def)

lemma forward_if [forward_intros]: "(b \<Longrightarrow> forward m) \<Longrightarrow> (\<not> b \<Longrightarrow> forward n) \<Longrightarrow> forward (if b then m else n)"
  by simp

lemma forward_eat [forward_intros]: "forward m \<Longrightarrow> forward (eat ts k m)"
  by (simp add: eat_def forward_intros)

lemma forward_if_token [forward_intros]: "forward m \<Longrightarrow> forward n \<Longrightarrow> forward (if_token ts k m n)"
  by (simp add: if_token_def forward_intros)

lemma forward_cases [forward_intros]:
  "(\<And>x. k = TInt x \<Longrightarrow> forward (f1 x)) \<Longrightarrow> (\<And>x. k = TFloat x \<Longrightarrow> forward (f2 x)) \<Longrightarrow>
   (\<And>x. k = TStr x \<Longrightarrow> forward (f3 x)) \<Longrightarrow> (\<And>x. k = THtmlLit x \<Longrightarrow> forward (f4 x)) \<Longrightarrow>
   (\<And>x. k = TIdent x \<Longrightarrow> forward (f5 x)) \<Longrightarrow> (\<And>x. k = Kw x \<Longrightarrow> forward (f6 x)) \<Longrightarrow>
   (\<And>x. k = Pt x \<Longrightarrow> forward (f7 x)) \<Longrightarrow> forward f8 \<Longrightarrow>
   forward (case k of TInt x \<Rightarrow> f1 x | TFloat x \<Rightarrow> f2 x | TStr x \<Rightarrow> f3 x | THtmlLit x \<Rightarrow> f4 x
     | TIdent x \<Rightarrow> f5 x | Kw x \<Rightarrow> f6 x | Pt x \<Rightarrow> f7 x | Eof \<Rightarrow> f8)"
  by (simp split: token_kind.split)

lemma forward_option [forward_intros]:
  "(\<And>x. forward (f x)) \<Longrightarrow> forward g \<Longrightarrow> forward (case x of Some x \<Rightarrow> f x | None \<Rightarrow> g)"
  by (simp split: option.split)

lemma forward_pair [forward_intros]: "(\<And>x y. forward (f x y)) \<Longrightarrow> forward (case z of (x, y) \<Rightarrow> f x y)"
  by (simp split: prod.split)

lemma forward_let [forward_intros]: "(\<And>y. forward (f y)) \<Longrightarrow> forward (let y = x in f y)"
  by simp

section \<open>Every parser goes forward\<close>

lemma forward_words [forward_intros]:
  "forward (eat_ident ts)"
  "forward (eat_field_name ts)"
  "forward (eat_string ts)"
  "forward (eat_number number float ts)"
  by (simp_all add: eat_ident_def eat_field_name_def eat_string_def eat_number_def Let_def forward_intros split: punct.split keyword.split)

lemma forward_lists [forward_intros]:
  "forward m \<Longrightarrow> forward (separated ts sep m xs)"
  "forward m \<Longrightarrow> forward (more_items ts close m xs)"
  "forward m \<Longrightarrow> forward (comma_list ts close m)"
  "forward m \<Longrightarrow> forward (paren_items ts m x)"
  by (simp_all add: separated_def more_items_def comma_list_def paren_items_def  forward_intros split: punct.split keyword.split)

lemma forward_once [forward_intros]:
  "forward m \<Longrightarrow> forward (once ts name P anns m)"
  "forward m \<Longrightarrow> forward (keyword_argument ts owner kw m)"
  by (simp_all add: once_def keyword_argument_def  forward_intros split: punct.split keyword.split)

lemma forward_names [forward_intros]:
  "forward (eat_idents ts)"
  "forward (parse_type_params ts)"
  by (simp_all add: eat_idents_def parse_type_params_def  forward_intros split: punct.split keyword.split)

lemma forward_field_words [forward_intros]:
  "forward (parse_validator ts)"
  "forward (parse_field_check K ts)"
  "forward (parse_on_delete ts)"
  "forward (parse_tenant_claim ts)"
  by (simp_all add: parse_validator_def parse_field_check_def parse_on_delete_def parse_tenant_claim_def Let_def forward_intros split: punct.split keyword.split)

lemma forward_annotations [forward_intros]:
  "forward (parse_owner ts)"
  "forward (parse_requires ts)"
  "forward (string_argument ts c)"
  "forward (parse_limit ts)"
  "forward (parse_cron ts)"
  "forward (parse_invalidates ts)"
  "forward (parse_infinite ts)"
  by (simp_all add: parse_owner_def parse_requires_def string_argument_def parse_limit_def parse_cron_def parse_invalidates_def parse_infinite_def  forward_intros split: punct.split keyword.split)

lemma forward_plain_items [forward_intros]:
  "forward (parse_ai_model ts)"
  "forward (parse_ai_decl ts)"
  "forward (parse_import_decl ts)"
  "forward (literal ts e)"
  "forward (empty_closure_error ts)"
  by (simp_all add: parse_ai_model_def parse_ai_decl_def parse_import_decl_def literal_def empty_closure_error_def Let_def forward_intros split: punct.split keyword.split)

text \<open>The others go forward if the parsers below them do.\<close>

locale forward_parsers =
  fixes K :: parsers
  assumes type_forward [forward_intros]: "forward (p_type K ts)"
    and expr_forward [forward_intros]: "forward (p_expr K ts b)"
    and unary_forward [forward_intros]: "forward (p_unary K ts b)"
    and if_forward [forward_intros]: "forward (p_if K ts)"
    and block_forward [forward_intros]: "forward (p_block K ts)"
    and pattern_forward [forward_intros]: "forward (p_pattern K ts)"
begin

lemma forward_parse_field_annotation [forward_intros]:
  "forward (parse_field_annotation K ts anns name)"
  by (simp_all add: parse_field_annotation_def  forward_intros split: punct.split keyword.split)

lemma forward_parse_field_annotations [forward_intros]:
  "forward (parse_field_annotations K ts)"
  by (simp_all add: parse_field_annotations_def  forward_intros split: punct.split keyword.split)

lemma forward_parse_field_decl [forward_intros]:
  "forward (parse_field_decl K ts)"
  by (simp_all add: parse_field_decl_def  forward_intros split: punct.split keyword.split)

lemma forward_parse_field_list [forward_intros]:
  "forward (parse_field_list K ts)"
  by (simp_all add: parse_field_list_def  forward_intros split: punct.split keyword.split)

lemma forward_parse_paren_type [forward_intros]:
  "forward (parse_paren_type K ts)"
  by (simp_all add: parse_paren_type_def  forward_intros split: punct.split keyword.split)

lemma forward_parse_type_args [forward_intros]:
  "forward (parse_type_args K ts)"
  by (simp_all add: parse_type_args_def  forward_intros split: punct.split keyword.split)

lemma forward_parse_named_type [forward_intros]:
  "forward (parse_named_type K ts name name_span)"
  by (simp_all add: parse_named_type_def  forward_intros split: punct.split keyword.split)

lemma forward_parse_primary_type [forward_intros]:
  "forward (parse_primary_type K ts)"
  by (simp_all add: parse_primary_type_def  forward_intros split: punct.split keyword.split)

lemma forward_parse_postfix_type [forward_intros]:
  "forward (parse_postfix_type K ts)"
  by (simp_all add: parse_postfix_type_def  forward_intros split: punct.split keyword.split)

lemma forward_parse_type_expr [forward_intros]:
  "forward (parse_type_expr K ts)"
  by (simp_all add: parse_type_expr_def  forward_intros split: punct.split keyword.split)

lemma forward_parse_field_pattern [forward_intros]:
  "forward (parse_field_pattern K ts)"
  by (simp_all add: parse_field_pattern_def  forward_intros split: punct.split keyword.split)

lemma forward_parse_named_pattern [forward_intros]:
  "forward (parse_named_pattern K ts)"
  by (simp_all add: parse_named_pattern_def  forward_intros split: punct.split keyword.split)

lemma forward_parse_pattern_atom [forward_intros]:
  "forward (parse_pattern_atom K ts)"
  by (simp_all add: parse_pattern_atom_def  forward_intros split: punct.split keyword.split)

lemma forward_parse_pattern [forward_intros]:
  "forward (parse_pattern K ts)"
  by (simp_all add: parse_pattern_def  forward_intros split: punct.split keyword.split)

lemma forward_parse_field_init [forward_intros]:
  "forward (parse_field_init K ts)"
  by (simp_all add: parse_field_init_def  forward_intros split: punct.split keyword.split)

lemma forward_parse_field_init_list [forward_intros]:
  "forward (parse_field_init_list K ts)"
  by (simp_all add: parse_field_init_list_def  forward_intros split: punct.split keyword.split)

lemma forward_parse_map_lit_field [forward_intros]:
  "forward (parse_map_lit_field K ts)"
  by (simp_all add: parse_map_lit_field_def  forward_intros split: punct.split keyword.split)

lemma forward_parse_map_lit_fields [forward_intros]:
  "forward (parse_map_lit_fields K ts)"
  by (simp_all add: parse_map_lit_fields_def  forward_intros split: punct.split keyword.split)

lemma forward_parse_closure_param [forward_intros]:
  "forward (parse_closure_param K ts)"
  by (simp_all add: parse_closure_param_def  forward_intros split: punct.split keyword.split)

lemma forward_parse_closure_expr [forward_intros]:
  "forward (parse_closure_expr K ts)"
  by (simp_all add: parse_closure_expr_def  forward_intros split: punct.split keyword.split)

lemma forward_parse_html_expr [forward_intros]: "forward (parse_html_expr K us)"
  by (simp add: forward_def parse_html_expr_def split: option.splits prod.splits sum.splits)

lemma forward_parse_html_parts [forward_intros]: "forward (parse_html_parts K s parts)"
proof (induction parts)
  case (Cons part parts)
  then show ?case by (cases part) (simp_all add: forward_intros)
qed (simp add: forward_intros)

lemma forward_left_assoc [forward_intros]: "forward m \<Longrightarrow> forward (left_assoc ts op_of m)"
  by (simp add: left_assoc_def forward_intros)

lemma forward_parse_array [forward_intros]:
  "forward (parse_array K ts)"
  by (simp_all add: parse_array_def  forward_intros split: punct.split keyword.split)

lemma forward_parse_paren_expr [forward_intros]:
  "forward (parse_paren_expr K ts)"
  by (simp_all add: parse_paren_expr_def  forward_intros split: punct.split keyword.split)

lemma forward_parse_struct_lit [forward_intros]:
  "forward (parse_struct_lit K ts start name variant)"
  by (simp_all add: parse_struct_lit_def  forward_intros split: punct.split keyword.split)

lemma forward_parse_name_expr [forward_intros]:
  "forward (parse_name_expr K ts no_struct_lit name)"
  by (simp_all add: parse_name_expr_def  forward_intros split: punct.split keyword.split)

lemma forward_parse_primary_expr [forward_intros]:
  "forward (parse_primary_expr K ts no_struct_lit)"
  by (simp_all add: parse_primary_expr_def  forward_intros split: punct.split keyword.split)

lemma forward_postfix_step [forward_intros]:
  "forward (postfix_step K ts e)"
  by (simp_all add: postfix_step_def  forward_intros split: punct.split keyword.split)

lemma forward_parse_postfix_expr [forward_intros]:
  "forward (parse_postfix_expr K ts no_struct_lit)"
  by (simp_all add: parse_postfix_expr_def  forward_intros split: punct.split keyword.split)

lemma forward_parse_unary_expr [forward_intros]:
  "forward (parse_unary_expr K ts no_struct_lit)"
  by (simp_all add: parse_unary_expr_def Let_def forward_intros split: punct.split keyword.split)

lemma forward_parse_multiplicative_expr [forward_intros]:
  "forward (parse_multiplicative_expr K ts no_struct_lit)"
  by (simp_all add: parse_multiplicative_expr_def  forward_intros split: punct.split keyword.split)

lemma forward_parse_additive_expr [forward_intros]:
  "forward (parse_additive_expr K ts no_struct_lit)"
  by (simp_all add: parse_additive_expr_def  forward_intros split: punct.split keyword.split)

lemma forward_parse_relational_expr [forward_intros]:
  "forward (parse_relational_expr K ts no_struct_lit)"
  by (simp_all add: parse_relational_expr_def  forward_intros split: punct.split keyword.split)

lemma forward_parse_equality_expr [forward_intros]:
  "forward (parse_equality_expr K ts no_struct_lit)"
  by (simp_all add: parse_equality_expr_def  forward_intros split: punct.split keyword.split)

lemma forward_parse_and_expr [forward_intros]:
  "forward (parse_and_expr K ts no_struct_lit)"
  by (simp_all add: parse_and_expr_def  forward_intros split: punct.split keyword.split)

lemma forward_parse_or_expr [forward_intros]:
  "forward (parse_or_expr K ts no_struct_lit)"
  by (simp_all add: parse_or_expr_def  forward_intros split: punct.split keyword.split)

lemma forward_parse_coalesce_expr [forward_intros]:
  "forward (parse_coalesce_expr K ts no_struct_lit)"
  by (simp_all add: parse_coalesce_expr_def  forward_intros split: punct.split keyword.split)

lemma forward_parse_match_arm [forward_intros]:
  "forward (parse_match_arm K ts)"
  by (simp_all add: parse_match_arm_def Let_def forward_intros split: punct.split keyword.split)

lemma forward_parse_match_expr [forward_intros]:
  "forward (parse_match_expr K ts)"
  by (simp_all add: parse_match_expr_def  forward_intros split: punct.split keyword.split)

lemma forward_parse_if_expr [forward_intros]:
  "forward (parse_if_expr K ts)"
  by (simp_all add: parse_if_expr_def  forward_intros split: punct.split keyword.split)

lemma forward_parse_transaction_expr [forward_intros]:
  "forward (parse_transaction_expr K ts)"
  by (simp_all add: parse_transaction_expr_def  forward_intros split: punct.split keyword.split)

lemma forward_parse_expr_ctx [forward_intros]:
  "forward (parse_expr_ctx K ts no_struct_lit)"
  by (simp_all add: parse_expr_ctx_def  forward_intros split: punct.split keyword.split)

lemma forward_parse_let_stmt [forward_intros]:
  "forward (parse_let_stmt K ts)"
  by (simp_all add: parse_let_stmt_def  forward_intros split: punct.split keyword.split)

lemma forward_parse_return_stmt [forward_intros]:
  "forward (parse_return_stmt K ts)"
  by (simp_all add: parse_return_stmt_def  forward_intros split: punct.split keyword.split)

lemma forward_parse_while_stmt [forward_intros]:
  "forward (parse_while_stmt K ts)"
  by (simp_all add: parse_while_stmt_def  forward_intros split: punct.split keyword.split)

lemma forward_parse_for_stmt [forward_intros]:
  "forward (parse_for_stmt K ts)"
  by (simp_all add: parse_for_stmt_def  forward_intros split: punct.split keyword.split)

lemma forward_parse_assign_stmt [forward_intros]:
  "forward (parse_assign_stmt K ts name)"
  by (simp_all add: parse_assign_stmt_def  forward_intros split: punct.split keyword.split)

lemma forward_parse_bare_struct [forward_intros]:
  "forward (parse_bare_struct K ts)"
  by (simp_all add: parse_bare_struct_def  forward_intros split: punct.split keyword.split)

lemma forward_parse_stmt [forward_intros]:
  "forward (parse_stmt K ts ss)"
  by (simp_all add: parse_stmt_def Let_def forward_intros split: punct.split keyword.split)

lemma forward_parse_block [forward_intros]:
  "forward (parse_block K ts)"
  by (simp_all add: parse_block_def  forward_intros split: punct.split keyword.split)

lemma forward_parse_index_annotation [forward_intros]:
  "forward (parse_index_annotation K ts name)"
  by (simp_all add: parse_index_annotation_def  forward_intros split: punct.split keyword.split)

lemma forward_parse_type_annotation [forward_intros]:
  "forward (parse_type_annotation K ts name)"
  by (simp_all add: parse_type_annotation_def  forward_intros split: punct.split keyword.split)

lemma forward_parse_type_annotations [forward_intros]:
  "forward (parse_type_annotations K ts)"
  by (simp_all add: parse_type_annotations_def  forward_intros split: punct.split keyword.split)

lemma forward_parse_example [forward_intros]:
  "forward (parse_example K ts)"
  by (simp_all add: parse_example_def Let_def forward_intros split: punct.split keyword.split)

lemma forward_parse_annotation [forward_intros]:
  "forward (parse_annotation K ts name)"
  by (simp_all add: parse_annotation_def  forward_intros split: punct.split keyword.split)

lemma forward_parse_optional_annotation [forward_intros]:
  "forward (parse_optional_annotation K ts)"
  by (simp_all add: parse_optional_annotation_def  forward_intros split: punct.split keyword.split)

lemma forward_parse_param [forward_intros]:
  "forward (parse_param K ts)"
  by (simp_all add: parse_param_def  forward_intros split: punct.split keyword.split)

lemma forward_parse_param_list [forward_intros]:
  "forward (parse_param_list K ts)"
  by (simp_all add: parse_param_list_def  forward_intros split: punct.split keyword.split)

lemma forward_parse_signature [forward_intros]:
  "forward (parse_signature K ts start f)"
  by (simp_all add: parse_signature_def  forward_intros split: punct.split keyword.split)

lemma forward_parse_rpc_like [forward_intros]:
  "forward (parse_rpc_like K ts start kw anns doc)"
  by (simp_all add: parse_rpc_like_def  forward_intros split: punct.split keyword.split)

lemma forward_parse_fn_decl [forward_intros]:
  "forward (parse_fn_decl K ts)"
  by (simp_all add: parse_fn_decl_def  forward_intros split: punct.split keyword.split)

lemma forward_parse_member [forward_intros]:
  "forward (parse_member K ts)"
  by (simp_all add: parse_member_def  forward_intros split: punct.split keyword.split)

lemma forward_parse_service_decl [forward_intros]:
  "forward (parse_service_decl K ts)"
  by (simp_all add: parse_service_decl_def  forward_intros split: punct.split keyword.split)

lemma forward_parse_db_decl [forward_intros]:
  "forward (parse_db_decl K ts)"
  by (simp_all add: parse_db_decl_def  forward_intros split: punct.split keyword.split)

lemma forward_parse_type_decl [forward_intros]:
  "forward (parse_type_decl K ts start anns)"
  by (simp_all add: parse_type_decl_def Let_def forward_intros split: punct.split keyword.split)

lemma forward_parse_variant [forward_intros]:
  "forward (parse_variant K ts)"
  by (simp_all add: parse_variant_def  forward_intros split: punct.split keyword.split)

lemma forward_parse_enum_decl [forward_intros]:
  "forward (parse_enum_decl K ts)"
  by (simp_all add: parse_enum_decl_def  forward_intros split: punct.split keyword.split)

lemma forward_parse_const_decl [forward_intros]:
  "forward (parse_const_decl K ts)"
  by (simp_all add: parse_const_decl_def  forward_intros split: punct.split keyword.split)

lemma forward_parse_test_decl [forward_intros]:
  "forward (parse_test_decl K ts)"
  by (simp_all add: parse_test_decl_def  forward_intros split: punct.split keyword.split)

lemma forward_parse_item [forward_intros]:
  "forward (parse_item K ts)"
  by (simp_all add: parse_item_def  forward_intros split: punct.split keyword.split)

end

end
