(* ===== verification/ParserProps.thy ===== *)
theory ParserProps
  imports ItemSound Recovery LexSound
begin

text \<open>
  Properties of the parser of \<open>compiler/src/parser.rs\<close>: it returns on every list of tokens, what it
  accepts is spelled by the grammar, operators group as their levels say, and the recovery makes
  progress although it does not know every item.
\<close>

section \<open>The knot goes forward\<close>

lemma knot_forward: "forward_parsers (parsers_of num flt n)"
proof (induction n)
  case 0
  show ?case by unfold_locales (simp_all add: parsers_of.simps forward_def)
next
  case (Suc n)
  show ?case
    by unfold_locales (simp_all add: parsers_of_Suc forward_parsers.forward_parse_type_expr [OF Suc.IH]
      forward_parsers.forward_parse_expr_ctx [OF Suc.IH] forward_parsers.forward_parse_unary_expr [OF Suc.IH]
      forward_parsers.forward_parse_if_expr [OF Suc.IH] forward_parsers.forward_parse_block [OF Suc.IH]
      forward_parsers.forward_parse_pattern [OF Suc.IH])
qed

interpretation onward: forward_parsers "parsers_of num flt n" for num flt n
  by (rule knot_forward)

section \<open>Recovery\<close>

text \<open>A parser that begins with a given token consumes it, whatever comes after.\<close>

definition consumes :: "'a parse \<Rightarrow> nat \<Rightarrow> bool" where
  "consumes m p \<longleftrightarrow> (\<forall>r q. m p = Some (r, q) \<longrightarrow> p < q)"

lemma consumes_pbind: "consumes m p \<Longrightarrow> (\<And>x. forward (k x)) \<Longrightarrow> consumes (pbind m k) p"
  by (fastforce simp: consumes_def forward_def pbind_def split: option.splits prod.splits sum.splits)

lemma consumes_spanning: "(\<And>s. consumes (f s) p) \<Longrightarrow> consumes (spanning ts f) p"
  by (simp add: consumes_def spanning_def)

lemma consumes_peeking:
  "consumes (f (tok_at ts p)) p \<Longrightarrow> consumes (peeking ts f) p"
  "consumes (f (tok_at ts (p + n))) p \<Longrightarrow> consumes (peeking_at ts n f) p"
  by (simp_all add: consumes_def peeking_def peeking_at_def)

lemma consumes_advancing: "forward m \<Longrightarrow> p < next_token_at ts p \<Longrightarrow> consumes (advancing ts m) p"
  by (force simp: consumes_def forward_def advancing_def)

lemma consumes_eat: "forward m \<Longrightarrow> tok_at ts p = k \<Longrightarrow> p < next_token_at ts p \<Longrightarrow> consumes (eat ts k m) p"
  using consumes_advancing [of m p ts] by (simp add: consumes_def eat_def peeking_def)

lemmas item_starts =
  parse_import_decl_def parse_type_decl_def parse_enum_decl_def parse_service_decl_def parse_const_decl_def
  parse_fn_decl_def parse_test_decl_def parse_db_decl_def

lemma item_start_consumed:
  assumes "ended ts" "at_item_start ts p"
  shows "consumes (parse_item (parsers_of num flt n) ts) p"
proof -
  let ?K = "parsers_of num flt n"
  have ahead: "p < next_token_at ts p"
    using assms by (auto simp: at_item_start_def)
  have "consumes (parse_import_decl ts) p" if "tok_at ts p = Kw KImport"
    using that ahead by (simp add: item_starts Let_def forward_intros consumes_spanning consumes_eat)
  moreover have "consumes (parse_type_decl ?K ts s []) p" if "tok_at ts p = Kw KType" for s
    using that ahead by (simp add: item_starts Let_def forward_intros consumes_spanning consumes_eat)
  moreover have "consumes (parse_enum_decl ?K ts) p" if "tok_at ts p = Kw KEnum"
    using that ahead by (simp add: item_starts forward_intros consumes_spanning consumes_eat)
  moreover have "consumes (parse_service_decl ?K ts) p" if "tok_at ts p = Kw KService"
    using that ahead by (simp add: item_starts forward_intros consumes_spanning consumes_eat)
  moreover have "consumes (parse_const_decl ?K ts) p" if "tok_at ts p = Kw KConst"
    using that ahead by (simp add: item_starts forward_intros consumes_spanning consumes_eat)
  moreover have "consumes (parse_fn_decl ?K ts) p" if "tok_at ts p = Kw KFn"
    using that ahead by (simp add: item_starts forward_intros consumes_spanning consumes_eat)
  moreover have "consumes (parse_test_decl ?K ts) p" if "tok_at ts p = Kw KTest"
    using that ahead by (simp add: item_starts forward_intros consumes_spanning consumes_eat split: token_kind.split)
  moreover have "consumes (parse_db_decl ?K ts) p"
    using ahead by (simp add: item_starts forward_intros consumes_spanning consumes_advancing)
  ultimately show ?thesis
    using assms(2)
    by (auto simp: at_item_start_def parse_item_def forward_intros
        intro!: consumes_spanning consumes_peeking consumes_pbind)
qed

lemma synchronize_returns:
  assumes "ended ts" "p < length ts" "length ts \<le> n + p"
  shows "\<exists>q. synchronize n ts p = Some q \<and> p \<le> q \<and> q < length ts \<and> (tok_at ts q = Eof \<or> at_item_start ts q)"
  using assms(2,3)
proof (induction n arbitrary: p)
  case (Suc n)
  show ?case
  proof (cases "tok_at ts p = Eof \<or> at_item_start ts p")
    case False
    then have "next_token_at ts p = Suc p" "Suc p < length ts"
      using next_token_before [OF assms(1), of p] by auto
    with False Suc.IH [of "Suc p"] Suc.prems show ?thesis by auto
  qed (use Suc.prems in auto)
qed simp

section \<open>Programs\<close>

text \<open>What a round of \<open>parse_program\<close> does: an item is read, or the recovery ends further on.\<close>

lemma item_or_error:
  assumes "ended ts" "weight ts 0 \<le> n" "p < length ts" "tok_at ts p \<noteq> Eof"
  obtains x q where "parse_item (parsers_of num flt n) ts p = Some (Inr x, q)" "p < q" "q < length ts"
      "item_at num flt ts p x q"
    | e q q' where "parse_item (parsers_of num flt n) ts p = Some (Inl e, q)"
      "synchronize (length ts) ts q = Some q'" "p < q'" "q' < length ts"
proof -
  let ?m = "parse_item (parsers_of num flt n) ts"
  have "deep n ts" using assms(1,2) by (simp add: deep_def)
  then have "wp ts ?m (\<lambda>x q. p < q \<and> q < length ts \<and> item_at num flt ts p x q) p"
    using knot.parse_item_reads [OF _ assms(3)] by (simp add: reads_def)
  then obtain r q where m: "?m p = Some (r, q)"
    "case r of Inl e \<Rightarrow> q < length ts | Inr x \<Rightarrow> p < q \<and> q < length ts \<and> item_at num flt ts p x q"
    by (auto simp: wp_def split: option.splits prod.splits)
  then consider x q where "?m p = Some (Inr x, q)" "p < q" "q < length ts" "item_at num flt ts p x q"
    | e q where "?m p = Some (Inl e, q)" "q < length ts"
    by (cases r) auto
  then show ?thesis
  proof cases
    case (1 x q)
    then show ?thesis by (rule that(1))
  next
    case (2 e q)
    have "forward ?m" by (rule onward.forward_parse_item)
    with 2 have "p \<le> q" by (auto simp: forward_def)
    obtain q' where q': "synchronize (length ts) ts q = Some q'" "q \<le> q'" "q' < length ts"
        "tok_at ts q' = Eof \<or> at_item_start ts q'"
      using synchronize_returns [OF assms(1) 2(2), of "length ts"] by auto
    have "p < q'"
    proof (rule ccontr)
      assume "\<not> p < q'"
      with \<open>p \<le> q\<close> q'(2) have "q' = p" "q = p" by simp_all
      with q'(4) assms(4) have "at_item_start ts p" by simp
      from item_start_consumed [OF assms(1) this, of num flt n] 2(1) \<open>q = p\<close> show False
        unfolding consumes_def by blast
    qed
    with 2 q' show ?thesis by (intro that(2))
  qed
qed

lemma program_returns:
  assumes "ended ts" "weight ts 0 \<le> n" "p < length ts" "length ts < k + p + 1" "length errs \<le> max_errors"
    and "errs = [] \<Longrightarrow> seq_at (item_at num flt ts) 0 xs p"
  shows "\<exists>ys es. parse_program k (parsers_of num flt n) ts xs errs p = Some (ys, es) \<and>
    length es \<le> max_errors \<and> (es = [] \<longrightarrow> program_at num flt ts ys)"
  using assms(3-)
proof (induction k arbitrary: p xs errs)
  case (Suc k)
  show ?case
  proof (cases "tok_at ts p = Eof \<or> max_errors \<le> length errs")
    case True
    then have "errs = [] \<longrightarrow> tok_at ts p = Eof" by (auto simp: max_errors_def)
    with True Suc.prems show ?thesis by (auto simp: program_at_def)
  next
    case False
    then have "tok_at ts p \<noteq> Eof" by simp
    then show ?thesis
    proof (rule item_or_error [OF assms(1,2) Suc.prems(1)])
      fix x q
      assume "parse_item (parsers_of num flt n) ts p = Some (Inr x, q)" "p < q" "q < length ts" "item_at num flt ts p x q"
      with False Suc.prems Suc.IH [of q errs "xs @ [x]"] show ?thesis by (auto intro: seq_at.more)
    next
      fix e q q'
      assume "parse_item (parsers_of num flt n) ts p = Some (Inl e, q)"
        "synchronize (length ts) ts q = Some q'" "p < q'" "q' < length ts"
      with False Suc.prems Suc.IH [of q' "errs @ [e]" xs] show ?thesis by auto
    qed
  qed
qed simp

lemma tokens_parsed:
  assumes "ended ts"
  shows "\<exists>xs es. parse_program (Suc (length ts)) (parsers_of num flt (Suc (weight ts 0))) ts [] [] 0 = Some (xs, es) \<and>
    length es \<le> max_errors \<and> (es = [] \<longrightarrow> program_at num flt ts xs)"
  by (rule program_returns) (use assms in \<open>auto simp: ended_def intro: seq_at.none\<close>)

lemma stream_ended: "stream_at cs p ts \<Longrightarrow> ended ts"
proof (induction cs p ts rule: stream_at.induct)
  case (3 cs p t u ts)
  then obtain q where "stream_at cs q (u # ts)" by auto
  with 3 show ?case by (simp add: ended_def)
qed (auto simp: ended_def)


text \<open>
  C21. From the text of a file to its tree: the lexer returns, and if it gives tokens the parser
  returns as well, for every text.
\<close>

theorem front_end_returns:
  "\<exists>r. tokenize file_text = Some r \<and>
     (case r of Inl e \<Rightarrow> True | Inr ts \<Rightarrow> \<exists>r'. parse_tokens num flt ts = Some r')"
proof -
  obtain r where r: "tokenize file_text = Some r" using tokenize_returns by blast
  have "\<exists>r'. parse_tokens num flt ts = Some r'" if "r = Inr ts" for ts
  proof -
    from r that obtain clean where "run (2 * length clean + 2) (new_lexer clean) [] = Some (Inr ts)"
      by (auto simp: tokenize_def split: sum.splits)
    from run_sound [OF this lexer_ok_new] have e: "ended ts" by (auto intro: stream_ended)
    from tokens_parsed [OF e, of num flt] show ?thesis
      by (auto simp: parse_tokens_def simp del: parse_program.simps)
  qed
  with r show ?thesis by (auto split: sum.split)
qed

section \<open>Operators\<close>

text \<open>How tight the outermost operator binds.\<close>

fun strength :: "sexpr \<Rightarrow> nat" where
  "strength (Sp (Binary op l r) s) = level op"
| "strength e = 7"

text \<open>
  An operand on the left binds at least as tight as its operator, one on the right tighter, and
  so the operators of a level associate to the left; parentheses are nodes of the tree.
\<close>

fun grouped :: "sexpr \<Rightarrow> bool" where
  "grouped (Sp (Binary op l r) s) \<longleftrightarrow> level op \<le> strength l \<and> level op < strength r \<and> grouped l \<and> grouped r"
| "grouped (Sp (Unary op e) s) \<longleftrightarrow> strength e = 7 \<and> grouped e"
| "grouped e \<longleftrightarrow> True"

lemma level_le: "level op \<le> 6"
  by (cases op) simp_all

lemma strength_le: "strength e \<le> 7"
  by (cases e rule: strength.cases) (simp_all add: le_trans [OF level_le])

lemmas groups_induct =
  type_at_postfix_type_at_primary_type_at_field_at_pattern_at_pattern_atom_at_field_pattern_at_expr_at_operand_at_postfix_at_primary_at_init_at_entry_at_closure_param_at_html_part_at_arm_at_guard_at_else_at_block_at_stmt_at_tail_at.inducts(9) [where
    ?P1.0 = "\<lambda>_ _ _ _. True"
    and ?P2.0 = "\<lambda>_ _ _ _. True"
    and ?P3.0 = "\<lambda>_ _ _ _. True"
    and ?P4.0 = "\<lambda>_ _ _ _. True"
    and ?P5.0 = "\<lambda>_ _ _ _. True"
    and ?P6.0 = "\<lambda>_ _ _ _. True"
    and ?P7.0 = "\<lambda>_ _ _ _. True"
    and ?P8.0 = "\<lambda>_ _ _ e _. grouped e"
    and ?P9.0 = "\<lambda>_ _ k _ e _. k \<le> strength e \<and> grouped e"
    and ?P10.0 = "\<lambda>_ _ _ e _. strength e = 7 \<and> grouped e"
    and ?P11.0 = "\<lambda>_ _ _ e _. strength e = 7 \<and> grouped e"
    and ?P12.0 = "\<lambda>_ _ _ _. True"
    and ?P13.0 = "\<lambda>_ _ _ _. True"
    and ?P14.0 = "\<lambda>_ _ _ _. True"
    and ?P15.0 = "\<lambda>_ _ _. True"
    and ?P16.0 = "\<lambda>_ _ _ _. True"
    and ?P17.0 = "\<lambda>_ _ _ _. True"
    and ?P18.0 = "\<lambda>_ _ _ _. True"
    and ?P19.0 = "\<lambda>_ _ _ _. True"
    and ?P20.0 = "\<lambda>_ _ _ _. True"
    and ?P21.0 = "\<lambda>_ _ _ _. True"]

lemma operand_groups: "operand_at num flt ts b k p e q \<Longrightarrow> k \<le> strength e \<and> grouped e"
  by (induction rule: groups_induct) (auto intro: le_trans [OF level_le] le_antisym strength_le)

lemma expr_groups: "expr_at num flt ts b p e q \<Longrightarrow> grouped e"
  by (erule expr_at.cases) (auto dest: operand_groups)

text \<open>
  C20. Every expression that the parser accepts groups its operators by their levels, those of a
  level to the left: no operand of an operator is an operator that binds looser, the one on the right none that
  binds as tight, and the operand of a sign is no operator at all. The tokens it took spell it by the grammar, and its span is that
  of these tokens.
\<close>

theorem operators_group:
  assumes "ended ts" "p < length ts"
    and "parse_expr_ctx (parsers_of num flt (weight ts p)) ts no_struct_lit p = Some (Inr e, q)"
  shows "grouped e \<and> expr_at num flt ts no_struct_lit p e q \<and> span_of e = over ts p q"
proof -
  have "near (weight ts p) ts p" using assms(1,2) by (simp add: near_def)
  from knot.parse_expr_ctx_reads [OF this, of num flt no_struct_lit] assms(3)
  show ?thesis by (auto simp: reads_def wp_def spanned_def intro: expr_groups)
qed

definition plain_tokens :: "token_kind list \<Rightarrow> token list" where
  "plain_tokens ks = map (\<lambda>k. mk_token k (mk_span 0 0 1 1)) ks"

lemmas parser_eval =
  plain_tokens_def mk_token_def mk_span_def tok_at_def span_at_def peeking_def peeking_at_def spanning_def prev_span_def advancing_def
  next_token_at_def pfail_def pfail_code_def eat_def if_token_def eat_ident_def preturn_def pbind_def again_def stop_def
  merge_def weight_def

lemma sum_parsed:
  "parse_expr_ctx K (plain_tokens [TInt 1, Pt Minus, TInt 2, Pt Star, TInt 3, Pt Minus, TInt 4, Eof]) False 0 = Some (Inr
     (Sp (Binary OpSub
       (Sp (Binary OpSub (Sp (IntLit 1) (mk_span 0 0 1 1))
         (Sp (Binary OpMul (Sp (IntLit 2) (mk_span 0 0 1 1)) (Sp (IntLit 3) (mk_span 0 0 1 1))) (mk_span 0 0 1 1))) (mk_span 0 0 1 1))
       (Sp (IntLit 4) (mk_span 0 0 1 1))) (mk_span 0 0 1 1)), 7)"
  by (simp add: parser_eval parse_expr_ctx_def parse_coalesce_expr_def parse_or_expr_def parse_and_expr_def
      parse_equality_expr_def parse_relational_expr_def parse_additive_expr_def parse_multiplicative_expr_def
      left_assoc_def coalesce_op_def or_op_def and_op_def equality_op_def relational_op_def additive_op_def
      multiplicative_op_def parse_unary_expr_def parse_postfix_expr_def postfix_step_def parse_primary_expr_def literal_def)

theorem operators_group_witness:
  "\<exists>e. parse_expr_ctx (parsers_of (\<lambda>_. 0) (\<lambda>_. 0)
       (weight (plain_tokens [TInt 1, Pt Minus, TInt 2, Pt Star, TInt 3, Pt Minus, TInt 4, Eof]) 0))
       (plain_tokens [TInt 1, Pt Minus, TInt 2, Pt Star, TInt 3, Pt Minus, TInt 4, Eof]) False 0 = Some (Inr e, 7) \<and>
     grouped e"
proof -
  have "ended (plain_tokens [TInt 1, Pt Minus, TInt 2, Pt Star, TInt 3, Pt Minus, TInt 4, Eof])"
    and "0 < length (plain_tokens [TInt 1, Pt Minus, TInt 2, Pt Star, TInt 3, Pt Minus, TInt 4, Eof])"
    by (simp_all add: ended_def plain_tokens_def mk_token_def)
  from operators_group [OF this sum_parsed] sum_parsed show ?thesis by blast
qed



end
