(* ===== verification/Spec2Isabelle.thy ===== *)
theory Spec2Isabelle
  imports LexProps TypeProps CronProps Requests RouteProps Conditions Hidden ColumnProps StatementProps ParserProps
begin

text \<open>
  A model of \<open>linkc\<close>, the compiler and runtime of the language Link (\<open>src/compiler\<close>).
  A program declares types, enums, a database and services; the process reads it, checks it,
  and serves its rpcs over HTTP from an SQLite or PostgreSQL database. The development follows a
  program and a request through these parts.

  \<^bold>\<open>Reading a program.\<close> \<open>Tokens\<close>, \<open>Lexer\<close> and \<open>Pragma\<close> are \<open>token.rs\<close> and \<open>lexer.rs\<close>, one
  definition per method over the record \<open>lexer\<close>; \<open>LexerFacts\<close> and \<open>LexerTotal\<close> show how every
  method moves and that \<open>tokenize\<close> returns (its fuel is the length of the text, and every round
  consumes a character); \<open>LexSpec\<close> is the meaning of a token stream as a grammar over positions,
  without the state of the lexer, and \<open>LexSound\<close> with \<open>LexProps\<close> show that every stream is one of
  it. \<open>ParseBase\<close>, \<open>Parser\<close> and \<open>ParseItems\<close> are \<open>parser.rs\<close>, one definition per method: the tokens do
  not change, so a parser takes a position to a result and the position where it stops. The methods
  that call each other in a circle are a record, and \<open>parsers_of n\<close> is that circle cut \<open>n\<close> calls deep;
  the weight of the tokens is deep enough, since every call in the circle has consumed one.
  \<open>LinkGrammar\<close> and \<open>ItemGrammar\<close> are the grammar of \<open>GRAMMAR.md\<close> over positions, with trees and spans;
  \<open>ParserSound\<close> and \<open>ItemSound\<close> show, under the locale \<open>reading_parsers\<close>, that every method reads its
  phrase, \<open>Recovery\<close> that none goes back, and \<open>ParserProps\<close> concludes for whole files.
  \<open>Ast\<close> is the syntax tree of \<open>ast.rs\<close>, and \<open>Recognizers\<close> its recognisers of closures and
  bodies that the database or the code generators treat specially.

  \<^bold>\<open>Types.\<close> \<open>Types\<close> is \<open>types.rs\<close>: resolved types and \<open>is_subtype\<close>; \<open>TypeValues\<close> says which
  values a type has, and \<open>TypeProps\<close> relates the two. \<open>Resolve\<close> is the part of \<open>checker.rs\<close> that
  resolves written types, with the stack as a bound on nested declarations; \<open>ResolveProps\<close> shows
  that the bound does not matter when it is enough, and that a generic
  declaration is resolved by substitution.

  \<^bold>\<open>Values and evaluation.\<close> \<open>Decimals\<close>, \<open>Values\<close> and \<open>Eval\<close> are the values of the interpreter
  (\<open>runtime/mod.rs\<close>), their equality and order, and the evaluation of the expressions that
  predicates use. \<open>Conditions\<close> is the recognition of a predicate that the database can decide, with
  a proof that the tree agrees with the closure. \<open>CheckExpr\<close> and \<open>Validators\<close> are the conditions
  of \<open>@check\<close> and \<open>@validate\<close>.

  \<^bold>\<open>The border.\<close> \<open>Wire\<close> and \<open>Decode\<close> are \<open>value_to_json\<close> and \<open>json_to_typed_value\<close>; \<open>WireProps\<close>
  says which values may cross as a type (\<open>on_wire\<close>), and \<open>Border\<close> that what is let in is such a
  value and that what goes out and comes back is the same. \<open>Hidden\<close> is \<open>strip_hidden_json\<close>, with
  the non-interference of what leaves from what is hidden.

  \<^bold>\<open>The database.\<close> \<open>Columns\<close> is how \<open>runtime/db.rs\<close> stores a field, \<open>ColumnProps\<close> that a row is read
  back as it was inserted and what encryption lets through. \<open>Pushdown\<close> builds WHERE clauses as
  lists of atoms, connectives and parentheses; \<open>SqlMeaning\<close> gives them three-valued meaning through
  an inductive grammar; \<open>PushdownProps\<close> and \<open>WhereProps\<close> show whose rows a clause selects and that
  they are those on which the closure answers \<open>true\<close>. \<open>Statements\<close> builds the statements of every
  operation of a collection, and \<open>StatementProps\<close> shows what both engines make of their
  placeholders and that the tenant of the request confines them.

  \<^bold>\<open>The server.\<close> \<open>Routes\<close> and \<open>RouteProps\<close> are \<open>route.rs\<close>. \<open>Expiry\<close> states, as locales, what the two
  stores in memory share; \<open>Idempotency\<close> and \<open>CacheStore\<close> model \<open>idempotency.rs\<close> and \<open>cache.rs\<close> and
  interpret them; \<open>Requests\<close> is the use of both around the body of an rpc (\<open>handle_request\<close> of
  \<open>runtime/server.rs\<close>) as a step relation over interleaved requests. \<open>Timestamp\<close> and \<open>IsoTime\<close> are
  \<open>runtime/timestamp.rs\<close>, \<open>Durations\<close>, \<open>Cron\<close> and \<open>CronProps\<close> the durations and schedules of
  annotations.

  \<^bold>\<open>Conventions.\<close> A \<open>Result<A, E>\<close> is \<open>'e + 'a\<close>, an early return an \<open>Inl\<close> carried by a bind, and a
  panic or an exhausted stack an outer \<open>None\<close>; a definition that can panic says where. Strings are
  lists of the bytes of their UTF-8, texts of the lexer lists of code points. Machine integers are
  \<open>int\<close> with their range as a hypothesis, or with the wrap-around written out (\<open>wrap64\<close>) where the
  code computes past it. A \<open>HashMap\<close> is a map or an association list with distinct keys; an object of
  \<open>serde_json\<close> is a \<open>BTreeMap\<close>, an association list with increasing keys. Floats are their bits, and
  what the code asks of floats, regular expressions, AES-GCM and UTF-8 conversion is a record of
  functions (\<open>host\<close>, \<open>vault\<close>) with their documented laws as hypotheses (\<open>host_ok\<close>, \<open>vault_ok\<close>), each
  with a concrete instance. What SQLite and PostgreSQL make of a statement is \<open>engine\<close>, likewise.

  \<^bold>\<open>Not modelled.\<close> The inference and most checks of \<open>checker.rs\<close>; statements, calls and built-in
  functions of the interpreter beyond predicates; connections, sessions, streams, logs and workers
  of the server; connection pools, migrations, transactions and notifications of the database;
  the code generators, whose meaning is that of the languages they write; the command line, language
  server, linter and formatter; the vendored inference engine. Messages of errors are constructors.
\<close>

end
